(* ===== verification/Prelude.thy ===== *)
theory Prelude
  imports Main "HOL-Library.Word" "HOL-Library.Char_ord" "HOL-Library.List_Lexorder"
begin

text \<open>
  Shared vocabulary of the development: the machine integers of the Rust sources (\<open>u64\<close> as
  \<open>64 word\<close>; the \<open>i64\<close> and \<open>i128\<close> intermediates as \<open>int\<close> with every cast, clamp and
  saturation written out), the \<open>Result\<close> monad as a sum type, Rust's \<open>Option\<close> and string
  helpers, and the generic lemmas on lists and sums that the components share.
\<close>

section \<open>Fact collections\<close>

named_theorems res_simps \<open>rewriting of Result-typed computations\<close>
named_theorems u64_simps \<open>reading u64 arithmetic as integers\<close>

section \<open>Machine integers\<close>

type_synonym u64 = "64 word"

text \<open>An \<open>OffsetDateTime\<close>, read as nanoseconds since the Unix epoch: the order of the
  \<open>time\<close> crate compares instants, whatever their UTC offset.\<close>
type_synonym instant = int

definition i64_max :: int where "i64_max = 9223372036854775807"
definition i64_min :: int where "i64_min = - 9223372036854775808"
definition i128_max :: int where "i128_max = 170141183460469231731687303715884105727"
definition i128_min :: int where "i128_min = - 170141183460469231731687303715884105728"
definition u64_max :: int where "u64_max = 18446744073709551615"

definition ns_per_sec :: int where "ns_per_sec = 1000000000"
definition ns_per_ms :: int where "ns_per_ms = 1000000"

text \<open>\<open>Ord::clamp\<close>.\<close>
definition clamp :: "int \<Rightarrow> int \<Rightarrow> int \<Rightarrow> int" where
  "clamp lo hi x = (if x < lo then lo else if hi < x then hi else x)"

definition clamp_i64 :: "int \<Rightarrow> int" where
  "clamp_i64 x = clamp i64_min i64_max x"

text \<open>\<open>u64::saturating_add\<close> and \<open>u64::saturating_sub\<close>.\<close>
definition saturating_add :: "u64 \<Rightarrow> u64 \<Rightarrow> u64" where
  "saturating_add a b = (if uint a + uint b \<le> u64_max then a + b else - 1)"

definition saturating_sub :: "u64 \<Rightarrow> u64 \<Rightarrow> u64" where
  "saturating_sub a b = (if b \<le> a then a - b else 0)"

definition checked_add :: "u64 \<Rightarrow> u64 \<Rightarrow> u64 option" where
  "checked_add a b = (if uint a + uint b \<le> u64_max then Some (a + b) else None)"

definition checked_sub :: "u64 \<Rightarrow> u64 \<Rightarrow> u64 option" where
  "checked_sub a b = (if b \<le> a then Some (a - b) else None)"

text \<open>The cast \<open>i64 as u64\<close> of a value already known to be non-negative, written
  \<open>x.max(0) as u64\<close> in the sources.\<close>
definition max0_u64 :: "int \<Rightarrow> u64" where
  "max0_u64 x = word_of_int (max 0 x)"

text \<open>The saturating operations of \<open>i128\<close>, and integer division rounding towards zero.\<close>
definition i128_sat :: "int \<Rightarrow> int" where "i128_sat x = clamp i128_min i128_max x"

definition tdiv :: "int \<Rightarrow> int \<Rightarrow> int" where
  "tdiv a b = (if a < 0 then - (- a div b) else a div b)"

lemma uint_u64_bounds: "0 \<le> uint (a :: u64)" "uint (a :: u64) \<le> u64_max"
  using uint_lt2p [of a] by (simp_all add: u64_max_def)

lemma uint_u64_less: "uint (a :: u64) < 18446744073709551616"
  using uint_lt2p [of a] by simp

lemma clamp_i64_range: "i64_min \<le> clamp_i64 x" "clamp_i64 x \<le> i64_max"
  by (auto simp: clamp_i64_def clamp_def i64_min_def i64_max_def)

lemma clamp_i64_id: "i64_min \<le> x \<Longrightarrow> x \<le> i64_max \<Longrightarrow> clamp_i64 x = x"
  by (simp add: clamp_i64_def clamp_def)

lemma clamp_i64_le_iff: "y \<le> clamp_i64 x \<longleftrightarrow> y \<le> i64_min \<or> (y \<le> x \<and> y \<le> i64_max)"
  by (auto simp: clamp_i64_def clamp_def i64_min_def i64_max_def)

lemma clamp_i64_pos_iff: "0 < clamp_i64 x \<longleftrightarrow> 0 < x"
  by (auto simp: clamp_i64_def clamp_def i64_min_def i64_max_def)

lemma clamp_i64_nonpos_iff: "clamp_i64 x \<le> 0 \<longleftrightarrow> x \<le> 0"
  by (auto simp: clamp_i64_def clamp_def i64_min_def i64_max_def)

lemma i128_sat_id: "i128_min \<le> x \<Longrightarrow> x \<le> i128_max \<Longrightarrow> i128_sat x = x"
  by (simp add: i128_sat_def clamp_def)

lemma i128_sat_nonneg: "0 \<le> x \<Longrightarrow> x \<le> i128_max \<Longrightarrow> i128_sat x = x"
  by (rule i128_sat_id) (simp_all add: i128_min_def)

lemma i128_sat_nonpos_iff: "i128_sat x \<le> 0 \<longleftrightarrow> x \<le> 0"
  by (auto simp: i128_sat_def clamp_def i128_min_def i128_max_def)

lemma uint_saturating_add [u64_simps]:
  "uint (saturating_add a b) = min (uint a + uint b) u64_max"
  using uint_u64_bounds [of a] uint_u64_bounds [of b]
  by (auto simp: saturating_add_def u64_max_def uint_word_ariths mod_pos_pos_trivial min_def)

lemma uint_saturating_sub [u64_simps]:
  "uint (saturating_sub a b) = max 0 (uint a - uint b)"
  using uint_u64_bounds [of a] uint_u64_bounds [of b]
  by (auto simp: saturating_sub_def word_le_def uint_sub_lem [symmetric] max_def)

lemma saturating_add_0 [simp]: "saturating_add 0 a = a" "saturating_add a 0 = a"
  using uint_u64_bounds [of a] by (simp_all add: saturating_add_def)

lemma uint_minus_u64: "b \<le> a \<Longrightarrow> uint (a - b) = uint a - uint (b :: u64)"
  by (simp add: word_le_def uint_sub_lem [symmetric])

lemma checked_sub_eq_Some [u64_simps]:
  "checked_sub a b = Some c \<longleftrightarrow> uint a = uint b + uint c"
proof -
  have "uint (a - b) = uint a - uint b" if "b \<le> a"
    using that by (simp add: word_le_def uint_sub_lem [symmetric])
  then have "a - b = c \<longleftrightarrow> uint a = uint b + uint c" if "b \<le> a"
    using that by (auto simp: word_uint_eq_iff)
  moreover have "b \<le> a" if "uint a = uint b + uint c"
    using that by (simp add: word_le_def)
  ultimately show ?thesis
    by (auto simp: checked_sub_def)
qed

lemma uint_max0_u64 [u64_simps]: "x \<le> u64_max \<Longrightarrow> uint (max0_u64 x) = max 0 x"
  by (simp add: max0_u64_def uint_word_of_int u64_max_def mod_pos_pos_trivial)

lemma uint_max0_i64: "0 \<le> x \<Longrightarrow> x \<le> i64_max \<Longrightarrow> uint (max0_u64 x) = x"
  by (subst uint_max0_u64) (simp_all add: i64_max_def u64_max_def)

lemma max0_u64_uint [simp]: "max0_u64 (uint (a :: u64)) = a"
  by (simp add: max0_u64_def)

text \<open>A positive request that fits beside capped totals fits beside the uncapped ones: a total
  that had been capped would leave no room.\<close>
lemma fits_beside_uncapped:
  fixes A B u c k :: int
  assumes "min A u + min B u + k \<le> c" "c \<le> u" "0 < k" "0 \<le> A" "0 \<le> B" "0 \<le> u"
  shows "A + B + k \<le> c"
  using assms by (cases "A \<le> u"; cases "B \<le> u") (auto simp: min_def)

section \<open>The Result type\<close>

text \<open>\<open>Result<T, E>\<close> is \<open>'e + 'a\<close> with \<open>Inl\<close> for \<open>Err\<close>; \<open>rbind r k\<close> is \<open>let x = r?; k x\<close>.\<close>

definition rbind :: "'e + 'a \<Rightarrow> ('a \<Rightarrow> 'e + 'b) \<Rightarrow> 'e + 'b" where
  "rbind r k = (case r of Inl e \<Rightarrow> Inl e | Inr x \<Rightarrow> k x)"

lemma rbind_simps [simp]: "rbind (Inl e) k = Inl e" "rbind (Inr x) k = k x"
  by (simp_all add: rbind_def)

lemma rbind_eq_Inr [res_simps]: "rbind r k = Inr y \<longleftrightarrow> (\<exists>x. r = Inr x \<and> k x = Inr y)"
  by (cases r) auto

lemma rbind_eq_Inl [res_simps]:
  "rbind r k = Inl e \<longleftrightarrow> r = Inl e \<or> (\<exists>x. r = Inr x \<and> k x = Inl e)"
  by (cases r) auto

lemma rbindE: "rbind r k = Inr y \<Longrightarrow> (\<And>x. r = Inr x \<Longrightarrow> k x = Inr y \<Longrightarrow> P) \<Longrightarrow> P"
  by (auto simp: rbind_eq_Inr)

lemma rbind_assoc: "rbind (rbind r k) h = rbind r (\<lambda>x. rbind (k x) h)"
  by (cases r) auto

lemma rbind_cong [fundef_cong]:
  "r = r' \<Longrightarrow> (\<And>x. r' = Inr x \<Longrightarrow> k x = k' x) \<Longrightarrow> rbind r k = rbind r' k'"
  by (cases r') auto

text \<open>\<open>Option::ok_or\<close> and \<open>Option::transpose\<close>.\<close>
definition ok_or :: "'e \<Rightarrow> 'a option \<Rightarrow> 'e + 'a" where
  "ok_or e x = (case x of None \<Rightarrow> Inl e | Some v \<Rightarrow> Inr v)"

definition transpose_opt :: "('e + 'a) option \<Rightarrow> 'e + 'a option" where
  "transpose_opt x = (case x of None \<Rightarrow> Inr None
     | Some r \<Rightarrow> rbind r (\<lambda>v. Inr (Some v)))"

lemma ok_or_simps [simp]: "ok_or e None = Inl e" "ok_or e (Some v) = Inr v"
  by (simp_all add: ok_or_def)

lemma ok_or_eq_Inr [res_simps]: "ok_or e x = Inr v \<longleftrightarrow> x = Some v"
  by (cases x) auto

lemma transpose_opt_simps [simp]:
  "transpose_opt None = Inr None" "transpose_opt (Some (Inl e)) = Inl e"
  "transpose_opt (Some (Inr v)) = Inr (Some v)"
  by (simp_all add: transpose_opt_def)

lemma transpose_opt_eq_Inr [res_simps]:
  "transpose_opt x = Inr y \<longleftrightarrow>
    (x = None \<and> y = None) \<or> (\<exists>v. x = Some (Inr v) \<and> y = Some v)"
  by (cases x; cases "the x") (auto simp: transpose_opt_def rbind_eq_Inr)

text \<open>A fallible \<open>for\<close> loop that collects its results, in order; the first error wins.\<close>
fun rmap :: "('a \<Rightarrow> 'e + 'b) \<Rightarrow> 'a list \<Rightarrow> 'e + 'b list" where
  "rmap f [] = Inr []"
| "rmap f (x # xs) = rbind (f x) (\<lambda>y. rbind (rmap f xs) (\<lambda>ys. Inr (y # ys)))"

lemma rmap_Inr: "(\<And>x. x \<in> set xs \<Longrightarrow> f x = Inr (g x)) \<Longrightarrow> rmap f xs = Inr (map g xs)"
  by (induction xs) auto

lemma rmap_eq_InrD: "rmap f xs = Inr ys \<Longrightarrow> list_all2 (\<lambda>x y. f x = Inr y) xs ys"
  by (induction xs arbitrary: ys) (auto simp: rbind_eq_Inr)

section \<open>Strings\<close>

text \<open>\<open>str::strip_prefix\<close> and \<open>str::split_once\<close> at one character; \<open>starts_with\<close> is also the
  SQL predicate \<open>substr(x, 1, length(p)) = p\<close>.\<close>
fun strip_prefix :: "string \<Rightarrow> string \<Rightarrow> string option" where
  "strip_prefix [] s = Some s"
| "strip_prefix (c # p) [] = None"
| "strip_prefix (c # p) (d # s) = (if c = d then strip_prefix p s else None)"

definition starts_with :: "string \<Rightarrow> string \<Rightarrow> bool" where
  "starts_with p s \<longleftrightarrow> take (length p) s = p"

fun split_once :: "char \<Rightarrow> string \<Rightarrow> (string \<times> string) option" where
  "split_once c [] = None"
| "split_once c (d # s) = (if d = c then Some ([], s)
     else map_option (\<lambda>(a, b). (d # a, b)) (split_once c s))"

lemma strip_prefix_append [simp]: "strip_prefix p (p @ s) = Some s"
  by (induction p) auto

lemma strip_prefix_eq_Some: "strip_prefix p s = Some r \<longleftrightarrow> s = p @ r"
  by (induction p s rule: strip_prefix.induct) auto

lemma starts_with_append [simp]: "starts_with p (p @ s)"
  by (simp add: starts_with_def)

lemma starts_with_iff: "starts_with p s \<longleftrightarrow> (\<exists>r. s = p @ r)"
  by (metis append_take_drop_id starts_with_append starts_with_def)

lemma split_once_append: "c \<notin> set a \<Longrightarrow> split_once c (a @ c # b) = Some (a, b)"
  by (induction a) auto

lemma split_once_eq_Some: "split_once c s = Some (a, b) \<longleftrightarrow> s = a @ c # b \<and> c \<notin> set a"
proof (induction s arbitrary: a)
  case (Cons d s)
  show ?case
  proof (cases a)
    case Nil
    then show ?thesis by auto
  next
    case (Cons x xs)
    then show ?thesis using Cons.IH [of xs] by auto
  qed
qed simp

section \<open>Text columns of an enum\<close>

text \<open>What a pair of \<open>as_str\<close> and \<open>parse\<close> promises its column: \<open>parse\<close> accepts exactly the
  spellings \<open>as_str\<close> writes.\<close>
locale column_codec =
  fixes to_str :: "'a \<Rightarrow> string" and parse :: "string \<Rightarrow> 'a option"
  assumes parse_iff: "parse s = Some v \<longleftrightarrow> s = to_str v"
begin

lemma parse_to_str: "parse (to_str v) = Some v"
  by (simp add: parse_iff)

lemma to_str_eq_iff: "to_str v = to_str w \<longleftrightarrow> v = w"
  by (metis parse_to_str option.inject)

lemma column_reads_back:
  "transpose_opt (map_option (\<lambda>s. ok_or e (parse s)) (map_option to_str c)) = Inr c"
  by (cases c) (simp_all add: parse_to_str)

lemma column_unique:
  "transpose_opt (map_option (\<lambda>s. ok_or e (parse s)) col) = Inr c \<longleftrightarrow> col = map_option to_str c"
  by (cases col; cases c) (auto simp: transpose_opt_eq_Inr ok_or_eq_Inr parse_iff)

end

section \<open>Lists\<close>

text \<open>\<open>UPDATE ... WHERE p SET f\<close> on a table held as the list of its rows.\<close>
definition update_where :: "('a \<Rightarrow> bool) \<Rightarrow> ('a \<Rightarrow> 'a) \<Rightarrow> 'a list \<Rightarrow> 'a list" where
  "update_where p f xs = map (\<lambda>x. if p x then f x else x) xs"

lemma update_where_simps [simp]:
  "update_where p f [] = []"
  "update_where p f (x # xs) = (if p x then f x else x) # update_where p f xs"
  by (simp_all add: update_where_def)

lemma length_update_where [simp]: "length (update_where p f xs) = length xs"
  by (simp add: update_where_def)

lemma update_where_append [simp]:
  "update_where p f (xs @ ys) = update_where p f xs @ update_where p f ys"
  by (simp add: update_where_def)

lemma update_where_none: "(\<And>x. x \<in> set xs \<Longrightarrow> \<not> p x) \<Longrightarrow> update_where p f xs = xs"
  by (induction xs) auto

lemma map_update_where_same:
  "(\<And>x. p x \<Longrightarrow> g (f x) = g x) \<Longrightarrow> map g (update_where p f xs) = map g xs"
  by (induction xs) auto

lemma set_update_where_cases:
  "x \<in> set (update_where p f xs) \<Longrightarrow>
    (x \<in> set xs \<and> \<not> p x) \<or> (\<exists>y \<in> set xs. p y \<and> x = f y)"
  by (auto simp: update_where_def split: if_splits)

lemma list_all_update_where:
  "list_all P xs \<Longrightarrow> (\<And>x. P x \<Longrightarrow> p x \<Longrightarrow> P (f x)) \<Longrightarrow> list_all P (update_where p f xs)"
  by (induction xs) auto

lemma find_Some_mem: "find P xs = Some x \<Longrightarrow> x \<in> set xs \<and> P x"
  by (auto simp: find_Some_iff)

lemma find_append: "find P (xs @ ys) = (case find P xs of None \<Rightarrow> find P ys | Some x \<Rightarrow> Some x)"
  by (induction xs) auto

lemma find_unique:
  "distinct (map k xs) \<Longrightarrow> x \<in> set xs \<Longrightarrow> find (\<lambda>y. k y = k x) xs = Some x"
  by (induction xs) (force simp: image_iff)+

lemma find_key_None: "find (\<lambda>x. k x = a) xs = None \<longleftrightarrow> a \<notin> set (map k xs)"
  by (induction xs) auto

lemma find_update_where_same_key:
  "(\<And>x. k (f x) = k x) \<Longrightarrow>
    find (\<lambda>x. k x = a) (update_where p f xs) =
      map_option (\<lambda>x. if p x then f x else x) (find (\<lambda>x. k x = a) xs)"
  by (induction xs) auto

text \<open>The sum of a column over the rows of a table.\<close>
definition sum_col :: "('a \<Rightarrow> int) \<Rightarrow> 'a list \<Rightarrow> int" where
  "sum_col f xs = sum_list (map f xs)"

lemma sum_col_simps [simp]:
  "sum_col f [] = 0" "sum_col f (x # xs) = f x + sum_col f xs"
  "sum_col f (xs @ ys) = sum_col f xs + sum_col f ys"
  by (simp_all add: sum_col_def)

lemma sum_col_nonneg: "(\<And>x. x \<in> set xs \<Longrightarrow> 0 \<le> f x) \<Longrightarrow> 0 \<le> sum_col f xs"
  by (induction xs) (simp_all add: add_nonneg_nonneg)

lemma sum_col_mem_le:
  "(\<And>x. x \<in> set xs \<Longrightarrow> 0 \<le> f x) \<Longrightarrow> x \<in> set xs \<Longrightarrow> f x \<le> sum_col f xs"
proof (induction xs)
  case (Cons y ys)
  have "0 \<le> sum_col f ys" using Cons.prems by (intro sum_col_nonneg) simp
  moreover have "0 \<le> f y" using Cons.prems by simp
  moreover have "f x \<le> sum_col f ys" if "x \<in> set ys" using that Cons by simp
  ultimately show ?case using Cons.prems(2) by (cases "x = y") auto
qed simp

lemma sum_col_cong: "(\<And>x. x \<in> set xs \<Longrightarrow> f x = g x) \<Longrightarrow> sum_col f xs = sum_col g xs"
  by (induction xs) auto

lemma sum_col_add: "sum_col (\<lambda>x. f x + g x) xs = sum_col f xs + sum_col g xs"
  by (induction xs) auto

lemma sum_col_mono: "(\<And>x. x \<in> set xs \<Longrightarrow> f x \<le> g x) \<Longrightarrow> sum_col f xs \<le> sum_col g xs"
  by (induction xs) (auto intro: add_mono)

text \<open>Updating the one row that a key selects changes a column sum by that row's difference.\<close>
lemma sum_col_filter_le:
  "(\<And>x. x \<in> set xs \<Longrightarrow> 0 \<le> f x) \<Longrightarrow> sum_col f (filter P xs) \<le> sum_col f xs"
  by (induction xs) (auto simp: add_increasing)

text \<open>Summing group by group is summing row by row.\<close>
lemma sum_list_one_group:
  "distinct ks \<Longrightarrow> a \<in> set ks \<Longrightarrow>
    sum_list (map (\<lambda>k. if a = k then c + g k else g k) ks) = c + sum_list (map g ks)"
  for c :: int
proof (induction ks)
  case (Cons k ks)
  then show ?case by (cases "a = k") (auto intro!: arg_cong [where f = sum_list] map_cong)
qed simp

lemma sum_col_groups:
  assumes "distinct ks" "\<And>r. r \<in> set rows \<Longrightarrow> key r \<in> set ks"
  shows "sum_list (map (\<lambda>k. sum_col f (filter (\<lambda>r. key r = k) rows)) ks) = sum_col f rows"
  using assms(2)
proof (induction rows)
  case Nil
  then show ?case by (induction ks) auto
next
  case (Cons r rows)
  have "(\<lambda>k. sum_col f (filter (\<lambda>r. key r = k) (r # rows)))
      = (\<lambda>k. if key r = k then f r + sum_col f (filter (\<lambda>r. key r = k) rows)
          else sum_col f (filter (\<lambda>r. key r = k) rows))"
    by auto
  then show ?case
    using Cons sum_list_one_group [OF assms(1), of "key r" "f r"] by simp
qed

lemma sum_col_update_where_same:
  "(\<And>x. x \<in> set xs \<Longrightarrow> p x \<Longrightarrow> g (f x) = g x) \<Longrightarrow> sum_col g (update_where p f xs) = sum_col g xs"
  by (induction xs) (auto simp: update_where_def)

lemma sum_col_update_unique:
  assumes "distinct (map k xs)" "x \<in> set xs" "p x" "\<And>y. p y \<Longrightarrow> k y = k x"
  shows "sum_col g (update_where p f xs) = sum_col g xs - g x + g (f x)"
  using assms(1,2)
proof (induction xs)
  case (Cons y ys)
  have other: "\<not> p z" if "k z \<noteq> k x" for z using assms(4) [of z] that by blast
  show ?case
  proof (cases "y = x")
    case True
    then have "k z \<noteq> k x" if "z \<in> set ys" for z
      using Cons.prems(1) that by (auto simp: image_iff dest: sym)
    then have "update_where p f ys = ys" using other by (intro update_where_none) blast
    with True assms(3) show ?thesis by simp
  next
    case False
    with Cons.prems have "x \<in> set ys" "k y \<noteq> k x" by force+
    with Cons.IH Cons.prems(1) other [of y] show ?thesis by simp
  qed
qed simp

lemma distinct_map_update_where:
  assumes "\<And>y. p y \<Longrightarrow> k (f y) = k y"
  shows "distinct (map k (update_where p f xs)) = distinct (map k xs)"
proof -
  have "map k (update_where p f xs) = map k xs" by (rule map_update_where_same) (rule assms)
  then show ?thesis by (rule arg_cong)
qed

end
