(* ===== verification/Quota_Types.thy ===== *)
theory Quota_Types
  imports Prelude
begin

text \<open>
  The value types the quota components share: units, amounts, gauge readings, confidence and the
  slug grammar (\<open>crates/domain/src/quota_window/mod.rs\<close>, \<open>confidence.rs\<close>), and the reservation
  life-cycle states (\<open>crates/domain/src/reservation.rs\<close>). Strings are UTF-8 byte sequences, so
  \<open>length\<close> is Rust's \<open>str::len\<close>.
\<close>

section \<open>Identifiers\<close>

type_synonym PoolId = string
type_synonym PrincipalId = string
type_synonym uuid = "128 word"

section \<open>Slugs and units\<close>

definition is_ascii_lowercase :: "char \<Rightarrow> bool" where
  "is_ascii_lowercase c \<longleftrightarrow> CHR ''a'' \<le> c \<and> c \<le> CHR ''z''"

definition is_ascii_digit :: "char \<Rightarrow> bool" where
  "is_ascii_digit c \<longleftrightarrow> CHR ''0'' \<le> c \<and> c \<le> CHR ''9''"

definition slug_char :: "char \<Rightarrow> bool" where
  "slug_char c \<longleftrightarrow> is_ascii_lowercase c \<or> is_ascii_digit c \<or> c = CHR ''_'' \<or> c = CHR ''-''"

definition is_valid_slug :: "string \<Rightarrow> bool" where
  "is_valid_slug slug = (case slug of [] \<Rightarrow> False
     | first # chars \<Rightarrow>
         if \<not> is_ascii_lowercase first then False
         else if 32 < length slug then False
         else list_all slug_char chars)"

datatype CreditNamespace = CreditNamespace string

datatype QuotaUnit = UsdCents | Tokens | Requests | OpaqueCredit CreditNamespace | Percent

datatype QuotaWindowError =
    NegativeAmount
  | InvalidSlug string
  | UnknownTimeZone string
  | InvalidWallClockTime nat nat
  | PercentOnNonGaugeWindow
  | ZeroField string
  | LevelExceedsCapacity u64 u64
  | NotUtc int
  | MissingSchemaVersion
  | Unrecognized string
  | GaugeMissingLimit
  | GaugeUnexpectedLimit
  | FieldOutOfRange string u64 u64

definition CreditNamespace_new :: "string \<Rightarrow> QuotaWindowError + CreditNamespace" where
  "CreditNamespace_new slug =
     (if is_valid_slug slug then Inr (CreditNamespace slug) else Inl (InvalidSlug slug))"

record QuotaAmount =
  qa_unit :: QuotaUnit
  qa_value :: u64

datatype GaugeReading = Undisclosed | Used QuotaAmount "u64 option"

section \<open>Confidence and reservation states\<close>

datatype Confidence = Low | Medium | High

datatype ReservationState = Active | Settled | Released | Expired

fun confidence_rank :: "Confidence \<Rightarrow> nat" where
  "confidence_rank Low = 0" | "confidence_rank Medium = 1" | "confidence_rank High = 2"

instantiation Confidence :: linorder
begin
definition less_eq_Confidence :: "Confidence \<Rightarrow> Confidence \<Rightarrow> bool" where
  "less_eq_Confidence a b \<longleftrightarrow> confidence_rank a \<le> confidence_rank b"
definition less_Confidence :: "Confidence \<Rightarrow> Confidence \<Rightarrow> bool" where
  "less_Confidence a b \<longleftrightarrow> confidence_rank a < confidence_rank b"
instance
proof
  fix a b :: Confidence
  show "a \<le> b \<Longrightarrow> b \<le> a \<Longrightarrow> a = b"
    by (cases a; cases b) (simp_all add: less_eq_Confidence_def)
qed (auto simp: less_eq_Confidence_def less_Confidence_def)
end

section \<open>Slug lemmas\<close>

lemma slug_char_not_separator:
  "slug_char c \<Longrightarrow> c \<noteq> CHR ''/'' \<and> c \<noteq> CHR '':'' \<and> c \<noteq> CHR ''|''"
  by (auto simp: slug_char_def is_ascii_lowercase_def is_ascii_digit_def)

lemma ascii_lowercase_slug_char: "is_ascii_lowercase c \<Longrightarrow> slug_char c"
  by (simp add: slug_char_def)

lemma valid_slug_chars: "is_valid_slug s \<Longrightarrow> list_all slug_char s"
  by (auto simp: is_valid_slug_def ascii_lowercase_slug_char split: list.splits if_splits)

lemma valid_slug_no_slash: "is_valid_slug s \<Longrightarrow> CHR ''/'' \<notin> set s"
  using valid_slug_chars [of s] slug_char_not_separator by (auto simp: list_all_iff)

lemma valid_slug_length: "is_valid_slug s \<Longrightarrow> 0 < length s \<and> length s \<le> 32"
  by (auto simp: is_valid_slug_def split: list.splits if_splits)

end
