(* ===== verification/Pool_Domain.thy ===== *)
theory Pool_Domain
  imports Quota_Types
begin

text \<open>
  The domain types and the pure arithmetic of the flat shared quota pools
  (\<open>crates/domain/src/shared_pool.rs\<close>): holds and their executor attribution, the admission
  arithmetic of a pool, the \<open>metered:<owner>/<alias>\<close> pool keys and the rule that decides
  whether a provider snapshot may bound an admission.
\<close>

section \<open>Executor kinds and charge sources\<close>

datatype ExecutorKind = AgentAbsent | Agent | Unattributed

definition ExecutorKind_as_str :: "ExecutorKind \<Rightarrow> string" where
  "ExecutorKind_as_str k = (case k of
     AgentAbsent \<Rightarrow> ''agent_absent'' | Agent \<Rightarrow> ''agent'' | Unattributed \<Rightarrow> ''unattributed'')"

definition ExecutorKind_parse :: "string \<Rightarrow> ExecutorKind option" where
  "ExecutorKind_parse s =
     (if s = ''agent_absent'' then Some AgentAbsent
      else if s = ''agent'' then Some Agent
      else if s = ''unattributed'' then Some Unattributed
      else None)"

datatype ChargeSource = TurnHold | SubagentTranscript | Gateway

definition ChargeSource_as_str :: "ChargeSource \<Rightarrow> string" where
  "ChargeSource_as_str c = (case c of
     TurnHold \<Rightarrow> ''turn_hold'' | SubagentTranscript \<Rightarrow> ''subagent_transcript''
   | Gateway \<Rightarrow> ''gateway'')"

definition ChargeSource_parse :: "string \<Rightarrow> ChargeSource option" where
  "ChargeSource_parse s =
     (if s = ''turn_hold'' then Some TurnHold
      else if s = ''subagent_transcript'' then Some SubagentTranscript
      else if s = ''gateway'' then Some Gateway
      else None)"

section \<open>Pools and holds\<close>


definition SHARED_POOL_RESERVATION_SCHEMA_VERSION :: string where
  "SHARED_POOL_RESERVATION_SCHEMA_VERSION = ''shared-pool-reservation-v1''"

record QuotaPool =
  qp_pool_id :: PoolId
  qp_unit :: QuotaUnit
  qp_capacity :: u64
  qp_schema_version :: string
  qp_created_at :: instant
  qp_updated_at :: instant

record SharedPoolReservation =
  spr_id :: uuid
  spr_pool_id :: PoolId
  spr_principal_id :: PrincipalId
  spr_session_id :: string
  spr_amount :: u64
  spr_state :: ReservationState
  spr_settled_amount :: "u64 option"
  spr_usage_known :: "bool option"
  spr_idempotency_key :: string
  spr_created_at :: instant
  spr_expires_at :: instant
  spr_settled_at :: "instant option"
  spr_released_at :: "instant option"
  spr_schema_version :: string
  spr_agent_id :: "string option"
  spr_executor_kind :: "ExecutorKind option"
  spr_charge_source :: "ChargeSource option"

text \<open>\<open>checked_sub(..).filter(|delta| *delta > 0)\<close>.\<close>
definition positive_delta :: "u64 \<Rightarrow> u64 \<Rightarrow> u64 option" where
  "positive_delta a b = (case checked_sub a b of
     None \<Rightarrow> None | Some d \<Rightarrow> if 0 < d then Some d else None)"

definition spr_overrun :: "SharedPoolReservation \<Rightarrow> u64 option" where
  "spr_overrun r = (case spr_settled_amount r of
     None \<Rightarrow> None | Some settled \<Rightarrow> positive_delta settled (spr_amount r))"

definition spr_refunded :: "SharedPoolReservation \<Rightarrow> u64 option" where
  "spr_refunded r = (case spr_settled_amount r of
     None \<Rightarrow> None | Some settled \<Rightarrow> positive_delta (spr_amount r) settled)"

definition spr_outstanding :: "SharedPoolReservation \<Rightarrow> u64" where
  "spr_outstanding r = (case spr_state r of
     Active \<Rightarrow> spr_amount r | Settled \<Rightarrow> 0 | Released \<Rightarrow> 0 | Expired \<Rightarrow> 0)"

section \<open>Admission arithmetic\<close>

record PoolAdmission =
  pa_capacity :: u64
  pa_settled :: u64
  pa_active :: u64
  pa_external_overhang :: u64

text \<open>\<open>remaining\<close> is an \<open>i64\<close>; the \<open>i128\<close> intermediate cannot overflow, its operands are
  \<open>u64\<close>.\<close>
definition pa_remaining :: "PoolAdmission \<Rightarrow> int" where
  "pa_remaining a = clamp_i64
     (uint (pa_capacity a) - uint (pa_settled a) - uint (pa_active a)
        - uint (pa_external_overhang a))"

definition pa_admits :: "PoolAdmission \<Rightarrow> u64 \<Rightarrow> bool" where
  "pa_admits a requested \<longleftrightarrow> uint requested \<le> pa_remaining a"

definition pa_overrun :: "PoolAdmission \<Rightarrow> u64" where
  "pa_overrun a = (let remaining = pa_remaining a in
     if remaining < 0 then word_of_int (- remaining) else 0)"

section \<open>Provider snapshots\<close>

record PoolProviderSnapshot =
  pps_pool_id :: PoolId
  pps_observed_at :: instant
  pps_valid_until :: "instant option"
  pps_reading :: GaugeReading
  pps_confidence :: Confidence

datatype SnapshotUnusable = SnapMissing | SnapUndisclosed | SnapNoValidUntil | SnapStale
  | SnapLimitMissing

definition metered_snapshot_limit ::
    "PoolProviderSnapshot option \<Rightarrow> instant \<Rightarrow> SnapshotUnusable + u64" where
  "metered_snapshot_limit snapshot now =
     rbind (ok_or SnapMissing snapshot) (\<lambda>snapshot.
       case pps_reading snapshot of
         Undisclosed \<Rightarrow> Inl SnapUndisclosed
       | Used used limit \<Rightarrow>
           (case pps_valid_until snapshot of
              None \<Rightarrow> Inl SnapNoValidUntil
            | Some valid_until \<Rightarrow>
                if valid_until \<le> now then Inl SnapStale
                else ok_or SnapLimitMissing limit))"

section \<open>Metered pool keys\<close>

definition METERED_POOL_PREFIX :: string where "METERED_POOL_PREFIX = ''metered:''"
definition LOCAL_BUDGET_OWNER :: string where "LOCAL_BUDGET_OWNER = ''local-budget''"

record MeteredPoolKey =
  mpk_owner :: PrincipalId
  mpk_alias :: string

datatype MeteredPoolKeyError = InvalidOwner string | InvalidAlias string

definition MeteredPoolKey_new ::
    "PrincipalId \<Rightarrow> string \<Rightarrow> MeteredPoolKeyError + MeteredPoolKey" where
  "MeteredPoolKey_new owner alias =
     (if \<not> is_valid_slug owner then Inl (InvalidOwner owner)
      else if \<not> is_valid_slug alias then Inl (InvalidAlias alias)
      else Inr \<lparr>mpk_owner = owner, mpk_alias = alias\<rparr>)"

definition MeteredPoolKey_parse :: "PoolId \<Rightarrow> MeteredPoolKey option" where
  "MeteredPoolKey_parse pool_id =
     (case strip_prefix METERED_POOL_PREFIX pool_id of
        None \<Rightarrow> None
      | Some rest \<Rightarrow>
          (case split_once (CHR ''/'') rest of
             None \<Rightarrow> None
           | Some (owner, alias) \<Rightarrow>
               (case MeteredPoolKey_new owner alias of Inl _ \<Rightarrow> None | Inr k \<Rightarrow> Some k)))"

definition MeteredPoolKey_pool_id :: "MeteredPoolKey \<Rightarrow> PoolId" where
  "MeteredPoolKey_pool_id k = METERED_POOL_PREFIX @ mpk_owner k @ ''/'' @ mpk_alias k"

definition is_metered_unit :: "QuotaUnit \<Rightarrow> bool" where
  "is_metered_unit u = (case u of
     UsdCents \<Rightarrow> True | Tokens \<Rightarrow> True | Requests \<Rightarrow> True
   | OpaqueCredit _ \<Rightarrow> False | Percent \<Rightarrow> False)"

section \<open>Column spellings\<close>

lemma ExecutorKind_parse_Some: "ExecutorKind_parse s = Some k \<longleftrightarrow> s = ExecutorKind_as_str k"
  by (cases k) (auto simp: ExecutorKind_parse_def ExecutorKind_as_str_def)

lemma ChargeSource_parse_Some: "ChargeSource_parse s = Some c \<longleftrightarrow> s = ChargeSource_as_str c"
  by (cases c) (auto simp: ChargeSource_parse_def ChargeSource_as_str_def)

interpretation executor_kind: column_codec ExecutorKind_as_str ExecutorKind_parse
  by unfold_locales (rule ExecutorKind_parse_Some)

interpretation charge_source: column_codec ChargeSource_as_str ChargeSource_parse
  by unfold_locales (rule ChargeSource_parse_Some)

lemmas codec_simps [simp] = executor_kind.parse_to_str charge_source.parse_to_str

lemma gateway_as_str_iff: "ChargeSource_as_str c = ''gateway'' \<longleftrightarrow> c = Gateway"
  by (cases c) (simp_all add: ChargeSource_as_str_def)

section \<open>Admission lemmas\<close>

lemma positive_delta_eq_Some:
  "positive_delta a b = Some d \<longleftrightarrow> 0 < uint d \<and> uint a = uint b + uint d"
proof -
  have "0 < d \<longleftrightarrow> 0 < uint d" by (simp add: word_less_def)
  moreover have "positive_delta a b = Some d \<longleftrightarrow> checked_sub a b = Some d \<and> 0 < d"
    by (auto simp: positive_delta_def split: option.splits if_splits)
  ultimately show ?thesis by (auto simp: checked_sub_eq_Some)
qed

lemma positive_delta_value:
  "(case positive_delta a b of None \<Rightarrow> 0 | Some d \<Rightarrow> uint d) = max 0 (uint a - uint b)"
  using uint_minus_u64 [of b a]
  by (auto simp: positive_delta_def checked_sub_def word_le_def word_less_def max_def)

text \<open>The two deltas are the positive and the negative part of one difference.\<close>
lemma positive_delta_balance:
  "uint a + (case positive_delta b a of None \<Rightarrow> 0 | Some d \<Rightarrow> uint d)
     = uint b + (case positive_delta a b of None \<Rightarrow> 0 | Some d \<Rightarrow> uint d)"
  unfolding positive_delta_value by simp

text \<open>The exact room left in a pool, with no machine bound.\<close>
definition pa_room :: "PoolAdmission \<Rightarrow> int" where
  "pa_room a = uint (pa_capacity a) - uint (pa_settled a) - uint (pa_active a)
     - uint (pa_external_overhang a)"

lemma pa_remaining_room: "pa_remaining a = clamp_i64 (pa_room a)"
  by (simp add: pa_remaining_def pa_room_def)

lemma pa_admits_iff: "pa_admits a r \<longleftrightarrow> uint r \<le> pa_room a \<and> uint r \<le> i64_max"
proof -
  have "\<not> uint r \<le> i64_min"
    unfolding i64_min_def using uint_u64_bounds(1) [of r] by linarith
  then show ?thesis by (simp add: pa_admits_def pa_remaining_room clamp_i64_le_iff)
qed

lemma pa_overrun_room:
  "uint (pa_overrun a) = (if pa_room a < 0 then min (- pa_room a) (i64_max + 1) else 0)"
proof -
  have "uint (pa_overrun a) = uint (max0_u64 (- clamp_i64 (pa_room a)))"
    by (simp add: pa_overrun_def pa_remaining_room max0_u64_def Let_def max_def)
  also have "\<dots> = max 0 (- clamp_i64 (pa_room a))"
    using clamp_i64_range(1) [of "pa_room a"]
    by (intro uint_max0_u64) (simp add: i64_min_def u64_max_def)
  finally show ?thesis
    by (auto simp: clamp_i64_def clamp_def i64_min_def i64_max_def)
qed

text \<open>
  A pool admission is decided exactly: a request is admitted iff it fits in
  \<open>i64\<close> and, in unbounded arithmetic, committed spend plus external overhang plus the request
  stays within capacity. No wrap-around of the four \<open>u64\<close> terms can admit a request that does
  not fit, and \<open>overrun\<close> is positive exactly when the pool is over-committed, in which case
  nothing, not even a zero request, is admitted.
\<close>
theorem pool_admission_exact:
  "(pa_admits a r \<longleftrightarrow>
      uint (pa_settled a) + uint (pa_active a) + uint (pa_external_overhang a) + uint r
        \<le> uint (pa_capacity a) \<and> uint r \<le> i64_max)
   \<and> (pa_overrun a \<noteq> 0 \<longleftrightarrow>
      uint (pa_capacity a)
        < uint (pa_settled a) + uint (pa_active a) + uint (pa_external_overhang a))
   \<and> (pa_overrun a \<noteq> 0 \<longleftrightarrow> \<not> pa_admits a 0)"
proof -
  have over: "pa_overrun a \<noteq> 0 \<longleftrightarrow> pa_room a < 0"
    using pa_overrun_room [of a] by (auto simp: uint_0_iff [symmetric] i64_max_def split: if_splits)
  show ?thesis
    unfolding over pa_admits_iff by (auto simp: pa_room_def i64_max_def)
qed

section \<open>Pool key lemmas\<close>

definition MeteredPoolKey_valid :: "MeteredPoolKey \<Rightarrow> bool" where
  "MeteredPoolKey_valid k \<longleftrightarrow> is_valid_slug (mpk_owner k) \<and> is_valid_slug (mpk_alias k)"

lemma MeteredPoolKey_new_eq_Inr [res_simps]:
  "MeteredPoolKey_new owner alias = Inr k \<longleftrightarrow>
     MeteredPoolKey_valid k \<and> mpk_owner k = owner \<and> mpk_alias k = alias"
  by (cases k) (auto simp: MeteredPoolKey_new_def MeteredPoolKey_valid_def)

lemma MeteredPoolKey_parse_eq_Some:
  "MeteredPoolKey_parse p = Some k \<longleftrightarrow>
     MeteredPoolKey_valid k \<and> p = MeteredPoolKey_pool_id k"
proof
  assume "MeteredPoolKey_parse p = Some k"
  then obtain rest owner al where
    "p = METERED_POOL_PREFIX @ rest" "rest = owner @ CHR ''/'' # al"
    "MeteredPoolKey_new owner al = Inr k"
    by (auto simp: MeteredPoolKey_parse_def strip_prefix_eq_Some split_once_eq_Some
        split: option.splits sum.splits)
  then show "MeteredPoolKey_valid k \<and> p = MeteredPoolKey_pool_id k"
    by (simp add: MeteredPoolKey_new_eq_Inr MeteredPoolKey_pool_id_def)
next
  assume k: "MeteredPoolKey_valid k \<and> p = MeteredPoolKey_pool_id k"
  then have "split_once (CHR ''/'') (mpk_owner k @ ''/'' @ mpk_alias k)
      = Some (mpk_owner k, mpk_alias k)"
    by (simp add: split_once_append MeteredPoolKey_valid_def valid_slug_no_slash)
  with k have "MeteredPoolKey_parse p =
      (case MeteredPoolKey_new (mpk_owner k) (mpk_alias k) of Inl _ \<Rightarrow> None | Inr k \<Rightarrow> Some k)"
    by (simp add: MeteredPoolKey_parse_def MeteredPoolKey_pool_id_def)
  moreover have "MeteredPoolKey_new (mpk_owner k) (mpk_alias k) = Inr k"
    using k by (simp add: MeteredPoolKey_new_eq_Inr)
  ultimately show "MeteredPoolKey_parse p = Some k" by simp
qed

text \<open>
  Metered pool keys and pool ids are in bijection: building a key from an owner and an
  alias succeeds exactly for two valid slugs; a built key is parsed back from its own pool id;
  and a pool id that parses is the encoding of the key it yields, so no second spelling (and no
  pool id outside the \<open>metered:\<close> prefix) denotes the same pool.
\<close>
theorem metered_pool_key_roundtrip:
  "(MeteredPoolKey_new owner alias = Inr k \<longleftrightarrow>
      is_valid_slug owner \<and> is_valid_slug alias \<and> mpk_owner k = owner \<and> mpk_alias k = alias)
   \<and> (MeteredPoolKey_new owner alias = Inr k \<longrightarrow>
      MeteredPoolKey_parse (MeteredPoolKey_pool_id k) = Some k)
   \<and> (MeteredPoolKey_parse p = Some k \<longrightarrow>
      MeteredPoolKey_pool_id k = p \<and> strip_prefix METERED_POOL_PREFIX p \<noteq> None)"
  by (auto simp: MeteredPoolKey_new_eq_Inr MeteredPoolKey_parse_eq_Some MeteredPoolKey_valid_def)
    (simp add: MeteredPoolKey_pool_id_def)

theorem metered_pool_key_roundtrip_witness:
  "MeteredPoolKey_new ''acme'' ''usd-2026-10''
     = Inr \<lparr>mpk_owner = ''acme'', mpk_alias = ''usd-2026-10''\<rparr>
   \<and> MeteredPoolKey_parse (MeteredPoolKey_pool_id
        \<lparr>mpk_owner = ''acme'', mpk_alias = ''usd-2026-10''\<rparr>)
     = Some \<lparr>mpk_owner = ''acme'', mpk_alias = ''usd-2026-10''\<rparr>"
proof -
  have new: "MeteredPoolKey_new ''acme'' ''usd-2026-10''
     = Inr \<lparr>mpk_owner = ''acme'', mpk_alias = ''usd-2026-10''\<rparr>"
    by code_simp
  with metered_pool_key_roundtrip show ?thesis by blast
qed

lemma metered_snapshot_limit_eq_Inr [res_simps]:
  "metered_snapshot_limit s now = Inr l \<longleftrightarrow>
     (\<exists>snap used v. s = Some snap \<and> pps_reading snap = Used used (Some l)
        \<and> pps_valid_until snap = Some v \<and> now < v)"
proof (cases s)
  case (Some snap)
  then show ?thesis
    by (cases "pps_reading snap"; cases "pps_valid_until snap")
      (auto simp: metered_snapshot_limit_def ok_or_eq_Inr)
qed (simp add: metered_snapshot_limit_def)

end
