(* ===== verification/Pool_Store.thy ===== *)
theory Pool_Store
  imports Pool_Domain
begin

text \<open>
  The tables of the shared-pool ledger and the reads its operations are built from
  (\<open>crates/ledger/src/shared_pool.rs\<close>, \<open>lib.rs\<close>, \<open>migrations/0016\<close>, \<open>0021\<close>--\<open>0024\<close>).

  A table is the list of its rows and a SQL statement is the function on those lists that its
  text denotes: \<open>SELECT\<close> filters, \<open>UPDATE\<close> is \<^const>\<open>update_where\<close>, an \<open>INSERT\<close> appends after the
  constraints of the schema are checked. Integer columns are \<open>int\<close>; SQLite's \<open>SUM\<close> fails when a
  partial sum leaves the signed 64-bit range. Every public method runs in one transaction, so a
  method is a function from the store to an error or to a result and the new store; an error
  leaves the store as it was (the dropped transaction rolls back).

  The crates the ledger calls are parameters, the fields of \<open>externals\<close>: the RFC 3339 text of
  \<open>time\<close>, the JSON of \<open>serde_json\<close>, the UUID text of \<open>uuid\<close>. What the ledger relies on, that
  reading back what was written gives the value, is the hypothesis \<open>externals_ok\<close>.
\<close>

section \<open>Errors\<close>

datatype SqliteError = InvalidQuery | ToSqlConversionFailure | IntegralValueOutOfRange
  | IntegerOverflow | ConstraintViolation | QueryReturnedNoRows

text \<open>The variants the modelled methods raise. \<open>Panicked\<close> stands for an unwinding \<open>expect\<close> or
  \<open>unreachable!\<close>.\<close>
datatype LedgerError =
    Sqlite SqliteError
  | QuotaUnitMismatch QuotaUnit QuotaUnit
  | NoSuchPool string
  | SharedPoolKeyConflict
  | Panicked

definition invalid :: LedgerError where "invalid = Sqlite InvalidQuery"

section \<open>External crates\<close>

record externals =
  time_format :: "instant \<Rightarrow> string option"
  time_parse :: "string \<Rightarrow> instant option"
  time_checked_add :: "instant \<Rightarrow> int \<Rightarrow> instant option"
  uuid_to_string :: "uuid \<Rightarrow> string"
  uuid_parse_str :: "string \<Rightarrow> uuid option"
  unit_ser :: "QuotaUnit \<Rightarrow> string option"
  unit_de :: "string \<Rightarrow> QuotaUnit option"
  confidence_ser :: "Confidence \<Rightarrow> string option"
  confidence_de :: "string \<Rightarrow> Confidence option"
  ids_ser :: "string list \<Rightarrow> string option"
  ids_de :: "string \<Rightarrow> string list option"

text \<open>Documented behaviour of the crates: parsing inverts formatting. (\<open>time_checked_add t n\<close> is
  \<open>t.checked_add(Duration::seconds(n))\<close>: the exact sum, or \<open>None\<close> out of range.)\<close>
definition externals_ok :: "externals \<Rightarrow> bool" where
  "externals_ok x \<longleftrightarrow>
     (\<forall>t s. time_format x t = Some s \<longrightarrow> time_parse x s = Some t)
   \<and> (\<forall>t n t'. time_checked_add x t n = Some t' \<longrightarrow> t' = t + n * ns_per_sec)
   \<and> (\<forall>u. uuid_parse_str x (uuid_to_string x u) = Some u)
   \<and> (\<forall>u s. unit_ser x u = Some s \<longrightarrow> unit_de x s = Some u)
   \<and> (\<forall>c s. confidence_ser x c = Some s \<longrightarrow> confidence_de x s = Some c)
   \<and> (\<forall>l s. ids_ser x l = Some s \<longrightarrow> ids_de x s = Some l)"

definition rfc3339 :: "externals \<Rightarrow> instant \<Rightarrow> LedgerError + string" where
  "rfc3339 x t = ok_or (Sqlite ToSqlConversionFailure) (time_format x t)"

definition parse_time :: "externals \<Rightarrow> string \<Rightarrow> LedgerError + instant" where
  "parse_time x s = ok_or (Sqlite InvalidQuery) (time_parse x s)"

definition checked_i64 :: "u64 \<Rightarrow> LedgerError + int" where
  "checked_i64 v = (if uint v \<le> i64_max then Inr (uint v) else Inl invalid)"

definition unit_to_json :: "externals \<Rightarrow> QuotaUnit \<Rightarrow> LedgerError + string" where
  "unit_to_json x u = ok_or (Sqlite ToSqlConversionFailure) (unit_ser x u)"

definition unit_from_json :: "externals \<Rightarrow> string \<Rightarrow> LedgerError + QuotaUnit" where
  "unit_from_json x s = ok_or invalid (unit_de x s)"

definition state_from_str :: "string \<Rightarrow> LedgerError + ReservationState" where
  "state_from_str s =
     (if s = ''active'' then Inr Active
      else if s = ''settled'' then Inr Settled
      else if s = ''released'' then Inr Released
      else if s = ''expired'' then Inr Expired
      else Inl invalid)"

definition MAX_TTL_SECS :: u64 where "MAX_TTL_SECS = 100 * 365 * 24 * 3600"

section \<open>Tables\<close>

record PoolRow =
  pr_pool_id :: string
  pr_unit_json :: string
  pr_capacity :: int
  pr_schema_version :: string
  pr_created_at :: string
  pr_updated_at :: string

record ReservationRow =
  r_id :: string
  r_pool_id :: string
  r_principal_id :: string
  r_session_id :: string
  r_amount :: int
  r_state :: string
  r_settled_amount :: "int option"
  r_usage_known :: "bool option"
  r_idempotency_key :: string
  r_created_at :: string
  r_expires_at :: string
  r_settled_at :: "string option"
  r_released_at :: "string option"
  r_schema_version :: string
  r_agent_id :: "string option"
  r_executor_kind :: "string option"
  r_charge_source :: "string option"
  r_is_charge :: bool
  r_watermark_ts :: "string option"
  r_watermark_message_ids :: "string option"

record SnapshotRow =
  sn_pool_id :: string
  sn_observed_at :: string
  sn_valid_until :: "string option"
  sn_disclosed :: bool
  sn_used_value :: "int option"
  sn_declared_limit :: "int option"
  sn_confidence :: string
  sn_updated_at :: string

record HoldPromptRow =
  hp_principal_id :: string
  hp_session_id :: string
  hp_prompt_id :: string
  hp_reservation_id :: string

record ChargeFloorRow =
  cf_principal_id :: string
  cf_key_prefix :: string
  cf_total :: int

record RetentionHorizonRow =
  rh_pool_prefix :: string
  rh_pool_id :: string

record LedgerStore =
  quota_pools :: "PoolRow list"
  reservations :: "ReservationRow list"
  snapshots :: "SnapshotRow list"
  hold_prompts :: "HoldPromptRow list"
  charge_floor :: "ChargeFloorRow list"
  retention_horizon :: "RetentionHorizonRow list"

definition empty_store :: LedgerStore where
  "empty_store = \<lparr>quota_pools = [], reservations = [], snapshots = [], hold_prompts = [],
     charge_floor = [], retention_horizon = []\<rparr>"

text \<open>\<open>COALESCE(column, default)\<close>.\<close>
definition coalesce :: "'a \<Rightarrow> 'a option \<Rightarrow> 'a" where
  "coalesce d v = (case v of None \<Rightarrow> d | Some w \<Rightarrow> w)"

lemma coalesce_simps [simp]: "coalesce d None = d" "coalesce d (Some w) = w"
  by (simp_all add: coalesce_def)

text \<open>The column \<open>CHECK\<close>s of \<open>shared_pool_reservations\<close>.\<close>
definition reservation_checks :: "ReservationRow \<Rightarrow> bool" where
  "reservation_checks r \<longleftrightarrow>
     0 \<le> r_amount r
   \<and> r_state r \<in> {''active'', ''settled'', ''released'', ''expired''}
   \<and> (case r_settled_amount r of None \<Rightarrow> True | Some v \<Rightarrow> 0 \<le> v)
   \<and> (case r_executor_kind r of None \<Rightarrow> True
      | Some k \<Rightarrow> k \<in> {''agent_absent'', ''agent'', ''unattributed''})
   \<and> (case r_charge_source r of None \<Rightarrow> True
      | Some c \<Rightarrow> c \<in> {''turn_hold'', ''subagent_transcript'', ''gateway''})"

text \<open>The unique index \<open>(pool_id, principal_id, idempotency_key)\<close>.\<close>
definition row_key :: "ReservationRow \<Rightarrow> string \<times> string \<times> string" where
  "row_key r = (r_pool_id r, r_principal_id r, r_idempotency_key r)"

definition insert_reservation :: "LedgerStore \<Rightarrow> ReservationRow \<Rightarrow> LedgerError + LedgerStore" where
  "insert_reservation s r =
     (if r_id r \<in> set (map r_id (reservations s))
         \<or> row_key r \<in> set (map row_key (reservations s))
         \<or> r_pool_id r \<notin> set (map pr_pool_id (quota_pools s))
         \<or> \<not> reservation_checks r
      then Inl (Sqlite ConstraintViolation)
      else Inr (s\<lparr>reservations := reservations s @ [r]\<rparr>))"

section \<open>Rows to values\<close>

text \<open>rusqlite's checked read of an \<open>INTEGER\<close> as \<open>u64\<close>.\<close>
definition get_u64 :: "int \<Rightarrow> LedgerError + u64" where
  "get_u64 i = (if i < 0 then Inl (Sqlite IntegralValueOutOfRange) else Inr (word_of_int i))"

definition row_to_pool :: "externals \<Rightarrow> PoolId \<Rightarrow> PoolRow \<Rightarrow> LedgerError + QuotaPool" where
  "row_to_pool x pool_id row =
     rbind (unit_from_json x (pr_unit_json row)) (\<lambda>unit.
     rbind (parse_time x (pr_created_at row)) (\<lambda>created_at.
     rbind (parse_time x (pr_updated_at row)) (\<lambda>updated_at.
       Inr \<lparr>qp_pool_id = pool_id, qp_unit = unit, qp_capacity = word_of_int (pr_capacity row),
         qp_schema_version = pr_schema_version row, qp_created_at = created_at,
         qp_updated_at = updated_at\<rparr>)))"

definition row_to_reservation ::
    "externals \<Rightarrow> ReservationRow \<Rightarrow> LedgerError + SharedPoolReservation" where
  "row_to_reservation x row =
     rbind (get_u64 (r_amount row)) (\<lambda>amount.
     rbind (transpose_opt (map_option get_u64 (r_settled_amount row))) (\<lambda>settled_amount.
     rbind (ok_or invalid (uuid_parse_str x (r_id row))) (\<lambda>rid.
     rbind (state_from_str (r_state row)) (\<lambda>state.
     rbind (parse_time x (r_created_at row)) (\<lambda>created_at.
     rbind (parse_time x (r_expires_at row)) (\<lambda>expires_at.
     rbind (transpose_opt (map_option (parse_time x) (r_settled_at row))) (\<lambda>settled_at.
     rbind (transpose_opt (map_option (parse_time x) (r_released_at row))) (\<lambda>released_at.
     rbind (transpose_opt (map_option (\<lambda>k. ok_or invalid (ExecutorKind_parse k))
        (r_executor_kind row))) (\<lambda>executor_kind.
     rbind (transpose_opt (map_option (\<lambda>c. ok_or invalid (ChargeSource_parse c))
        (r_charge_source row))) (\<lambda>charge_source.
       Inr \<lparr>spr_id = rid, spr_pool_id = r_pool_id row, spr_principal_id = r_principal_id row,
         spr_session_id = r_session_id row, spr_amount = amount, spr_state = state,
         spr_settled_amount = settled_amount, spr_usage_known = r_usage_known row,
         spr_idempotency_key = r_idempotency_key row, spr_created_at = created_at,
         spr_expires_at = expires_at, spr_settled_at = settled_at,
         spr_released_at = released_at, spr_schema_version = r_schema_version row,
         spr_agent_id = r_agent_id row, spr_executor_kind = executor_kind,
         spr_charge_source = charge_source\<rparr>))))))))))"

section \<open>Pool reads\<close>

definition quota_pool ::
    "externals \<Rightarrow> LedgerStore \<Rightarrow> PoolId \<Rightarrow> LedgerError + QuotaPool option" where
  "quota_pool x s pool_id =
     transpose_opt (map_option (row_to_pool x pool_id)
       (find (\<lambda>p. pr_pool_id p = pool_id) (quota_pools s)))"

text \<open>SQLite's integer \<open>SUM\<close>: \<open>None\<close> is the "integer overflow" error.\<close>
fun sql_sum_from :: "int \<Rightarrow> int list \<Rightarrow> int option" where
  "sql_sum_from acc [] = Some acc"
| "sql_sum_from acc (v # vs) =
     (if i64_min \<le> acc + v \<and> acc + v \<le> i64_max then sql_sum_from (acc + v) vs else None)"

text \<open>\<open>SELECT COALESCE(SUM(column), 0)\<close>; \<open>SUM\<close> skips \<open>NULL\<close>s.\<close>
definition sql_sum :: "('a \<Rightarrow> int option) \<Rightarrow> 'a list \<Rightarrow> int option" where
  "sql_sum column rows = sql_sum_from 0 (List.map_filter column rows)"

definition pool_state_rows :: "LedgerStore \<Rightarrow> PoolId \<Rightarrow> string \<Rightarrow> ReservationRow list" where
  "pool_state_rows s pool_id state =
     filter (\<lambda>r. r_pool_id r = pool_id \<and> r_state r = state) (reservations s)"

definition saturating_amount_sum ::
    "LedgerStore \<Rightarrow> PoolId \<Rightarrow> (ReservationRow \<Rightarrow> int option) \<Rightarrow> string \<Rightarrow> u64" where
  "saturating_amount_sum s pool_id column state =
     (let rows = pool_state_rows s pool_id state in
      case sql_sum column rows of
        Some tot \<Rightarrow> max0_u64 tot
      | None \<Rightarrow> fold (\<lambda>r tot. saturating_add tot (max0_u64 (coalesce 0 (column r)))) rows 0)"

definition settled_and_active_tx :: "LedgerStore \<Rightarrow> PoolId \<Rightarrow> u64 \<times> u64" where
  "settled_and_active_tx s pool_id =
     (saturating_amount_sum s pool_id r_settled_amount ''settled'',
      saturating_amount_sum s pool_id (\<lambda>r. Some (r_amount r)) ''active'')"

fun settled_before_rows ::
    "externals \<Rightarrow> instant \<Rightarrow> u64 \<Rightarrow> ReservationRow list \<Rightarrow> LedgerError + u64" where
  "settled_before_rows x observed_at tot [] = Inr tot"
| "settled_before_rows x observed_at tot (r # rs) =
     (case (r_settled_amount r, r_settled_at r) of
        (Some settled_amount, Some settled_at) \<Rightarrow>
          rbind (parse_time x settled_at) (\<lambda>at.
            if at \<le> observed_at
            then settled_before_rows x observed_at
                   (saturating_add tot (max0_u64 settled_amount)) rs
            else settled_before_rows x observed_at tot rs)
      | _ \<Rightarrow> settled_before_rows x observed_at tot rs)"

definition settled_before_tx ::
    "externals \<Rightarrow> LedgerStore \<Rightarrow> PoolId \<Rightarrow> instant \<Rightarrow> LedgerError + u64" where
  "settled_before_tx x s pool_id observed_at =
     settled_before_rows x observed_at 0 (pool_state_rows s pool_id ''settled'')"

definition snapshot_row :: "LedgerStore \<Rightarrow> PoolId \<Rightarrow> SnapshotRow option" where
  "snapshot_row s pool_id = find (\<lambda>n. sn_pool_id n = pool_id) (snapshots s)"

definition external_overhang_tx ::
    "externals \<Rightarrow> LedgerStore \<Rightarrow> PoolId \<Rightarrow> instant \<Rightarrow> LedgerError + u64" where
  "external_overhang_tx x s pool_id now =
     (case snapshot_row s pool_id of
        None \<Rightarrow> Inr 0
      | Some n \<Rightarrow>
          rbind (transpose_opt (map_option (parse_time x) (sn_valid_until n))) (\<lambda>valid_until.
            if (case valid_until of None \<Rightarrow> False | Some v \<Rightarrow> v \<le> now) then Inr 0
            else if \<not> sn_disclosed n then Inr 0
            else (case sn_used_value n of
                    None \<Rightarrow> Inr 0
                  | Some used_value \<Rightarrow>
                      rbind (parse_time x (sn_observed_at n)) (\<lambda>observed_at.
                      rbind (settled_before_tx x s pool_id observed_at) (\<lambda>settled_before.
                        Inr (saturating_sub (max0_u64 used_value) settled_before))))))"

definition pool_provider_snapshot_tx ::
    "externals \<Rightarrow> LedgerStore \<Rightarrow> PoolId \<Rightarrow> QuotaUnit \<Rightarrow> LedgerError + PoolProviderSnapshot option"
where
  "pool_provider_snapshot_tx x s pool_id unit =
     (case snapshot_row s pool_id of
        None \<Rightarrow> Inr None
      | Some n \<Rightarrow>
          rbind (ok_or invalid (confidence_de x (sn_confidence n))) (\<lambda>confidence.
          let reading =
            (if \<not> sn_disclosed n then Undisclosed
             else Used \<lparr>qa_unit = unit, qa_value = max0_u64 (coalesce 0 (sn_used_value n))\<rparr>
                    (map_option max0_u64 (sn_declared_limit n)))
          in
          rbind (parse_time x (sn_observed_at n)) (\<lambda>observed_at.
          rbind (transpose_opt (map_option (parse_time x) (sn_valid_until n))) (\<lambda>valid_until.
            Inr (Some \<lparr>pps_pool_id = pool_id, pps_observed_at = observed_at,
              pps_valid_until = valid_until, pps_reading = reading,
              pps_confidence = confidence\<rparr>)))))"

definition pool_provider_snapshot ::
    "externals \<Rightarrow> LedgerStore \<Rightarrow> PoolId \<Rightarrow> LedgerError + PoolProviderSnapshot option" where
  "pool_provider_snapshot x s pool_id =
     rbind (quota_pool x s pool_id) (\<lambda>pool.
       case pool of None \<Rightarrow> Inr None
       | Some pool \<Rightarrow> pool_provider_snapshot_tx x s pool_id (qp_unit pool))"

definition session_rows ::
    "LedgerStore \<Rightarrow> PoolId \<Rightarrow> PrincipalId \<Rightarrow> string \<Rightarrow> string \<Rightarrow> ReservationRow list" where
  "session_rows s pool_id principal_id session_id state =
     filter (\<lambda>r. r_pool_id r = pool_id \<and> r_principal_id r = principal_id
       \<and> r_session_id r = session_id \<and> r_state r = state) (reservations s)"

definition session_committed_tx ::
    "LedgerStore \<Rightarrow> PoolId \<Rightarrow> PrincipalId \<Rightarrow> string \<Rightarrow> LedgerError + u64" where
  "session_committed_tx s pool_id principal_id session_id =
     rbind (ok_or (Sqlite IntegerOverflow)
       (sql_sum (\<lambda>r. Some (r_amount r)) (session_rows s pool_id principal_id session_id ''active'')))
     (\<lambda>active.
     rbind (ok_or (Sqlite IntegerOverflow)
       (sql_sum r_settled_amount (session_rows s pool_id principal_id session_id ''settled'')))
     (\<lambda>settled. Inr (saturating_add (max0_u64 active) (max0_u64 settled))))"

section \<open>Effective capacity\<close>

datatype CapacitySource = ProviderSnapshot | LocalConfigured u64

definition overhang_for_tx ::
    "externals \<Rightarrow> LedgerStore \<Rightarrow> PoolId \<Rightarrow> CapacitySource \<Rightarrow> instant \<Rightarrow> LedgerError + u64" where
  "overhang_for_tx x s pool_id source now = (case source of
     LocalConfigured _ \<Rightarrow> Inr 0
   | ProviderSnapshot \<Rightarrow> external_overhang_tx x s pool_id now)"

definition effective_capacity_tx ::
    "externals \<Rightarrow> LedgerStore \<Rightarrow> QuotaPool \<Rightarrow> CapacitySource \<Rightarrow> instant
      \<Rightarrow> LedgerError + (SnapshotUnusable + u64)" where
  "effective_capacity_tx x s pool source now = (case source of
     LocalConfigured cap \<Rightarrow> Inr (Inr cap)
   | ProviderSnapshot \<Rightarrow>
       rbind (pool_provider_snapshot_tx x s (qp_pool_id pool) (qp_unit pool)) (\<lambda>snapshot.
         Inr (rbind (metered_snapshot_limit snapshot now) (\<lambda>declared_limit.
           Inr (min (qp_capacity pool) declared_limit)))))"

record SourcedAdmission =
  sa_admission :: PoolAdmission
  sa_capacity_known :: bool

definition pool_admission_for ::
    "externals \<Rightarrow> LedgerStore \<Rightarrow> PoolId \<Rightarrow> instant \<Rightarrow> CapacitySource
      \<Rightarrow> LedgerError + SourcedAdmission option" where
  "pool_admission_for x s pool_id now source =
     rbind (quota_pool x s pool_id) (\<lambda>pool.
     case pool of None \<Rightarrow> Inr None
     | Some pool \<Rightarrow>
         rbind (effective_capacity_tx x s pool source now) (\<lambda>effective.
         let capacity_known = (case effective of Inl _ \<Rightarrow> False | Inr _ \<Rightarrow> True);
             capacity = (case effective of Inl _ \<Rightarrow> qp_capacity pool | Inr c \<Rightarrow> c);
             (settled, active) = settled_and_active_tx s pool_id
         in rbind (overhang_for_tx x s pool_id source now) (\<lambda>external_overhang.
           Inr (Some \<lparr>sa_admission = \<lparr>pa_capacity = capacity, pa_settled = settled,
               pa_active = active, pa_external_overhang = external_overhang\<rparr>,
             sa_capacity_known = capacity_known\<rparr>))))"

definition pool_admission ::
    "externals \<Rightarrow> LedgerStore \<Rightarrow> PoolId \<Rightarrow> instant \<Rightarrow> LedgerError + PoolAdmission option" where
  "pool_admission x s pool_id now =
     rbind (quota_pool x s pool_id) (\<lambda>pool.
     case pool of None \<Rightarrow> Inr None
     | Some pool \<Rightarrow>
         let (settled, active) = settled_and_active_tx s pool_id
         in rbind (external_overhang_tx x s pool_id now) (\<lambda>external_overhang.
           Inr (Some \<lparr>pa_capacity = qp_capacity pool, pa_settled = settled,
             pa_active = active, pa_external_overhang = external_overhang\<rparr>)))"

section \<open>Row lookups\<close>

definition is_charge_row_tx :: "externals \<Rightarrow> LedgerStore \<Rightarrow> uuid \<Rightarrow> LedgerError + bool" where
  "is_charge_row_tx x s rid =
     rbind (ok_or (Sqlite QueryReturnedNoRows)
       (find (\<lambda>r. r_id r = uuid_to_string x rid) (reservations s))) (\<lambda>r. Inr (r_is_charge r))"

definition get_shared_reservation_tx ::
    "externals \<Rightarrow> LedgerStore \<Rightarrow> uuid \<Rightarrow> LedgerError + SharedPoolReservation option" where
  "get_shared_reservation_tx x s rid =
     transpose_opt (map_option (row_to_reservation x)
       (find (\<lambda>r. r_id r = uuid_to_string x rid) (reservations s)))"

definition find_by_key ::
    "LedgerStore \<Rightarrow> PoolId \<Rightarrow> PrincipalId \<Rightarrow> string \<Rightarrow> ReservationRow option" where
  "find_by_key s pool_id principal_id key =
     find (\<lambda>r. row_key r = (pool_id, principal_id, key)) (reservations s)"

text \<open>\<open>get_shared_reservation_tx(..)?.expect(..)\<close>.\<close>
definition get_expected ::
    "externals \<Rightarrow> LedgerStore \<Rightarrow> uuid \<Rightarrow> LedgerError + SharedPoolReservation" where
  "get_expected x s rid =
     rbind (get_shared_reservation_tx x s rid) (\<lambda>r. ok_or Panicked r)"

section \<open>Well-formed stores\<close>

text \<open>What the schema and the ledger's writers keep true of one row: its \<open>CHECK\<close>s, amounts inside
  \<open>i64\<close>, and a settled amount exactly on settled rows.\<close>
definition row_ok :: "ReservationRow \<Rightarrow> bool" where
  "row_ok r \<longleftrightarrow> reservation_checks r \<and> r_amount r \<le> i64_max
     \<and> (case r_settled_amount r of None \<Rightarrow> True | Some v \<Rightarrow> v \<le> i64_max)
     \<and> (r_state r = ''settled'' \<longleftrightarrow> r_settled_amount r \<noteq> None)"

definition store_ok :: "LedgerStore \<Rightarrow> bool" where
  "store_ok s \<longleftrightarrow>
     distinct (map r_id (reservations s))
   \<and> distinct (map row_key (reservations s))
   \<and> distinct (map pr_pool_id (quota_pools s))
   \<and> distinct (map sn_pool_id (snapshots s))
   \<and> list_all row_ok (reservations s)
   \<and> list_all (\<lambda>r. r_pool_id r \<in> set (map pr_pool_id (quota_pools s))) (reservations s)
   \<and> list_all (\<lambda>p. 0 \<le> pr_capacity p \<and> pr_capacity p \<le> i64_max) (quota_pools s)"

text \<open>A row the ledger's readers accept, whose id is the printed form of the id it reads as.\<close>
definition row_intact :: "externals \<Rightarrow> ReservationRow \<Rightarrow> bool" where
  "row_intact x r \<longleftrightarrow> (case row_to_reservation x r of Inl _ \<Rightarrow> False
     | Inr res \<Rightarrow> uuid_to_string x (spr_id res) = r_id r)"

section \<open>Accounting in unbounded arithmetic\<close>

definition settled_value :: "PoolId \<Rightarrow> ReservationRow \<Rightarrow> int" where
  "settled_value p r =
     (if r_pool_id r = p \<and> r_state r = ''settled'' then coalesce 0 (r_settled_amount r) else 0)"

definition active_value :: "PoolId \<Rightarrow> ReservationRow \<Rightarrow> int" where
  "active_value p r = (if r_pool_id r = p \<and> r_state r = ''active'' then r_amount r else 0)"

definition settled_total :: "LedgerStore \<Rightarrow> PoolId \<Rightarrow> int" where
  "settled_total s p = sum_col (settled_value p) (reservations s)"

definition active_total :: "LedgerStore \<Rightarrow> PoolId \<Rightarrow> int" where
  "active_total s p = sum_col (active_value p) (reservations s)"

definition committed_total :: "LedgerStore \<Rightarrow> PoolId \<Rightarrow> int" where
  "committed_total s p = settled_total s p + active_total s p"

lemma sql_sum_from_nonneg:
  assumes "list_all (\<lambda>v. 0 \<le> v) vs" "0 \<le> acc" "acc \<le> i64_max"
  shows "sql_sum_from acc vs =
    (if acc + sum_list vs \<le> i64_max then Some (acc + sum_list vs) else None)"
  using assms
proof (induction vs arbitrary: acc)
  case (Cons v vs)
  have "0 \<le> sum_list vs" using Cons.prems(1) by (induction vs) auto
  with Cons show ?case
    by (cases "acc + v \<le> i64_max") (auto simp: i64_min_def add.assoc)
qed simp

lemma fold_saturating_add:
  "uint (fold (\<lambda>r tot. saturating_add tot (g r)) rs a) =
     min (uint a + sum_col (\<lambda>r. uint (g r)) rs) u64_max"
proof (induction rs arbitrary: a)
  case Nil
  then show ?case using uint_u64_bounds(2) [of a] by (simp add: min_def)
next
  case (Cons r rs)
  have "0 \<le> sum_col (\<lambda>r. uint (g r)) rs" by (simp add: sum_col_nonneg)
  then show ?case by (simp add: Cons.IH uint_saturating_add min_def)
qed

lemma map_filter_sum: "sum_list (List.map_filter f xs) = sum_col (\<lambda>r. coalesce 0 (f r)) xs"
  by (induction xs) (auto simp: map_filter_simps split: option.splits)

lemma sum_col_filter:
  "sum_col f (filter P xs) = sum_col (\<lambda>x. if P x then f x else 0) xs"
  by (induction xs) auto

lemma saturating_sum_exact:
  assumes "\<And>r v. r \<in> set rows \<Longrightarrow> column r = Some v \<Longrightarrow> 0 \<le> v \<and> v \<le> i64_max"
  shows "uint (case sql_sum column rows of Some tot \<Rightarrow> max0_u64 tot
      | None \<Rightarrow> fold (\<lambda>r tot. saturating_add tot (max0_u64 (coalesce 0 (column r)))) rows 0)
    = min (sum_col (\<lambda>r. coalesce 0 (column r)) rows) u64_max"
proof -
  let ?t = "sum_col (\<lambda>r. coalesce 0 (column r)) rows"
  have bounds: "0 \<le> coalesce 0 (column r) \<and> coalesce 0 (column r) \<le> i64_max" if "r \<in> set rows" for r
    using assms [OF that] by (cases "column r") (auto simp: i64_max_def)
  have "list_all (\<lambda>v. 0 \<le> v) (List.map_filter column rows)"
    using assms by (force simp: list_all_iff List.map_filter_def)
  then have sum: "sql_sum column rows = (if ?t \<le> i64_max then Some ?t else None)"
    by (simp add: sql_sum_def sql_sum_from_nonneg map_filter_sum i64_max_def)
  have nonneg: "0 \<le> ?t" using bounds by (intro sum_col_nonneg) auto
  have "sum_col (\<lambda>r. uint (max0_u64 (coalesce 0 (column r)))) rows = ?t"
    using bounds by (intro sum_col_cong) (simp add: uint_max0_i64)
  then show ?thesis
    using nonneg sum fold_saturating_add [of "\<lambda>r. max0_u64 (coalesce 0 (column r))" rows 0]
    by (cases "?t \<le> i64_max") (auto simp: uint_max0_u64 i64_max_def u64_max_def min_def)
qed

lemma row_ok_bounds:
  "row_ok r \<Longrightarrow> 0 \<le> r_amount r \<and> r_amount r \<le> i64_max"
  "row_ok r \<Longrightarrow> r_settled_amount r = Some v \<Longrightarrow> 0 \<le> v \<and> v \<le> i64_max"
  by (auto simp: row_ok_def reservation_checks_def)

lemma row_ok_values:
  "row_ok r \<Longrightarrow> 0 \<le> settled_value p r \<and> settled_value p r \<le> i64_max"
  "row_ok r \<Longrightarrow> 0 \<le> active_value p r \<and> active_value p r \<le> i64_max"
  using row_ok_bounds [of r]
  by (cases "r_settled_amount r"; auto simp: settled_value_def active_value_def i64_max_def)+

text \<open>The saturating column sums of the code are the unbounded sums, capped at \<open>u64::MAX\<close>.\<close>
lemma settled_and_active_exact:
  assumes "list_all row_ok (reservations s)" "settled_and_active_tx s p = (settled, active)"
  shows "uint settled = min (settled_total s p) u64_max"
    and "uint active = min (active_total s p) u64_max"
proof -
  have ok: "row_ok r" if "r \<in> set (pool_state_rows s p st)" for r st
    using that assms(1) by (auto simp: pool_state_rows_def list_all_iff)
  have "uint settled = min (sum_col (\<lambda>r. coalesce 0 (r_settled_amount r))
      (pool_state_rows s p ''settled'')) u64_max"
    using assms(2) saturating_sum_exact [of "pool_state_rows s p ''settled''" r_settled_amount]
      row_ok_bounds(2) [OF ok]
    by (auto simp: settled_and_active_tx_def saturating_amount_sum_def Let_def)
  then show "uint settled = min (settled_total s p) u64_max"
    by (simp add: pool_state_rows_def sum_col_filter settled_total_def
        settled_value_def [abs_def])
  have "uint active = min (sum_col (\<lambda>r. coalesce 0 (Some (r_amount r)))
      (pool_state_rows s p ''active'')) u64_max"
    using assms(2) saturating_sum_exact [of "pool_state_rows s p ''active''" "\<lambda>r. Some (r_amount r)"]
      row_ok_bounds(1) [OF ok]
    by (auto simp: settled_and_active_tx_def saturating_amount_sum_def Let_def)
  then show "uint active = min (active_total s p) u64_max"
    by (simp add: pool_state_rows_def sum_col_filter active_total_def
        active_value_def [abs_def])
qed

lemma totals_nonneg:
  assumes "list_all row_ok (reservations s)"
  shows "0 \<le> settled_total s p" "0 \<le> active_total s p"
  using assms row_ok_values
  by (auto simp: settled_total_def active_total_def list_all_iff intro!: sum_col_nonneg)

section \<open>Reading back what was written\<close>

lemma externals_okD:
  assumes "externals_ok x"
  shows "time_format x t = Some s \<Longrightarrow> time_parse x s = Some t"
    and "time_checked_add x t n = Some t' \<Longrightarrow> t' = t + n * ns_per_sec"
    and "uuid_parse_str x (uuid_to_string x u) = Some u"
    and "unit_ser x q = Some s \<Longrightarrow> unit_de x s = Some q"
    and "confidence_ser x c = Some s \<Longrightarrow> confidence_de x s = Some c"
    and "ids_ser x l = Some s \<Longrightarrow> ids_de x s = Some l"
  using assms by (auto simp: externals_ok_def)

lemma uuid_to_string_inj [simp]:
  "externals_ok x \<Longrightarrow> uuid_to_string x a = uuid_to_string x b \<longleftrightarrow> a = b"
  by (metis externals_okD(3) option.inject)

lemma rfc3339_parse [simp]:
  "externals_ok x \<Longrightarrow> rfc3339 x t = Inr s \<Longrightarrow> parse_time x s = Inr t"
  by (simp add: rfc3339_def parse_time_def ok_or_eq_Inr externals_okD(1))

lemma checked_i64_eq_Inr [res_simps]: "checked_i64 v = Inr i \<longleftrightarrow> i = uint v \<and> uint v \<le> i64_max"
  by (auto simp: checked_i64_def)

lemma get_u64_uint [simp]: "get_u64 (uint v) = Inr v"
  by (simp add: get_u64_def not_less)

lemma get_u64_eq_Inr [res_simps]: "get_u64 i = Inr v \<longleftrightarrow> 0 \<le> i \<and> v = word_of_int i"
  by (auto simp: get_u64_def)

lemma state_from_str_eq_Inr [res_simps]:
  "state_from_str s = Inr Active \<longleftrightarrow> s = ''active''"
  "state_from_str s = Inr Settled \<longleftrightarrow> s = ''settled''"
  "state_from_str s = Inr Released \<longleftrightarrow> s = ''released''"
  "state_from_str s = Inr Expired \<longleftrightarrow> s = ''expired''"
  by (auto simp: state_from_str_def)

lemma ex_rbind_Inr: "(\<exists>y. rbind r k = Inr y \<and> P y) \<longleftrightarrow> (\<exists>v. r = Inr v \<and> (\<exists>y. k v = Inr y \<and> P y))"
  by (cases r) auto

lemma ex_parse_columns:
  "(\<exists>v. transpose_opt (map_option f c) = Inr v) \<longleftrightarrow> (\<forall>t. c = Some t \<longrightarrow> (\<exists>v. f t = Inr v))"
  by (cases c) (auto simp: transpose_opt_eq_Inr)

text \<open>A row is intact iff each of its columns is, so an update of some columns is checked on those.\<close>
lemma row_intact_iff:
  "row_intact x r \<longleftrightarrow>
     0 \<le> r_amount r \<and> (\<forall>v. r_settled_amount r = Some v \<longrightarrow> 0 \<le> v)
   \<and> (\<exists>u. uuid_parse_str x (r_id r) = Some u \<and> uuid_to_string x u = r_id r)
   \<and> (\<exists>st. state_from_str (r_state r) = Inr st)
   \<and> (\<exists>t. parse_time x (r_created_at r) = Inr t) \<and> (\<exists>t. parse_time x (r_expires_at r) = Inr t)
   \<and> (\<forall>s. r_settled_at r = Some s \<longrightarrow> (\<exists>t. parse_time x s = Inr t))
   \<and> (\<forall>s. r_released_at r = Some s \<longrightarrow> (\<exists>t. parse_time x s = Inr t))
   \<and> (\<forall>k. r_executor_kind r = Some k \<longrightarrow> (\<exists>v. ExecutorKind_parse k = Some v))
   \<and> (\<forall>c. r_charge_source r = Some c \<longrightarrow> (\<exists>v. ChargeSource_parse c = Some v))"
proof -
  have "row_intact x r \<longleftrightarrow> (\<exists>res. row_to_reservation x r = Inr res \<and> uuid_to_string x (spr_id res) = r_id r)"
    by (auto simp: row_intact_def split: sum.splits)
  also have "\<dots> \<longleftrightarrow> (\<exists>v. get_u64 (r_amount r) = Inr v)
     \<and> (\<exists>v. transpose_opt (map_option get_u64 (r_settled_amount r)) = Inr v)
     \<and> (\<exists>u. uuid_parse_str x (r_id r) = Some u \<and> uuid_to_string x u = r_id r)
     \<and> (\<exists>st. state_from_str (r_state r) = Inr st)
     \<and> (\<exists>t. parse_time x (r_created_at r) = Inr t) \<and> (\<exists>t. parse_time x (r_expires_at r) = Inr t)
     \<and> (\<exists>v. transpose_opt (map_option (parse_time x) (r_settled_at r)) = Inr v)
     \<and> (\<exists>v. transpose_opt (map_option (parse_time x) (r_released_at r)) = Inr v)
     \<and> (\<exists>v. transpose_opt (map_option (\<lambda>k. ok_or invalid (ExecutorKind_parse k)) (r_executor_kind r))
          = Inr v)
     \<and> (\<exists>v. transpose_opt (map_option (\<lambda>c. ok_or invalid (ChargeSource_parse c)) (r_charge_source r))
          = Inr v)"
    unfolding row_to_reservation_def ex_rbind_Inr by (simp add: ok_or_eq_Inr) blast
  finally show ?thesis
    unfolding ex_parse_columns by (simp add: get_u64_eq_Inr ok_or_eq_Inr)
qed
lemma state_from_str_known [simp]:
  "state_from_str ''active'' = Inr Active" "state_from_str ''settled'' = Inr Settled"
  "state_from_str ''released'' = Inr Released" "state_from_str ''expired'' = Inr Expired"
  by (simp_all add: state_from_str_def)

lemma row_to_reservation_fields:
  assumes "row_to_reservation x row = Inr res"
  shows "get_u64 (r_amount row) = Inr (spr_amount res)"
    and "state_from_str (r_state row) = Inr (spr_state res)"
    and "uuid_parse_str x (r_id row) = Some (spr_id res)"
    and "spr_pool_id res = r_pool_id row" "spr_principal_id res = r_principal_id row"
    and "spr_session_id res = r_session_id row"
    and "spr_idempotency_key res = r_idempotency_key row"
    and "parse_time x (r_expires_at row) = Inr (spr_expires_at res)"
    and "parse_time x (r_created_at row) = Inr (spr_created_at res)"
    and "transpose_opt (map_option get_u64 (r_settled_amount row)) = Inr (spr_settled_amount res)"
    and "transpose_opt (map_option (\<lambda>k. ok_or invalid (ExecutorKind_parse k)) (r_executor_kind row))
      = Inr (spr_executor_kind res)"
    and "transpose_opt (map_option (\<lambda>c. ok_or invalid (ChargeSource_parse c)) (r_charge_source row))
      = Inr (spr_charge_source res)"
    and "spr_usage_known res = r_usage_known row" "spr_agent_id res = r_agent_id row"
  using assms by (auto simp: row_to_reservation_def rbind_eq_Inr ok_or_eq_Inr)

lemma row_intactE:
  assumes "row_intact x r"
  obtains res where "row_to_reservation x r = Inr res"
    "uuid_parse_str x (r_id r) = Some (spr_id res)" "uuid_to_string x (spr_id res) = r_id r"
  using assms row_to_reservation_fields(3) by (auto simp: row_intact_def split: sum.splits)

lemma row_to_reservation_state:
  assumes "row_to_reservation x row = Inr res"
  shows "spr_state res = Active \<longleftrightarrow> r_state row = ''active''"
    and "spr_state res = Settled \<longleftrightarrow> r_state row = ''settled''"
    and "spr_state res = Released \<longleftrightarrow> r_state row = ''released''"
    and "spr_state res = Expired \<longleftrightarrow> r_state row = ''expired''"
  using row_to_reservation_fields(2) [OF assms]
  by (auto simp: state_from_str_def split: if_splits)

lemma row_to_reservation_amount:
  "row_to_reservation x row = Inr res \<Longrightarrow> row_ok row \<Longrightarrow> uint (spr_amount res) = r_amount row"
  using row_to_reservation_fields(1) [of x row res] row_ok_bounds(1) [of row]
  by (auto simp: get_u64_eq_Inr uint_word_of_int i64_max_def mod_pos_pos_trivial)

lemma get_shared_reservation_tx_eq_Some:
  "get_shared_reservation_tx x s rid = Inr (Some res) \<longleftrightarrow>
     (\<exists>row. find (\<lambda>r. r_id r = uuid_to_string x rid) (reservations s) = Some row
        \<and> row_to_reservation x row = Inr res)"
  by (auto simp: get_shared_reservation_tx_def transpose_opt_eq_Inr)

lemma get_shared_reservation_tx_eq_None:
  "get_shared_reservation_tx x s rid = Inr None \<longleftrightarrow>
     find (\<lambda>r. r_id r = uuid_to_string x rid) (reservations s) = None"
  by (auto simp: get_shared_reservation_tx_def transpose_opt_eq_Inr)

lemma get_expected_eq_Inr [res_simps]:
  "get_expected x s rid = Inr res \<longleftrightarrow> get_shared_reservation_tx x s rid = Inr (Some res)"
  by (auto simp: get_expected_def rbind_eq_Inr ok_or_eq_Inr)

lemma quota_pool_eq_Some:
  "quota_pool x s p = Inr (Some pool) \<longleftrightarrow>
     (\<exists>row. find (\<lambda>r. pr_pool_id r = p) (quota_pools s) = Some row \<and> row_to_pool x p row = Inr pool)"
  by (auto simp: quota_pool_def transpose_opt_eq_Inr)

text \<open>Replacing the one row an id selects, in the unbounded accounting.\<close>
lemma totals_update_row:
  assumes "distinct (map r_id (reservations s))"
    and "find (\<lambda>r. r_id r = i) (reservations s) = Some row" "P row"
  shows "sum_col g (update_where (\<lambda>r. r_id r = i \<and> P r) f (reservations s))
    = sum_col g (reservations s) - g row + g (f row)"
  using assms find_Some_mem [OF assms(2)]
  by (intro sum_col_update_unique [where k = r_id]) auto

end
