(* ===== verification/Demo_Externals.thy ===== *)
theory Demo_Externals
  imports Pool_Store
begin

text \<open>
  A concrete instance of the external crates, used to show that the hypothesis
  \<^const>\<open>externals_ok\<close> can hold and to run the model on concrete inputs: numbers are written as
  their binary digits, the other values by a one-letter tag.
\<close>

fun int_bits :: "int \<Rightarrow> string" where
  "int_bits n = (if n \<le> 0 then []
     else (if even n then CHR ''0'' else CHR ''1'') # int_bits (n div 2))"

declare int_bits.simps [simp del]

fun bits_int :: "string \<Rightarrow> int" where
  "bits_int [] = 0"
| "bits_int (c # cs) = (if c = CHR ''1'' then 1 else 0) + 2 * bits_int cs"

lemma bits_int_int_bits: "0 \<le> n \<Longrightarrow> bits_int (int_bits n) = n"
proof (induction n rule: int_bits.induct)
  case (1 n)
  show ?case
  proof (cases "n \<le> 0")
    case True
    with 1 show ?thesis by (simp add: int_bits.simps)
  next
    case False
    then have "int_bits n = (if even n then CHR ''0'' else CHR ''1'') # int_bits (n div 2)"
      by (subst int_bits.simps) simp
    with 1 False show ?thesis by simp presburger
  qed
qed

definition demo_unit_ser :: "QuotaUnit \<Rightarrow> string option" where
  "demo_unit_ser u = Some (case u of UsdCents \<Rightarrow> ''u'' | Tokens \<Rightarrow> ''t'' | Requests \<Rightarrow> ''r''
     | Percent \<Rightarrow> ''p'' | OpaqueCredit (CreditNamespace n) \<Rightarrow> CHR ''o'' # n)"

definition demo_unit_de :: "string \<Rightarrow> QuotaUnit option" where
  "demo_unit_de s = (case s of [] \<Rightarrow> None
     | c # n \<Rightarrow> if c = CHR ''u'' then Some UsdCents else if c = CHR ''t'' then Some Tokens
         else if c = CHR ''r'' then Some Requests else if c = CHR ''p'' then Some Percent
         else Some (OpaqueCredit (CreditNamespace n)))"

definition demo_confidence_ser :: "Confidence \<Rightarrow> string option" where
  "demo_confidence_ser c = Some (case c of Low \<Rightarrow> ''l'' | Medium \<Rightarrow> ''m'' | High \<Rightarrow> ''h'')"

definition demo_confidence_de :: "string \<Rightarrow> Confidence option" where
  "demo_confidence_de s = (if s = ''l'' then Some Low else if s = ''m'' then Some Medium
     else if s = ''h'' then Some High else None)"

definition demo_externals :: externals where
  "demo_externals =
     \<lparr>time_format = (\<lambda>t. if 0 \<le> t then Some (int_bits t) else None),
      time_parse = (\<lambda>s. Some (bits_int s)),
      time_checked_add = (\<lambda>t n. Some (t + n * ns_per_sec)),
      uuid_to_string = (\<lambda>u. int_bits (uint u)),
      uuid_parse_str = (\<lambda>s. Some (word_of_int (bits_int s))),
      unit_ser = demo_unit_ser, unit_de = demo_unit_de,
      confidence_ser = demo_confidence_ser, confidence_de = demo_confidence_de,
      ids_ser = (\<lambda>l. case l of [i] \<Rightarrow> Some i | _ \<Rightarrow> None), ids_de = (\<lambda>s. Some [s])\<rparr>"

lemma demo_externals_ok: "externals_ok demo_externals"
proof -
  have "demo_unit_ser u = Some s \<Longrightarrow> demo_unit_de s = Some u" for u s
    by (cases u) (auto simp: demo_unit_ser_def demo_unit_de_def split: CreditNamespace.splits)
  moreover have "demo_confidence_ser c = Some s \<Longrightarrow> demo_confidence_de s = Some c" for c s
    by (cases c) (auto simp: demo_confidence_ser_def demo_confidence_de_def)
  ultimately show ?thesis
    by (auto simp: externals_ok_def demo_externals_def bits_int_int_bits split: list.splits)
qed

text \<open>A store with one 10-token pool.\<close>
definition demo_store :: LedgerStore where
  "demo_store = empty_store\<lparr>quota_pools :=
     [\<lparr>pr_pool_id = ''p'', pr_unit_json = ''t'', pr_capacity = 10,
       pr_schema_version = SHARED_POOL_RESERVATION_SCHEMA_VERSION,
       pr_created_at = '''', pr_updated_at = ''''\<rparr>]\<rparr>"

end
