(* ===== verification/Pool_Reserve.thy ===== *)
theory Pool_Reserve
  imports Demo_Externals
begin

text \<open>
  Pool creation and reservation in the shared-pool ledger (\<open>impl LedgerStore\<close> in
  \<open>crates/ledger/src/shared_pool.rs\<close>): executor attribution, \<open>ensure_pool\<close>, the common reserve
  path with its optional metered gate, its plain, metered and for-a-prompt entry points, and the
  prompts a hold has accepted. Each definition is the whole method, guards and early returns in
  the source's order. A fresh UUID is an argument, so nothing is assumed of its randomness: a
  colliding id fails on the primary key.
\<close>

section \<open>Executor attribution\<close>

record ExecutorAttribution =
  ea_agent_id :: "string option"
  ea_executor_kind :: "ExecutorKind option"
  ea_charge_source :: "ChargeSource option"

definition attribution_default :: ExecutorAttribution where
  "attribution_default = \<lparr>ea_agent_id = None, ea_executor_kind = None, ea_charge_source = None\<rparr>"

definition main_executor :: "ChargeSource option \<Rightarrow> ExecutorAttribution" where
  "main_executor c = \<lparr>ea_agent_id = None, ea_executor_kind = Some AgentAbsent, ea_charge_source = c\<rparr>"

definition agent_attribution :: "string \<Rightarrow> ChargeSource option \<Rightarrow> ExecutorAttribution" where
  "agent_attribution a c = \<lparr>ea_agent_id = Some a, ea_executor_kind = Some Agent, ea_charge_source = c\<rparr>"

definition unattributed :: "ChargeSource option \<Rightarrow> ExecutorAttribution" where
  "unattributed c = \<lparr>ea_agent_id = None, ea_executor_kind = Some Unattributed, ea_charge_source = c\<rparr>"

definition attribution_resolve ::
    "ExecutorAttribution \<Rightarrow> LedgerError + ExecutorAttribution" where
  "attribution_resolve a =
     (if ea_agent_id a = Some [] then Inl invalid
      else rbind (case (ea_executor_kind a, ea_agent_id a) of
            (Some Agent, Some _) \<Rightarrow> Inr (Some Agent)
          | (Some Agent, None) \<Rightarrow> Inl invalid
          | (Some AgentAbsent, Some _) \<Rightarrow> Inl invalid
          | (Some Unattributed, Some _) \<Rightarrow> Inl invalid
          | (Some kind, None) \<Rightarrow> Inr (Some kind)
          | (None, Some _) \<Rightarrow> Inr (Some Agent)
          | (None, None) \<Rightarrow> Inr None)
        (\<lambda>kind. Inr \<lparr>ea_agent_id = ea_agent_id a, ea_executor_kind = kind,
           ea_charge_source = ea_charge_source a\<rparr>))"

section \<open>Watermarks\<close>

record SettleWatermark =
  wm_at :: "instant option"
  wm_message_ids :: "string list"

definition watermark_columns ::
    "externals \<Rightarrow> SettleWatermark option \<Rightarrow> LedgerError + (string option \<times> string option)" where
  "watermark_columns x watermark = (case watermark of
     None \<Rightarrow> Inr (None, None)
   | Some w \<Rightarrow>
       rbind (transpose_opt (map_option (rfc3339 x) (wm_at w))) (\<lambda>at.
       rbind (if wm_message_ids w = [] then Inr None
              else rbind (ok_or invalid (ids_ser x (wm_message_ids w))) (\<lambda>j. Inr (Some j)))
       (\<lambda>ids. Inr (at, ids))))"

section \<open>Creating a pool\<close>

text \<open>The row is read back after the commit, so an unreadable existing row is an error that
  leaves the (unchanged) store committed.\<close>
definition ensure_pool ::
    "externals \<Rightarrow> LedgerStore \<Rightarrow> PoolId \<Rightarrow> QuotaUnit \<Rightarrow> u64 \<Rightarrow> instant
      \<Rightarrow> (LedgerError + QuotaPool) \<times> LedgerStore" where
  "ensure_pool x s pool_id unit capacity now =
     (case rbind (unit_to_json x unit) (\<lambda>unit_json.
           rbind (rfc3339 x now) (\<lambda>now_str.
           rbind (checked_i64 capacity) (\<lambda>capacity_i64.
             Inr \<lparr>pr_pool_id = pool_id, pr_unit_json = unit_json, pr_capacity = capacity_i64,
               pr_schema_version = SHARED_POOL_RESERVATION_SCHEMA_VERSION,
               pr_created_at = now_str, pr_updated_at = now_str\<rparr>))) of
        Inl e \<Rightarrow> (Inl e, s)
      | Inr fresh \<Rightarrow>
          let s' = (if pool_id \<in> set (map pr_pool_id (quota_pools s)) then s
                    else s\<lparr>quota_pools := quota_pools s @ [fresh]\<rparr>)
          in (case find (\<lambda>p. pr_pool_id p = pool_id) (quota_pools s') of
                None \<Rightarrow> (Inl (Sqlite QueryReturnedNoRows), s)
              | Some row \<Rightarrow> (row_to_pool x pool_id row, s')))"

section \<open>Reserving\<close>

record SharedPoolReserveRequest =
  rq_pool_id :: PoolId
  rq_principal_id :: PrincipalId
  rq_session_id :: string
  rq_amount :: u64
  rq_unit :: QuotaUnit
  rq_idempotency_key :: string
  rq_now :: instant
  rq_ttl_secs :: u64
  rq_attribution :: ExecutorAttribution

record MeteredGate =
  mg_session_cap :: "u64 option"
  mg_capacity_source :: CapacitySource

datatype CoreReserveOutcome =
    Core_Granted SharedPoolReservation
  | Core_AlreadyGranted SharedPoolReservation
  | Core_Insufficient PoolAdmission u64
  | Core_NoPool
  | Core_SnapshotUnusable SnapshotUnusable
  | Core_SessionCapExceeded u64 u64 u64

text \<open>\<open>now.checked_add(Duration::seconds(min(ttl_secs, MAX_TTL_SECS)))\<close>.\<close>
definition expiry_after :: "externals \<Rightarrow> instant \<Rightarrow> u64 \<Rightarrow> LedgerError + instant" where
  "expiry_after x now ttl_secs =
     ok_or invalid (time_checked_add x now (uint (min ttl_secs MAX_TTL_SECS)))"

definition hold_row ::
    "externals \<Rightarrow> SharedPoolReserveRequest \<Rightarrow> ExecutorAttribution \<Rightarrow> uuid \<Rightarrow> int \<Rightarrow> string \<Rightarrow> string
      \<Rightarrow> ReservationRow" where
  "hold_row x req attribution rid amount_i64 now_str expires_str =
     \<lparr>r_id = uuid_to_string x rid, r_pool_id = rq_pool_id req,
      r_principal_id = rq_principal_id req, r_session_id = rq_session_id req,
      r_amount = amount_i64, r_state = ''active'', r_settled_amount = None,
      r_usage_known = None, r_idempotency_key = rq_idempotency_key req,
      r_created_at = now_str, r_expires_at = expires_str, r_settled_at = None,
      r_released_at = None, r_schema_version = SHARED_POOL_RESERVATION_SCHEMA_VERSION,
      r_agent_id = ea_agent_id attribution,
      r_executor_kind = map_option ExecutorKind_as_str (ea_executor_kind attribution),
      r_charge_source = map_option ChargeSource_as_str (ea_charge_source attribution),
      r_is_charge = False, r_watermark_ts = None, r_watermark_message_ids = None\<rparr>"

definition granted_reservation ::
    "SharedPoolReserveRequest \<Rightarrow> ExecutorAttribution \<Rightarrow> uuid \<Rightarrow> instant \<Rightarrow> SharedPoolReservation" where
  "granted_reservation req attribution rid expires_at =
     \<lparr>spr_id = rid, spr_pool_id = rq_pool_id req, spr_principal_id = rq_principal_id req,
      spr_session_id = rq_session_id req, spr_amount = rq_amount req, spr_state = Active,
      spr_settled_amount = None, spr_usage_known = None,
      spr_idempotency_key = rq_idempotency_key req, spr_created_at = rq_now req,
      spr_expires_at = expires_at, spr_settled_at = None, spr_released_at = None,
      spr_schema_version = SHARED_POOL_RESERVATION_SCHEMA_VERSION,
      spr_agent_id = ea_agent_id attribution, spr_executor_kind = ea_executor_kind attribution,
      spr_charge_source = ea_charge_source attribution\<rparr>"

text \<open>The admission half of \<open>reserve_shared_core\<close>: the gates after the pool is found, either a
  refusal or the admission the grant rests on.\<close>
definition admission_decision ::
    "externals \<Rightarrow> LedgerStore \<Rightarrow> SharedPoolReserveRequest \<Rightarrow> MeteredGate option \<Rightarrow> QuotaPool
      \<Rightarrow> LedgerError + (CoreReserveOutcome + PoolAdmission)" where
  "admission_decision x s req metered pool =
     rbind (case metered of None \<Rightarrow> Inr (Inr (qp_capacity pool))
            | Some gate \<Rightarrow> effective_capacity_tx x s pool (mg_capacity_source gate) (rq_now req))
     (\<lambda>effective.
       case effective of
         Inl reason \<Rightarrow> Inr (Inl (Core_SnapshotUnusable reason))
       | Inr effective_capacity \<Rightarrow>
           rbind (case metered of
               None \<Rightarrow> Inr None
             | Some gate \<Rightarrow>
                 (case mg_session_cap gate of
                    None \<Rightarrow> Inr None
                  | Some cap \<Rightarrow>
                      rbind (session_committed_tx s (rq_pool_id req) (rq_principal_id req)
                          (rq_session_id req)) (\<lambda>committed.
                        Inr (if cap < saturating_add committed (rq_amount req)
                             then Some (Core_SessionCapExceeded committed cap (rq_amount req))
                             else None))))
           (\<lambda>refused.
             case refused of
               Some outcome \<Rightarrow> Inr (Inl outcome)
             | None \<Rightarrow>
                 let (settled, active) = settled_and_active_tx s (rq_pool_id req);
                     overhang_source = (case metered of None \<Rightarrow> ProviderSnapshot
                        | Some gate \<Rightarrow> mg_capacity_source gate)
                 in rbind (overhang_for_tx x s (rq_pool_id req) overhang_source (rq_now req))
                    (\<lambda>external_overhang.
                      let admission = \<lparr>pa_capacity = effective_capacity, pa_settled = settled,
                            pa_active = active, pa_external_overhang = external_overhang\<rparr>
                      in Inr (if \<not> pa_admits admission (rq_amount req)
                              then Inl (Core_Insufficient admission (rq_amount req))
                              else Inr admission))))"

definition reserve_shared_core ::
    "externals \<Rightarrow> LedgerStore \<Rightarrow> SharedPoolReserveRequest \<Rightarrow> MeteredGate option \<Rightarrow> uuid
      \<Rightarrow> LedgerError + (CoreReserveOutcome \<times> LedgerStore)" where
  "reserve_shared_core x s req metered rid =
     rbind (attribution_resolve (rq_attribution req)) (\<lambda>attribution.
     case find_by_key s (rq_pool_id req) (rq_principal_id req) (rq_idempotency_key req) of
       Some row \<Rightarrow>
         rbind (row_to_reservation x row) (\<lambda>existing.
         rbind (is_charge_row_tx x s (spr_id existing)) (\<lambda>is_charge.
           if is_charge then Inl SharedPoolKeyConflict
           else Inr (Core_AlreadyGranted existing, s)))
     | None \<Rightarrow>
         (case find (\<lambda>p. pr_pool_id p = rq_pool_id req) (quota_pools s) of
            None \<Rightarrow> Inr (Core_NoPool, s)
          | Some pool_row \<Rightarrow>
              rbind (row_to_pool x (rq_pool_id req) pool_row) (\<lambda>pool.
              if rq_unit req \<noteq> qp_unit pool
              then Inl (QuotaUnitMismatch (qp_unit pool) (rq_unit req))
              else rbind (admission_decision x s req metered pool) (\<lambda>decision.
                case decision of
                  Inl refused \<Rightarrow> Inr (refused, s)
                | Inr admission \<Rightarrow>
                    rbind (expiry_after x (rq_now req) (rq_ttl_secs req)) (\<lambda>expires_at.
                    rbind (checked_i64 (rq_amount req)) (\<lambda>amount_i64.
                    rbind (rfc3339 x (rq_now req)) (\<lambda>now_str.
                    rbind (rfc3339 x expires_at) (\<lambda>expires_str.
                    rbind (insert_reservation s
                        (hold_row x req attribution rid amount_i64 now_str expires_str)) (\<lambda>s'.
                      Inr (Core_Granted (granted_reservation req attribution rid expires_at), s')
                    )))))))))"

datatype SharedPoolReserveOutcome =
    Granted SharedPoolReservation
  | AlreadyGranted SharedPoolReservation
  | Insufficient PoolAdmission u64
  | NoPool

definition reserve_shared ::
    "externals \<Rightarrow> LedgerStore \<Rightarrow> SharedPoolReserveRequest \<Rightarrow> uuid
      \<Rightarrow> LedgerError + (SharedPoolReserveOutcome \<times> LedgerStore)" where
  "reserve_shared x s req rid =
     rbind (reserve_shared_core x s req None rid) (\<lambda>(outcome, s').
       case outcome of
         Core_Granted r \<Rightarrow> Inr (Granted r, s')
       | Core_AlreadyGranted r \<Rightarrow> Inr (AlreadyGranted r, s')
       | Core_Insufficient admission requested \<Rightarrow> Inr (Insufficient admission requested, s')
       | Core_NoPool \<Rightarrow> Inr (NoPool, s')
       | Core_SnapshotUnusable _ \<Rightarrow> Inl Panicked
       | Core_SessionCapExceeded _ _ _ \<Rightarrow> Inl Panicked)"

datatype MeteredReserveOutcome =
    Metered_Granted SharedPoolReservation
  | Metered_AlreadyGranted SharedPoolReservation
  | Metered_Insufficient PoolAdmission u64
  | Metered_NoPool
  | Metered_SnapshotUnusable SnapshotUnusable
  | Metered_SessionCapExceeded u64 u64 u64

record MeteredReserveRequest =
  mr_base :: SharedPoolReserveRequest
  mr_session_cap :: "u64 option"
  mr_capacity_source :: CapacitySource

definition reserve_shared_metered ::
    "externals \<Rightarrow> LedgerStore \<Rightarrow> MeteredReserveRequest \<Rightarrow> uuid
      \<Rightarrow> LedgerError + (MeteredReserveOutcome \<times> LedgerStore)" where
  "reserve_shared_metered x s req rid =
     rbind (reserve_shared_core x s (mr_base req)
        (Some \<lparr>mg_session_cap = mr_session_cap req, mg_capacity_source = mr_capacity_source req\<rparr>) rid)
     (\<lambda>(outcome, s').
       Inr (case outcome of
         Core_Granted r \<Rightarrow> Metered_Granted r
       | Core_AlreadyGranted r \<Rightarrow> Metered_AlreadyGranted r
       | Core_Insufficient admission requested \<Rightarrow> Metered_Insufficient admission requested
       | Core_NoPool \<Rightarrow> Metered_NoPool
       | Core_SnapshotUnusable reason \<Rightarrow> Metered_SnapshotUnusable reason
       | Core_SessionCapExceeded committed cap requested \<Rightarrow>
           Metered_SessionCapExceeded committed cap requested, s'))"

section \<open>Prompts accepted by a hold\<close>

definition record_hold_prompt_tx ::
    "externals \<Rightarrow> LedgerStore \<Rightarrow> PrincipalId \<Rightarrow> string \<Rightarrow> string \<Rightarrow> uuid \<Rightarrow> LedgerStore" where
  "record_hold_prompt_tx x s principal_id session_id prompt_id rid =
     (let key_matches = (\<lambda>h. hp_principal_id h = principal_id \<and> hp_session_id h = session_id
            \<and> hp_prompt_id h = prompt_id)
      in if list_ex key_matches (hold_prompts s)
         then s\<lparr>hold_prompts := update_where key_matches
                  (\<lambda>h. h\<lparr>hp_reservation_id := uuid_to_string x rid\<rparr>) (hold_prompts s)\<rparr>
         else s\<lparr>hold_prompts := hold_prompts s @
                  [\<lparr>hp_principal_id = principal_id, hp_session_id = session_id,
                    hp_prompt_id = prompt_id, hp_reservation_id = uuid_to_string x rid\<rparr>]\<rparr>)"

definition record_hold_prompt ::
    "externals \<Rightarrow> LedgerStore \<Rightarrow> PrincipalId \<Rightarrow> string \<Rightarrow> string \<Rightarrow> uuid \<Rightarrow> LedgerStore" where
  "record_hold_prompt = record_hold_prompt_tx"

definition reserve_shared_metered_for_prompt ::
    "externals \<Rightarrow> LedgerStore \<Rightarrow> MeteredReserveRequest \<Rightarrow> string option \<Rightarrow> uuid
      \<Rightarrow> LedgerError + (MeteredReserveOutcome \<times> LedgerStore)" where
  "reserve_shared_metered_for_prompt x s req prompt_id rid = (case prompt_id of
     None \<Rightarrow> reserve_shared_metered x s req rid
   | Some prompt \<Rightarrow>
       let principal = rq_principal_id (mr_base req); session = rq_session_id (mr_base req)
       in rbind (reserve_shared_metered x s req rid) (\<lambda>(outcome, s').
         let hold = (case outcome of
               Metered_Granted h \<Rightarrow> Some h
             | Metered_AlreadyGranted h \<Rightarrow>
                 if spr_state h = Active \<and> spr_session_id h = session then Some h else None
             | _ \<Rightarrow> None)
         in Inr (outcome, case hold of None \<Rightarrow> s'
              | Some h \<Rightarrow> record_hold_prompt_tx x s' principal session prompt (spr_id h))))"

definition hold_for_prompt ::
    "externals \<Rightarrow> LedgerStore \<Rightarrow> PrincipalId \<Rightarrow> string \<Rightarrow> string \<Rightarrow> LedgerError + uuid option" where
  "hold_for_prompt x s principal_id session_id prompt_id =
     transpose_opt (map_option (\<lambda>h. ok_or invalid (uuid_parse_str x (hp_reservation_id h)))
       (find (\<lambda>h. hp_principal_id h = principal_id \<and> hp_session_id h = session_id
          \<and> hp_prompt_id h = prompt_id) (hold_prompts s)))"

definition prompts_for_hold ::
    "externals \<Rightarrow> LedgerStore \<Rightarrow> PrincipalId \<Rightarrow> string \<Rightarrow> uuid \<Rightarrow> string list" where
  "prompts_for_hold x s principal_id session_id rid =
     sort (map hp_prompt_id (filter (\<lambda>h. hp_principal_id h = principal_id
       \<and> hp_session_id h = session_id \<and> hp_reservation_id h = uuid_to_string x rid)
       (hold_prompts s)))"

section \<open>Attribution lemmas\<close>

lemma attribution_resolve_eq_Inr:
  assumes "attribution_resolve a = Inr b"
  shows "ea_charge_source b = ea_charge_source a" "ea_agent_id b = ea_agent_id a"
    and "(ea_agent_id b \<noteq> None) \<longleftrightarrow> ea_executor_kind b = Some Agent"
    and "ea_agent_id b \<noteq> Some []"
  using assms
  by (auto simp: attribution_resolve_def rbind_eq_Inr
      split: if_splits option.splits ExecutorKind.splits)

lemma executor_kind_column [simp]:
  "ExecutorKind_as_str k \<in> {''agent_absent'', ''agent'', ''unattributed''}"
  "ChargeSource_as_str c \<in> {''turn_hold'', ''subagent_transcript'', ''gateway''}"
  by (cases k; simp add: ExecutorKind_as_str_def) (cases c; simp add: ChargeSource_as_str_def)

lemma attribution_columns_ok:
  "(case map_option ExecutorKind_as_str k of None \<Rightarrow> True
     | Some k \<Rightarrow> k \<in> {''agent_absent'', ''agent'', ''unattributed''})"
  "(case map_option ChargeSource_as_str c of None \<Rightarrow> True
     | Some c \<Rightarrow> c \<in> {''turn_hold'', ''subagent_transcript'', ''gateway''})"
  using executor_kind_column by (auto split: option.splits simp del: insert_iff)

section \<open>Inserting a row\<close>

lemma insert_reservation_eq_Inr [res_simps]:
  "insert_reservation s r = Inr s' \<longleftrightarrow>
     r_id r \<notin> set (map r_id (reservations s)) \<and> row_key r \<notin> set (map row_key (reservations s))
   \<and> r_pool_id r \<in> set (map pr_pool_id (quota_pools s)) \<and> reservation_checks r
   \<and> s' = s\<lparr>reservations := reservations s @ [r]\<rparr>"
  by (auto simp: insert_reservation_def)

lemma insert_reservation_store_ok:
  "store_ok s \<Longrightarrow> row_ok r \<Longrightarrow> insert_reservation s r = Inr s' \<Longrightarrow> store_ok s'"
  by (auto simp: insert_reservation_eq_Inr store_ok_def)

lemma insert_reservation_totals:
  assumes "insert_reservation s r = Inr s'"
  shows "settled_total s' p = settled_total s p + settled_value p r"
    and "active_total s' p = active_total s p + active_value p r"
  using assms by (auto simp: insert_reservation_eq_Inr settled_total_def active_total_def)

lemma hold_row_values:
  "settled_value p (hold_row x req a rid n t e) = 0"
  "active_value p (hold_row x req a rid n t e) = (if p = rq_pool_id req then n else 0)"
  by (auto simp: settled_value_def active_value_def hold_row_def)

lemma hold_row_ok: "0 \<le> n \<Longrightarrow> n \<le> i64_max \<Longrightarrow> row_ok (hold_row x req a rid n t e)"
  using attribution_columns_ok
  by (simp add: row_ok_def reservation_checks_def hold_row_def)

section \<open>The reserve path\<close>

lemma admission_decision_admitted:
  assumes "admission_decision x s req metered pool = Inr (Inr a)"
  shows "settled_and_active_tx s (rq_pool_id req) = (pa_settled a, pa_active a)"
    and "pa_admits a (rq_amount req)"
    and "overhang_for_tx x s (rq_pool_id req)
      (case metered of None \<Rightarrow> ProviderSnapshot | Some g \<Rightarrow> mg_capacity_source g) (rq_now req)
      = Inr (pa_external_overhang a)"
    and "case metered of None \<Rightarrow> pa_capacity a = qp_capacity pool
      | Some g \<Rightarrow> effective_capacity_tx x s pool (mg_capacity_source g) (rq_now req)
          = Inr (Inr (pa_capacity a))"
    and "metered = Some g \<Longrightarrow> mg_session_cap g = Some cap \<Longrightarrow>
      \<exists>c. session_committed_tx s (rq_pool_id req) (rq_principal_id req) (rq_session_id req) = Inr c
        \<and> saturating_add c (rq_amount req) \<le> cap"
  using assms
  by (auto simp: admission_decision_def Let_def not_less elim!: rbindE
      split: sum.splits option.splits if_splits prod.splits)

lemma admission_decision_refused [simp]:
  "admission_decision x s req metered pool \<noteq> Inr (Inl (Core_Granted r))"
  by (auto simp: admission_decision_def Let_def elim!: rbindE
      split: sum.splits option.splits if_splits prod.splits)

lemma reserve_core_granted:
  assumes "reserve_shared_core x s req metered rid = Inr (Core_Granted r, s')"
  obtains attribution pool admission expires_at now_str expires_str where
    "attribution_resolve (rq_attribution req) = Inr attribution"
    "find_by_key s (rq_pool_id req) (rq_principal_id req) (rq_idempotency_key req) = None"
    "quota_pool x s (rq_pool_id req) = Inr (Some pool)" "rq_unit req = qp_unit pool"
    "admission_decision x s req metered pool = Inr (Inr admission)"
    "expiry_after x (rq_now req) (rq_ttl_secs req) = Inr expires_at"
    "uint (rq_amount req) \<le> i64_max"
    "rfc3339 x (rq_now req) = Inr now_str" "rfc3339 x expires_at = Inr expires_str"
    "insert_reservation s (hold_row x req attribution rid (uint (rq_amount req)) now_str expires_str)
      = Inr s'"
    "r = granted_reservation req attribution rid expires_at"
  using assms
  by (auto simp: reserve_shared_core_def quota_pool_eq_Some checked_i64_eq_Inr elim!: rbindE
      split: option.splits if_splits sum.splits)

lemma reserve_core_not_granted:
  assumes "reserve_shared_core x s req metered rid = Inr (out, s')" "\<nexists>r. out = Core_Granted r"
  shows "s' = s"
  using assms
  by (auto simp: reserve_shared_core_def elim!: rbindE
      split: option.splits if_splits sum.splits)

lemma reserve_core_cases:
  assumes "reserve_shared_core x s req metered rid = Inr (out, s')"
  obtains r where "out = Core_Granted r" | "s' = s" "\<And>r. out \<noteq> Core_Granted r"
  using reserve_core_not_granted [OF assms] by (cases out) auto

lemma reserve_core_store_ok:
  assumes "store_ok s" "reserve_shared_core x s req metered rid = Inr (out, s')"
  shows "store_ok s'"
  using assms(2)
proof (cases rule: reserve_core_cases)
  case (1 r)
  with assms obtain attribution n e where
    "uint (rq_amount req) \<le> i64_max"
    "insert_reservation s (hold_row x req attribution rid (uint (rq_amount req)) n e) = Inr s'"
    by (auto elim: reserve_core_granted)
  then show ?thesis
    using assms(1) by (blast intro: insert_reservation_store_ok hold_row_ok uint_u64_bounds(1))
qed (use assms in simp)

lemma reserve_core_totals:
  assumes "reserve_shared_core x s req metered rid = Inr (Core_Granted r, s')"
  shows "settled_total s' p = settled_total s p"
    and "active_total s' p = active_total s p + (if p = rq_pool_id req then uint (rq_amount req) else 0)"
  using assms by (auto elim!: reserve_core_granted simp: insert_reservation_totals hold_row_values)

lemma reserve_core_within:
  assumes ok: "store_ok s"
    and granted: "reserve_shared_core x s req metered rid = Inr (Core_Granted r, s')"
    and pos: "rq_amount req \<noteq> 0"
  obtains pool capacity overhang where
    "quota_pool x s (rq_pool_id req) = Inr (Some pool)"
    "case metered of None \<Rightarrow> capacity = qp_capacity pool
     | Some g \<Rightarrow> effective_capacity_tx x s pool (mg_capacity_source g) (rq_now req) = Inr (Inr capacity)"
    "overhang_for_tx x s (rq_pool_id req)
      (case metered of None \<Rightarrow> ProviderSnapshot | Some g \<Rightarrow> mg_capacity_source g) (rq_now req)
      = Inr overhang"
    "committed_total s' (rq_pool_id req) + uint overhang \<le> uint capacity"
proof -
  let ?p = "rq_pool_id req"
  from granted obtain pool a where pool: "quota_pool x s ?p = Inr (Some pool)"
    and a: "admission_decision x s req metered pool = Inr (Inr a)"
    by (auto elim: reserve_core_granted)
  note adm = admission_decision_admitted [OF a]
  have "list_all row_ok (reservations s)" using ok by (simp add: store_ok_def)
  note exact = settled_and_active_exact [OF this adm(1)] and nonneg = totals_nonneg [OF this, of ?p]
  let ?k = "uint (pa_external_overhang a) + uint (rq_amount req)"
  have "0 < uint (rq_amount req)" using pos uint_u64_bounds(1) [of "rq_amount req"]
    by (metis order_le_less unsigned_eq_0_iff)
  then have k: "0 < ?k" using uint_u64_bounds(1) [of "pa_external_overhang a"] by linarith
  have "min (settled_total s ?p) u64_max + min (active_total s ?p) u64_max + ?k
      \<le> uint (pa_capacity a)"
    unfolding exact [symmetric] using adm(2) by (simp add: pa_admits_iff pa_room_def)
  from fits_beside_uncapped [OF this uint_u64_bounds(2) k nonneg]
  have "settled_total s ?p + active_total s ?p + ?k \<le> uint (pa_capacity a)"
    by (simp add: u64_max_def)
  then have "committed_total s' ?p + uint (pa_external_overhang a) \<le> uint (pa_capacity a)"
    using reserve_core_totals [OF granted, of ?p] by (simp add: committed_total_def)
  with pool adm(3,4) show ?thesis by (intro that)
qed

text \<open>
  C7. No oversubscription. When a reservation of a positive amount is granted, the pool exists,
  a capacity was in force (its stored capacity; under the metered gate, the operator's cap, or
  the smaller of the stored capacity and a usable provider limit), and after the grant the exact
  sum of all settled spend and all active holds of the pool, plus the external overhang of the
  provider snapshot, is within that capacity. The grant raises the active total by exactly the
  requested amount and leaves settled spend unchanged. As every method is one serialised
  transaction, this holds for any interleaving of sessions.
\<close>
theorem reserve_no_oversubscription:
  assumes ok: "store_ok s"
    and granted: "reserve_shared_core x s req metered rid = Inr (Core_Granted r, s')"
    and pos: "rq_amount req \<noteq> 0"
  shows "\<exists>pool capacity overhang.
      quota_pool x s (rq_pool_id req) = Inr (Some pool)
    \<and> (case metered of None \<Rightarrow> capacity = qp_capacity pool
       | Some g \<Rightarrow> effective_capacity_tx x s pool (mg_capacity_source g) (rq_now req)
           = Inr (Inr capacity))
    \<and> overhang_for_tx x s (rq_pool_id req)
        (case metered of None \<Rightarrow> ProviderSnapshot | Some g \<Rightarrow> mg_capacity_source g) (rq_now req)
        = Inr overhang
    \<and> committed_total s' (rq_pool_id req) + uint overhang \<le> uint capacity
    \<and> settled_total s' (rq_pool_id req) = settled_total s (rq_pool_id req)
    \<and> active_total s' (rq_pool_id req) = active_total s (rq_pool_id req) + uint (rq_amount req)"
proof (rule reserve_core_within [OF ok granted pos])
  fix pool and capacity overhang :: u64
  assume "quota_pool x s (rq_pool_id req) = Inr (Some pool)"
    "case metered of None \<Rightarrow> capacity = qp_capacity pool
     | Some g \<Rightarrow> effective_capacity_tx x s pool (mg_capacity_source g) (rq_now req) = Inr (Inr capacity)"
    "overhang_for_tx x s (rq_pool_id req)
      (case metered of None \<Rightarrow> ProviderSnapshot | Some g \<Rightarrow> mg_capacity_source g) (rq_now req)
      = Inr overhang"
    "committed_total s' (rq_pool_id req) + uint overhang \<le> uint capacity"
  with reserve_core_totals [OF granted, of "rq_pool_id req"] show ?thesis by auto
qed

definition demo_request :: "string \<Rightarrow> u64 \<Rightarrow> SharedPoolReserveRequest" where
  "demo_request key amount = \<lparr>rq_pool_id = ''p'', rq_principal_id = ''a'', rq_session_id = ''s'',
     rq_amount = amount, rq_unit = Tokens, rq_idempotency_key = key, rq_now = 5, rq_ttl_secs = 60,
     rq_attribution = main_executor (Some TurnHold)\<rparr>"

definition demo_held :: LedgerStore where
  "demo_held = demo_store\<lparr>reservations :=
     [hold_row demo_externals (demo_request ''k'' 7) (main_executor (Some TurnHold)) 1 7
        (int_bits 5) (int_bits 60000000005)]\<rparr>"

lemma demo_reserve:
  "reserve_shared_core demo_externals demo_store (demo_request ''k'' 7) None 1
     = Inr (Core_Granted (granted_reservation (demo_request ''k'' 7)
         (main_executor (Some TurnHold)) 1 60000000005), demo_held)"
  by code_simp

lemma demo_store_ok: "store_ok demo_store"
  by code_simp

theorem reserve_no_oversubscription_witness:
  "committed_total demo_held ''p'' = 7 \<and>
   (\<exists>capacity overhang. overhang_for_tx demo_externals demo_store ''p'' ProviderSnapshot 5
       = Inr overhang \<and> committed_total demo_held ''p'' + uint overhang \<le> uint (capacity :: u64))"
proof -
  have "committed_total demo_held ''p'' = 7" by code_simp
  moreover have "rq_amount (demo_request ''k'' 7) \<noteq> 0" by (simp add: demo_request_def)
  ultimately show ?thesis
    using reserve_no_oversubscription [OF demo_store_ok demo_reserve]
    by (auto simp: demo_request_def)
qed

section \<open>Replay\<close>

lemma get_u64_option_uint [simp]:
  "transpose_opt (map_option get_u64 (map_option uint v)) = Inr v"
  by (cases v) simp_all

lemmas attribution_columns_read_back [simp] =
  executor_kind.column_reads_back charge_source.column_reads_back

lemma hold_row_reads_back:
  assumes "externals_ok x" "rfc3339 x (rq_now req) = Inr n" "rfc3339 x e = Inr e_str"
  shows "row_to_reservation x (hold_row x req a rid (uint (rq_amount req)) n e_str)
    = Inr (granted_reservation req a rid e)"
  using assms
  by (simp add: row_to_reservation_def hold_row_def granted_reservation_def state_from_str_def
      externals_okD(3))

text \<open>
  C14. A granted reservation is replay-safe: once it is granted, any later reserve in that state
  that names the same pool, principal and idempotency key, whatever else it asks (amount, unit,
  gate, session, a new id), gets the same reservation back as already granted and writes
  nothing. A retry can neither hold capacity twice nor be refused for lack of it. (A request
  whose executor attribution is malformed is rejected before the lookup.)
\<close>
theorem reserve_replay_idempotent:
  assumes x: "externals_ok x"
    and granted: "reserve_shared_core x s req metered rid = Inr (Core_Granted r, s')"
    and same: "rq_pool_id req' = rq_pool_id req" "rq_principal_id req' = rq_principal_id req"
      "rq_idempotency_key req' = rq_idempotency_key req"
    and attr: "attribution_resolve (rq_attribution req') = Inr attribution'"
  shows "reserve_shared_core x s' req' metered' rid' = Inr (Core_AlreadyGranted r, s')"
proof -
  from granted obtain a e n e_str where
    none: "find_by_key s (rq_pool_id req) (rq_principal_id req) (rq_idempotency_key req) = None"
    and n: "rfc3339 x (rq_now req) = Inr n" "rfc3339 x e = Inr e_str"
    and ins: "insert_reservation s (hold_row x req a rid (uint (rq_amount req)) n e_str) = Inr s'"
    and r: "r = granted_reservation req a rid e"
    by (auto elim: reserve_core_granted)
  let ?row = "hold_row x req a rid (uint (rq_amount req)) n e_str"
  have rows: "reservations s' = reservations s @ [?row]"
    and fresh: "r_id ?row \<notin> set (map r_id (reservations s))"
    using ins by (auto simp: insert_reservation_eq_Inr)
  have key: "find_by_key s' (rq_pool_id req) (rq_principal_id req) (rq_idempotency_key req)
      = Some ?row"
    using none by (simp add: find_by_key_def rows find_append) (simp add: row_key_def hold_row_def)
  have "find (\<lambda>r. r_id r = uuid_to_string x rid) (reservations s) = None"
    using fresh by (force simp: find_None_iff hold_row_def)
  then have "find (\<lambda>r. r_id r = uuid_to_string x rid) (reservations s') = Some ?row"
    by (simp add: rows find_append) (simp add: hold_row_def)
  then have "is_charge_row_tx x s' rid = Inr False"
    by (simp add: is_charge_row_tx_def) (simp add: hold_row_def)
  with key show ?thesis
    using hold_row_reads_back [OF x n, of a rid] attr same
    by (simp add: reserve_shared_core_def r) (simp add: granted_reservation_def)
qed

theorem reserve_replay_idempotent_witness:
  "reserve_shared_core demo_externals demo_held (demo_request ''k'' 9) None 2
     = Inr (Core_AlreadyGranted (granted_reservation (demo_request ''k'' 7)
         (main_executor (Some TurnHold)) 1 60000000005), demo_held)"
proof -
  have "attribution_resolve (rq_attribution (demo_request ''k'' 9))
      = Inr (main_executor (Some TurnHold))"
    by code_simp
  then show ?thesis
    using reserve_replay_idempotent [OF demo_externals_ok demo_reserve, of "demo_request ''k'' 9"]
    by (simp add: demo_request_def)
qed

text \<open>The plain entry point never reaches its \<open>unreachable!\<close>.\<close>
lemma reserve_shared_core_plain_outcomes:
  "reserve_shared_core x s req None rid = Inr (out, s') \<Longrightarrow>
     (\<forall>reason. out \<noteq> Core_SnapshotUnusable reason)
   \<and> (\<forall>a b c. out \<noteq> Core_SessionCapExceeded a b c)"
  by (auto simp: reserve_shared_core_def admission_decision_def Let_def elim!: rbindE
      split: option.splits if_splits sum.splits prod.splits)

end
