(* ===== verification/Pool_Settle.thy ===== *)
theory Pool_Settle
  imports Pool_Reserve
begin

text \<open>
  The methods that close or extend a hold, or book spend that has already happened
  (\<open>crates/ledger/src/shared_pool.rs\<close>): \<open>charge_shared\<close>, the \<open>settle_shared\<close> family,
  \<open>release_shared\<close>, \<open>release_and_forget_unstarted_shared\<close> and \<open>renew_shared\<close>.
\<close>

section \<open>Charging\<close>

record SharedPoolChargeRequest =
  cr_pool_id :: PoolId
  cr_principal_id :: PrincipalId
  cr_session_id :: string
  cr_amount :: u64
  cr_unit :: QuotaUnit
  cr_idempotency_key :: string
  cr_now :: instant
  cr_attribution :: ExecutorAttribution
  cr_capacity_source :: CapacitySource
  cr_usage_known :: bool

datatype SharedPoolChargeOutcome =
    Charged SharedPoolReservation PoolAdmission u64 bool
  | AlreadyCharged SharedPoolReservation
  | KeyConflict SharedPoolReservation
  | Charge_NoPool

definition charge_row ::
    "externals \<Rightarrow> SharedPoolChargeRequest \<Rightarrow> ExecutorAttribution \<Rightarrow> uuid \<Rightarrow> int \<Rightarrow> string
      \<Rightarrow> string option \<Rightarrow> string option \<Rightarrow> ReservationRow" where
  "charge_row x req attribution rid amount_i64 now_str watermark_text ids_text =
     \<lparr>r_id = uuid_to_string x rid, r_pool_id = cr_pool_id req,
      r_principal_id = cr_principal_id req, r_session_id = cr_session_id req,
      r_amount = amount_i64, r_state = ''settled'', r_settled_amount = Some amount_i64,
      r_usage_known = Some (cr_usage_known req), r_idempotency_key = cr_idempotency_key req,
      r_created_at = now_str, r_expires_at = now_str, r_settled_at = Some now_str,
      r_released_at = None, r_schema_version = SHARED_POOL_RESERVATION_SCHEMA_VERSION,
      r_agent_id = ea_agent_id attribution,
      r_executor_kind = map_option ExecutorKind_as_str (ea_executor_kind attribution),
      r_charge_source = map_option ChargeSource_as_str (ea_charge_source attribution),
      r_is_charge = True, r_watermark_ts = watermark_text,
      r_watermark_message_ids = ids_text\<rparr>"

text \<open>"Identical means the same charge, field for field."\<close>
definition identical_charge ::
    "SharedPoolChargeRequest \<Rightarrow> ExecutorAttribution \<Rightarrow> bool \<Rightarrow> SharedPoolReservation \<Rightarrow> bool" where
  "identical_charge req attribution is_charge existing \<longleftrightarrow>
     is_charge
   \<and> spr_state existing = Settled
   \<and> spr_settled_amount existing = Some (cr_amount req)
   \<and> spr_usage_known existing = Some (cr_usage_known req)
   \<and> spr_session_id existing = cr_session_id req
   \<and> spr_agent_id existing = ea_agent_id attribution
   \<and> spr_executor_kind existing = ea_executor_kind attribution
   \<and> spr_charge_source existing = ea_charge_source attribution"

definition adopt_watermark ::
    "externals \<Rightarrow> LedgerStore \<Rightarrow> uuid \<Rightarrow> string option \<Rightarrow> string option \<Rightarrow> LedgerStore" where
  "adopt_watermark x s rid watermark_text ids_text =
     s\<lparr>reservations := update_where
         (\<lambda>r. r_id r = uuid_to_string x rid \<and> r_watermark_ts r = None)
         (\<lambda>r. r\<lparr>r_watermark_ts := watermark_text, r_watermark_message_ids := ids_text\<rparr>)
         (reservations s)\<rparr>"

definition charge_shared_with_watermark ::
    "externals \<Rightarrow> LedgerStore \<Rightarrow> SharedPoolChargeRequest \<Rightarrow> SettleWatermark option \<Rightarrow> uuid
      \<Rightarrow> LedgerError + (SharedPoolChargeOutcome \<times> LedgerStore)" where
  "charge_shared_with_watermark x s req watermark rid =
     rbind (watermark_columns x watermark) (\<lambda>(watermark_text, ids_text).
     rbind (attribution_resolve (cr_attribution req)) (\<lambda>attribution.
     rbind (checked_i64 (cr_amount req)) (\<lambda>amount_i64.
     case find_by_key s (cr_pool_id req) (cr_principal_id req) (cr_idempotency_key req) of
       Some row \<Rightarrow>
         rbind (row_to_reservation x row) (\<lambda>existing.
         rbind (is_charge_row_tx x s (spr_id existing)) (\<lambda>is_charge.
         let identical = identical_charge req attribution is_charge existing;
             s' = (if identical \<and> watermark_text \<noteq> None
                   then adopt_watermark x s (spr_id existing) watermark_text ids_text else s)
         in Inr (if identical then AlreadyCharged existing else KeyConflict existing, s')))
     | None \<Rightarrow>
         (case find (\<lambda>p. pr_pool_id p = cr_pool_id req) (quota_pools s) of
            None \<Rightarrow> Inr (Charge_NoPool, s)
          | Some pool_row \<Rightarrow>
              rbind (row_to_pool x (cr_pool_id req) pool_row) (\<lambda>pool.
              if cr_unit req \<noteq> qp_unit pool
              then Inl (QuotaUnitMismatch (qp_unit pool) (cr_unit req))
              else rbind (rfc3339 x (cr_now req)) (\<lambda>now_str.
                rbind (insert_reservation s (charge_row x req attribution rid amount_i64 now_str
                    watermark_text ids_text)) (\<lambda>s'.
                rbind (effective_capacity_tx x s' pool (cr_capacity_source req) (cr_now req))
                (\<lambda>effective.
                let capacity_known = (case effective of Inl _ \<Rightarrow> False | Inr _ \<Rightarrow> True);
                    capacity = (case effective of Inl _ \<Rightarrow> qp_capacity pool | Inr c \<Rightarrow> c);
                    (settled, active) = settled_and_active_tx s' (cr_pool_id req)
                in rbind (overhang_for_tx x s' (cr_pool_id req) (cr_capacity_source req)
                    (cr_now req)) (\<lambda>external_overhang.
                  let admission = \<lparr>pa_capacity = capacity, pa_settled = settled,
                        pa_active = active, pa_external_overhang = external_overhang\<rparr>
                  in rbind (get_expected x s' rid) (\<lambda>reservation.
                    Inr (Charged reservation admission (pa_overrun admission) capacity_known,
                      s')))))))))))"

definition charge_shared ::
    "externals \<Rightarrow> LedgerStore \<Rightarrow> SharedPoolChargeRequest \<Rightarrow> uuid
      \<Rightarrow> LedgerError + (SharedPoolChargeOutcome \<times> LedgerStore)" where
  "charge_shared x s req rid = charge_shared_with_watermark x s req None rid"

section \<open>Settling\<close>

datatype SharedPoolSettleOutcome =
    Settle_Settled SharedPoolReservation "u64 option" "u64 option"
  | Settle_AlreadyFinal SharedPoolReservation
  | Settle_NotFound

text \<open>Attribution recorded at hold time is authoritative; what settles only fills gaps.\<close>
definition settled_attribution ::
    "SharedPoolReservation \<Rightarrow> ExecutorAttribution
      \<Rightarrow> string option \<times> string option \<times> string option" where
  "settled_attribution reservation supplied =
     (let (agent_id, executor_kind) =
        (if spr_executor_kind reservation \<noteq> None
         then (spr_agent_id reservation, spr_executor_kind reservation)
         else (ea_agent_id supplied, ea_executor_kind supplied));
          charge_source = (case spr_charge_source reservation of
             Some c \<Rightarrow> Some c | None \<Rightarrow> ea_charge_source supplied)
      in (agent_id, map_option ExecutorKind_as_str executor_kind,
          map_option ChargeSource_as_str charge_source))"

text \<open>The \<open>SET\<close> clause of the settling \<open>UPDATE\<close>.\<close>
definition settle_row ::
    "int \<Rightarrow> bool \<Rightarrow> string \<Rightarrow> string option \<times> string option \<times> string option \<Rightarrow> string option
      \<Rightarrow> string option \<Rightarrow> ReservationRow \<Rightarrow> ReservationRow" where
  "settle_row settled_value_i64 usage_known now_str attr watermark_text ids_text r =
     (case attr of (agent_id, executor_kind, charge_source) \<Rightarrow>
        r\<lparr>r_state := ''settled'', r_settled_amount := Some settled_value_i64,
          r_usage_known := Some usage_known, r_settled_at := Some now_str,
          r_agent_id := agent_id, r_executor_kind := executor_kind,
          r_charge_source := charge_source, r_watermark_ts := watermark_text,
          r_watermark_message_ids := ids_text\<rparr>)"

definition settle_shared_core ::
    "externals \<Rightarrow> LedgerStore \<Rightarrow> uuid \<Rightarrow> u64 option \<Rightarrow> bool \<Rightarrow> instant \<Rightarrow> ExecutorAttribution
      \<Rightarrow> SettleWatermark option \<Rightarrow> LedgerError + (SharedPoolSettleOutcome \<times> LedgerStore)" where
  "settle_shared_core x s rid actual usage_known now attribution watermark =
     rbind (watermark_columns x watermark) (\<lambda>(watermark_text, ids_text).
     rbind (attribution_resolve attribution) (\<lambda>supplied.
     rbind (get_shared_reservation_tx x s rid) (\<lambda>found.
     case found of
       None \<Rightarrow> Inr (Settle_NotFound, s)
     | Some reservation \<Rightarrow>
         let late_after_expiry = (spr_state reservation = Expired)
         in if spr_state reservation \<noteq> Active \<and> \<not> late_after_expiry
         then Inr (Settle_AlreadyFinal reservation, s)
         else
           let settled_value = (case actual of Some a \<Rightarrow> a | None \<Rightarrow> spr_amount reservation)
           in rbind (checked_i64 settled_value) (\<lambda>settled_value_i64.
           rbind (rfc3339 x now) (\<lambda>now_str.
           let expected_prior_state = (if late_after_expiry then ''expired'' else ''active'');
               matches = (\<lambda>r. r_id r = uuid_to_string x rid \<and> r_state r = expected_prior_state);
               s' = s\<lparr>reservations := update_where matches
                  (settle_row settled_value_i64 usage_known now_str
                     (settled_attribution reservation supplied) watermark_text ids_text)
                  (reservations s)\<rparr>
           in if \<not> list_ex matches (reservations s)
           then rbind (get_expected x s rid) (\<lambda>current. Inr (Settle_AlreadyFinal current, s))
           else rbind (get_expected x s' rid) (\<lambda>updated.
             Inr (Settle_Settled updated (spr_refunded updated) (spr_overrun updated), s')))))))"

definition settle_shared_with_watermark ::
    "externals \<Rightarrow> LedgerStore \<Rightarrow> uuid \<Rightarrow> u64 option \<Rightarrow> instant \<Rightarrow> ExecutorAttribution
      \<Rightarrow> SettleWatermark option \<Rightarrow> LedgerError + (SharedPoolSettleOutcome \<times> LedgerStore)" where
  "settle_shared_with_watermark x s rid actual now attribution watermark =
     settle_shared_core x s rid actual (actual \<noteq> None) now attribution watermark"

definition settle_shared_attributed ::
    "externals \<Rightarrow> LedgerStore \<Rightarrow> uuid \<Rightarrow> u64 option \<Rightarrow> instant \<Rightarrow> ExecutorAttribution
      \<Rightarrow> LedgerError + (SharedPoolSettleOutcome \<times> LedgerStore)" where
  "settle_shared_attributed x s rid actual now attribution =
     settle_shared_with_watermark x s rid actual now attribution None"

definition settle_shared ::
    "externals \<Rightarrow> LedgerStore \<Rightarrow> uuid \<Rightarrow> u64 option \<Rightarrow> instant
      \<Rightarrow> LedgerError + (SharedPoolSettleOutcome \<times> LedgerStore)" where
  "settle_shared x s rid actual now =
     settle_shared_attributed x s rid actual now attribution_default"

definition settle_shared_marked ::
    "externals \<Rightarrow> LedgerStore \<Rightarrow> uuid \<Rightarrow> u64 \<Rightarrow> bool \<Rightarrow> instant
      \<Rightarrow> LedgerError + (SharedPoolSettleOutcome \<times> LedgerStore)" where
  "settle_shared_marked x s rid amount usage_known now =
     settle_shared_core x s rid (Some amount) usage_known now attribution_default None"

section \<open>Releasing\<close>

datatype SharedPoolReleaseOutcome =
    Release_Released SharedPoolReservation
  | Release_AlreadyFinal SharedPoolReservation
  | Release_NotFound

definition release_rows :: "externals \<Rightarrow> uuid \<Rightarrow> string \<Rightarrow> ReservationRow list \<Rightarrow> ReservationRow list"
where
  "release_rows x rid now_str rows =
     update_where (\<lambda>r. r_id r = uuid_to_string x rid \<and> r_state r = ''active'')
       (\<lambda>r. r\<lparr>r_state := ''released'', r_released_at := Some now_str\<rparr>) rows"

definition release_shared ::
    "externals \<Rightarrow> LedgerStore \<Rightarrow> uuid \<Rightarrow> instant
      \<Rightarrow> LedgerError + (SharedPoolReleaseOutcome \<times> LedgerStore)" where
  "release_shared x s rid now =
     rbind (get_shared_reservation_tx x s rid) (\<lambda>found.
     case found of
       None \<Rightarrow> Inr (Release_NotFound, s)
     | Some reservation \<Rightarrow>
         if spr_state reservation \<noteq> Active then Inr (Release_AlreadyFinal reservation, s)
         else rbind (rfc3339 x now) (\<lambda>now_str.
           let s' = s\<lparr>reservations := release_rows x rid now_str (reservations s)\<rparr>
           in if \<not> list_ex (\<lambda>r. r_id r = uuid_to_string x rid \<and> r_state r = ''active'')
                (reservations s)
           then rbind (get_expected x s rid) (\<lambda>current. Inr (Release_AlreadyFinal current, s))
           else rbind (get_expected x s' rid) (\<lambda>updated. Inr (Release_Released updated, s'))))"

definition release_and_forget_unstarted_shared ::
    "externals \<Rightarrow> LedgerStore \<Rightarrow> uuid \<Rightarrow> instant
      \<Rightarrow> LedgerError + (SharedPoolReleaseOutcome \<times> LedgerStore)" where
  "release_and_forget_unstarted_shared x s rid now =
     rbind (get_shared_reservation_tx x s rid) (\<lambda>found.
     case found of
       None \<Rightarrow> Inr (Release_NotFound, s)
     | Some reservation \<Rightarrow>
         if spr_state reservation \<noteq> Active then Inr (Release_AlreadyFinal reservation, s)
         else rbind (rfc3339 x now) (\<lambda>now_str.
           let s' = s\<lparr>reservations := release_rows x rid now_str (reservations s),
                 hold_prompts := filter (\<lambda>h. hp_reservation_id h \<noteq> uuid_to_string x rid)
                   (hold_prompts s)\<rparr>
           in if \<not> list_ex (\<lambda>r. r_id r = uuid_to_string x rid \<and> r_state r = ''active'')
                (reservations s)
           then rbind (get_expected x s rid) (\<lambda>current. Inr (Release_AlreadyFinal current, s))
           else rbind (get_expected x s' rid) (\<lambda>released. Inr (Release_Released released, s'))))"

section \<open>Renewing\<close>

datatype SharedPoolRenewOutcome =
    Renew_Renewed SharedPoolReservation
  | Renew_NotFound
  | Renew_Refused SharedPoolReservation

definition renew_shared_for_prompt ::
    "externals \<Rightarrow> LedgerStore \<Rightarrow> uuid \<Rightarrow> PrincipalId \<Rightarrow> string \<Rightarrow> instant \<Rightarrow> u64 \<Rightarrow> string option
      \<Rightarrow> LedgerError + (SharedPoolRenewOutcome \<times> LedgerStore)" where
  "renew_shared_for_prompt x s rid principal_id session_id now ttl_secs prompt_id =
     rbind (get_shared_reservation_tx x s rid) (\<lambda>found.
     case found of
       None \<Rightarrow> Inr (Renew_NotFound, s)
     | Some reservation \<Rightarrow>
         let identity_matches = (spr_principal_id reservation = principal_id
               \<and> spr_session_id reservation = session_id);
             currently_fresh = (spr_state reservation = Active \<and> now < spr_expires_at reservation)
         in if \<not> identity_matches \<or> \<not> currently_fresh
         then Inr (Renew_Refused reservation, s)
         else rbind (expiry_after x now ttl_secs) (\<lambda>new_expires_at.
           rbind (rfc3339 x new_expires_at) (\<lambda>expires_str.
           let matches = (\<lambda>r. r_id r = uuid_to_string x rid \<and> r_state r = ''active''
                 \<and> r_principal_id r = principal_id \<and> r_session_id r = session_id);
               s' = s\<lparr>reservations := update_where matches
                  (\<lambda>r. r\<lparr>r_expires_at := expires_str\<rparr>) (reservations s)\<rparr>
           in if \<not> list_ex matches (reservations s)
           then rbind (get_expected x s rid) (\<lambda>current. Inr (Renew_Refused current, s))
           else rbind (get_expected x s' rid) (\<lambda>updated.
             Inr (Renew_Renewed updated, case prompt_id of None \<Rightarrow> s'
               | Some prompt \<Rightarrow> record_hold_prompt_tx x s' principal_id session_id prompt rid)))))"

definition renew_shared ::
    "externals \<Rightarrow> LedgerStore \<Rightarrow> uuid \<Rightarrow> PrincipalId \<Rightarrow> string \<Rightarrow> instant \<Rightarrow> u64
      \<Rightarrow> LedgerError + (SharedPoolRenewOutcome \<times> LedgerStore)" where
  "renew_shared x s rid principal_id session_id now ttl_secs =
     renew_shared_for_prompt x s rid principal_id session_id now ttl_secs None"

section \<open>Updating one row\<close>

text \<open>The columns a life-cycle update never touches.\<close>
definition same_hold :: "ReservationRow \<Rightarrow> ReservationRow \<Rightarrow> bool" where
  "same_hold r r' \<longleftrightarrow> r_id r' = r_id r \<and> row_key r' = row_key r \<and> r_pool_id r' = r_pool_id r
     \<and> r_principal_id r' = r_principal_id r \<and> r_session_id r' = r_session_id r
     \<and> r_amount r' = r_amount r \<and> r_is_charge r' = r_is_charge r"

lemma same_hold_simps [simp]:
  "same_hold r (settle_row v u n a w i r)" "same_hold r (r\<lparr>r_expires_at := e\<rparr>)"
  "same_hold r (r\<lparr>r_state := st, r_released_at := t\<rparr>)"
  "same_hold r (r\<lparr>r_watermark_ts := w, r_watermark_message_ids := i\<rparr>)"
  by (auto simp: same_hold_def settle_row_def row_key_def split: prod.splits)

lemma update_rows_store_ok:
  assumes "store_ok s" "\<And>r. p r \<Longrightarrow> same_hold r (f r)" "\<And>r. p r \<Longrightarrow> row_ok r \<Longrightarrow> row_ok (f r)"
  shows "store_ok (s\<lparr>reservations := update_where p f (reservations s)\<rparr>)"
proof -
  let ?rows = "update_where p f (reservations s)"
  have "map r_id ?rows = map r_id (reservations s)"
    "map row_key ?rows = map row_key (reservations s)"
    "map r_pool_id ?rows = map r_pool_id (reservations s)"
    using assms(2) by (auto simp: same_hold_def intro!: map_update_where_same)
  moreover have "list_all row_ok ?rows"
    using assms(1,3) by (intro list_all_update_where) (auto simp: store_ok_def)
  moreover have "list_all (\<lambda>r. r_pool_id r \<in> A) rs \<longleftrightarrow> list_all (\<lambda>q. q \<in> A) (map r_pool_id rs)"
    for A and rs :: "ReservationRow list"
    by (simp add: list_all_iff)
  ultimately show ?thesis using assms(1) by (simp add: store_ok_def)
qed

lemma settle_row_ok:
  assumes "row_ok r" "0 \<le> v" "v \<le> i64_max"
  shows "row_ok (settle_row v u n (settled_attribution res a) w i r)"
  using assms attribution_columns_ok
  by (auto simp: row_ok_def reservation_checks_def settle_row_def settled_attribution_def Let_def
      simp del: insert_iff split: prod.splits)

lemma settle_row_simps [simp]:
  "r_id (settle_row v u n a w i r) = r_id r" "r_amount (settle_row v u n a w i r) = r_amount r"
  "r_pool_id (settle_row v u n a w i r) = r_pool_id r"
  "r_state (settle_row v u n a w i r) = ''settled''"
  "r_settled_amount (settle_row v u n a w i r) = Some v"
  by (auto simp: settle_row_def split: prod.splits)

lemma settle_row_values:
  "settled_value p (settle_row v u n a w i r) = (if r_pool_id r = p then v else 0)"
  "active_value p (settle_row v u n a w i r) = 0"
  by (auto simp: settled_value_def active_value_def settle_row_def split: prod.splits)

section \<open>Settling a hold\<close>

lemma find_matches:
  "find (\<lambda>r. r_id r = i) rows = Some row \<Longrightarrow> P row \<Longrightarrow> list_ex (\<lambda>r. r_id r = i \<and> P r) rows"
  by (auto simp: list_ex_iff dest: find_Some_mem)

text \<open>With the row at hand, settling is a straight line: the conditional \<open>UPDATE\<close> always finds it,
  as the read and the write share one transaction.\<close>
lemma settle_core_eq:
  assumes "watermark_columns x watermark = Inr (wt, ids)"
    and "attribution_resolve attribution = Inr supplied"
    and row: "find (\<lambda>r. r_id r = uuid_to_string x rid) (reservations s) = Some row"
    and res: "row_to_reservation x row = Inr res"
  shows "settle_shared_core x s rid actual uk now attribution watermark =
    (if r_state row \<noteq> ''active'' \<and> r_state row \<noteq> ''expired'' then Inr (Settle_AlreadyFinal res, s)
     else rbind (checked_i64 (case actual of Some a \<Rightarrow> a | None \<Rightarrow> spr_amount res)) (\<lambda>v.
       rbind (rfc3339 x now) (\<lambda>now_str.
         let s' = s\<lparr>reservations := update_where
               (\<lambda>r. r_id r = uuid_to_string x rid \<and> r_state r = r_state row)
               (settle_row v uk now_str (settled_attribution res supplied) wt ids)
               (reservations s)\<rparr>
         in rbind (get_expected x s' rid) (\<lambda>updated.
           Inr (Settle_Settled updated (spr_refunded updated) (spr_overrun updated), s')))))"
proof -
  have found: "get_shared_reservation_tx x s rid = Inr (Some res)"
    using row res by (auto simp: get_shared_reservation_tx_eq_Some)
  note st = row_to_reservation_state [OF res]
  show ?thesis
  proof (cases "r_state row = ''active'' \<or> r_state row = ''expired''")
    case True
    then have "(if spr_state res = Expired then ''expired'' else ''active'') = r_state row"
      "spr_state res = Active \<or> spr_state res = Expired"
      using st by auto
    then show ?thesis
      using assms(1,2) found find_matches [OF row, of "\<lambda>r. r_state r = r_state row"] True
      by (auto simp: settle_shared_core_def Let_def)
  next
    case False
    then show ?thesis using assms(1,2) found st by (simp add: settle_shared_core_def Let_def)
  qed
qed

lemma settle_core_cases:
  assumes "settle_shared_core x s rid actual uk now attribution watermark = Inr (out, s')"
  obtains (unchanged) "s' = s" "\<And>u r v. out \<noteq> Settle_Settled u r v"
  | (settled) row res updated now_str supplied wt ids v where
    "find (\<lambda>r. r_id r = uuid_to_string x rid) (reservations s) = Some row"
    "row_to_reservation x row = Inr res" "r_state row = ''active'' \<or> r_state row = ''expired''"
    "v = (case actual of Some a \<Rightarrow> a | None \<Rightarrow> spr_amount res)" "uint v \<le> i64_max"
    "rfc3339 x now = Inr now_str"
    "s' = s\<lparr>reservations := update_where
        (\<lambda>r. r_id r = uuid_to_string x rid \<and> r_state r = r_state row)
        (settle_row (uint v) uk now_str (settled_attribution res supplied) wt ids)
        (reservations s)\<rparr>"
    "get_shared_reservation_tx x s' rid = Inr (Some updated)"
    "out = Settle_Settled updated (spr_refunded updated) (spr_overrun updated)"
proof -
  from assms obtain wt ids supplied found where
    w: "watermark_columns x watermark = Inr (wt, ids)"
    and a: "attribution_resolve attribution = Inr supplied"
    and f: "get_shared_reservation_tx x s rid = Inr found"
    by (auto simp: settle_shared_core_def elim!: rbindE)
  show ?thesis
  proof (cases found)
    case None
    with assms w a f have "s' = s \<and> out = Settle_NotFound"
      by (simp add: settle_shared_core_def)
    then show ?thesis by (auto intro: unchanged)
  next
    case (Some res)
    with f obtain row where row:
      "find (\<lambda>r. r_id r = uuid_to_string x rid) (reservations s) = Some row"
      "row_to_reservation x row = Inr res"
      by (auto simp: get_shared_reservation_tx_eq_Some)
    show ?thesis
    proof (cases "r_state row = ''active'' \<or> r_state row = ''expired''")
      case False
      then show ?thesis using assms settle_core_eq [OF w a row] by (auto intro: unchanged)
    next
      case True
      define v where "v = (case actual of Some a \<Rightarrow> a | None \<Rightarrow> spr_amount res)"
      with True obtain n u where "uint v \<le> i64_max" "rfc3339 x now = Inr n"
        "s' = s\<lparr>reservations := update_where
          (\<lambda>r. r_id r = uuid_to_string x rid \<and> r_state r = r_state row)
          (settle_row (uint v) uk n (settled_attribution res supplied) wt ids) (reservations s)\<rparr>"
        "get_shared_reservation_tx x s' rid = Inr (Some u)"
        "out = Settle_Settled u (spr_refunded u) (spr_overrun u)"
        using assms settle_core_eq [OF w a row, of actual uk now]
        by (auto simp: Let_def checked_i64_eq_Inr get_expected_eq_Inr elim!: rbindE)
      with row True v_def show ?thesis by (intro settled)
    qed
  qed
qed

lemma settle_core_store_ok:
  assumes "store_ok s" "settle_shared_core x s rid actual uk now a wm = Inr (out, s')"
  shows "store_ok s'"
  using assms(2)
proof (cases rule: settle_core_cases)
  case (settled row res updated now_str supplied wt ids v)
  then show ?thesis
    using assms(1) by (auto intro!: update_rows_store_ok settle_row_ok uint_u64_bounds(1))
qed (use assms in simp)

lemma settle_core_totals:
  assumes ok: "store_ok s"
    and "settle_shared_core x s rid actual uk now a wm = Inr (Settle_Settled u rf ov, s')"
  obtains row v where
    "find (\<lambda>r. r_id r = uuid_to_string x rid) (reservations s) = Some row"
    "r_state row = ''active'' \<or> r_state row = ''expired''"
    "uint v = (case actual of Some a \<Rightarrow> uint a | None \<Rightarrow> r_amount row)"
    "\<And>p. settled_total s' p = settled_total s p + (if p = r_pool_id row then uint v else 0)"
    "\<And>p. active_total s' p = active_total s p
       - (if p = r_pool_id row \<and> r_state row = ''active'' then r_amount row else 0)"
    "spr_settled_amount u = Some v" "uint (spr_amount u) = r_amount row" "spr_state u = Settled"
    "rf = spr_refunded u" "ov = spr_overrun u" "get_shared_reservation_tx x s' rid = Inr (Some u)"
  using assms(2)
proof (cases rule: settle_core_cases)
  case (settled row res updated now_str supplied wt ids v)
  let ?f = "settle_row (uint v) uk now_str (settled_attribution res supplied) wt ids"
  have ids: "distinct (map r_id (reservations s))" and row_ok: "row_ok row"
    using ok find_Some_mem [OF settled(1)] by (auto simp: store_ok_def list_all_iff)
  have upd: "find (\<lambda>r. r_id r = uuid_to_string x rid) (reservations s') = Some (?f row)"
    unfolding settled(7) using settled(1) find_Some_mem [OF settled(1)]
    by (simp add: find_update_where_same_key)
  then have reads: "row_to_reservation x (?f row) = Inr updated"
    using settled(8) by (auto simp: get_shared_reservation_tx_eq_Some)
  note fields = row_to_reservation_fields [OF reads]
  have amount: "uint (spr_amount updated) = r_amount row"
    using row_to_reservation_amount [OF reads] settle_row_ok [OF row_ok uint_u64_bounds(1) settled(5)]
    by simp
  have val: "spr_settled_amount updated = Some v"
    using fields(10) by simp
  have st: "spr_state updated = Settled"
    using row_to_reservation_state(2) [OF reads] by simp
  have sums: "sum_col g (reservations s') = sum_col g (reservations s) - g row + g (?f row)" for g
    unfolding settled(7) using totals_update_row [OF ids settled(1)] by simp
  have v: "uint v = (case actual of Some a \<Rightarrow> uint a | None \<Rightarrow> r_amount row)"
    using settled(4) row_to_reservation_amount [OF settled(2) row_ok] by (simp split: option.splits)
  have "settled_value p row = 0" for p using settled(3) by (auto simp: settled_value_def)
  then have stot: "settled_total s' p = settled_total s p + (if p = r_pool_id row then uint v else 0)" for p
    by (simp add: settled_total_def sums settle_row_values)
  have atot: "active_total s' p = active_total s p
       - (if p = r_pool_id row \<and> r_state row = ''active'' then r_amount row else 0)" for p
    by (simp add: active_total_def sums settle_row_values active_value_def)
  have out: "u = updated" "rf = spr_refunded u" "ov = spr_overrun u" using settled(9) by auto
  show ?thesis
    by (rule that [OF settled(1,3) v stot atot]) (use out val amount st settled(8) in simp_all)
qed blast

text \<open>
  C8. Settlement books exactly once and exactly what was spent. A settlement that reports
  \<open>Settled\<close> moves one hold, active or (late) expired, to settled spend of the reported actual,
  or of its full reserved amount when no actual is known: the pool's settled total grows by that
  value, its active total shrinks by the hold's amount if the hold was still active, no other
  pool changes, and the reported refund and overrun are the two signs of
  \<open>reserved - actual\<close>. Settling the same hold again, with any arguments, reports the first
  settlement as final and changes nothing.
\<close>
theorem settle_books_once:
  assumes ok: "store_ok s"
    and settled: "settle_shared_core x s rid actual uk now a wm = Inr (Settle_Settled u refunded overrun, s')"
  shows "\<exists>row v. find (\<lambda>r. r_id r = uuid_to_string x rid) (reservations s) = Some row
    \<and> (r_state row = ''active'' \<or> r_state row = ''expired'')
    \<and> v = (case actual of Some a \<Rightarrow> uint a | None \<Rightarrow> r_amount row)
    \<and> (\<forall>p. settled_total s' p = settled_total s p + (if p = r_pool_id row then v else 0))
    \<and> (\<forall>p. active_total s' p = active_total s p
         - (if p = r_pool_id row \<and> r_state row = ''active'' then r_amount row else 0))
    \<and> v + (case refunded of None \<Rightarrow> 0 | Some d \<Rightarrow> uint d)
        = r_amount row + (case overrun of None \<Rightarrow> 0 | Some d \<Rightarrow> uint d)
    \<and> (\<forall>actual' uk' now' a' wm' out s''.
         settle_shared_core x s' rid actual' uk' now' a' wm' = Inr (out, s'')
         \<longrightarrow> out = Settle_AlreadyFinal u \<and> s'' = s')"
proof (rule settle_core_totals [OF ok settled])
  fix row v
  assume row: "find (\<lambda>r. r_id r = uuid_to_string x rid) (reservations s) = Some row"
    and st: "r_state row = ''active'' \<or> r_state row = ''expired''"
    and v: "uint v = (case actual of Some a \<Rightarrow> uint a | None \<Rightarrow> r_amount row)"
    and tot: "\<And>p. settled_total s' p = settled_total s p + (if p = r_pool_id row then uint v else 0)"
      "\<And>p. active_total s' p = active_total s p
         - (if p = r_pool_id row \<and> r_state row = ''active'' then r_amount row else 0)"
    and u: "spr_settled_amount u = Some v" "uint (spr_amount u) = r_amount row" "spr_state u = Settled"
      "refunded = spr_refunded u" "overrun = spr_overrun u"
      "get_shared_reservation_tx x s' rid = Inr (Some u)"
  have balance: "uint v + (case refunded of None \<Rightarrow> 0 | Some d \<Rightarrow> uint d)
      = r_amount row + (case overrun of None \<Rightarrow> 0 | Some d \<Rightarrow> uint d)"
    using u positive_delta_balance [of v "spr_amount u"] by (simp add: spr_refunded_def spr_overrun_def)
  have "out = Settle_AlreadyFinal u \<and> s'' = s'"
    if "settle_shared_core x s' rid actual' uk' now' a' wm' = Inr (out, s'')"
    for actual' uk' now' a' wm' out s''
    using that u(3,6) by (auto simp: settle_shared_core_def Let_def elim!: rbindE)
  with row st v tot balance show ?thesis by blast
qed

definition demo_settled :: LedgerStore where
  "demo_settled = demo_held\<lparr>reservations :=
     map (settle_row 4 True (int_bits 9) (None, Some ''agent_absent'', Some ''turn_hold'') None None)
       (reservations demo_held)\<rparr>"

definition demo_settled_hold :: SharedPoolReservation where
  "demo_settled_hold = (granted_reservation (demo_request ''k'' 7)
      (main_executor (Some TurnHold)) 1 60000000005)
      \<lparr>spr_state := Settled, spr_settled_amount := Some 4, spr_usage_known := Some True,
       spr_settled_at := Some 9\<rparr>"

lemma demo_settle:
  "settle_shared_core demo_externals demo_held 1 (Some 4) True 9 attribution_default None
     = Inr (Settle_Settled demo_settled_hold (Some 3) None, demo_settled)"
  by code_simp

lemma demo_held_ok: "store_ok demo_held"
  by code_simp

theorem settle_books_once_witness:
  "settled_total demo_settled ''p'' = settled_total demo_held ''p'' + 4
   \<and> active_total demo_settled ''p'' = active_total demo_held ''p'' - 7"
proof -
  have row: "find (\<lambda>r. r_id r = uuid_to_string demo_externals 1) (reservations demo_held)
      = Some (hd (reservations demo_held))"
    "r_pool_id (hd (reservations demo_held)) = ''p''"
    "r_state (hd (reservations demo_held)) = ''active''" "r_amount (hd (reservations demo_held)) = 7"
    by code_simp+
  show ?thesis
    using settle_books_once [OF demo_held_ok demo_settle] by (auto simp: row)
qed

section \<open>Releasing a hold\<close>

lemma release_core_eq:
  assumes row: "find (\<lambda>r. r_id r = uuid_to_string x rid) (reservations s) = Some row"
    and res: "row_to_reservation x row = Inr res"
  shows "release_shared x s rid now =
    (if r_state row \<noteq> ''active'' then Inr (Release_AlreadyFinal res, s)
     else rbind (rfc3339 x now) (\<lambda>now_str.
       let s' = s\<lparr>reservations := release_rows x rid now_str (reservations s)\<rparr>
       in rbind (get_expected x s' rid) (\<lambda>updated. Inr (Release_Released updated, s'))))"
    and "release_and_forget_unstarted_shared x s rid now =
    (if r_state row \<noteq> ''active'' then Inr (Release_AlreadyFinal res, s)
     else rbind (rfc3339 x now) (\<lambda>now_str.
       let s' = s\<lparr>reservations := release_rows x rid now_str (reservations s),
             hold_prompts := filter (\<lambda>h. hp_reservation_id h \<noteq> uuid_to_string x rid)
               (hold_prompts s)\<rparr>
       in rbind (get_expected x s' rid) (\<lambda>updated. Inr (Release_Released updated, s'))))"
proof -
  have found: "get_shared_reservation_tx x s rid = Inr (Some res)"
    using row res by (auto simp: get_shared_reservation_tx_eq_Some)
  note st = row_to_reservation_state(1) [OF res]
  note m = find_matches [OF row, of "\<lambda>r. r_state r = ''active''"]
  show "release_shared x s rid now =
    (if r_state row \<noteq> ''active'' then Inr (Release_AlreadyFinal res, s)
     else rbind (rfc3339 x now) (\<lambda>now_str.
       let s' = s\<lparr>reservations := release_rows x rid now_str (reservations s)\<rparr>
       in rbind (get_expected x s' rid) (\<lambda>updated. Inr (Release_Released updated, s'))))"
    using found st m by (simp add: release_shared_def Let_def)
  show "release_and_forget_unstarted_shared x s rid now =
    (if r_state row \<noteq> ''active'' then Inr (Release_AlreadyFinal res, s)
     else rbind (rfc3339 x now) (\<lambda>now_str.
       let s' = s\<lparr>reservations := release_rows x rid now_str (reservations s),
             hold_prompts := filter (\<lambda>h. hp_reservation_id h \<noteq> uuid_to_string x rid)
               (hold_prompts s)\<rparr>
       in rbind (get_expected x s' rid) (\<lambda>updated. Inr (Release_Released updated, s'))))"
    using found st m by (simp add: release_and_forget_unstarted_shared_def Let_def)
qed

lemma get_shared_reservation_cases:
  assumes "get_shared_reservation_tx x s rid = Inr found"
  obtains (none) "found = None" "find (\<lambda>r. r_id r = uuid_to_string x rid) (reservations s) = None"
  | (some) row res where "found = Some res" "row_to_reservation x row = Inr res"
    "find (\<lambda>r. r_id r = uuid_to_string x rid) (reservations s) = Some row"
  using assms
  by (cases found) (auto simp: get_shared_reservation_tx_eq_Some get_shared_reservation_tx_eq_None)

text \<open>Both release entry points change the reservation table the same way.\<close>
definition releases :: "externals \<Rightarrow> LedgerStore \<Rightarrow> uuid \<Rightarrow> ReservationRow \<Rightarrow> LedgerStore \<Rightarrow> bool" where
  "releases x s rid row s' \<longleftrightarrow>
     find (\<lambda>r. r_id r = uuid_to_string x rid) (reservations s) = Some row
   \<and> r_state row = ''active''
   \<and> (\<exists>now_str prompts. s' = s\<lparr>reservations := release_rows x rid now_str (reservations s),
        hold_prompts := prompts\<rparr>)"

lemma release_cases:
  assumes "release_shared x s rid now = Inr (out, s')
    \<or> release_and_forget_unstarted_shared x s rid now = Inr (out, s')"
  obtains (unchanged) "s' = s" "\<And>u. out \<noteq> Release_Released u"
  | (released) row u where "releases x s rid row s'" "out = Release_Released u"
    "get_shared_reservation_tx x s' rid = Inr (Some u)"
proof -
  from assms obtain found where found: "get_shared_reservation_tx x s rid = Inr found"
    by (auto simp: release_shared_def release_and_forget_unstarted_shared_def elim!: rbindE)
  then show ?thesis
  proof (cases rule: get_shared_reservation_cases)
    case none
    with assms found show ?thesis
      by (auto simp: release_shared_def release_and_forget_unstarted_shared_def intro: unchanged)
  next
    case (some row res)
    have "\<exists>now_str prompts u. s' = s\<lparr>reservations := release_rows x rid now_str (reservations s),
        hold_prompts := prompts\<rparr> \<and> out = Release_Released u
        \<and> get_shared_reservation_tx x s' rid = Inr (Some u)" if "r_state row = ''active''"
      using assms that unfolding release_core_eq [OF some(3,2)]
      by (auto simp: Let_def get_expected_eq_Inr elim!: rbindE)
        (metis LedgerStore.surjective LedgerStore.update_convs(2,4))+
    then have "\<exists>u. releases x s rid row s' \<and> out = Release_Released u
        \<and> get_shared_reservation_tx x s' rid = Inr (Some u)" if "r_state row = ''active''"
      using that some(3) by (auto simp: releases_def)
    moreover have "s' = s \<and> (\<forall>u. out \<noteq> Release_Released u)" if "r_state row \<noteq> ''active''"
      using assms that unfolding release_core_eq [OF some(3,2)] by auto
    ultimately show ?thesis
      by (cases "r_state row = ''active''") (auto intro: unchanged released)
  qed
qed

lemma releases_store_ok: "store_ok s \<Longrightarrow> releases x s rid row s' \<Longrightarrow> store_ok s'"
proof -
  assume ok: "store_ok s" and "releases x s rid row s'"
  then obtain n ps where s': "s' = s\<lparr>reservations := release_rows x rid n (reservations s),
      hold_prompts := ps\<rparr>" by (auto simp: releases_def)
  have "store_ok (s\<lparr>reservations := release_rows x rid n (reservations s)\<rparr>)"
    unfolding release_rows_def using ok
    by (rule update_rows_store_ok) (auto simp: row_ok_def reservation_checks_def)
  then show ?thesis by (simp add: s' store_ok_def)
qed

lemma releases_totals:
  assumes "store_ok s" "releases x s rid row s'"
  shows "settled_total s' p = settled_total s p"
    and "active_total s' p = active_total s p - (if p = r_pool_id row then r_amount row else 0)"
proof -
  from assms obtain n ps where
    row: "find (\<lambda>r. r_id r = uuid_to_string x rid) (reservations s) = Some row" "r_state row = ''active''"
    and s': "s' = s\<lparr>reservations := release_rows x rid n (reservations s), hold_prompts := ps\<rparr>"
    by (auto simp: releases_def)
  have "distinct (map r_id (reservations s))" using assms(1) by (simp add: store_ok_def)
  note upd = totals_update_row [where P = "\<lambda>r. r_state r = ''active''", OF this row]
  show "settled_total s' p = settled_total s p"
    "active_total s' p = active_total s p - (if p = r_pool_id row then r_amount row else 0)"
    using row(2)
    by (simp_all add: s' settled_total_def active_total_def upd release_rows_def)
      (simp_all add: settled_value_def active_value_def)
qed

section \<open>Renewing a hold\<close>

definition renew_rows ::
    "externals \<Rightarrow> uuid \<Rightarrow> PrincipalId \<Rightarrow> string \<Rightarrow> string \<Rightarrow> ReservationRow list \<Rightarrow> ReservationRow list" where
  "renew_rows x rid principal_id session_id expires_str rows =
     update_where (\<lambda>r. r_id r = uuid_to_string x rid \<and> r_state r = ''active''
         \<and> r_principal_id r = principal_id \<and> r_session_id r = session_id)
       (\<lambda>r. r\<lparr>r_expires_at := expires_str\<rparr>) rows"

lemma record_hold_prompt_tx_reservations [simp]:
  "reservations (record_hold_prompt_tx x s pr se pm rid) = reservations s"
  "quota_pools (record_hold_prompt_tx x s pr se pm rid) = quota_pools s"
  "snapshots (record_hold_prompt_tx x s pr se pm rid) = snapshots s"
  "charge_floor (record_hold_prompt_tx x s pr se pm rid) = charge_floor s"
  by (simp_all add: record_hold_prompt_tx_def Let_def)

lemma renew_cases:
  assumes "renew_shared_for_prompt x s rid pr se now ttl prompt = Inr (out, s')"
  obtains (unchanged) "s' = s" "\<And>u. out \<noteq> Renew_Renewed u"
  | (renewed) row res u expires_at e_str where
    "find (\<lambda>r. r_id r = uuid_to_string x rid) (reservations s) = Some row"
    "row_to_reservation x row = Inr res"
    "r_state row = ''active''" "r_principal_id row = pr" "r_session_id row = se"
    "now < spr_expires_at res"
    "expiry_after x now ttl = Inr expires_at" "rfc3339 x expires_at = Inr e_str"
    "reservations s' = renew_rows x rid pr se e_str (reservations s)"
    "quota_pools s' = quota_pools s" "snapshots s' = snapshots s" "charge_floor s' = charge_floor s"
    "out = Renew_Renewed u"
proof -
  from assms obtain found where found: "get_shared_reservation_tx x s rid = Inr found"
    by (auto simp: renew_shared_for_prompt_def elim!: rbindE)
  then show ?thesis
  proof (cases rule: get_shared_reservation_cases)
    case none
    with assms found show ?thesis by (auto simp: renew_shared_for_prompt_def intro: unchanged)
  next
    case (some row res)
    note st = row_to_reservation_state(1) [OF some(2)]
    note fl = row_to_reservation_fields [OF some(2)]
    show ?thesis
    proof (cases "r_state row = ''active'' \<and> r_principal_id row = pr \<and> r_session_id row = se
        \<and> now < spr_expires_at res")
      case False
      then show ?thesis
        using assms found some(1) st fl(5,6)
        by (auto simp: renew_shared_for_prompt_def Let_def intro: unchanged)
    next
      case True
      have "list_ex (\<lambda>r. r_id r = uuid_to_string x rid \<and> r_state r = ''active''
          \<and> r_principal_id r = pr \<and> r_session_id r = se) (reservations s)"
        using find_Some_mem [OF some(3)] True by (auto simp: list_ex_iff)
      then obtain e e_str u where "expiry_after x now ttl = Inr e" "rfc3339 x e = Inr e_str"
        "reservations s' = renew_rows x rid pr se e_str (reservations s)"
        "quota_pools s' = quota_pools s" "snapshots s' = snapshots s"
        "charge_floor s' = charge_floor s" "out = Renew_Renewed u"
        using assms found some(1) st fl(5,6) True
        by (auto simp: renew_shared_for_prompt_def Let_def renew_rows_def elim!: rbindE
            split: option.splits)
      with True some show ?thesis by (intro renewed) auto
    qed
  qed
qed

lemma renew_rows_same:
  "map r_id (renew_rows x rid pr se e rows) = map r_id rows"
  "sum_col (settled_value p) (renew_rows x rid pr se e rows) = sum_col (settled_value p) rows"
  "sum_col (active_value p) (renew_rows x rid pr se e rows) = sum_col (active_value p) rows"
  by (induction rows) (auto simp: renew_rows_def settled_value_def active_value_def)

lemma store_ok_cong:
  assumes "reservations s' = reservations s" "quota_pools s' = quota_pools s"
    "snapshots s' = snapshots s"
  shows "store_ok s' = store_ok s"
  using assms by (simp add: store_ok_def)

lemma renew_store_ok:
  assumes "store_ok s" "renew_shared_for_prompt x s rid pr se now ttl prompt = Inr (out, s')"
  shows "store_ok s'"
  using assms(2)
proof (cases rule: renew_cases)
  case (renewed row res u expires_at e_str)
  have "store_ok (s\<lparr>reservations := renew_rows x rid pr se e_str (reservations s)\<rparr>)"
    unfolding renew_rows_def using assms(1)
    by (rule update_rows_store_ok) (auto simp: row_ok_def reservation_checks_def)
  then show ?thesis
    using renewed store_ok_cong [of s' "s\<lparr>reservations := renew_rows x rid pr se e_str (reservations s)\<rparr>"]
    by simp
qed (use assms in simp)

lemma renew_totals:
  assumes "renew_shared_for_prompt x s rid pr se now ttl prompt = Inr (out, s')"
  shows "settled_total s' p = settled_total s p" "active_total s' p = active_total s p"
  using assms
  by (cases rule: renew_cases; simp add: settled_total_def active_total_def renew_rows_same)+

text \<open>
  C19. Only the live owner extends a hold. A renewal succeeds only for a hold that is active, was
  taken by this very principal and session, and has not reached its expiry; it moves the expiry to
  now plus the requested time (capped at a hundred years), changes no other column of any
  reservation and hence no total of any pool. Any other call leaves the store as it was.
\<close>
theorem renew_only_by_live_owner:
  assumes x: "externals_ok x"
    and renew: "renew_shared_for_prompt x s rid pr se now ttl pm = Inr (out, s')"
  shows "(s' = s \<and> (\<forall>u. out \<noteq> Renew_Renewed u))
    \<or> (\<exists>row res u e e_str.
         find (\<lambda>r. r_id r = uuid_to_string x rid) (reservations s) = Some row
       \<and> row_to_reservation x row = Inr res \<and> spr_state res = Active
       \<and> spr_principal_id res = pr \<and> spr_session_id res = se \<and> now < spr_expires_at res
       \<and> out = Renew_Renewed u
       \<and> e = now + uint (min ttl MAX_TTL_SECS) * ns_per_sec \<and> parse_time x e_str = Inr e
       \<and> reservations s' = renew_rows x rid pr se e_str (reservations s)
       \<and> map (\<lambda>r. r\<lparr>r_expires_at := ''''\<rparr>) (reservations s')
         = map (\<lambda>r. r\<lparr>r_expires_at := ''''\<rparr>) (reservations s)
       \<and> (\<forall>p. committed_total s' p = committed_total s p))"
  using renew
proof (cases rule: renew_cases)
  case (renewed row res u expires_at e_str)
  have e: "expires_at = now + uint (min ttl MAX_TTL_SECS) * ns_per_sec"
    using renewed(7) by (simp add: expiry_after_def ok_or_eq_Inr externals_okD(2) [OF x])
  have "map (\<lambda>r. r\<lparr>r_expires_at := ''''\<rparr>) (reservations s')
      = map (\<lambda>r. r\<lparr>r_expires_at := ''''\<rparr>) (reservations s)"
    unfolding renewed(9) renew_rows_def by (rule map_update_where_same) simp
  moreover have "committed_total s' p = committed_total s p" for p
    using renew_totals [OF renew] by (simp add: committed_total_def)
  moreover have "spr_state res = Active" "spr_principal_id res = pr" "spr_session_id res = se"
    using renewed row_to_reservation_state(1) [OF renewed(2)]
      row_to_reservation_fields(5,6) [OF renewed(2)] by simp_all
  ultimately show ?thesis using renewed e rfc3339_parse [OF x renewed(8)] by blast
qed simp

theorem renew_only_by_live_owner_witness:
  "\<exists>s'. renew_shared_for_prompt demo_externals demo_held 1 ''a'' ''s'' 9 30 (Some ''m'')
      = Inr (Renew_Renewed ((granted_reservation (demo_request ''k'' 7)
          (main_executor (Some TurnHold)) 1 30000000009)), s')
    \<and> committed_total s' ''p'' = committed_total demo_held ''p''"
proof -
  have "case renew_shared_for_prompt demo_externals demo_held 1 ''a'' ''s'' 9 30 (Some ''m'') of
      Inr (Renew_Renewed u, _) \<Rightarrow> u = granted_reservation (demo_request ''k'' 7)
          (main_executor (Some TurnHold)) 1 30000000009 | _ \<Rightarrow> False"
    by code_simp
  then obtain s' where "renew_shared_for_prompt demo_externals demo_held 1 ''a'' ''s'' 9 30 (Some ''m'')
      = Inr (Renew_Renewed (granted_reservation (demo_request ''k'' 7)
          (main_executor (Some TurnHold)) 1 30000000009), s')"
    by (auto split: sum.splits prod.splits SharedPoolRenewOutcome.splits)
  with renew_only_by_live_owner [OF demo_externals_ok this] show ?thesis by auto
qed

section \<open>Booking spend that already happened\<close>

lemma charge_row_ok: "0 \<le> n \<Longrightarrow> n \<le> i64_max \<Longrightarrow> row_ok (charge_row x req a rid n t w i)"
  using attribution_columns_ok
  by (simp add: row_ok_def reservation_checks_def charge_row_def)

lemma charge_row_values:
  "settled_value p (charge_row x req a rid n t w i) = (if p = cr_pool_id req then n else 0)"
  "active_value p (charge_row x req a rid n t w i) = 0"
  by (auto simp: settled_value_def active_value_def charge_row_def)

lemma charge_cases:
  assumes "charge_shared_with_watermark x s req watermark rid = Inr (out, s')"
  obtains (unchanged) "s' = s" "\<And>u a v k. out \<noteq> Charged u a v k"
  | (adopted) existing wt ids where
    "s' = adopt_watermark x s (spr_id existing) wt ids" "out = AlreadyCharged existing"
    "\<exists>row \<in> set (reservations s). row_to_reservation x row = Inr existing" "spr_state existing = Settled"
  | (charged) attribution pool now_str wt ids u settled active overhang effective where
    "find_by_key s (cr_pool_id req) (cr_principal_id req) (cr_idempotency_key req) = None"
    "quota_pool x s (cr_pool_id req) = Inr (Some pool)" "cr_unit req = qp_unit pool"
    "uint (cr_amount req) \<le> i64_max"
    "insert_reservation s (charge_row x req attribution rid (uint (cr_amount req)) now_str wt ids)
      = Inr s'"
    "effective_capacity_tx x s' pool (cr_capacity_source req) (cr_now req) = Inr effective"
    "settled_and_active_tx s' (cr_pool_id req) = (settled, active)"
    "overhang_for_tx x s' (cr_pool_id req) (cr_capacity_source req) (cr_now req) = Inr overhang"
    "out = (let adm = \<lparr>pa_capacity = (case effective of Inl _ \<Rightarrow> qp_capacity pool | Inr c \<Rightarrow> c),
         pa_settled = settled, pa_active = active, pa_external_overhang = overhang\<rparr>
       in Charged u adm (pa_overrun adm) (case effective of Inl _ \<Rightarrow> False | Inr _ \<Rightarrow> True))"
    "rfc3339 x (cr_now req) = Inr now_str"
proof -
  from assms obtain wt ids a where
    w: "watermark_columns x watermark = Inr (wt, ids)" and a: "attribution_resolve (cr_attribution req) = Inr a"
    and n: "checked_i64 (cr_amount req) = Inr (uint (cr_amount req))" "uint (cr_amount req) \<le> i64_max"
    by (auto simp: charge_shared_with_watermark_def checked_i64_eq_Inr elim!: rbindE)
  show ?thesis
  proof (cases "find_by_key s (cr_pool_id req) (cr_principal_id req) (cr_idempotency_key req)")
    case (Some row)
    then have "row \<in> set (reservations s)" by (auto simp: find_by_key_def dest: find_Some_mem)
    moreover from Some assms w a n(1) have "(\<exists>e. out = KeyConflict e) \<and> s' = s
      \<or> (\<exists>e. out = AlreadyCharged e \<and> row_to_reservation x row = Inr e \<and> spr_state e = Settled
          \<and> (s' = s \<or> s' = adopt_watermark x s (spr_id e) wt ids))"
      by (auto simp: charge_shared_with_watermark_def identical_charge_def Let_def elim!: rbindE split: if_splits)
    ultimately show ?thesis by (auto intro: unchanged adopted)
  next
    case None
    show ?thesis
    proof (cases "find (\<lambda>p. pr_pool_id p = cr_pool_id req) (quota_pools s)")
      case None
      with assms w a n(1) \<open>find_by_key _ _ _ _ = None\<close> have "out = Charge_NoPool \<and> s' = s"
        by (auto simp: charge_shared_with_watermark_def)
      then show ?thesis by (auto intro: unchanged)
    next
      case (Some pool_row)
      with assms w a n(1) None obtain pool now_str u settled active overhang effective where
        "row_to_pool x (cr_pool_id req) pool_row = Inr pool" "cr_unit req = qp_unit pool"
        "insert_reservation s (charge_row x req a rid (uint (cr_amount req)) now_str wt ids) = Inr s'"
        "effective_capacity_tx x s' pool (cr_capacity_source req) (cr_now req) = Inr effective"
        "settled_and_active_tx s' (cr_pool_id req) = (settled, active)"
        "overhang_for_tx x s' (cr_pool_id req) (cr_capacity_source req) (cr_now req) = Inr overhang"
        "out = (let adm = \<lparr>pa_capacity = (case effective of Inl _ \<Rightarrow> qp_capacity pool | Inr c \<Rightarrow> c),
           pa_settled = settled, pa_active = active, pa_external_overhang = overhang\<rparr>
         in Charged u adm (pa_overrun adm) (case effective of Inl _ \<Rightarrow> False | Inr _ \<Rightarrow> True))"
        "rfc3339 x (cr_now req) = Inr now_str"
        by (auto simp: charge_shared_with_watermark_def Let_def elim!: rbindE
            split: if_splits prod.splits)
      moreover have "quota_pool x s (cr_pool_id req) = Inr (Some pool)"
        using calculation(1) Some by (simp add: quota_pool_def)
      ultimately show ?thesis using None n(2) by (intro charged)
    qed
  qed
qed

lemma adopt_watermark_store_ok: "store_ok s \<Longrightarrow> store_ok (adopt_watermark x s rid wt ids)"
  unfolding adopt_watermark_def
  by (rule update_rows_store_ok) (auto simp: row_ok_def reservation_checks_def)

lemma adopt_watermark_totals [simp]:
  "settled_total (adopt_watermark x s rid wt ids) p = settled_total s p"
  "active_total (adopt_watermark x s rid wt ids) p = active_total s p"
  unfolding adopt_watermark_def settled_total_def active_total_def
  by (auto simp: settled_value_def active_value_def intro!: sum_col_update_where_same)

lemma charge_store_ok:
  assumes "store_ok s" "charge_shared_with_watermark x s req watermark rid = Inr (out, s')"
  shows "store_ok s'"
  using assms(2)
proof (cases rule: charge_cases)
  case (charged attribution pool now_str wt ids u settled active overhang effective)
  then show ?thesis
    using assms(1) by (blast intro: insert_reservation_store_ok charge_row_ok uint_u64_bounds(1))
qed (use assms adopt_watermark_store_ok in auto)

lemma charge_totals:
  assumes "charge_shared_with_watermark x s req watermark rid = Inr (out, s')"
  shows "settled_total s' p = settled_total s p +
      (if (\<exists>u a v k. out = Charged u a v k) \<and> p = cr_pool_id req then uint (cr_amount req) else 0)"
    and "active_total s' p = active_total s p"
  using assms
  by (cases rule: charge_cases; auto simp: insert_reservation_totals charge_row_values Let_def)+

definition charged_reservation ::
    "SharedPoolChargeRequest \<Rightarrow> ExecutorAttribution \<Rightarrow> uuid \<Rightarrow> SharedPoolReservation" where
  "charged_reservation req attribution rid =
     \<lparr>spr_id = rid, spr_pool_id = cr_pool_id req, spr_principal_id = cr_principal_id req,
      spr_session_id = cr_session_id req, spr_amount = cr_amount req, spr_state = Settled,
      spr_settled_amount = Some (cr_amount req), spr_usage_known = Some (cr_usage_known req),
      spr_idempotency_key = cr_idempotency_key req, spr_created_at = cr_now req,
      spr_expires_at = cr_now req, spr_settled_at = Some (cr_now req), spr_released_at = None,
      spr_schema_version = SHARED_POOL_RESERVATION_SCHEMA_VERSION,
      spr_agent_id = ea_agent_id attribution, spr_executor_kind = ea_executor_kind attribution,
      spr_charge_source = ea_charge_source attribution\<rparr>"

lemma charge_row_reads_back:
  assumes "externals_ok x" "rfc3339 x (cr_now req) = Inr n"
  shows "row_to_reservation x (charge_row x req a rid (uint (cr_amount req)) n wt ids)
    = Inr (charged_reservation req a rid)"
  using assms
  by (simp add: row_to_reservation_def charge_row_def charged_reservation_def state_from_str_def
      externals_okD(3))

lemma find_inserted:
  assumes "insert_reservation s row = Inr s'"
  shows "find (\<lambda>r. r_id r = r_id row) (reservations s') = Some row"
proof -
  have "find (\<lambda>r. r_id r = r_id row) (reservations s) = None"
    using assms by (simp add: insert_reservation_eq_Inr find_key_None)
  then show ?thesis using assms by (auto simp: insert_reservation_eq_Inr find_append)
qed

lemma get_expected_inserted:
  assumes "insert_reservation s row = Inr s'" "r_id row = uuid_to_string x rid"
    "row_to_reservation x row = Inr res"
  shows "get_expected x s' rid = Inr res"
  using find_inserted [OF assms(1)] assms(2,3)
  by (simp add: get_expected_eq_Inr get_shared_reservation_tx_eq_Some)

text \<open>
  C15. A charge is never refused for lack of room: it books spend that has already happened. With
  an operator cap in force, a well-formed charge under a fresh id and an unused key, in the
  pool's unit, is recorded whatever the pool already holds. It raises the pool's settled total by
  exactly its amount, leaves holds alone, and reports the overrun of the pool exactly as long as
  the pool's totals stay inside \<open>u64\<close> (and clamped at \<open>i64\<close>'s magnitude). A replay of the same
  charge is recognised and books nothing more.
\<close>
theorem charge_always_books:
  assumes x: "externals_ok x" and ok: "store_ok s"
    and fresh: "uuid_to_string x rid \<notin> set (map r_id (reservations s))"
    and key: "find_by_key s (cr_pool_id req) (cr_principal_id req) (cr_idempotency_key req) = None"
    and pool: "quota_pool x s (cr_pool_id req) = Inr (Some pool)" "cr_unit req = qp_unit pool"
    and amount: "uint (cr_amount req) \<le> i64_max"
    and attr: "attribution_resolve (cr_attribution req) = Inr a"
    and now: "rfc3339 x (cr_now req) = Inr now_str"
    and source: "cr_capacity_source req = LocalConfigured cap"
  shows "\<exists>adm s'. charge_shared x s req rid
      = Inr (Charged (charged_reservation req a rid) adm (pa_overrun adm) True, s')
    \<and> settled_total s' (cr_pool_id req) = settled_total s (cr_pool_id req) + uint (cr_amount req)
    \<and> active_total s' (cr_pool_id req) = active_total s (cr_pool_id req)
    \<and> pa_capacity adm = cap
    \<and> (committed_total s' (cr_pool_id req) \<le> u64_max \<longrightarrow>
        uint (pa_overrun adm)
          = min (max 0 (committed_total s' (cr_pool_id req) - uint cap)) (i64_max + 1))
    \<and> charge_shared x s' req rid' = Inr (AlreadyCharged (charged_reservation req a rid), s')"
proof -
  let ?p = "cr_pool_id req"
  let ?row = "charge_row x req a rid (uint (cr_amount req)) now_str None None"
  let ?s = "s\<lparr>reservations := reservations s @ [?row]\<rparr>"
  obtain settled active where tot: "settled_and_active_tx ?s ?p = (settled, active)" by fastforce
  let ?adm = "\<lparr>pa_capacity = cap, pa_settled = settled, pa_active = active, pa_external_overhang = 0\<rparr>"
  from pool obtain pool_row where prow: "find (\<lambda>p. pr_pool_id p = ?p) (quota_pools s) = Some pool_row"
    "row_to_pool x ?p pool_row = Inr pool" by (auto simp: quota_pool_eq_Some)
  have rok: "row_ok ?row" using amount by (simp add: charge_row_ok)
  have sel: "r_id ?row = uuid_to_string x rid" "row_key ?row = (?p, cr_principal_id req, cr_idempotency_key req)"
    "r_pool_id ?row = ?p" "r_is_charge ?row"
    by (simp_all add: charge_row_def row_key_def)
  have "row_key ?row \<notin> set (map row_key (reservations s))"
    using key by (force simp: find_by_key_def find_None_iff sel(2))
  moreover have "?p \<in> set (map pr_pool_id (quota_pools s))"
    using find_Some_mem [OF prow(1)] by force
  ultimately have ins: "insert_reservation s ?row = Inr ?s"
    using fresh rok by (simp add: insert_reservation_eq_Inr sel row_ok_def)
  note rb = charge_row_reads_back [OF x now, of a rid None None]
  note got = get_expected_inserted [OF ins sel(1) rb]
  have charge: "charge_shared x s req rid
      = Inr (Charged (charged_reservation req a rid) ?adm (pa_overrun ?adm) True, ?s)"
    using key prow pool(2) attr now ins got tot amount
    by (simp add: charge_shared_def charge_shared_with_watermark_def watermark_columns_def
        checked_i64_def source effective_capacity_tx_def overhang_for_tx_def Let_def)
  note ct = charge_totals [OF charge [unfolded charge_shared_def], of ?p]
  have sok: "store_ok ?s" using charge_store_ok [OF ok charge [unfolded charge_shared_def]] .
  then have rows: "list_all row_ok (reservations ?s)" by (simp add: store_ok_def)
  note exact = settled_and_active_exact [OF rows tot] and nonneg = totals_nonneg [OF rows, of ?p]
  have over: "uint (pa_overrun ?adm) = min (max 0 (committed_total ?s ?p - uint cap)) (i64_max + 1)"
    if "committed_total ?s ?p \<le> u64_max"
    using that exact nonneg unfolding pa_overrun_room
    by (auto simp: pa_room_def committed_total_def i64_max_def)
  have "find_by_key ?s ?p (cr_principal_id req) (cr_idempotency_key req) = Some ?row"
    using key sel(2) by (simp add: find_by_key_def find_append)
  moreover have "is_charge_row_tx x ?s rid = Inr True"
    using find_inserted [OF ins] sel(1,4) by (simp add: is_charge_row_tx_def)
  ultimately have replay: "charge_shared x ?s req rid'
      = Inr (AlreadyCharged (charged_reservation req a rid), ?s)"
    using attr amount rb
    by (simp add: charge_shared_def charge_shared_with_watermark_def watermark_columns_def
        checked_i64_def identical_charge_def) (simp add: charged_reservation_def)
  from charge replay ct over show ?thesis by auto
qed

definition demo_charge :: SharedPoolChargeRequest where
  "demo_charge = \<lparr>cr_pool_id = ''p'', cr_principal_id = ''a'', cr_session_id = ''s'',
     cr_amount = 9, cr_unit = Tokens, cr_idempotency_key = ''c'', cr_now = 7,
     cr_attribution = main_executor (Some SubagentTranscript),
     cr_capacity_source = LocalConfigured 12, cr_usage_known = True\<rparr>"

text \<open>Against a 7-token hold and a cap of 12, a 9-token charge is booked with an overrun of 4.\<close>
theorem charge_always_books_witness:
  "\<exists>adm s'. charge_shared demo_externals demo_held demo_charge 2
      = Inr (Charged (charged_reservation demo_charge (main_executor (Some SubagentTranscript)) 2)
          adm (pa_overrun adm) True, s')
    \<and> settled_total s' ''p'' = 9 \<and> active_total s' ''p'' = 7 \<and> uint (pa_overrun adm) = 4"
proof -
  have *: "uuid_to_string demo_externals 2 \<notin> set (map r_id (reservations demo_held))"
    "find_by_key demo_held (cr_pool_id demo_charge) (cr_principal_id demo_charge)
      (cr_idempotency_key demo_charge) = None"
    "quota_pool demo_externals demo_held (cr_pool_id demo_charge) = Inr (Some \<lparr>qp_pool_id = ''p'',
       qp_unit = Tokens, qp_capacity = 10, qp_schema_version = SHARED_POOL_RESERVATION_SCHEMA_VERSION,
       qp_created_at = 0, qp_updated_at = 0\<rparr>)"
    "uint (cr_amount demo_charge) \<le> i64_max"
    "attribution_resolve (cr_attribution demo_charge) = Inr (main_executor (Some SubagentTranscript))"
    "rfc3339 demo_externals (cr_now demo_charge) = Inr (int_bits 7)"
    "cr_capacity_source demo_charge = LocalConfigured 12"
    by code_simp+
  have "settled_total demo_held ''p'' = 0" "active_total demo_held ''p'' = 7"
    "cr_pool_id demo_charge = ''p''" "uint (cr_amount demo_charge) = 9" "cr_unit demo_charge = Tokens"
    by code_simp+
  then show ?thesis
    using charge_always_books [OF demo_externals_ok demo_held_ok *(1-3) _ *(4-7), where rid' = 0]
    by (auto simp: committed_total_def u64_max_def i64_max_def)
qed

end
