(* ===== verification/Pool_Sweep.thy ===== *)
theory Pool_Sweep
  imports Pool_Settle
begin

text \<open>
  The sweeps that resolve holds nobody closed, and the ingest of provider gauge readings
  (\<open>crates/ledger/src/shared_pool.rs\<close>): \<open>expire_stale_shared_pool_reservations\<close>,
  \<open>settle_orphaned_gateway_holds\<close> and \<open>ingest_pool_provider_snapshot\<close>.
\<close>

section \<open>Booking and expiring a row\<close>

definition book_row :: "string \<Rightarrow> ReservationRow \<Rightarrow> ReservationRow" where
  "book_row now_str r = r\<lparr>r_state := ''settled'', r_settled_amount := Some (r_amount r),
     r_usage_known := Some False, r_settled_at := Some now_str\<rparr>"

definition book_reserved :: "LedgerStore \<Rightarrow> string \<Rightarrow> string \<Rightarrow> LedgerStore" where
  "book_reserved s id_str now_str =
     s\<lparr>reservations := update_where (\<lambda>r. r_id r = id_str \<and> r_state r = ''active'')
         (book_row now_str) (reservations s)\<rparr>"

definition expire_row :: "LedgerStore \<Rightarrow> string \<Rightarrow> string \<Rightarrow> LedgerStore" where
  "expire_row s id_str now_str =
     s\<lparr>reservations := update_where (\<lambda>r. r_id r = id_str)
         (\<lambda>r. r\<lparr>r_state := ''expired'', r_released_at := Some now_str\<rparr>) (reservations s)\<rparr>"

definition gateway_hold :: "ReservationRow \<Rightarrow> bool" where
  "gateway_hold r \<longleftrightarrow> coalesce '''' (r_charge_source r) = ''gateway'' \<and> \<not> r_is_charge r"

section \<open>The expiry sweep\<close>

fun stale_ids ::
    "externals \<Rightarrow> instant \<Rightarrow> ReservationRow list \<Rightarrow> LedgerError + (string \<times> bool) list" where
  "stale_ids x now [] = Inr []"
| "stale_ids x now (r # rs) =
     (if r_state r = ''active''
      then rbind (parse_time x (r_expires_at r)) (\<lambda>expires_at.
           rbind (stale_ids x now rs) (\<lambda>rest.
             Inr (if expires_at \<le> now then (r_id r, gateway_hold r) # rest else rest)))
      else stale_ids x now rs)"

fun expire_each ::
    "externals \<Rightarrow> string \<Rightarrow> LedgerStore \<Rightarrow> (string \<times> bool) list
      \<Rightarrow> LedgerError + (SharedPoolReservation list \<times> LedgerStore)" where
  "expire_each x now_str s [] = Inr ([], s)"
| "expire_each x now_str s ((id_str, is_gateway) # ids) =
     rbind (ok_or invalid (uuid_parse_str x id_str)) (\<lambda>rid.
     let s' = (if is_gateway then book_reserved s id_str now_str else expire_row s id_str now_str)
     in rbind (get_expected x s' rid) (\<lambda>resolved.
        rbind (expire_each x now_str s' ids) (\<lambda>(rest, s'').
          Inr (resolved # rest, s''))))"

definition expire_stale_shared_pool_reservations ::
    "externals \<Rightarrow> LedgerStore \<Rightarrow> instant
      \<Rightarrow> LedgerError + (SharedPoolReservation list \<times> LedgerStore)" where
  "expire_stale_shared_pool_reservations x s now =
     rbind (rfc3339 x now) (\<lambda>now_str.
     rbind (stale_ids x now (reservations s)) (\<lambda>ids.
       expire_each x now_str s ids))"

section \<open>The startup orphan sweep\<close>

definition boot_prefix_well_formed :: "string \<Rightarrow> bool" where
  "boot_prefix_well_formed p \<longleftrightarrow> length ''gw::'' < length p \<and> starts_with ''gw:'' p
     \<and> last p = CHR '':''"

definition orphaned :: "string \<Rightarrow> ReservationRow \<Rightarrow> bool" where
  "orphaned boot_prefix_keep r \<longleftrightarrow> r_state r = ''active'' \<and> \<not> r_is_charge r
     \<and> r_charge_source r = Some ''gateway''
     \<and> \<not> starts_with boot_prefix_keep (r_idempotency_key r)"

fun book_each ::
    "externals \<Rightarrow> string \<Rightarrow> LedgerStore \<Rightarrow> string list
      \<Rightarrow> LedgerError + (SharedPoolReservation list \<times> LedgerStore)" where
  "book_each x now_str s [] = Inr ([], s)"
| "book_each x now_str s (id_str # ids) =
     rbind (ok_or invalid (uuid_parse_str x id_str)) (\<lambda>rid.
     let s' = book_reserved s id_str now_str
     in rbind (get_expected x s' rid) (\<lambda>booked.
        rbind (book_each x now_str s' ids) (\<lambda>(rest, s'').
          Inr (booked # rest, s''))))"

definition settle_orphaned_gateway_holds ::
    "externals \<Rightarrow> LedgerStore \<Rightarrow> string \<Rightarrow> instant
      \<Rightarrow> LedgerError + (SharedPoolReservation list \<times> LedgerStore)" where
  "settle_orphaned_gateway_holds x s boot_prefix_keep now =
     (if \<not> boot_prefix_well_formed boot_prefix_keep then Inr ([], s)
      else rbind (rfc3339 x now) (\<lambda>now_str.
        book_each x now_str s (map r_id (filter (orphaned boot_prefix_keep) (reservations s)))))"

section \<open>Provider snapshots\<close>

definition upsert_snapshot :: "SnapshotRow \<Rightarrow> SnapshotRow list \<Rightarrow> SnapshotRow list" where
  "upsert_snapshot n ns =
     (if sn_pool_id n \<in> set (map sn_pool_id ns)
      then update_where (\<lambda>m. sn_pool_id m = sn_pool_id n) (\<lambda>_. n) ns
      else ns @ [n])"

definition reading_columns ::
    "GaugeReading \<Rightarrow> LedgerError + (bool \<times> int option \<times> int option)" where
  "reading_columns reading = (case reading of
     Undisclosed \<Rightarrow> Inr (False, None, None)
   | Used used limit \<Rightarrow>
       rbind (checked_i64 (qa_value used)) (\<lambda>used_value.
       rbind (transpose_opt (map_option checked_i64 limit)) (\<lambda>declared_limit.
         Inr (True, Some used_value, declared_limit))))"

definition ingest_pool_provider_snapshot ::
    "externals \<Rightarrow> LedgerStore \<Rightarrow> PoolId \<Rightarrow> instant \<Rightarrow> instant option \<Rightarrow> GaugeReading
      \<Rightarrow> Confidence \<Rightarrow> instant \<Rightarrow> LedgerError + LedgerStore" where
  "ingest_pool_provider_snapshot x s pool_id observed_at valid_until reading confidence now =
     (if now < observed_at then Inl invalid
      else rbind (reading_columns reading) (\<lambda>(disclosed, used_value, declared_limit).
        rbind (ok_or (Sqlite ToSqlConversionFailure) (confidence_ser x confidence))
        (\<lambda>confidence_str.
        case find (\<lambda>p. pr_pool_id p = pool_id) (quota_pools s) of
          None \<Rightarrow> Inl (NoSuchPool pool_id)
        | Some pool_row \<Rightarrow>
            rbind (row_to_pool x pool_id pool_row) (\<lambda>pool.
            rbind (case reading of
                Undisclosed \<Rightarrow> Inr ()
              | Used used _ \<Rightarrow> if qa_unit used \<noteq> qp_unit pool
                  then Inl (QuotaUnitMismatch (qp_unit pool) (qa_unit used)) else Inr ()) (\<lambda>_.
            rbind (transpose_opt (map_option (\<lambda>n. parse_time x (sn_observed_at n))
                (snapshot_row s pool_id))) (\<lambda>existing_observed_at.
            if (case existing_observed_at of None \<Rightarrow> False | Some e \<Rightarrow> observed_at < e)
            then Inr s
            else rbind (rfc3339 x observed_at) (\<lambda>observed_str.
              rbind (transpose_opt (map_option (rfc3339 x) valid_until)) (\<lambda>valid_str.
              rbind (rfc3339 x now) (\<lambda>now_str.
                Inr (s\<lparr>snapshots := upsert_snapshot
                   \<lparr>sn_pool_id = pool_id, sn_observed_at = observed_str,
                    sn_valid_until = valid_str, sn_disclosed = disclosed,
                    sn_used_value = used_value, sn_declared_limit = declared_limit,
                    sn_confidence = confidence_str, sn_updated_at = now_str\<rparr>
                   (snapshots s)\<rparr>))))))))))"

section \<open>What the sweeps do to a row\<close>

definition expired_row :: "string \<Rightarrow> ReservationRow \<Rightarrow> ReservationRow" where
  "expired_row now_str r = r\<lparr>r_state := ''expired'', r_released_at := Some now_str\<rparr>"

definition resolve_row :: "string \<Rightarrow> bool \<Rightarrow> ReservationRow \<Rightarrow> ReservationRow" where
  "resolve_row now_str is_gateway r =
     (if is_gateway then if r_state r = ''active'' then book_row now_str r else r
      else expired_row now_str r)"

lemma resolve_row_keeps [simp]:
  "r_id (resolve_row n g r) = r_id r" "row_key (resolve_row n g r) = row_key r"
  "r_pool_id (resolve_row n g r) = r_pool_id r" "r_amount (resolve_row n g r) = r_amount r"
  "r_is_charge (resolve_row n g r) = r_is_charge r"
  by (simp_all add: resolve_row_def book_row_def expired_row_def row_key_def)

lemma resolve_row_state:
  "r_state r = ''active'' \<Longrightarrow> r_state (resolve_row n g r) = (if g then ''settled'' else ''expired'')"
  by (simp add: resolve_row_def book_row_def expired_row_def)

lemma resolve_row_values:
  assumes "r_state r = ''active''"
  shows "settled_value p (resolve_row n g r) = (if g then active_value p r else 0)"
    and "active_value p (resolve_row n g r) = 0" "settled_value p r = 0"
  using assms
  by (auto simp: resolve_row_def book_row_def expired_row_def settled_value_def active_value_def)

lemma resolve_row_ok: "row_ok r \<Longrightarrow> r_state r = ''active'' \<Longrightarrow> row_ok (resolve_row n g r)"
  by (auto simp: row_ok_def reservation_checks_def resolve_row_def book_row_def expired_row_def)

lemma resolve_row_intact:
  assumes "row_intact x r" "parse_time x n = Inr t"
  shows "row_intact x (resolve_row n g r)"
  using assms
  by (auto simp: row_intact_iff resolve_row_def book_row_def expired_row_def)

section \<open>The loops resolve exactly the listed rows\<close>

definition sweep_row :: "string \<Rightarrow> (string \<times> bool) list \<Rightarrow> ReservationRow \<Rightarrow> ReservationRow" where
  "sweep_row now_str ids r =
     (case map_of ids (r_id r) of None \<Rightarrow> r | Some g \<Rightarrow> resolve_row now_str g r)"

lemma sweep_row_keeps [simp]:
  "r_id (sweep_row n ids r) = r_id r" "row_key (sweep_row n ids r) = row_key r"
  "r_pool_id (sweep_row n ids r) = r_pool_id r"
  by (simp_all add: sweep_row_def split: option.splits)

lemma expire_each_step:
  "(if g then book_reserved s i n else expire_row s i n)
     = s\<lparr>reservations := map (sweep_row n [(i, g)]) (reservations s)\<rparr>"
  by (auto simp: book_reserved_def expire_row_def sweep_row_def resolve_row_def expired_row_def
      update_where_def intro!: LedgerStore.fold_congs map_cong)

lemma sweep_row_Cons:
  assumes "i \<notin> set (map fst ids)"
  shows "sweep_row n ids (sweep_row n [(i, g)] r) = sweep_row n ((i, g) # ids) r"
proof -
  have "map_of ids i = None" using assms by (simp add: map_of_eq_None_iff)
  then show ?thesis by (cases "r_id r = i") (simp_all add: sweep_row_def)
qed

lemma expire_each_rows:
  assumes "expire_each x n s ids = Inr (out, s')" "distinct (map fst ids)"
  shows "s' = s\<lparr>reservations := map (sweep_row n ids) (reservations s)\<rparr> \<and> length out = length ids"
  using assms
proof (induction ids arbitrary: s out)
  case Nil
  then show ?case by (simp add: sweep_row_def)
next
  case (Cons id_g ids)
  obtain i g where ig: "id_g = (i, g)" by fastforce
  let ?s = "s\<lparr>reservations := map (sweep_row n [(i, g)]) (reservations s)\<rparr>"
  from Cons.prems(1) obtain rest where "expire_each x n ?s ids = Inr (rest, s')"
    "length out = Suc (length rest)"
    by (auto simp: ig expire_each_step Let_def elim!: rbindE)
  moreover have "i \<notin> set (map fst ids)" using Cons.prems(2) by (simp add: ig)
  ultimately show ?case
    using Cons.IH [of ?s rest] Cons.prems(2)
    by (simp add: ig sweep_row_Cons cong: map_cong)
qed

lemma book_each_expire_each: "book_each x n s ids = expire_each x n s (map (\<lambda>i. (i, True)) ids)"
  by (induction ids arbitrary: s) (simp_all add: Let_def)

lemma sweep_row_listed:
  assumes "distinct (map r_id rows)" "r \<in> set rows"
  shows "sweep_row n (map (\<lambda>r. (r_id r, g r)) (filter P rows)) r
    = (if P r then resolve_row n (g r) r else r)"
proof -
  let ?ids = "map (\<lambda>r. (r_id r, g r)) (filter P rows)"
  have "map fst ?ids = map r_id (filter P rows)" by simp
  then have distinct: "distinct (map fst ?ids)"
    using assms(1) by (simp only: distinct_map_filter)
  show ?thesis
  proof (cases "P r")
    case True
    with assms(2) have "(r_id r, g r) \<in> set ?ids" by auto
    with distinct have "map_of ?ids (r_id r) = Some (g r)" by (rule map_of_is_SomeI)
    with True show ?thesis by (simp add: sweep_row_def)
  next
    case False
    have "r_id r \<notin> fst ` set ?ids"
      using False assms by (auto dest: inj_onD [OF distinct_map [THEN iffD1, THEN conjunct2]])
    then have "map_of ?ids (r_id r) = None" by (simp only: map_of_eq_None_iff not_False_eq_True)
    with False show ?thesis by (simp add: sweep_row_def)
  qed
qed

text \<open>A run over the rows that satisfy \<open>P\<close>, told apart by \<open>g\<close>, is one pass over the table.\<close>
lemma expire_each_listed:
  assumes ok: "store_ok s"
    and run: "expire_each x n s (map (\<lambda>r. (r_id r, g r)) (filter P (reservations s))) = Inr (out, s')"
  shows "reservations s' = map (\<lambda>r. if P r then resolve_row n (g r) r else r) (reservations s)"
    and "s' = s\<lparr>reservations := reservations s'\<rparr>"
    and "length out = length (filter P (reservations s))"
proof -
  have distinct: "distinct (map r_id (reservations s))" using ok by (simp add: store_ok_def)
  then have "distinct (map fst (map (\<lambda>r. (r_id r, g r)) (filter P (reservations s))))"
    by (simp add: comp_def distinct_map_filter)
  note rows = expire_each_rows [OF run this]
  then show "reservations s' = map (\<lambda>r. if P r then resolve_row n (g r) r else r) (reservations s)"
    by (simp add: sweep_row_listed [OF distinct] cong: map_cong)
  show "s' = s\<lparr>reservations := reservations s'\<rparr>"
    "length out = length (filter P (reservations s))"
    using rows by simp_all
qed

text \<open>An active hold whose expiry has been reached.\<close>
definition stale :: "externals \<Rightarrow> instant \<Rightarrow> ReservationRow \<Rightarrow> bool" where
  "stale x now r \<longleftrightarrow> r_state r = ''active''
     \<and> (case parse_time x (r_expires_at r) of Inl _ \<Rightarrow> False | Inr e \<Rightarrow> e \<le> now)"

lemma stale_ids_filter:
  "stale_ids x now rows = Inr ids \<Longrightarrow>
     ids = map (\<lambda>r. (r_id r, gateway_hold r)) (filter (stale x now) rows)"
  by (induction rows arbitrary: ids) (auto simp: stale_def elim!: rbindE split: if_splits)

lemma stale_ids_total:
  "list_all (row_intact x) rows \<Longrightarrow>
     stale_ids x now rows = Inr (map (\<lambda>r. (r_id r, gateway_hold r)) (filter (stale x now) rows))"
  by (induction rows) (auto simp: stale_def row_intact_iff)

text \<open>On intact rows the loop runs to its end.\<close>
lemma expire_each_total:
  assumes "list_all (row_intact x) (reservations s)" "parse_time x n = Inr t"
    and "\<forall>i \<in> set (map fst ids). i \<in> set (map r_id (reservations s))"
  shows "\<exists>out s'. expire_each x n s ids = Inr (out, s')"
  using assms
proof (induction ids arbitrary: s)
  case (Cons id_g ids)
  obtain i g where ig: "id_g = (i, g)" by fastforce
  let ?s = "s\<lparr>reservations := map (sweep_row n [(i, g)]) (reservations s)\<rparr>"
  have intact: "list_all (row_intact x) (reservations ?s)"
    using Cons.prems(1,2) resolve_row_intact
    by (auto simp: list_all_iff sweep_row_def split: option.splits)
  have ids: "map r_id (reservations ?s) = map r_id (reservations s)" by simp
  obtain row where row: "find (\<lambda>r. r_id r = i) (reservations ?s) = Some row"
  proof (cases "find (\<lambda>r. r_id r = i) (reservations ?s)")
    case None
    have "i \<in> set (map r_id (reservations ?s))" unfolding ids using Cons.prems(3) by (simp add: ig)
    with None show ?thesis by (force simp: find_None_iff)
  qed
  then have "row_intact x row" "r_id row = i"
    using intact find_Some_mem [OF row] by (auto simp: list_all_iff)
  then obtain rid res where "uuid_parse_str x i = Some rid" "uuid_to_string x rid = i"
    "row_to_reservation x row = Inr res"
    by (auto elim: row_intactE)
  moreover have "\<exists>out s'. expire_each x n ?s ids = Inr (out, s')"
    using intact Cons.prems(2,3) by (intro Cons.IH) (simp_all add: image_image)
  ultimately show ?case
    using row by (auto simp: ig expire_each_step Let_def get_expected_def get_shared_reservation_tx_def)
qed simp

text \<open>Where ids are printed canonically, each resolution reads back the row as the sweep has just left it.\<close>
lemma expire_each_reads:
  assumes "expire_each x n s ids = Inr (out, s')" "distinct (map fst ids)"
    "\<And>r rid. r \<in> set (reservations s) \<Longrightarrow> uuid_parse_str x (r_id r) = Some rid \<Longrightarrow> uuid_to_string x rid = r_id r"
    "\<forall>i \<in> set (map fst ids). i \<in> set (map r_id (reservations s))"
  shows "list_all2 (\<lambda>(i, g) res. \<exists>r \<in> set (reservations s). r_id r = i
    \<and> row_to_reservation x (resolve_row n g r) = Inr res) ids out"
  using assms
proof (induction ids arbitrary: s out)
  case (Cons id_g ids)
  obtain i g where ig: "id_g = (i, g)" by fastforce
  let ?s = "s\<lparr>reservations := map (sweep_row n [(i, g)]) (reservations s)\<rparr>"
  from Cons.prems(1) obtain rid res rest where rid: "uuid_parse_str x i = Some rid"
    and res: "get_expected x ?s rid = Inr res" and run: "expire_each x n ?s ids = Inr (rest, s')"
    and out: "out = res # rest"
    by (auto simp: ig expire_each_step Let_def ok_or_eq_Inr elim!: rbindE)
  have i: "uuid_to_string x rid = i" using Cons.prems(3,4) rid by (auto simp: ig)
  from res obtain row where row: "row \<in> set (reservations ?s)" "r_id row = i" "row_to_reservation x row = Inr res"
    by (auto simp: get_expected_def get_shared_reservation_tx_eq_Some i ok_or_eq_Inr elim!: rbindE
        dest!: find_Some_mem)
  from row(1) obtain r where r: "r \<in> set (reservations s)" "row = sweep_row n [(i, g)] r" by auto
  have later: "list_all2 (\<lambda>(i, g) res. \<exists>r \<in> set (reservations ?s). r_id r = i
      \<and> row_to_reservation x (resolve_row n g r) = Inr res) ids rest"
    using Cons.prems by (intro Cons.IH [OF run]) (auto simp: image_image)
  have keep: "\<exists>r \<in> set (reservations s). r_id r = j \<and> row_to_reservation x (resolve_row n h r) = Inr q"
    if "(j, h) \<in> set ids" "\<exists>r \<in> set (reservations ?s). r_id r = j \<and> row_to_reservation x (resolve_row n h r) = Inr q"
    for j h q
  proof -
    have "j \<noteq> i" using Cons.prems(2) that(1) by (force simp: ig)
    moreover from that(2) obtain r where "r \<in> set (reservations s)" "r_id r = j"
      "row_to_reservation x (resolve_row n h (sweep_row n [(i, g)] r)) = Inr q" by auto
    ultimately show ?thesis by (auto simp: sweep_row_def intro: bexI [of _ r])
  qed
  have "list_all2 (\<lambda>(i, g) res. \<exists>r \<in> set (reservations s). r_id r = i
      \<and> row_to_reservation x (resolve_row n g r) = Inr res) ids rest"
    using later
    by (rule list.rel_mono_strong) (simp only: split_paired_all prod.case, rule keep, assumption+)
  moreover have "r_id r = i" using row(2) r(2) by simp
  ultimately show ?case using row(3) r by (auto simp: ig out sweep_row_def)
qed (simp add: list_all2_Nil)

section \<open>The expiry sweep, declaratively\<close>

definition swept ::
    "(ReservationRow \<Rightarrow> bool) \<Rightarrow> (ReservationRow \<Rightarrow> bool) \<Rightarrow> string \<Rightarrow> ReservationRow list
      \<Rightarrow> ReservationRow list" where
  "swept selects books n rows = map (\<lambda>r. if selects r then resolve_row n (books r) r else r) rows"

text \<open>Both sweeps rewrite, in one pass, active rows that a test selects: some are booked as spend,
  the others expire. What this does to the invariant and the totals rests on one law.\<close>
locale row_sweep =
  fixes selects :: "ReservationRow \<Rightarrow> bool" and books :: "ReservationRow \<Rightarrow> bool"
  assumes selects_active: "selects r \<Longrightarrow> r_state r = ''active''"
begin

lemma swept_store_ok:
  assumes "store_ok s"
  shows "store_ok (s\<lparr>reservations := swept selects books n (reservations s)\<rparr>)"
proof -
  have "store_ok (s\<lparr>reservations := update_where selects (\<lambda>r. resolve_row n (books r) r) (reservations s)\<rparr>)"
    using assms
  proof (rule update_rows_store_ok)
    fix r assume "selects r"
    show "same_hold r (resolve_row n (books r) r)"
      by (simp add: same_hold_def) (simp add: resolve_row_def book_row_def expired_row_def)
    show "row_ok r \<Longrightarrow> row_ok (resolve_row n (books r) r)"
      using \<open>selects r\<close> selects_active by (rule_tac resolve_row_ok) auto
  qed
  then show ?thesis by (simp add: update_where_def swept_def)
qed

lemma swept_settled:
  "sum_col (settled_value p) (swept selects books n rows)
     = sum_col (settled_value p) rows + sum_col (active_value p) (filter (\<lambda>r. selects r \<and> books r) rows)"
  by (induction rows) (auto simp: swept_def resolve_row_values selects_active)

lemma swept_active:
  "sum_col (active_value p) (swept selects books n rows)
     = sum_col (active_value p) rows - sum_col (active_value p) (filter selects rows)"
  by (induction rows) (auto simp: swept_def resolve_row_values selects_active)

lemma swept_none_left:
  assumes "r \<in> set (swept selects books n rows)"
  shows "\<not> selects r"
proof -
  have "\<not> selects (resolve_row n g q)" if "selects q" for g q
    using selects_active [of "resolve_row n g q"] resolve_row_state [OF selects_active [OF that], of n g]
    by (auto split: if_splits)
  with assms show ?thesis by (auto simp: swept_def)
qed

lemma swept_intact:
  "list_all (row_intact x) rows \<Longrightarrow> parse_time x n = Inr t \<Longrightarrow> list_all (row_intact x) (swept selects books n rows)"
  by (auto simp: swept_def list_all_iff intro: resolve_row_intact)

end

interpretation expiry: row_sweep "stale x now" gateway_hold for x now
  by unfold_locales (simp add: stale_def)

interpretation orphan: row_sweep "orphaned keep" "\<lambda>_. True" for keep
  by unfold_locales (simp add: orphaned_def)

lemma expiry_rows:
  assumes "store_ok s" "expire_stale_shared_pool_reservations x s now = Inr (out, s')"
  obtains n where "rfc3339 x now = Inr n"
    "s' = s\<lparr>reservations := swept (stale x now) gateway_hold n (reservations s)\<rparr>"
    "length out = length (filter (stale x now) (reservations s))"
proof -
  from assms(2) obtain n ids where n: "rfc3339 x now = Inr n"
    and ids: "stale_ids x now (reservations s) = Inr ids"
    and run: "expire_each x n s ids = Inr (out, s')"
    by (auto simp: expire_stale_shared_pool_reservations_def elim!: rbindE)
  note listed = expire_each_listed [OF assms(1) run [unfolded stale_ids_filter [OF ids]]]
  show ?thesis
  proof (rule that [OF n])
    show "s' = s\<lparr>reservations := swept (stale x now) gateway_hold n (reservations s)\<rparr>"
      using listed(1,2) by (simp add: swept_def)
  qed (rule listed(3))
qed

lemma expiry_store_ok:
  assumes "store_ok s" "expire_stale_shared_pool_reservations x s now = Inr (out, s')"
  shows "store_ok s'"
proof (rule expiry_rows [OF assms])
  fix n assume "s' = s\<lparr>reservations := swept (stale x now) gateway_hold n (reservations s)\<rparr>"
  then show ?thesis using expiry.swept_store_ok [OF assms(1)] by simp
qed

text \<open>What becomes of a stale hold: a gateway hold is booked as spend of its full amount and of unknown
  usage, any other hold expires.\<close>
definition sweep_resolution :: "string \<Rightarrow> ReservationRow \<Rightarrow> ReservationRow" where
  "sweep_resolution now_str r =
     (if r_charge_source r = Some ''gateway'' \<and> \<not> r_is_charge r
      then r\<lparr>r_state := ''settled'', r_settled_amount := Some (r_amount r), r_usage_known := Some False,
             r_settled_at := Some now_str\<rparr>
      else r\<lparr>r_state := ''expired'', r_released_at := Some now_str\<rparr>)"

lemma resolve_row_resolution:
  "stale x now r \<Longrightarrow> resolve_row n (gateway_hold r) r = sweep_resolution n r"
  by (cases "r_charge_source r")
    (auto simp: stale_def resolve_row_def sweep_resolution_def gateway_hold_def book_row_def expired_row_def)

lemma expiry_reads:
  assumes "store_ok s" "expire_stale_shared_pool_reservations x s now = Inr (out, s')"
    and "list_all (row_intact x) (reservations s)" "rfc3339 x now = Inr n"
  shows "list_all2 (\<lambda>r res. row_to_reservation x (sweep_resolution n r) = Inr res)
    (filter (stale x now) (reservations s)) out"
proof -
  let ?ids = "map (\<lambda>r. (r_id r, gateway_hold r)) (filter (stale x now) (reservations s))"
  have run: "expire_each x n s ?ids = Inr (out, s')"
    using assms(2,4) stale_ids_total [OF assms(3)] by (simp add: expire_stale_shared_pool_reservations_def)
  have distinct: "distinct (map r_id (reservations s))" using assms(1) by (simp add: store_ok_def)
  have canon: "uuid_to_string x rid = r_id r"
    if "r \<in> set (reservations s)" "uuid_parse_str x (r_id r) = Some rid" for r rid
    using that assms(3) by (auto simp: list_all_iff elim!: row_intactE)
  have reads: "list_all2 (\<lambda>(i, g) res. \<exists>r \<in> set (reservations s). r_id r = i
      \<and> row_to_reservation x (resolve_row n g r) = Inr res) ?ids out"
  proof (rule expire_each_reads [OF run])
    show "distinct (map fst ?ids)" using distinct by (simp add: comp_def distinct_map_filter)
  qed (use canon in auto)
  have sole: "r = q" if "r \<in> set (reservations s)" "q \<in> set (reservations s)" "r_id r = r_id q" for r q
    using that distinct by (auto simp: distinct_map dest: inj_onD)
  show ?thesis
    using reads unfolding list_all2_map1
    by (rule list.rel_mono_strong) (use sole resolve_row_resolution in \<open>fastforce\<close>)
qed

text \<open>
  C12. The expiry sweep is one pass over the table that resolves every stale hold and nothing else.
  The loop of lookups and updates leaves exactly the store in which each active row whose expiry has
  been reached is resolved in place, stamped with the sweep's time, and every other row and table is
  as it was: a gateway hold becomes settled at its full reserved amount with usage unknown, any other
  hold becomes expired. The sweep returns one resolution per such row, in table order, each reading
  as the row was left, and leaves no stale hold behind. Capacity returns to the pool only for holds the gateway does not own: a stale gateway hold, whose
  request may still be spending upstream, moves from the active to the settled total at its full
  reserved amount, so it is never freed by the passage of time.
\<close>
theorem expiry_sweep_exact:
  assumes ok: "store_ok s"
    and sweep: "expire_stale_shared_pool_reservations x s now = Inr (out, s')"
  shows "(\<exists>n. rfc3339 x now = Inr n
      \<and> s' = s\<lparr>reservations := map (\<lambda>r. if stale x now r then sweep_resolution n r else r) (reservations s)\<rparr>
      \<and> (list_all (row_intact x) (reservations s) \<longrightarrow>
          list_all2 (\<lambda>r res. row_to_reservation x (sweep_resolution n r) = Inr res)
            (filter (stale x now) (reservations s)) out))
    \<and> length out = length (filter (stale x now) (reservations s))
    \<and> list_all (\<lambda>r. \<not> stale x now r) (reservations s')
    \<and> filter (\<lambda>r. \<not> stale x now r) (reservations s)
      = map snd (filter (\<lambda>(r, _). \<not> stale x now r) (zip (reservations s) (reservations s')))
    \<and> settled_total s' p = settled_total s p
        + sum_col (active_value p) (filter (\<lambda>r. stale x now r \<and> gateway_hold r) (reservations s))
    \<and> committed_total s' p = committed_total s p
        - sum_col (active_value p) (filter (\<lambda>r. stale x now r \<and> \<not> gateway_hold r) (reservations s))"
proof (rule expiry_rows [OF ok sweep])
  fix n
  assume n: "rfc3339 x now = Inr n"
    and s': "s' = s\<lparr>reservations := swept (stale x now) gateway_hold n (reservations s)\<rparr>"
    and out: "length out = length (filter (stale x now) (reservations s))"
  have pass: "swept (stale x now) gateway_hold n rows
      = map (\<lambda>r. if stale x now r then sweep_resolution n r else r) rows" for rows
    by (auto simp: swept_def resolve_row_resolution)
  have none: "list_all (\<lambda>r. \<not> stale x now r) (reservations s')"
    using expiry.swept_none_left by (auto simp: s' list_all_iff)
  have frame: "filter (\<lambda>r. \<not> stale x now r) rows
      = map snd (filter (\<lambda>(r, _). \<not> stale x now r) (zip rows (swept (stale x now) gateway_hold n rows)))" for rows
    by (induction rows) (auto simp: swept_def)
  have split: "sum_col (active_value p) (filter (stale x now) rows)
      = sum_col (active_value p) (filter (\<lambda>r. stale x now r \<and> gateway_hold r) rows)
      + sum_col (active_value p) (filter (\<lambda>r. stale x now r \<and> \<not> gateway_hold r) rows)" for rows
    by (induction rows) auto
  have "\<exists>n. rfc3339 x now = Inr n
      \<and> s' = s\<lparr>reservations := map (\<lambda>r. if stale x now r then sweep_resolution n r else r) (reservations s)\<rparr>
      \<and> (list_all (row_intact x) (reservations s) \<longrightarrow>
          list_all2 (\<lambda>r res. row_to_reservation x (sweep_resolution n r) = Inr res)
            (filter (stale x now) (reservations s)) out)"
    using n s' pass expiry_reads [OF ok sweep _ n] by simp
  moreover have "settled_total s' p = settled_total s p
        + sum_col (active_value p) (filter (\<lambda>r. stale x now r \<and> gateway_hold r) (reservations s))
    \<and> committed_total s' p = committed_total s p
        - sum_col (active_value p) (filter (\<lambda>r. stale x now r \<and> \<not> gateway_hold r) (reservations s))"
    using split [of "reservations s"]
    by (simp add: s' settled_total_def active_total_def committed_total_def
        expiry.swept_settled expiry.swept_active)
  ultimately show ?thesis using out none frame [of "reservations s"] by (simp add: s')
qed

text \<open>
  The expiry sweep cannot be blocked: if every row of the table reads back and the clock can be
  printed, the sweep completes, and every row still reads back afterwards.
\<close>
theorem expiry_sweep_completes:
  assumes x: "externals_ok x" and ok: "store_ok s" and intact: "list_all (row_intact x) (reservations s)"
    and now: "rfc3339 x now = Inr n"
  shows "\<exists>out s'. expire_stale_shared_pool_reservations x s now = Inr (out, s')
    \<and> list_all (row_intact x) (reservations s')"
proof -
  note n = rfc3339_parse [OF x now]
  have "\<exists>out s'. expire_each x n s (map (\<lambda>r. (r_id r, gateway_hold r))
      (filter (stale x now) (reservations s))) = Inr (out, s')"
    using intact n by (intro expire_each_total) auto
  then obtain out s' where sweep: "expire_stale_shared_pool_reservations x s now = Inr (out, s')"
    using now stale_ids_total [OF intact, of now] by (auto simp: expire_stale_shared_pool_reservations_def)
  then obtain m where "rfc3339 x now = Inr m" "s' = s\<lparr>reservations := swept (stale x now) gateway_hold m (reservations s)\<rparr>"
    by (rule expiry_rows [OF ok])
  with now intact have "list_all (row_intact x) (reservations s')"
    using expiry.swept_intact n by simp
  with sweep show ?thesis by blast
qed

text \<open>A gateway hold beside the turn hold of the demonstration store.\<close>
definition demo_gateway_request :: SharedPoolReserveRequest where
  "demo_gateway_request = (demo_request ''gw:b1:1'' 2)\<lparr>rq_attribution := main_executor (Some Gateway)\<rparr>"

definition demo_two :: LedgerStore where
  "demo_two = demo_held\<lparr>reservations := reservations demo_held @
     [hold_row demo_externals demo_gateway_request (main_executor (Some Gateway)) 2 2
        (int_bits 5) (int_bits 60000000005)]\<rparr>"

lemma demo_two_ok: "store_ok demo_two" "list_all (row_intact demo_externals) (reservations demo_two)"
  by code_simp+

lemma demo_two_now: "rfc3339 demo_externals 60000000005 = Inr (int_bits 60000000005)"
  by code_simp

theorem expiry_sweep_exact_witness:
  "\<exists>out s'. expire_stale_shared_pool_reservations demo_externals demo_two 60000000005 = Inr (out, s')
     \<and> reservations s' = map (sweep_resolution (int_bits 60000000005)) (reservations demo_two)
     \<and> length out = 2 \<and> settled_total s' ''p'' = 2 \<and> committed_total s' ''p'' = 2"
proof -
  have all: "list_all (stale demo_externals 60000000005) (reservations demo_two)" by code_simp
  have *: "filter (stale demo_externals 60000000005) (reservations demo_two) = reservations demo_two"
    "sum_col (active_value ''p'') (filter (\<lambda>r. stale demo_externals 60000000005 r \<and> gateway_hold r)
      (reservations demo_two)) = 2"
    "sum_col (active_value ''p'') (filter (\<lambda>r. stale demo_externals 60000000005 r \<and> \<not> gateway_hold r)
      (reservations demo_two)) = 7"
    "settled_total demo_two ''p'' = 0" "committed_total demo_two ''p'' = 9"
    "length (reservations demo_two) = 2"
    by code_simp+
  have "case expire_stale_shared_pool_reservations demo_externals demo_two 60000000005 of
      Inl _ \<Rightarrow> False | Inr _ \<Rightarrow> True"
    by code_simp
  then obtain out s' where
    run: "expire_stale_shared_pool_reservations demo_externals demo_two 60000000005 = Inr (out, s')"
    by (auto split: sum.splits)
  note exact = expiry_sweep_exact [OF demo_two_ok(1) run, of "''p''"]
  have "reservations s' = map (sweep_resolution (int_bits 60000000005)) (reservations demo_two)"
    using conjunct1 [OF exact] demo_two_now all by (auto simp: list_all_iff)
  then show ?thesis using run conjunct2 [OF exact] * by (intro exI [of _ out] exI [of _ s']) simp
qed

theorem expiry_sweep_completes_witness:
  "\<exists>out s'. expire_stale_shared_pool_reservations demo_externals demo_two 60000000005 = Inr (out, s')
     \<and> list_all (row_intact demo_externals) (reservations s')"
  using expiry_sweep_completes [OF demo_externals_ok demo_two_ok demo_two_now] .

section \<open>The orphan sweep, declaratively\<close>

lemma orphan_rows:
  assumes "store_ok s" "settle_orphaned_gateway_holds x s keep now = Inr (out, s')"
    and "boot_prefix_well_formed keep"
  obtains n where "rfc3339 x now = Inr n"
    "s' = s\<lparr>reservations := swept (orphaned keep) (\<lambda>_. True) n (reservations s)\<rparr>"
    "length out = length (filter (orphaned keep) (reservations s))"
proof -
  from assms(2,3) obtain n where n: "rfc3339 x now = Inr n" and run: "expire_each x n s
      (map (\<lambda>r. (r_id r, True)) (filter (orphaned keep) (reservations s))) = Inr (out, s')"
    by (auto simp: settle_orphaned_gateway_holds_def book_each_expire_each comp_def elim!: rbindE)
  note listed = expire_each_listed [OF assms(1) run]
  show ?thesis by (rule that [OF n _ listed(3)]) (use listed(1,2) in \<open>simp add: swept_def\<close>)
qed

lemma orphan_cases:
  assumes "store_ok s" "settle_orphaned_gateway_holds x s keep now = Inr (out, s')"
  obtains (malformed) "\<not> boot_prefix_well_formed keep" "s' = s" "out = []"
  | (swept) n where "boot_prefix_well_formed keep" "rfc3339 x now = Inr n"
    "s' = s\<lparr>reservations := swept (orphaned keep) (\<lambda>_. True) n (reservations s)\<rparr>"
    "length out = length (filter (orphaned keep) (reservations s))"
proof (cases "boot_prefix_well_formed keep")
  case True
  show ?thesis by (rule orphan_rows [OF assms True]) (rule swept [OF True])
next
  case False
  with assms(2) show ?thesis by (auto simp: settle_orphaned_gateway_holds_def intro: malformed)
qed

lemma orphan_store_ok:
  assumes "store_ok s" "settle_orphaned_gateway_holds x s keep now = Inr (out, s')"
  shows "store_ok s'"
  using assms
proof (cases rule: orphan_cases)
  case (swept n)
  then show ?thesis using orphan.swept_store_ok [OF assms(1)] by simp
qed (use assms in simp)

lemma orphan_totals:
  assumes "store_ok s" "settle_orphaned_gateway_holds x s keep now = Inr (out, s')"
  shows "settled_total s p \<le> settled_total s' p \<and> committed_total s' p = committed_total s p"
  using assms
proof (cases rule: orphan_cases)
  case (swept n)
  have "0 \<le> sum_col (active_value p) (filter (orphaned keep) (reservations s))"
    using assms(1) row_ok_values(2) by (intro sum_col_nonneg) (auto simp: store_ok_def list_all_iff)
  then show ?thesis
    using orphan.swept_settled [of p keep n] orphan.swept_active [of p keep n]
    by (simp add: swept(3) settled_total_def active_total_def committed_total_def)
qed simp

text \<open>
  C13. The startup orphan sweep never loses money. Whatever boot prefix is passed, the committed
  total of every pool is unchanged: an orphaned gateway hold moves to settled spend at its full
  reserved amount, marked as of unknown usage. With a well-formed prefix no orphan is left, the rows
  of the kept boot and all other rows are untouched, and running the sweep again does nothing. With
  a malformed prefix, which could match every boot or none, the sweep does nothing at all.
\<close>
theorem orphan_sweep_conserves:
  assumes ok: "store_ok s" and sweep: "settle_orphaned_gateway_holds x s keep now = Inr (out, s')"
  shows "committed_total s' p = committed_total s p
    \<and> (if boot_prefix_well_formed keep
       then list_all (\<lambda>r. \<not> orphaned keep r) (reservations s')
        \<and> list_all2 (\<lambda>r r'. if orphaned keep r
              then r_state r' = ''settled'' \<and> r_settled_amount r' = Some (r_amount r)
                \<and> r_usage_known r' = Some False
              else r' = r) (reservations s) (reservations s')
        \<and> length out = length (filter (orphaned keep) (reservations s))
        \<and> settle_orphaned_gateway_holds x s' keep now = Inr ([], s')
       else out = [] \<and> s' = s)"
  using ok sweep
proof (cases rule: orphan_cases)
  case (swept n)
  have none: "list_all (\<lambda>r. \<not> orphaned keep r) (reservations s')"
    using orphan.swept_none_left by (auto simp: swept(3) list_all_iff)
  have "filter (orphaned keep) (reservations s') = []"
    using none by (auto simp: list_all_iff filter_empty_conv)
  moreover have "list_all2 (\<lambda>r r'. if orphaned keep r
            then r_state r' = ''settled'' \<and> r_settled_amount r' = Some (r_amount r)
              \<and> r_usage_known r' = Some False
            else r' = r) (reservations s) (reservations s')"
    by (simp add: swept(3) swept_def list_all2_map2)
      (auto simp: list_all2_same orphaned_def resolve_row_def book_row_def)
  ultimately show ?thesis
    using swept none orphan_totals [OF ok sweep, of p]
    by (simp add: settle_orphaned_gateway_holds_def)
qed simp

theorem orphan_sweep_conserves_witness:
  "\<exists>out s'. settle_orphaned_gateway_holds demo_externals demo_two ''gw:b2:'' 9 = Inr (out, s')
     \<and> length out = 1 \<and> committed_total s' ''p'' = 9
     \<and> settle_orphaned_gateway_holds demo_externals s' ''gw:b2:'' 9 = Inr ([], s')"
proof -
  have *: "length (filter (orphaned ''gw:b2:'') (reservations demo_two)) = 1"
    "committed_total demo_two ''p'' = 9" "boot_prefix_well_formed ''gw:b2:''"
    by code_simp+
  have "case settle_orphaned_gateway_holds demo_externals demo_two ''gw:b2:'' 9 of
      Inl _ \<Rightarrow> False | Inr _ \<Rightarrow> True"
    by code_simp
  then obtain out s' where
    "settle_orphaned_gateway_holds demo_externals demo_two ''gw:b2:'' 9 = Inr (out, s')"
    by (auto split: sum.splits)
  with orphan_sweep_conserves [OF demo_two_ok(1) this, of "''p''"] * show ?thesis by auto
qed

section \<open>Ingesting a provider reading\<close>

lemma find_upsert_snapshot:
  "find (\<lambda>m. sn_pool_id m = p) (upsert_snapshot n ns)
     = (if sn_pool_id n = p then Some n else find (\<lambda>m. sn_pool_id m = p) ns)"
proof (cases "sn_pool_id n \<in> set (map sn_pool_id ns)")
  case True
  have "find (\<lambda>m. sn_pool_id m = sn_pool_id n)
      (update_where (\<lambda>m. sn_pool_id m = sn_pool_id n) (\<lambda>_. n) ns) = Some n"
    using True by (induction ns) (auto simp: eq_commute [of "sn_pool_id n"])
  moreover have "find (\<lambda>m. sn_pool_id m = p)
      (update_where (\<lambda>m. sn_pool_id m = sn_pool_id n) (\<lambda>_. n) ns)
    = find (\<lambda>m. sn_pool_id m = p) ns" if "sn_pool_id n \<noteq> p"
    using that by (induction ns) simp_all
  ultimately show ?thesis using True by (auto simp: upsert_snapshot_def)
next
  case False
  then have "find (\<lambda>m. sn_pool_id m = sn_pool_id n) ns = None" by (simp add: find_key_None)
  with False show ?thesis by (auto simp: upsert_snapshot_def find_append split: option.splits)
qed

lemma upsert_snapshot_distinct:
  "distinct (map sn_pool_id ns) \<Longrightarrow> distinct (map sn_pool_id (upsert_snapshot n ns))"
  by (auto simp: upsert_snapshot_def map_update_where_same)

lemma ingest_cases:
  assumes "ingest_pool_provider_snapshot x s p observed valid reading conf now = Inr s'"
  obtains (older) pool n e where "quota_pool x s p = Inr (Some pool)" "snapshot_row s p = Some n"
    "parse_time x (sn_observed_at n) = Inr e" "observed < e" "s' = s"
  | (stored) pool disclosed used_value declared confidence_str observed_str valid_str now_str where
    "observed \<le> now" "quota_pool x s p = Inr (Some pool)"
    "reading_columns reading = Inr (disclosed, used_value, declared)"
    "case reading of Undisclosed \<Rightarrow> True | Used used _ \<Rightarrow> qa_unit used = qp_unit pool"
    "\<And>n e. snapshot_row s p = Some n \<Longrightarrow> parse_time x (sn_observed_at n) = Inr e \<Longrightarrow> e \<le> observed"
    "confidence_ser x conf = Some confidence_str" "rfc3339 x observed = Inr observed_str"
    "transpose_opt (map_option (rfc3339 x) valid) = Inr valid_str"
    "s' = s\<lparr>snapshots := upsert_snapshot
       \<lparr>sn_pool_id = p, sn_observed_at = observed_str, sn_valid_until = valid_str,
        sn_disclosed = disclosed, sn_used_value = used_value, sn_declared_limit = declared,
        sn_confidence = confidence_str, sn_updated_at = now_str\<rparr> (snapshots s)\<rparr>"
proof -
  from assms obtain disclosed used_value declared confidence_str pool prow existing where
    now: "observed \<le> now" and cols: "reading_columns reading = Inr (disclosed, used_value, declared)"
    and conf: "confidence_ser x conf = Some confidence_str"
    and prow: "find (\<lambda>r. pr_pool_id r = p) (quota_pools s) = Some prow" "row_to_pool x p prow = Inr pool"
    and unit: "case reading of Undisclosed \<Rightarrow> True | Used used _ \<Rightarrow> qa_unit used = qp_unit pool"
    and ex: "transpose_opt (map_option (\<lambda>n. parse_time x (sn_observed_at n)) (snapshot_row s p))
      = Inr existing"
    by (auto simp: ingest_pool_provider_snapshot_def not_less ok_or_eq_Inr elim!: rbindE
        split: if_splits option.splits GaugeReading.splits)
  have pool: "quota_pool x s p = Inr (Some pool)" using prow by (auto simp: quota_pool_eq_Some)
  show ?thesis
  proof (cases "case existing of None \<Rightarrow> False | Some e \<Rightarrow> observed < e")
    case True
    then obtain n e where "snapshot_row s p = Some n" "parse_time x (sn_observed_at n) = Inr e" "observed < e"
      using ex by (cases "snapshot_row s p") (auto simp: transpose_opt_eq_Inr split: option.splits)
    moreover have "s' = s"
      using assms now cols conf prow unit ex True
      by (auto simp: ingest_pool_provider_snapshot_def split: if_splits option.splits GaugeReading.splits)
    ultimately show ?thesis using pool by (intro older)
  next
    case False
    then have "e \<le> observed" if "snapshot_row s p = Some n" "parse_time x (sn_observed_at n) = Inr e" for n e
      using ex that by (auto simp: transpose_opt_eq_Inr not_less)
    moreover from assms now cols conf prow unit ex False
    obtain observed_str valid_str now_str where "rfc3339 x observed = Inr observed_str"
      "transpose_opt (map_option (rfc3339 x) valid) = Inr valid_str"
      "s' = s\<lparr>snapshots := upsert_snapshot
       \<lparr>sn_pool_id = p, sn_observed_at = observed_str, sn_valid_until = valid_str,
        sn_disclosed = disclosed, sn_used_value = used_value, sn_declared_limit = declared,
        sn_confidence = confidence_str, sn_updated_at = now_str\<rparr> (snapshots s)\<rparr>"
      by (cases reading) (auto simp: ingest_pool_provider_snapshot_def elim!: rbindE split: if_splits)
    ultimately show ?thesis using now cols conf pool unit by (intro stored)
  qed
qed

lemma ingest_store_ok:
  "store_ok s \<Longrightarrow> ingest_pool_provider_snapshot x s p observed valid reading conf now = Inr s'
    \<Longrightarrow> store_ok s'"
  by (erule ingest_cases) (auto simp: store_ok_def upsert_snapshot_distinct)

text \<open>The gauge as it is stored: its value is kept, in the pool's unit.\<close>
lemma reading_reads_back:
  assumes "reading_columns reading = Inr (disclosed, used_value, declared)"
    and "case reading of Undisclosed \<Rightarrow> True | Used used _ \<Rightarrow> qa_unit used = u"
  shows "(if \<not> disclosed then Undisclosed
      else Used \<lparr>qa_unit = u, qa_value = max0_u64 (coalesce 0 used_value)\<rparr> (map_option max0_u64 declared))
    = reading"
proof (cases reading)
  case (Used used limit)
  then have "used_value = Some (uint (qa_value used))" "disclosed"
    "transpose_opt (map_option checked_i64 limit) = Inr declared"
    using assms(1) by (auto simp: reading_columns_def checked_i64_eq_Inr elim!: rbindE)
  moreover from this(3) have "declared = map_option uint limit"
    by (cases limit) (auto simp: transpose_opt_eq_Inr checked_i64_eq_Inr)
  ultimately show ?thesis using Used assms(2) by (simp add: option.map_comp comp_def option.map_ident)
qed (use assms in \<open>simp add: reading_columns_def\<close>)

lemma transpose_parse_rfc3339:
  "externals_ok x \<Longrightarrow> transpose_opt (map_option (rfc3339 x) v) = Inr vs
    \<Longrightarrow> transpose_opt (map_option (parse_time x) vs) = Inr v"
  by (cases v) (auto simp: transpose_opt_eq_Inr)

text \<open>
  C20. Provider evidence is ordered and faithful. A reading from the future is never accepted, nor one
  in another unit than the pool's. An accepted call either is older than the stored reading and
  changes nothing, or replaces it: what is then read back is the very reading, observation time,
  validity and confidence that were given, so the stored observation time never goes backwards.
  Other pools, reservations and totals are unaffected.
\<close>
theorem ingest_ordered_and_faithful:
  assumes x: "externals_ok x"
    and ing: "ingest_pool_provider_snapshot x s p observed valid reading conf now = Inr s'"
    and old: "pool_provider_snapshot x s p = Inr before"
  shows "\<exists>after. pool_provider_snapshot x s' p = Inr (Some after)
    \<and> (case before of None \<Rightarrow> True | Some b \<Rightarrow> pps_observed_at b \<le> pps_observed_at after)
    \<and> (if before \<noteq> None \<and> observed < pps_observed_at (the before) then s' = s
       else observed \<le> now
         \<and> after = \<lparr>pps_pool_id = p, pps_observed_at = observed, pps_valid_until = valid,
             pps_reading = reading, pps_confidence = conf\<rparr>)
    \<and> (\<forall>q. q \<noteq> p \<longrightarrow> snapshot_row s' q = snapshot_row s q)
    \<and> reservations s' = reservations s \<and> quota_pools s' = quota_pools s"
  using ing
proof (cases rule: ingest_cases)
  case (older pool n e)
  with old obtain b where "before = Some b" "pps_observed_at b = e"
    by (auto simp: pool_provider_snapshot_def pool_provider_snapshot_tx_def Let_def elim!: rbindE)
  with older old show ?thesis by auto
next
  case (stored pool disclosed used_value declared confidence_str observed_str valid_str now_str)
  have "snapshot_row s' q = (if q = p then Some \<lparr>sn_pool_id = p, sn_observed_at = observed_str,
      sn_valid_until = valid_str, sn_disclosed = disclosed, sn_used_value = used_value,
      sn_declared_limit = declared, sn_confidence = confidence_str, sn_updated_at = now_str\<rparr>
    else snapshot_row s q)" for q
    by (simp add: stored(9) snapshot_row_def find_upsert_snapshot)
  moreover have "pool_provider_snapshot x s' p = Inr (Some \<lparr>pps_pool_id = p, pps_observed_at = observed,
      pps_valid_until = valid, pps_reading = reading, pps_confidence = conf\<rparr>)"
    using stored(2) calculation [of p] reading_reads_back [OF stored(3,4)]
      externals_okD(5) [OF x stored(6)] rfc3339_parse [OF x stored(7)]
      transpose_parse_rfc3339 [OF x stored(8)]
    by (auto simp: pool_provider_snapshot_def pool_provider_snapshot_tx_def Let_def quota_pool_def stored(9)
        split: if_splits)
  moreover have "pps_observed_at b \<le> observed" if "before = Some b" for b
    using old that stored(2,5)
    by (auto simp: pool_provider_snapshot_def pool_provider_snapshot_tx_def Let_def elim!: rbindE
        split: option.splits)
  ultimately show ?thesis using stored(1,9) by (cases before) auto
qed

theorem ingest_ordered_and_faithful_witness:
  "\<exists>s'. ingest_pool_provider_snapshot demo_externals demo_store ''p'' 5 (Some 90)
       (Used \<lparr>qa_unit = Tokens, qa_value = 3\<rparr> (Some 8)) High 6 = Inr s'
     \<and> pool_provider_snapshot demo_externals s' ''p'' = Inr (Some \<lparr>pps_pool_id = ''p'',
         pps_observed_at = 5, pps_valid_until = Some 90,
         pps_reading = Used \<lparr>qa_unit = Tokens, qa_value = 3\<rparr> (Some 8), pps_confidence = High\<rparr>)"
proof -
  have "case ingest_pool_provider_snapshot demo_externals demo_store ''p'' 5 (Some 90)
       (Used \<lparr>qa_unit = Tokens, qa_value = 3\<rparr> (Some 8)) High 6 of Inl _ \<Rightarrow> False | Inr _ \<Rightarrow> True"
    by code_simp
  then obtain s' where "ingest_pool_provider_snapshot demo_externals demo_store ''p'' 5 (Some 90)
       (Used \<lparr>qa_unit = Tokens, qa_value = 3\<rparr> (Some 8)) High 6 = Inr s'"
    by (auto split: sum.splits)
  moreover have "pool_provider_snapshot demo_externals demo_store ''p'' = Inr None" by code_simp
  ultimately show ?thesis
    using ingest_ordered_and_faithful [OF demo_externals_ok, of demo_store "''p''" 5 "Some 90"] by fastforce
qed

end
