(* ===== verification/Pool_Queries.thy ===== *)
theory Pool_Queries
  imports Pool_Sweep "HOL-Library.Product_Lexorder" "HOL-Library.Option_ord"
begin

text \<open>
  The read side of the shared-pool ledger (\<open>crates/ledger/src/shared_pool.rs\<close>): per-session and
  per-executor usage, the lookups of one executor lane, key and prefix queries, and the transcript
  watermark. \<open>substr(c, 1, length(p)) = p\<close> is \<open>starts_with p c\<close>. Where a query has no \<open>ORDER BY\<close>
  the model lists rows in insertion order; a loop over rows that has no effect but its result is
  the composition of its per-row checks and a fold.
\<close>

section \<open>Usage reports\<close>

record SharedPoolSessionUsage =
  su_principal_id :: PrincipalId
  su_session_id :: string
  su_active :: u64
  su_settled :: u64

text \<open>\<open>SUM(CASE WHEN state = .. THEN column ELSE 0 END)\<close>.\<close>
definition case_sum :: "string \<Rightarrow> (ReservationRow \<Rightarrow> int option) \<Rightarrow> ReservationRow list
    \<Rightarrow> LedgerError + int" where
  "case_sum state column rows =
     ok_or (Sqlite IntegerOverflow) (sql_sum (\<lambda>r. if r_state r = state then column r else Some 0) rows)"

definition session_key :: "ReservationRow \<Rightarrow> string \<times> string" where
  "session_key r = (r_principal_id r, r_session_id r)"

definition shared_pool_session_usage ::
    "LedgerStore \<Rightarrow> PoolId \<Rightarrow> LedgerError + SharedPoolSessionUsage list" where
  "shared_pool_session_usage s pool_id =
     (let rows = filter (\<lambda>r. r_pool_id r = pool_id) (reservations s)
      in rmap (\<lambda>k. let group = filter (\<lambda>r. session_key r = k) rows
           in rbind (case_sum ''active'' (\<lambda>r. Some (r_amount r)) group) (\<lambda>active.
              rbind (case_sum ''settled'' r_settled_amount group) (\<lambda>settled.
                Inr \<lparr>su_principal_id = fst k, su_session_id = snd k,
                  su_active = max0_u64 active, su_settled = max0_u64 settled\<rparr>)))
         (remdups (map session_key rows)))"

record SharedPoolExecutorUsage =
  eu_principal_id :: PrincipalId
  eu_session_id :: string
  eu_agent_id :: "string option"
  eu_executor_kind :: ExecutorKind
  eu_used :: u64
  eu_reserved :: u64

record SharedPoolExecutorReport =
  er_executors :: "SharedPoolExecutorUsage list"
  er_total_used :: u64
  er_total_reserved :: u64

definition executor_key :: "ReservationRow \<Rightarrow> string \<times> string \<times> string option \<times> string" where
  "executor_key r = (r_principal_id r, r_session_id r, r_agent_id r,
     coalesce ''unattributed'' (r_executor_kind r))"

definition executor_usage_of ::
    "ReservationRow list \<Rightarrow> string \<times> string \<times> string option \<times> string
      \<Rightarrow> LedgerError + SharedPoolExecutorUsage" where
  "executor_usage_of rows k =
     (let group = filter (\<lambda>r. executor_key r = k) rows; (principal_id, session_id, agent_id, kind) = k
      in rbind (case_sum ''settled'' r_settled_amount group) (\<lambda>used.
         rbind (case_sum ''active'' (\<lambda>r. Some (r_amount r)) group) (\<lambda>reserved.
         rbind (ok_or invalid (ExecutorKind_parse kind)) (\<lambda>executor_kind.
           Inr \<lparr>eu_principal_id = principal_id, eu_session_id = session_id,
             eu_agent_id = agent_id, eu_executor_kind = executor_kind,
             eu_used = max0_u64 used, eu_reserved = max0_u64 reserved\<rparr>))))"

definition shared_pool_executor_usage ::
    "LedgerStore \<Rightarrow> PoolId \<Rightarrow> LedgerError + SharedPoolExecutorReport" where
  "shared_pool_executor_usage s pool_id =
     (let (total_used, total_reserved) = settled_and_active_tx s pool_id;
          rows = filter (\<lambda>r. r_pool_id r = pool_id \<and> r_state r \<in> {''active'', ''settled''})
            (reservations s)
      in rbind (rmap (executor_usage_of rows) (sort (remdups (map executor_key rows))))
         (\<lambda>executors. Inr \<lparr>er_executors = executors, er_total_used = total_used,
            er_total_reserved = total_reserved\<rparr>))"

section \<open>Lane lookups\<close>

text \<open>The loops that keep the best row seen so far.\<close>
fun keep_best :: "('a \<Rightarrow> 'a \<Rightarrow> bool) \<Rightarrow> 'a option \<Rightarrow> 'a list \<Rightarrow> 'a option" where
  "keep_best better best [] = best"
| "keep_best better best (r # rs) =
     keep_best better (case best of None \<Rightarrow> Some r
       | Some b \<Rightarrow> if better r b then Some r else Some b) rs"

definition in_lane ::
    "PrincipalId \<Rightarrow> string \<Rightarrow> string option \<Rightarrow> ExecutorKind \<Rightarrow> ReservationRow \<Rightarrow> bool" where
  "in_lane principal_id session_id agent_id executor_kind r \<longleftrightarrow>
     r_principal_id r = principal_id \<and> r_session_id r = session_id \<and> r_agent_id r = agent_id
   \<and> coalesce ''unattributed'' (r_executor_kind r) = ExecutorKind_as_str executor_kind"

definition turn_row :: "ReservationRow \<Rightarrow> bool" where
  "turn_row r \<longleftrightarrow> \<not> r_is_charge r \<and> coalesce '''' (r_charge_source r) \<noteq> ''gateway''"

definition active_shared_hold_for_lane ::
    "externals \<Rightarrow> LedgerStore \<Rightarrow> PoolId \<Rightarrow> PrincipalId \<Rightarrow> string \<Rightarrow> string option
      \<Rightarrow> ExecutorKind \<Rightarrow> instant \<Rightarrow> LedgerError + SharedPoolReservation option" where
  "active_shared_hold_for_lane x s pool_id principal_id session_id agent_id executor_kind now =
     rbind (rmap (row_to_reservation x)
       (filter (\<lambda>r. r_pool_id r = pool_id \<and> in_lane principal_id session_id agent_id executor_kind r
          \<and> r_state r = ''active'' \<and> turn_row r) (reservations s)))
     (\<lambda>found. Inr (keep_best (\<lambda>r b. spr_created_at b < spr_created_at r) None
        (filter (\<lambda>r. now < spr_expires_at r) found)))"

definition count_active_gateway_holds ::
    "externals \<Rightarrow> LedgerStore \<Rightarrow> PoolId \<Rightarrow> PrincipalId \<Rightarrow> instant \<Rightarrow> LedgerError + u64" where
  "count_active_gateway_holds x s pool_id principal_id now =
     rbind (rmap (\<lambda>r. parse_time x (r_expires_at r))
       (filter (\<lambda>r. r_pool_id r = pool_id \<and> r_principal_id r = principal_id
          \<and> r_state r = ''active'' \<and> \<not> r_is_charge r \<and> r_charge_source r = Some ''gateway'')
          (reservations s)))
     (\<lambda>expiries. Inr (of_nat (length (filter (\<lambda>e. now < e) expiries))))"

definition has_gateway_row_for_session ::
    "LedgerStore \<Rightarrow> PoolId \<Rightarrow> PrincipalId \<Rightarrow> string \<Rightarrow> bool" where
  "has_gateway_row_for_session s pool_id principal_id session_id =
     list_ex (\<lambda>r. r_pool_id r = pool_id \<and> r_principal_id r = principal_id
       \<and> r_session_id r = session_id \<and> r_charge_source r = Some ''gateway'') (reservations s)"

definition find_shared_reservation_by_key ::
    "externals \<Rightarrow> LedgerStore \<Rightarrow> PrincipalId \<Rightarrow> string \<Rightarrow> string
      \<Rightarrow> LedgerError + SharedPoolReservation option" where
  "find_shared_reservation_by_key x s principal_id idempotency_key pool_prefix =
     rbind (rmap (row_to_reservation x)
       (filter (\<lambda>r. r_principal_id r = principal_id \<and> r_idempotency_key r = idempotency_key
          \<and> starts_with pool_prefix (r_pool_id r)) (reservations s)))
     (\<lambda>found. Inr (keep_best (\<lambda>r b. spr_created_at r < spr_created_at b) None found))"

definition shared_lane_holds ::
    "externals \<Rightarrow> LedgerStore \<Rightarrow> PrincipalId \<Rightarrow> string \<Rightarrow> string option \<Rightarrow> ExecutorKind
      \<Rightarrow> string \<Rightarrow> LedgerError + SharedPoolReservation list" where
  "shared_lane_holds x s principal_id session_id agent_id executor_kind pool_prefix =
     rmap (row_to_reservation x)
       (filter (\<lambda>r. in_lane principal_id session_id agent_id executor_kind r
          \<and> starts_with pool_prefix (r_pool_id r) \<and> turn_row r) (reservations s))"

definition active_shared_holds_for_session ::
    "externals \<Rightarrow> LedgerStore \<Rightarrow> PrincipalId \<Rightarrow> string \<Rightarrow> string \<Rightarrow> instant
      \<Rightarrow> LedgerError + SharedPoolReservation list" where
  "active_shared_holds_for_session x s principal_id session_id pool_prefix now =
     rbind (rmap (row_to_reservation x)
       (filter (\<lambda>r. r_principal_id r = principal_id \<and> r_session_id r = session_id
          \<and> starts_with pool_prefix (r_pool_id r) \<and> r_state r = ''active'' \<and> turn_row r)
          (reservations s)))
     (\<lambda>found. Inr (filter (\<lambda>r. now < spr_expires_at r) found))"

definition shared_pool_ids_with_prefix :: "LedgerStore \<Rightarrow> string \<Rightarrow> PoolId list" where
  "shared_pool_ids_with_prefix s prefix =
     sort (filter (starts_with prefix) (map pr_pool_id (quota_pools s)))"

definition latest_shared_hold_pool_for_session ::
    "externals \<Rightarrow> LedgerStore \<Rightarrow> PrincipalId \<Rightarrow> string \<Rightarrow> string
      \<Rightarrow> LedgerError + PoolId option" where
  "latest_shared_hold_pool_for_session x s principal_id session_id pool_prefix =
     rbind (rmap (\<lambda>r. rbind (parse_time x (r_created_at r)) (\<lambda>t. Inr (t, r_pool_id r)))
       (filter (\<lambda>r. r_principal_id r = principal_id \<and> r_session_id r = session_id
          \<and> starts_with pool_prefix (r_pool_id r) \<and> \<not> r_is_charge r) (reservations s)))
     (\<lambda>found. Inr (map_option snd (keep_best (\<lambda>r b. fst b < fst r) None found)))"

section \<open>Cumulative charges\<close>

definition charge_family_row :: "PrincipalId \<Rightarrow> string \<Rightarrow> string \<Rightarrow> ReservationRow \<Rightarrow> bool" where
  "charge_family_row principal_id key_prefix pool_prefix r \<longleftrightarrow>
     r_principal_id r = principal_id \<and> r_is_charge r \<and> r_state r = ''settled''
   \<and> starts_with key_prefix (r_idempotency_key r) \<and> starts_with pool_prefix (r_pool_id r)"

definition shared_charges_total_by_key_prefix ::
    "LedgerStore \<Rightarrow> PrincipalId \<Rightarrow> string \<Rightarrow> string \<Rightarrow> LedgerError + u64" where
  "shared_charges_total_by_key_prefix s principal_id key_prefix pool_prefix =
     rbind (ok_or (Sqlite IntegerOverflow) (sql_sum r_settled_amount
       (filter (charge_family_row principal_id key_prefix pool_prefix) (reservations s)))) (\<lambda>tot.
     rbind (ok_or (Sqlite IntegerOverflow) (sql_sum (\<lambda>f. Some (cf_total f))
       (filter (\<lambda>f. cf_principal_id f = principal_id \<and> cf_key_prefix f = key_prefix)
          (charge_floor s)))) (\<lambda>floor.
       Inr (max0_u64 (clamp_i64 (tot + floor)))))"

definition shared_charge_keys_by_prefix ::
    "LedgerStore \<Rightarrow> PrincipalId \<Rightarrow> string \<Rightarrow> string \<Rightarrow> string list" where
  "shared_charge_keys_by_prefix s principal_id key_prefix pool_prefix =
     map r_idempotency_key
       (filter (charge_family_row principal_id key_prefix pool_prefix) (reservations s))"

definition shared_retention_horizon :: "LedgerStore \<Rightarrow> string \<Rightarrow> PoolId option" where
  "shared_retention_horizon s pool_prefix =
     map_option rh_pool_id (find (\<lambda>h. rh_pool_prefix h = pool_prefix) (retention_horizon s))"

section \<open>Transcript watermarks\<close>

definition WATERMARK_ID_CAP :: nat where "WATERMARK_ID_CAP = 512"

text \<open>Ten minutes, in seconds.\<close>
definition WATERMARK_SLACK :: int where "WATERMARK_SLACK = 600"

text \<open>The inner loop: ids not yet seen, up to the cap. \<open>seen\<close> holds exactly the ids kept.\<close>
fun merge_ids :: "nat \<Rightarrow> string list \<Rightarrow> string list \<Rightarrow> string list" where
  "merge_ids cap ids [] = ids"
| "merge_ids cap ids (i # rest) =
     (if cap \<le> length ids then ids
      else merge_ids cap (if i \<in> set ids then ids else ids @ [i]) rest)"

fun watermark_loop ::
    "externals \<Rightarrow> instant option \<Rightarrow> string list \<Rightarrow> bool \<Rightarrow> ReservationRow list
      \<Rightarrow> LedgerError + SettleWatermark option" where
  "watermark_loop x best ids any_seen [] =
     Inr (if any_seen then Some \<lparr>wm_at = best, wm_message_ids = ids\<rparr> else None)"
| "watermark_loop x best ids any_seen (r # rs) =
     rbind (transpose_opt (map_option (parse_time x) (r_watermark_ts r))) (\<lambda>at.
     rbind (transpose_opt (map_option (parse_time x) (r_settled_at r))) (\<lambda>settled_at.
     rbind (case (at, settled_at) of
         (Some a, Some settled) \<Rightarrow>
           rbind (ok_or Panicked (time_checked_add x settled WATERMARK_SLACK)) (\<lambda>limit.
             Inr (limit < a))
       | _ \<Rightarrow> Inr False) (\<lambda>poisoned.
       if poisoned then watermark_loop x best ids any_seen rs
       else watermark_loop x
         (case at of None \<Rightarrow> best | Some a \<Rightarrow> Some (case best of None \<Rightarrow> a | Some b \<Rightarrow> max b a))
         (if length ids < WATERMARK_ID_CAP
          then (case Option.bind (r_watermark_message_ids r) (ids_de x) of
                  None \<Rightarrow> ids | Some found \<Rightarrow> merge_ids WATERMARK_ID_CAP ids found)
          else ids)
         True rs)))"

definition shared_lane_watermark ::
    "externals \<Rightarrow> LedgerStore \<Rightarrow> PrincipalId \<Rightarrow> string \<Rightarrow> string option \<Rightarrow> ExecutorKind
      \<Rightarrow> string \<Rightarrow> LedgerError + SettleWatermark option" where
  "shared_lane_watermark x s principal_id session_id agent_id executor_kind pool_prefix =
     watermark_loop x None [] False (rev (sort_key r_settled_at
       (filter (\<lambda>r. in_lane principal_id session_id agent_id executor_kind r
          \<and> starts_with pool_prefix (r_pool_id r) \<and> r_state r = ''settled''
          \<and> (r_watermark_ts r \<noteq> None \<or> r_watermark_message_ids r \<noteq> None)) (reservations s))))"

definition record_shared_watermark ::
    "externals \<Rightarrow> LedgerStore \<Rightarrow> uuid \<Rightarrow> SettleWatermark \<Rightarrow> LedgerError + LedgerStore" where
  "record_shared_watermark x s rid watermark =
     rbind (watermark_columns x (Some watermark)) (\<lambda>(at, ids).
       Inr (s\<lparr>reservations := update_where
          (\<lambda>r. r_id r = uuid_to_string x rid \<and> r_state r = ''settled'')
          (\<lambda>r. r\<lparr>r_watermark_ts := at, r_watermark_message_ids := ids\<rparr>) (reservations s)\<rparr>))"

section \<open>The executor report\<close>

lemma case_sum_exact:
  assumes "list_all row_ok rows" "sum_col (\<lambda>r. if r_state r = st then coalesce 0 (column r) else 0) rows \<le> i64_max"
    and "\<And>r v. r \<in> set rows \<Longrightarrow> column r = Some v \<Longrightarrow> 0 \<le> v"
  shows "case_sum st column rows = Inr (sum_col (\<lambda>r. if r_state r = st then coalesce 0 (column r) else 0) rows)"
proof -
  let ?col = "\<lambda>r. if r_state r = st then column r else Some 0"
  have "(\<lambda>r. coalesce 0 (?col r)) = (\<lambda>r. if r_state r = st then coalesce 0 (column r) else 0)"
    by auto
  moreover have "list_all (\<lambda>v. 0 \<le> v) (List.map_filter ?col rows)"
    using assms(3) by (force simp: list_all_iff List.map_filter_def split: if_splits)
  ultimately show ?thesis
    using assms(2)
    by (simp add: case_sum_def sql_sum_def sql_sum_from_nonneg map_filter_sum i64_max_def)
qed

definition report_rows :: "LedgerStore \<Rightarrow> PoolId \<Rightarrow> ReservationRow list" where
  "report_rows s p = filter (\<lambda>r. r_pool_id r = p \<and> r_state r \<in> {''active'', ''settled''}) (reservations s)"

lemma report_rows_totals:
  "sum_col (settled_value p) (report_rows s p) = settled_total s p"
  "sum_col (active_value p) (report_rows s p) = active_total s p"
  by (auto simp: report_rows_def settled_total_def active_total_def sum_col_filter
      settled_value_def active_value_def intro!: sum_col_cong)

lemma executor_usage_of_exact:
  assumes rows: "rows = report_rows s p" "list_all row_ok (reservations s)"
    and fits: "settled_total s p \<le> i64_max" "active_total s p \<le> i64_max"
    and k: "k \<in> executor_key ` set rows"
  shows "\<exists>e. executor_usage_of rows k = Inr e
    \<and> uint (eu_used e) = sum_col (settled_value p) (filter (\<lambda>r. executor_key r = k) rows)
    \<and> uint (eu_reserved e) = sum_col (active_value p) (filter (\<lambda>r. executor_key r = k) rows)
    \<and> (eu_principal_id e, eu_session_id e, eu_agent_id e, ExecutorKind_as_str (eu_executor_kind e)) = k"
proof -
  let ?g = "filter (\<lambda>r. executor_key r = k) rows"
  obtain pr se ag kind where k_eq: "k = (pr, se, ag, kind)" by (metis prod.exhaust)
  have pool: "r_pool_id r = p" if "r \<in> set ?g" for r
    using rows that by (auto simp: report_rows_def)
  have ok: "list_all row_ok rows" using rows by (auto simp: list_all_iff report_rows_def)
  then have okg: "list_all row_ok ?g" by (auto simp: list_all_iff)
  have eqs: "sum_col (\<lambda>r. if r_state r = ''settled'' then coalesce 0 (r_settled_amount r) else 0) ?g
      = sum_col (settled_value p) ?g"
    "sum_col (\<lambda>r. if r_state r = ''active'' then coalesce 0 (Some (r_amount r)) else 0) ?g
      = sum_col (active_value p) ?g"
    using pool by (auto simp: settled_value_def active_value_def intro!: sum_col_cong)
  have le: "sum_col (settled_value p) ?g \<le> i64_max" "sum_col (active_value p) ?g \<le> i64_max"
    using sum_col_filter_le [of rows "settled_value p" "\<lambda>r. executor_key r = k"]
      sum_col_filter_le [of rows "active_value p" "\<lambda>r. executor_key r = k"]
      ok row_ok_values fits report_rows_totals [where s = s and p = p]
    by (auto simp: list_all_iff rows(1))
  have nonneg: "0 \<le> sum_col (settled_value p) ?g" "0 \<le> sum_col (active_value p) ?g"
    using okg row_ok_values by (auto simp: list_all_iff intro!: sum_col_nonneg)
  obtain r where "r \<in> set rows" "executor_key r = k" using k by auto
  then have "row_ok r" "kind = coalesce ''unattributed'' (r_executor_kind r)"
    using ok by (auto simp: list_all_iff executor_key_def k_eq)
  then obtain v where v: "ExecutorKind_parse kind = Some v" "ExecutorKind_as_str v = kind"
    by (cases "r_executor_kind r")
      (auto simp: row_ok_def reservation_checks_def ExecutorKind_parse_def ExecutorKind_as_str_def)
  have "case_sum ''settled'' r_settled_amount ?g = Inr (sum_col (settled_value p) ?g)"
    "case_sum ''active'' (\<lambda>r. Some (r_amount r)) ?g = Inr (sum_col (active_value p) ?g)"
    using case_sum_exact [OF okg, of "''settled''" r_settled_amount]
      case_sum_exact [OF okg, of "''active''" "\<lambda>r. Some (r_amount r)"] le okg row_ok_bounds
    unfolding eqs by (auto simp: list_all_iff)
  then show ?thesis
    using v le nonneg uint_max0_i64
    by (simp add: executor_usage_of_def k_eq Let_def)
qed

lemma rmap_total:
  assumes "\<And>k. k \<in> set ks \<Longrightarrow> \<exists>e. f k = Inr e \<and> P k e"
  shows "\<exists>es. rmap f ks = Inr es \<and> list_all2 P ks es"
  using assms
proof (induction ks)
  case (Cons k ks)
  then obtain e es where "f k = Inr e" "P k e" "rmap f ks = Inr es" "list_all2 P ks es"
    by (metis list.set_intros)
  then show ?case by auto
qed simp

lemma list_all2_sum:
  assumes "list_all2 (\<lambda>k e. g e = h k) ks es"
  shows "sum_list (map g es) = sum_list (map h ks)"
  using assms by induction auto

text \<open>
  The per-executor report accounts for every unit of the pool. While the pool's totals fit in
  a signed 64-bit column the report succeeds, it has one line per distinct executor (principal,
  session, agent, kind; rows without a kind appear as unattributed), and the lines add up exactly:
  used to the pool's settled total and reserved to its active total, which are the totals reported.
\<close>
theorem executor_report_complete:
  assumes ok: "store_ok s" and fits: "settled_total s p \<le> i64_max" "active_total s p \<le> i64_max"
  shows "\<exists>rep. shared_pool_executor_usage s p = Inr rep
    \<and> sum_list (map (\<lambda>e. uint (eu_used e)) (er_executors rep)) = settled_total s p
    \<and> sum_list (map (\<lambda>e. uint (eu_reserved e)) (er_executors rep)) = active_total s p
    \<and> uint (er_total_used rep) = settled_total s p \<and> uint (er_total_reserved rep) = active_total s p
    \<and> distinct (map (\<lambda>e. (eu_principal_id e, eu_session_id e, eu_agent_id e, eu_executor_kind e))
        (er_executors rep))"
proof -
  let ?rows = "report_rows s p"
  let ?ks = "sort (remdups (map executor_key ?rows))"
  let ?key = "\<lambda>e. (eu_principal_id e, eu_session_id e, eu_agent_id e, ExecutorKind_as_str (eu_executor_kind e))"
  have rows: "list_all row_ok (reservations s)" using ok by (simp add: store_ok_def)
  let ?P = "\<lambda>k e. uint (eu_used e) = sum_col (settled_value p) (filter (\<lambda>r. executor_key r = k) ?rows)
    \<and> uint (eu_reserved e) = sum_col (active_value p) (filter (\<lambda>r. executor_key r = k) ?rows)
    \<and> ?key e = k"
  have "\<exists>e. executor_usage_of ?rows k = Inr e \<and> ?P k e" if "k \<in> set ?ks" for k
    using executor_usage_of_exact [OF refl rows fits, of k] that by simp
  from rmap_total [where P = ?P and ks = ?ks and f = "executor_usage_of ?rows", OF this]
  obtain es where es: "rmap (executor_usage_of ?rows) ?ks = Inr es"
    and all: "list_all2 ?P ?ks es" by blast
  obtain u r where tot: "settled_and_active_tx s p = (u, r)" by fastforce
  have rep: "shared_pool_executor_usage s p
      = Inr \<lparr>er_executors = es, er_total_used = u, er_total_reserved = r\<rparr>"
    using es tot by (simp add: shared_pool_executor_usage_def report_rows_def)
  have groups: "sum_list (map (\<lambda>k. sum_col f (filter (\<lambda>r. executor_key r = k) ?rows)) ?ks)
      = sum_col f ?rows" for f
    by (rule sum_col_groups) auto
  have "sum_list (map (\<lambda>e. uint (eu_used e)) es) = settled_total s p"
    using list_all2_sum [OF list_all2_mono [OF all], of "\<lambda>e. uint (eu_used e)"
      "\<lambda>k. sum_col (settled_value p) (filter (\<lambda>r. executor_key r = k) ?rows)"]
    by (simp only: groups report_rows_totals)
  moreover have "sum_list (map (\<lambda>e. uint (eu_reserved e)) es) = active_total s p"
    using list_all2_sum [OF list_all2_mono [OF all], of "\<lambda>e. uint (eu_reserved e)"
      "\<lambda>k. sum_col (active_value p) (filter (\<lambda>r. executor_key r = k) ?rows)"]
    by (simp only: groups report_rows_totals)
  moreover have "map ?key es = ?ks" using all by induction auto
  then have "distinct (map ?key es)" by simp
  then have "distinct (map (\<lambda>e. (eu_principal_id e, eu_session_id e, eu_agent_id e, eu_executor_kind e)) es)"
    by (auto simp: distinct_map inj_on_def)
  moreover have "uint u = settled_total s p" "uint r = active_total s p"
    using settled_and_active_exact [OF rows tot] fits by (simp_all add: i64_max_def u64_max_def)
  ultimately show ?thesis using rep by auto
qed

theorem executor_report_complete_witness:
  "\<exists>rep. shared_pool_executor_usage demo_two ''p'' = Inr rep
     \<and> sum_list (map (\<lambda>e. uint (eu_reserved e)) (er_executors rep)) = 9"
proof -
  have "settled_total demo_two ''p'' = 0" "active_total demo_two ''p'' = 9" by code_simp+
  then show ?thesis
    using executor_report_complete [OF demo_two_ok(1), of "''p''"] by (auto simp: i64_max_def)
qed

section \<open>Lookups find the right row\<close>

lemma keep_best_spec:
  fixes f :: "'a \<Rightarrow> int"
  shows "keep_best (\<lambda>r b. f b < f r) best xs = None \<longleftrightarrow> best = None \<and> xs = []"
    and "keep_best (\<lambda>r b. f b < f r) best xs = Some m \<Longrightarrow>
      (m \<in> set xs \<or> best = Some m) \<and> (\<forall>y \<in> set xs \<union> set_option best. f y \<le> f m)"
proof (induction xs arbitrary: best)
  case (Cons a xs)
  {
    case 1
    then show ?case using Cons.IH(1) by (simp split: option.splits)
  next
    case 2
    then show ?case
      using Cons.IH(2) [of "case best of None \<Rightarrow> Some a | Some b \<Rightarrow> if f b < f a then Some a else Some b"]
      by (cases best) (auto split: if_splits)
  }
qed auto

lemma rmap_rows_intact:
  assumes "list_all (row_intact x) (reservations s)"
  shows "\<exists>found. rmap (row_to_reservation x) (filter P (reservations s)) = Inr found
    \<and> list_all2 (\<lambda>r res. row_to_reservation x r = Inr res) (filter P (reservations s)) found"
  using rmap_total [of "filter P (reservations s)" "row_to_reservation x"
      "\<lambda>r res. row_to_reservation x r = Inr res"] assms
  by (auto simp: list_all_iff elim!: row_intactE)

lemma list_all2_mem:
  "list_all2 (\<lambda>r y. f r = Inr y) xs ys \<Longrightarrow> y \<in> set ys \<longleftrightarrow> (\<exists>r \<in> set xs. f r = Inr y)"
  by (induction rule: list_all2_induct) auto

text \<open>
  The lane lookup is exact. On a table whose rows read back it always answers; it returns a hold
  iff the lane (pool, principal, session, agent or none, executor kind) has an active, unexpired
  turn hold; and what it returns is one of them, with no later-created one beside it. Charges,
  gateway holds and holds of another kind without an agent are never returned.
\<close>
theorem lane_lookup_exact:
  assumes intact: "list_all (row_intact x) (reservations s)"
  shows "\<exists>found. active_shared_hold_for_lane x s p pr se ag kind now = Inr found
    \<and> (let live = (\<lambda>row res. row \<in> set (reservations s) \<and> row_to_reservation x row = Inr res
          \<and> r_pool_id row = p \<and> in_lane pr se ag kind row \<and> r_state row = ''active''
          \<and> turn_row row \<and> now < spr_expires_at res)
       in case found of None \<Rightarrow> \<not> (\<exists>row res. live row res)
          | Some best \<Rightarrow> (\<exists>row. live row best)
              \<and> (\<forall>row res. live row res \<longrightarrow> spr_created_at res \<le> spr_created_at best))"
proof -
  let ?P = "\<lambda>r. r_pool_id r = p \<and> in_lane pr se ag kind r \<and> r_state r = ''active'' \<and> turn_row r"
  obtain found where found: "rmap (row_to_reservation x) (filter ?P (reservations s)) = Inr found"
    "list_all2 (\<lambda>r res. row_to_reservation x r = Inr res) (filter ?P (reservations s)) found"
    using rmap_rows_intact [OF intact, of ?P] by blast
  let ?live = "filter (\<lambda>r. now < spr_expires_at r) found"
  let ?best = "keep_best (\<lambda>r b. spr_created_at b < spr_created_at r) None ?live"
  have result: "active_shared_hold_for_lane x s p pr se ag kind now = Inr ?best"
    using found(1) by (simp add: active_shared_hold_for_lane_def)
  have mem: "res \<in> set found \<longleftrightarrow> (\<exists>row \<in> set (reservations s). ?P row \<and> row_to_reservation x row = Inr res)" for res
    using list_all2_mem [OF found(2)] by auto
  note spec = keep_best_spec [of spr_created_at None ?live]
  show ?thesis
  proof (cases ?best)
    case None
    with spec(1) have "\<not> now < spr_expires_at res" if "res \<in> set found" for res
      using that by (auto simp: filter_empty_conv)
    then show ?thesis using None mem unfolding result Let_def by auto
  next
    case (Some best)
    with spec(2) [of best] have "best \<in> set found" "now < spr_expires_at best"
      "\<forall>y \<in> set found. now < spr_expires_at y \<longrightarrow> spr_created_at y \<le> spr_created_at best" by auto
    then show ?thesis using Some mem unfolding result Let_def by auto
  qed
qed


theorem lane_lookup_exact_witness:
  "\<exists>found. active_shared_hold_for_lane demo_externals demo_two ''p'' ''a'' ''s'' None AgentAbsent 9 = Inr found
     \<and> found \<noteq> None"
proof -
  let ?row = "hd (reservations demo_two)"
  have *: "?row \<in> set (reservations demo_two)" "row_to_reservation demo_externals ?row
      = Inr (granted_reservation (demo_request ''k'' 7) (main_executor (Some TurnHold)) 1 60000000005)"
    "r_pool_id ?row = ''p''" "in_lane ''a'' ''s'' None AgentAbsent ?row" "r_state ?row = ''active''"
    "turn_row ?row"
    "9 < spr_expires_at (granted_reservation (demo_request ''k'' 7) (main_executor (Some TurnHold)) 1 60000000005)"
    by code_simp+
  show ?thesis
    using lane_lookup_exact [OF demo_two_ok(2), of "''p''" "''a''" "''s''" None AgentAbsent 9] *
    by (fastforce simp: Let_def split: option.splits)
qed

text \<open>
  A key is found across periods: on a table whose rows read back, the lookup by key answers none iff
  the principal has no row under that key in any pool of the prefix, whatever the row's state;
  otherwise it answers with the earliest-created such row.
\<close>
theorem key_lookup_across_periods:
  assumes intact: "list_all (row_intact x) (reservations s)"
  shows "\<exists>found. find_shared_reservation_by_key x s pr key prefix = Inr found
    \<and> (let hit = (\<lambda>row res. row \<in> set (reservations s) \<and> row_to_reservation x row = Inr res
          \<and> r_principal_id row = pr \<and> r_idempotency_key row = key \<and> starts_with prefix (r_pool_id row))
       in case found of None \<Rightarrow> \<not> (\<exists>row res. hit row res)
          | Some first \<Rightarrow> (\<exists>row. hit row first)
              \<and> (\<forall>row res. hit row res \<longrightarrow> spr_created_at first \<le> spr_created_at res))"
proof -
  let ?P = "\<lambda>r. r_principal_id r = pr \<and> r_idempotency_key r = key \<and> starts_with prefix (r_pool_id r)"
  obtain found where found: "rmap (row_to_reservation x) (filter ?P (reservations s)) = Inr found"
    "list_all2 (\<lambda>r res. row_to_reservation x r = Inr res) (filter ?P (reservations s)) found"
    using rmap_rows_intact [OF intact, of ?P] by blast
  let ?best = "keep_best (\<lambda>r b. - spr_created_at b < - spr_created_at r) None found"
  have result: "find_shared_reservation_by_key x s pr key prefix = Inr ?best"
    using found(1) by (simp add: find_shared_reservation_by_key_def)
  have mem: "res \<in> set found \<longleftrightarrow> (\<exists>row \<in> set (reservations s). ?P row \<and> row_to_reservation x row = Inr res)" for res
    using list_all2_mem [OF found(2)] by auto
  note spec = keep_best_spec [of "\<lambda>r. - spr_created_at r" None found]
  show ?thesis
  proof (cases ?best)
    case None
    with spec(1) have "found = []" by simp
    then show ?thesis using None mem unfolding result Let_def by auto
  next
    case (Some best)
    with spec(2) [of best] have "best \<in> set found"
      "\<forall>y \<in> set found. spr_created_at best \<le> spr_created_at y" by auto
    then show ?thesis using Some mem unfolding result Let_def by auto
  qed
qed

theorem key_lookup_across_periods_witness:
  "\<exists>found. find_shared_reservation_by_key demo_externals demo_two ''a'' ''k'' '''' = Inr found \<and> found \<noteq> None"
proof -
  let ?row = "hd (reservations demo_two)"
  have *: "?row \<in> set (reservations demo_two)" "row_to_reservation demo_externals ?row
      = Inr (granted_reservation (demo_request ''k'' 7) (main_executor (Some TurnHold)) 1 60000000005)"
    "r_principal_id ?row = ''a''" "r_idempotency_key ?row = ''k''" "starts_with '''' (r_pool_id ?row)"
    by code_simp+
  show ?thesis
    using key_lookup_across_periods [OF demo_two_ok(2), of "''a''" "''k''" "''''"] *
    by (fastforce simp: Let_def split: option.splits)
qed

section \<open>Watermarks are bounded by what was settled\<close>

lemma merge_ids_spec:
  assumes "distinct ids" "length ids \<le> cap"
  shows "distinct (merge_ids cap ids found) \<and> length (merge_ids cap ids found) \<le> cap"
  using assms by (induction cap ids found rule: merge_ids.induct) auto

text \<open>A mark the reader trusts: not later than its row's settlement plus the slack.\<close>
definition trusted_mark :: "externals \<Rightarrow> ReservationRow \<Rightarrow> instant \<Rightarrow> bool" where
  "trusted_mark x r a \<longleftrightarrow> transpose_opt (map_option (parse_time x) (r_watermark_ts r)) = Inr (Some a)
     \<and> (case transpose_opt (map_option (parse_time x) (r_settled_at r)) of
          Inl _ \<Rightarrow> False
        | Inr None \<Rightarrow> True
        | Inr (Some settled) \<Rightarrow>
            (case time_checked_add x settled WATERMARK_SLACK of None \<Rightarrow> False | Some limit \<Rightarrow> a \<le> limit))"

lemma watermark_loop_spec:
  assumes "watermark_loop x best ids any_seen rows = Inr (Some w)"
    and "distinct ids" "length ids \<le> WATERMARK_ID_CAP"
  shows "distinct (wm_message_ids w) \<and> length (wm_message_ids w) \<le> WATERMARK_ID_CAP
    \<and> (\<forall>a. wm_at w = Some a \<longrightarrow> best = Some a \<or> (\<exists>r \<in> set rows. trusted_mark x r a))
    \<and> (\<forall>a. best = Some a \<or> (\<exists>r \<in> set rows. trusted_mark x r a) \<longrightarrow> (\<exists>m. wm_at w = Some m \<and> a \<le> m))"
  using assms
proof (induction rows arbitrary: best ids any_seen)
  case Nil
  then show ?case by (auto split: if_splits)
next
  case (Cons r rows)
  from Cons.prems(1) obtain at st where
    at: "transpose_opt (map_option (parse_time x) (r_watermark_ts r)) = Inr at"
    and st: "transpose_opt (map_option (parse_time x) (r_settled_at r)) = Inr st"
    by (auto elim!: rbindE)
  define ids' where "ids' = (if length ids < WATERMARK_ID_CAP
      then (case Option.bind (r_watermark_message_ids r) (ids_de x) of
              None \<Rightarrow> ids | Some found \<Rightarrow> merge_ids WATERMARK_ID_CAP ids found) else ids)"
  define best' where "best' = (case at of None \<Rightarrow> best
      | Some a \<Rightarrow> Some (case best of None \<Rightarrow> a | Some b \<Rightarrow> max b a))"
  have ids': "distinct ids'" "length ids' \<le> WATERMARK_ID_CAP"
    using Cons.prems(2,3) merge_ids_spec by (auto simp: ids'_def split: option.splits)
  from Cons.prems(1) obtain poisoned where
    p: "(case (at, st) of (Some a, Some settled) \<Rightarrow>
           rbind (ok_or Panicked (time_checked_add x settled WATERMARK_SLACK)) (\<lambda>limit. Inr (limit < a))
         | _ \<Rightarrow> Inr False) = Inr poisoned"
    and rest: "(if poisoned then watermark_loop x best ids any_seen rows
        else watermark_loop x best' ids' True rows) = Inr (Some w)"
    unfolding watermark_loop.simps at st rbind_simps best'_def ids'_def by (elim rbindE)
  have trusted: "trusted_mark x r a \<longleftrightarrow> at = Some a \<and> \<not> poisoned" for a
    using p by (cases at; cases st)
      (auto simp: trusted_mark_def at st ok_or_eq_Inr not_less elim!: rbindE split: option.splits)
  show ?case
  proof (cases poisoned)
    case True
    then show ?thesis using Cons.IH [of best ids any_seen] Cons.prems(2,3) rest trusted by auto
  next
    case False
    then have IH: "distinct (wm_message_ids w) \<and> length (wm_message_ids w) \<le> WATERMARK_ID_CAP
      \<and> (\<forall>a. wm_at w = Some a \<longrightarrow> best' = Some a \<or> (\<exists>r \<in> set rows. trusted_mark x r a))
      \<and> (\<forall>a. best' = Some a \<or> (\<exists>r \<in> set rows. trusted_mark x r a) \<longrightarrow> (\<exists>m. wm_at w = Some m \<and> a \<le> m))"
      using Cons.IH [OF _ ids', of best' True] rest by simp
    have b1: "best' = Some a \<Longrightarrow> best = Some a \<or> at = Some a" for a
      by (auto simp: best'_def max_def split: option.splits if_splits)
    have b2: "\<exists>b. best' = Some b \<and> a \<le> b" if "best = Some a \<or> at = Some a" for a
      using that by (auto simp: best'_def split: option.splits)
    have hd: "(\<exists>q \<in> set (r # rows). trusted_mark x q a)
        \<longleftrightarrow> at = Some a \<or> (\<exists>q \<in> set rows. trusted_mark x q a)" for a
      using trusted [of a] False by simp
    have "\<exists>m. wm_at w = Some m \<and> a \<le> m"
      if "best = Some a \<or> at = Some a \<or> (\<exists>q \<in> set rows. trusted_mark x q a)" for a
    proof (cases "best = Some a \<or> at = Some a")
      case True
      then obtain b where "best' = Some b" "a \<le> b" using b2 by blast
      with IH obtain m where "wm_at w = Some m" "b \<le> m" by blast
      with \<open>a \<le> b\<close> show ?thesis by auto
    next
      case False
      with that IH show ?thesis by blast
    qed
    with IH b1 show ?thesis unfolding hd by blast
  qed
qed

text \<open>
  The transcript high-water mark of a lane cannot be poisoned. The instant it reports is the newest
  trusted mark among the lane's settled rows, and only such a mark: one far ahead of the settlement
  that wrote it is ignored, so it cannot hide later records. The message ids are distinct and at
  most 512.
\<close>
theorem lane_watermark_trusted:
  assumes "shared_lane_watermark x s pr se ag kind prefix = Inr (Some w)"
  shows "distinct (wm_message_ids w) \<and> length (wm_message_ids w) \<le> WATERMARK_ID_CAP
    \<and> (let marks = {a. \<exists>r \<in> set (reservations s). in_lane pr se ag kind r
          \<and> starts_with prefix (r_pool_id r) \<and> r_state r = ''settled'' \<and> trusted_mark x r a}
       in case wm_at w of None \<Rightarrow> marks = {} | Some m \<Rightarrow> m \<in> marks \<and> (\<forall>a \<in> marks. a \<le> m))"
proof -
  have mark: "r_watermark_ts r \<noteq> None" if "trusted_mark x r a" for r a
    using that by (auto simp: trusted_mark_def transpose_opt_eq_Inr)
  let ?mark = "\<lambda>a. \<exists>r \<in> set (reservations s). in_lane pr se ag kind r
    \<and> starts_with prefix (r_pool_id r) \<and> r_state r = ''settled'' \<and> trusted_mark x r a"
  note spec = watermark_loop_spec [OF assms [unfolded shared_lane_watermark_def], simplified]
  then have "(\<forall>a. wm_at w = Some a \<longrightarrow> ?mark a) \<and> (\<forall>a. ?mark a \<longrightarrow> (\<exists>m. wm_at w = Some m \<and> a \<le> m))"
    using mark by simp blast
  with spec show ?thesis by (cases "wm_at w") (auto simp: Let_def)
qed

definition demo_marked :: LedgerStore where
  "demo_marked = demo_settled\<lparr>reservations :=
     map (\<lambda>r. r\<lparr>r_watermark_ts := Some (int_bits 8), r_watermark_message_ids := Some ''m''\<rparr>)
       (reservations demo_settled)\<rparr>"

theorem lane_watermark_trusted_witness:
  "shared_lane_watermark demo_externals demo_marked ''a'' ''s'' None AgentAbsent ''p''
      = Inr (Some \<lparr>wm_at = Some 8, wm_message_ids = [''m'']\<rparr>)
   \<and> (\<exists>r \<in> set (reservations demo_marked). trusted_mark demo_externals r 8)"
proof -
  have w: "shared_lane_watermark demo_externals demo_marked ''a'' ''s'' None AgentAbsent ''p''
      = Inr (Some \<lparr>wm_at = Some 8, wm_message_ids = [''m'']\<rparr>)"
    by code_simp
  with lane_watermark_trusted [OF w] show ?thesis by (auto simp: Let_def)
qed

end
