(* ===== verification/Pool_Retention.thy ===== *)
theory Pool_Retention
  imports Pool_Queries
begin

text \<open>
  Retention of closed monthly periods (\<open>crates/ledger/src/shared_pool_retention.rs\<close>): which monthly
  pools are old enough, what a prune deletes, what it remembers in \<open>shared_charge_floor\<close> and
  \<open>shared_retention_horizon\<close>, and its report. The calendar month of an instant comes from
  \<open>crates/domain/src/quota_window/calendar.rs\<close>, whose time-zone database (jiff) is a parameter:
  the civil year and month of an instant in a zone, and the instant of a month's first midnight.

  Every pool is pruned in a transaction of its own, so a failure part-way keeps the pools already
  pruned: a prune returns its result and the store beside it. A floor total beyond \<open>i64::MAX\<close>,
  which SQLite would turn into a \<open>REAL\<close> no reader accepts, is an integer that \<open>sql_sum\<close> rejects.
\<close>

section \<open>Calendar months\<close>

record calendar =
  civil_month :: "instant \<Rightarrow> string \<Rightarrow> int \<times> int"
  month_midnight :: "int \<times> int \<Rightarrow> string \<Rightarrow> instant"

definition prev_month :: "int \<times> int \<Rightarrow> int \<times> int" where
  "prev_month m = (if snd m = 1 then (fst m - 1, 12) else (fst m, snd m - 1))"

definition next_month :: "int \<times> int \<Rightarrow> int \<times> int" where
  "next_month m = (if snd m = 12 then (fst m + 1, 1) else (fst m, snd m + 1))"

definition calendar_month_bounds :: "calendar \<Rightarrow> instant \<Rightarrow> string \<Rightarrow> instant \<times> instant" where
  "calendar_month_bounds cal now tz =
     (let first = civil_month cal now tz;
          first = (if now < month_midnight cal first tz then prev_month first else first)
      in (month_midnight cal first tz, month_midnight cal (next_month first) tz))"

definition digit :: "int \<Rightarrow> char" where "digit n = char_of (48 + nat n)"

function decimal :: "int \<Rightarrow> string" where
  "decimal n = (if n < 10 then [digit n] else decimal (n div 10) @ [digit (n mod 10)])"
  by auto
termination by (relation "measure nat") auto

text \<open>\<open>{:0w}\<close> for integers: zero-padded to width \<open>w\<close>, the sign counted.\<close>
definition pad0 :: "nat \<Rightarrow> int \<Rightarrow> string" where
  "pad0 w n = (if n < 0 then CHR ''-'' # replicate (w - 1 - length (decimal (- n))) CHR ''0'' @ decimal (- n)
     else replicate (w - length (decimal n)) CHR ''0'' @ decimal n)"

definition monthly_pool_alias :: "calendar \<Rightarrow> instant \<Rightarrow> string \<Rightarrow> string" where
  "monthly_pool_alias cal period_start tz =
     (let (year, month) = civil_month cal period_start tz
      in ''monthly-'' @ pad0 4 year @ ''-'' @ pad0 2 month)"

section \<open>Which periods are old enough\<close>

definition parse_digits :: "string \<Rightarrow> int" where
  "parse_digits s = fold (\<lambda>c acc. 10 * acc + (int (of_char c) - 48)) s 0"

definition month_index_of_alias :: "string \<Rightarrow> int option" where
  "month_index_of_alias a =
     Option.bind (strip_prefix ''monthly-'' a) (\<lambda>rest.
     Option.bind (split_once CHR ''-'' rest) (\<lambda>(year, month).
       if length year \<noteq> 4 \<or> length month \<noteq> 2 then None
       else if \<not> list_all is_ascii_digit year \<or> \<not> list_all is_ascii_digit month then None
       else let y = parse_digits year; m = parse_digits month
         in if \<not> (1 \<le> m \<and> m \<le> 12) then None else Some (y * 12 + (m - 1))))"

definition is_prunable_period :: "int \<Rightarrow> int \<Rightarrow> 32 word \<Rightarrow> bool" where
  "is_prunable_period pool_index current_index keep_months \<longleftrightarrow>
     pool_index < current_index - uint keep_months"

section \<open>Requests and reports\<close>

datatype RetentionError = KeepMonthsZero | Ledger LedgerError

record PruneRequest =
  pq_keep_months :: "32 word"
  pq_now :: instant
  pq_time_zone :: string
  pq_dry_run :: bool

datatype PruneDisposition = Pruned | WouldPrune | Retained | SkippedActiveHold | SkippedUnrecognisedAlias

record PoolPruneDetail =
  pd_pool_id :: string
  pd_disposition :: PruneDisposition
  pd_rows_deleted :: u64
  pd_rows_kept :: u64
  pd_rows_selected :: u64

record PruneReport =
  pt_dry_run :: bool
  pt_keep_months :: "32 word"
  pt_pools_considered :: u64
  pt_pools_selected :: u64
  pt_pools_pruned :: u64
  pt_rows_selected :: u64
  pt_rows_deleted :: u64
  pt_rows_kept :: u64
  pt_pools :: "PoolPruneDetail list"

definition pool_rows :: "LedgerStore \<Rightarrow> PoolId \<Rightarrow> ReservationRow list" where
  "pool_rows s pool_id = filter (\<lambda>r. r_pool_id r = pool_id) (reservations s)"

definition closed_row :: "ReservationRow \<Rightarrow> bool" where
  "closed_row r \<longleftrightarrow> r_state r \<in> {''settled'', ''released'', ''expired''}"

text \<open>Total, closed and active rows.\<close>
definition pool_counts :: "LedgerStore \<Rightarrow> PoolId \<Rightarrow> u64 \<times> u64 \<times> u64" where
  "pool_counts s pool_id =
     (let rows = pool_rows s pool_id
      in (of_nat (length rows), of_nat (length (filter closed_row rows)),
          of_nat (length (filter (\<lambda>r. r_state r = ''active'') rows))))"

section \<open>What a prune remembers\<close>

text \<open>\<open>rtrim(X, Y)\<close> drops the longest suffix of characters of \<open>Y\<close>.\<close>
definition rtrim :: "string \<Rightarrow> string \<Rightarrow> string" where
  "rtrim s chars = rev (dropWhile (\<lambda>c. c \<in> set chars) (rev s))"

definition family_prefix :: "string \<Rightarrow> string" where
  "family_prefix key = rtrim key (filter (\<lambda>c. c \<noteq> CHR ''|'') key)"

definition foldable_charge :: "PoolId \<Rightarrow> ReservationRow \<Rightarrow> bool" where
  "foldable_charge pool_id r \<longleftrightarrow> r_pool_id r = pool_id \<and> r_is_charge r \<and> r_state r = ''settled''
   \<and> r_settled_amount r \<noteq> None
   \<and> (starts_with ''subagent-transcript:'' (r_idempotency_key r)
      \<or> starts_with ''codex-trueup:'' (r_idempotency_key r))"

definition floor_key :: "ReservationRow \<Rightarrow> string \<times> string" where
  "floor_key r = (r_principal_id r, family_prefix (r_idempotency_key r))"

definition upsert_floor :: "string \<times> string \<Rightarrow> int \<Rightarrow> ChargeFloorRow list \<Rightarrow> ChargeFloorRow list" where
  "upsert_floor k tot floor =
     (let matches = (\<lambda>f. (cf_principal_id f, cf_key_prefix f) = k)
      in if list_ex matches floor
         then update_where matches (\<lambda>f. f\<lparr>cf_total := cf_total f + tot\<rparr>) floor
         else floor @ [\<lparr>cf_principal_id = fst k, cf_key_prefix = snd k, cf_total = tot\<rparr>])"

fun fold_floor ::
    "ReservationRow list \<Rightarrow> ChargeFloorRow list \<Rightarrow> (string \<times> string) list
      \<Rightarrow> LedgerError + ChargeFloorRow list" where
  "fold_floor rows floor [] = Inr floor"
| "fold_floor rows floor (k # ks) =
     rbind (ok_or (Sqlite IntegerOverflow)
       (sql_sum r_settled_amount (filter (\<lambda>r. floor_key r = k) rows))) (\<lambda>tot.
       if tot < 0 then Inl (Sqlite ConstraintViolation)
       else fold_floor rows (upsert_floor k tot floor) ks)"

definition LOCAL_BUDGET_PREFIX :: string where
  "LOCAL_BUDGET_PREFIX = METERED_POOL_PREFIX @ LOCAL_BUDGET_OWNER @ ''/''"

definition upsert_horizon :: "string \<Rightarrow> PoolId \<Rightarrow> RetentionHorizonRow list \<Rightarrow> RetentionHorizonRow list" where
  "upsert_horizon prefix pool_id hs =
     (if list_ex (\<lambda>h. rh_pool_prefix h = prefix) hs
      then update_where (\<lambda>h. rh_pool_prefix h = prefix)
             (\<lambda>h. h\<lparr>rh_pool_id := max (rh_pool_id h) pool_id\<rparr>) hs
      else hs @ [\<lparr>rh_pool_prefix = prefix, rh_pool_id = pool_id\<rparr>])"

section \<open>Pruning\<close>

text \<open>The deletes of one prune transaction.\<close>
definition delete_pool :: "LedgerStore \<Rightarrow> PoolId \<Rightarrow> LedgerError + LedgerStore" where
  "delete_pool s pool_id =
     (let s' = s\<lparr>reservations := filter (\<lambda>r. \<not> (r_pool_id r = pool_id \<and> closed_row r)) (reservations s),
            snapshots := filter (\<lambda>n. sn_pool_id n \<noteq> pool_id) (snapshots s)\<rparr>
      in if list_ex (\<lambda>r. r_pool_id r = pool_id) (reservations s')
         then Inl (Sqlite ConstraintViolation)
         else Inr (s'\<lparr>quota_pools := filter (\<lambda>p. pr_pool_id p \<noteq> pool_id) (quota_pools s')\<rparr>))"

definition skipped_detail :: "PoolId \<Rightarrow> PruneDisposition \<Rightarrow> u64 \<Rightarrow> PoolPruneDetail" where
  "skipped_detail pool_id d tot = \<lparr>pd_pool_id = pool_id, pd_disposition = d, pd_rows_deleted = 0,
     pd_rows_kept = tot, pd_rows_selected = 0\<rparr>"

definition prune_one_pool ::
    "LedgerStore \<Rightarrow> PoolId \<Rightarrow> bool \<Rightarrow> LedgerError + (PoolPruneDetail \<times> LedgerStore)" where
  "prune_one_pool s pool_id dry_run =
     (let (tot, closed, active) = pool_counts s pool_id
      in if 0 < active then Inr (skipped_detail pool_id SkippedActiveHold tot, s)
         else if dry_run
         then Inr (\<lparr>pd_pool_id = pool_id, pd_disposition = WouldPrune, pd_rows_deleted = 0,
                pd_rows_kept = tot, pd_rows_selected = closed\<rparr>, s)
         else
           let foldable = filter (foldable_charge pool_id) (reservations s)
           in rbind (fold_floor foldable (charge_floor s) (remdups (map floor_key foldable)))
              (\<lambda>floor.
                let deleted = of_nat (length (filter closed_row (pool_rows s pool_id)))
                in rbind (delete_pool (s\<lparr>charge_floor := floor,
                       retention_horizon := upsert_horizon LOCAL_BUDGET_PREFIX pool_id
                         (retention_horizon s)\<rparr>) pool_id) (\<lambda>s'.
                     Inr (\<lparr>pd_pool_id = pool_id, pd_disposition = Pruned, pd_rows_deleted = deleted,
                       pd_rows_kept = 0, pd_rows_selected = deleted\<rparr>, s'))))"

definition pool_month_index :: "PoolId \<Rightarrow> int option" where
  "pool_month_index pool_id =
     Option.bind (MeteredPoolKey_parse pool_id) (\<lambda>k.
       if mpk_owner k = LOCAL_BUDGET_OWNER then month_index_of_alias (mpk_alias k) else None)"

definition prune_detail ::
    "int \<Rightarrow> PruneRequest \<Rightarrow> LedgerStore \<Rightarrow> PoolId \<Rightarrow> LedgerError + (PoolPruneDetail \<times> LedgerStore)" where
  "prune_detail current_index req s pool_id =
     (case pool_month_index pool_id of
        None \<Rightarrow> Inr (skipped_detail pool_id SkippedUnrecognisedAlias (fst (pool_counts s pool_id)), s)
      | Some index \<Rightarrow>
          if \<not> is_prunable_period index current_index (pq_keep_months req)
          then Inr (skipped_detail pool_id Retained (fst (pool_counts s pool_id)), s)
          else prune_one_pool s pool_id (pq_dry_run req))"

definition add_detail :: "PoolPruneDetail \<Rightarrow> PruneReport \<Rightarrow> PruneReport" where
  "add_detail detail report =
     report\<lparr>pt_pools_considered := pt_pools_considered report + 1,
       pt_pools_selected := pt_pools_selected report
         + (if pd_disposition detail \<in> {Pruned, WouldPrune} then 1 else 0),
       pt_pools_pruned := pt_pools_pruned report + (if pd_disposition detail = Pruned then 1 else 0),
       pt_rows_selected := pt_rows_selected report + pd_rows_selected detail,
       pt_rows_deleted := pt_rows_deleted report + pd_rows_deleted detail,
       pt_rows_kept := pt_rows_kept report + pd_rows_kept detail,
       pt_pools := pt_pools report @ [detail]\<rparr>"

fun prune_pools ::
    "int \<Rightarrow> PruneRequest \<Rightarrow> LedgerStore \<Rightarrow> PruneReport \<Rightarrow> PoolId list
      \<Rightarrow> (RetentionError + PruneReport) \<times> LedgerStore" where
  "prune_pools current_index req s report [] = (Inr report, s)"
| "prune_pools current_index req s report (pool_id # ids) =
     (case prune_detail current_index req s pool_id of
        Inl e \<Rightarrow> (Inl (Ledger e), s)
      | Inr (detail, s') \<Rightarrow> prune_pools current_index req s' (add_detail detail report) ids)"

definition empty_report :: "PruneRequest \<Rightarrow> PruneReport" where
  "empty_report req = \<lparr>pt_dry_run = pq_dry_run req, pt_keep_months = pq_keep_months req,
     pt_pools_considered = 0, pt_pools_selected = 0, pt_pools_pruned = 0, pt_rows_selected = 0,
     pt_rows_deleted = 0, pt_rows_kept = 0, pt_pools = []\<rparr>"

definition prune_closed_periods ::
    "calendar \<Rightarrow> LedgerStore \<Rightarrow> PruneRequest \<Rightarrow> (RetentionError + PruneReport) \<times> LedgerStore" where
  "prune_closed_periods cal s req =
     (if pq_keep_months req = 0 then (Inl KeepMonthsZero, s)
      else let current_start = fst (calendar_month_bounds cal (pq_now req) (pq_time_zone req))
        in case month_index_of_alias (monthly_pool_alias cal current_start (pq_time_zone req)) of
             None \<Rightarrow> (Inl (Ledger invalid), s)
           | Some current_index \<Rightarrow>
               prune_pools current_index req s (empty_report req)
                 (shared_pool_ids_with_prefix s LOCAL_BUDGET_PREFIX))"

section \<open>Month aliases\<close>

lemma digit_value: "0 \<le> n \<Longrightarrow> n < 10 \<Longrightarrow> int (of_char (digit n)) = 48 + n"
  by (simp add: digit_def)

lemma digit_ascii: "0 \<le> n \<Longrightarrow> n < 10 \<Longrightarrow> is_ascii_digit (digit n)"
  by (simp add: is_ascii_digit_def less_eq_char_def digit_def nat_less_iff)

lemma parse_digits_snoc: "parse_digits (s @ [c]) = 10 * parse_digits s + (int (of_char c) - 48)"
  by (simp add: parse_digits_def)

lemma parse_digits_zeros: "parse_digits (replicate k CHR ''0'' @ s) = parse_digits s"
proof -
  have "fold (\<lambda>c acc. 10 * acc + (int (of_char c) - 48)) (replicate k CHR ''0'') (0 :: int) = 0"
    by (induction k) simp_all
  then show ?thesis by (simp add: parse_digits_def)
qed

declare decimal.simps [simp del]

lemma decimal_spec:
  assumes "0 \<le> n"
  shows "parse_digits (decimal n) = n \<and> list_all is_ascii_digit (decimal n)"
  using assms
proof (induction n rule: decimal.induct)
  case (1 n)
  show ?case
  proof (cases "n < 10")
    case True
    with 1(2) show ?thesis
      by (simp add: decimal.simps [of n] parse_digits_def digit_value digit_ascii)
  next
    case False
    with 1 show ?thesis
      by (simp add: decimal.simps [of n] parse_digits_snoc digit_value digit_ascii)
  qed
qed

lemma decimal_length:
  "0 \<le> n \<Longrightarrow> n < 10 \<Longrightarrow> length (decimal n) = 1"
  "10 \<le> n \<Longrightarrow> length (decimal n) = Suc (length (decimal (n div 10)))"
  by (simp_all add: decimal.simps [of n])

lemma decimal_length_le:
  "0 \<le> n \<Longrightarrow> n < 100 \<Longrightarrow> length (decimal n) \<le> 2"
  "0 \<le> n \<Longrightarrow> n < 10000 \<Longrightarrow> length (decimal n) \<le> 4"
proof -
  have step: "length (decimal n) \<le> Suc k" if "0 \<le> n" "length (decimal (n div 10)) \<le> k" "1 \<le> k" for n k
    using that by (cases "n < 10") (simp_all add: decimal_length)
  show two: "length (decimal n) \<le> 2" if "0 \<le> n" "n < 100" for n
    using that step [of n 1] decimal_length(1) [of "n div 10"] by simp
  have three: "length (decimal n) \<le> 3" if "0 \<le> n" "n < 1000" for n
    using that step [of n 2] two [of "n div 10"] by simp
  show "0 \<le> n \<Longrightarrow> n < 10000 \<Longrightarrow> length (decimal n) \<le> 4"
    using step [of n 3] three [of "n div 10"] by simp
qed

lemma pad0_spec:
  assumes "0 \<le> n" "length (decimal n) \<le> w"
  shows "parse_digits (pad0 w n) = n \<and> list_all is_ascii_digit (pad0 w n) \<and> length (pad0 w n) = w"
  using assms decimal_spec [of n]
  by (simp add: pad0_def parse_digits_zeros) (simp add: list_all_iff is_ascii_digit_def)

text \<open>
  C21. Monthly aliases read back: the alias of a calendar month (years 0 to 9999) parses to that
  month's index, so the age test of a prune compares real months, and two months get the same alias
  only if they are the same month.
\<close>
theorem monthly_alias_roundtrip:
  assumes "civil_month cal t tz = (year, month)" "0 \<le> year" "year \<le> 9999" "1 \<le> month" "month \<le> 12"
  shows "month_index_of_alias (monthly_pool_alias cal t tz) = Some (year * 12 + (month - 1))"
proof -
  have y: "parse_digits (pad0 4 year) = year" "list_all is_ascii_digit (pad0 4 year)" "length (pad0 4 year) = 4"
    using assms decimal_length_le(2) [of year] pad0_spec [of year 4] by simp_all
  have m: "parse_digits (pad0 2 month) = month" "list_all is_ascii_digit (pad0 2 month)" "length (pad0 2 month) = 2"
    using assms decimal_length_le(1) [of month] pad0_spec [of month 2] by simp_all
  have "CHR ''-'' \<notin> set (pad0 4 year)"
    using y(2) by (auto simp: list_all_iff is_ascii_digit_def)
  then have "split_once CHR ''-'' (pad0 4 year @ ''-'' @ pad0 2 month) = Some (pad0 4 year, pad0 2 month)"
    using split_once_append [of "CHR ''-''" "pad0 4 year" "pad0 2 month"] by simp
  then show ?thesis
    using assms y m by (simp add: month_index_of_alias_def monthly_pool_alias_def Let_def)
qed

theorem monthly_alias_roundtrip_witness:
  "month_index_of_alias (monthly_pool_alias \<lparr>civil_month = \<lambda>t z. (2026, 9), month_midnight = \<lambda>m z. 0\<rparr> 5 ''Etc/UTC'')
     = Some 24320"
  using monthly_alias_roundtrip [of "\<lparr>civil_month = \<lambda>t z. (2026, 9), month_midnight = \<lambda>m z. 0\<rparr>" 5 "''Etc/UTC''" 2026 9]
  by simp

section \<open>Charge families\<close>

lemma rtrim_prefix: "\<exists>t. s = rtrim s chars @ t"
proof -
  have "rev s = takeWhile (\<lambda>c. c \<in> set chars) (rev s) @ dropWhile (\<lambda>c. c \<in> set chars) (rev s)" by simp
  then have "s = rev (dropWhile (\<lambda>c. c \<in> set chars) (rev s)) @ rev (takeWhile (\<lambda>c. c \<in> set chars) (rev s))"
    by (metis rev_append rev_rev_ident)
  then show ?thesis unfolding rtrim_def by blast
qed

lemma family_prefix_starts: "starts_with (family_prefix key) key"
  using rtrim_prefix by (auto simp: family_prefix_def starts_with_iff)

lemma family_prefix_last_bar:
  assumes "CHR ''|'' \<notin> set t"
  shows "family_prefix (p @ CHR ''|'' # t) = p @ [CHR ''|'']"
proof -
  let ?chars = "filter (\<lambda>c. c \<noteq> CHR ''|'') (p @ CHR ''|'' # t)"
  have "dropWhile (\<lambda>c. c \<in> set ?chars) (rev t @ CHR ''|'' # rev p) = CHR ''|'' # rev p"
    using assms by (subst dropWhile_append2) auto
  then show ?thesis by (simp add: family_prefix_def rtrim_def)
qed

text \<open>The primary key and the \<open>CHECK\<close> of \<open>shared_charge_floor\<close>.\<close>
definition floor_ok :: "ChargeFloorRow list \<Rightarrow> bool" where
  "floor_ok floor \<longleftrightarrow> distinct (map (\<lambda>f. (cf_principal_id f, cf_key_prefix f)) floor)
     \<and> list_all (\<lambda>f. 0 \<le> cf_total f) floor"

definition floor_total :: "ChargeFloorRow list \<Rightarrow> string \<times> string \<Rightarrow> int" where
  "floor_total floor k = sum_col cf_total (filter (\<lambda>f. (cf_principal_id f, cf_key_prefix f) = k) floor)"

lemma upsert_floor_ok: "floor_ok floor \<Longrightarrow> 0 \<le> tot \<Longrightarrow> floor_ok (upsert_floor k tot floor)"
  by (cases k)
    (auto simp: floor_ok_def upsert_floor_def Let_def map_update_where_same list_ex_iff
      intro!: list_all_update_where elim!: list.pred_mono_strong)

lemma floor_total_update:
  assumes "distinct (map kf floor)" "k \<in> set (map kf floor)"
    and "\<And>f. kf (g f) = kf f" "\<And>f. cf_total (g f) = cf_total f + tot"
  shows "sum_col cf_total (filter (\<lambda>f. kf f = j) (update_where (\<lambda>f. kf f = k) g floor))
    = sum_col cf_total (filter (\<lambda>f. kf f = j) floor) + (if j = k then tot else 0)"
  using assms(1,2)
proof (induction floor)
  case (Cons f floor)
  show ?case
  proof (cases "kf f = k")
    case True
    then have "update_where (\<lambda>f. kf f = k) g floor = floor"
      using Cons.prems(1) by (intro update_where_none) (auto, metis image_eqI)
    with True show ?thesis by (auto simp: assms)
  next
    case False
    with Cons show ?thesis by (auto simp: assms)
  qed
qed simp

lemma upsert_floor_total:
  assumes "floor_ok floor"
  shows "floor_total (upsert_floor k tot floor) j = floor_total floor j + (if j = k then tot else 0)"
proof (cases "k \<in> set (map (\<lambda>f. (cf_principal_id f, cf_key_prefix f)) floor)")
  case True
  then have "list_ex (\<lambda>f. (cf_principal_id f, cf_key_prefix f) = k) floor" by (auto simp: list_ex_iff)
  then show ?thesis
    using floor_total_update [where kf = "\<lambda>f. (cf_principal_id f, cf_key_prefix f)"
        and g = "\<lambda>f. f\<lparr>cf_total := cf_total f + tot\<rparr>" and tot = tot and floor = floor and j = j, OF _ True]
      assms
    by (simp add: upsert_floor_def floor_total_def floor_ok_def Let_def)
next
  case False
  then have "\<not> list_ex (\<lambda>f. (cf_principal_id f, cf_key_prefix f) = k) floor" by (auto simp: list_ex_iff)
  then show ?thesis by (cases k) (auto simp: upsert_floor_def floor_total_def Let_def)
qed

lemma sql_sum_from_exact: "sql_sum_from acc vs = Some t \<Longrightarrow> t = acc + sum_list vs"
  by (induction acc vs rule: sql_sum_from.induct) (auto split: if_splits)

lemma sql_sum_exact: "sql_sum column rows = Some t \<Longrightarrow> t = sum_col (\<lambda>r. coalesce 0 (column r)) rows"
  unfolding sql_sum_def by (drule sql_sum_from_exact) (simp add: map_filter_sum)

lemma fold_floor_spec:
  assumes "fold_floor rows floor ks = Inr floor'" "distinct ks" "floor_ok floor"
  shows "floor_ok floor' \<and> floor_total floor' j = floor_total floor j
    + (if j \<in> set ks then sum_col (\<lambda>r. coalesce 0 (r_settled_amount r)) (filter (\<lambda>r. floor_key r = j) rows) else 0)"
  using assms
proof (induction rows floor ks rule: fold_floor.induct)
  case (2 rows floor k ks)
  then obtain tot where tot: "sql_sum r_settled_amount (filter (\<lambda>r. floor_key r = k) rows) = Some tot"
    "0 \<le> tot" "fold_floor rows (upsert_floor k tot floor) ks = Inr floor'"
    by (auto simp: ok_or_eq_Inr not_less elim!: rbindE split: if_splits)
  from 2 tot have "floor_ok floor' \<and> floor_total floor' j = floor_total (upsert_floor k tot floor) j
    + (if j \<in> set ks then sum_col (\<lambda>r. coalesce 0 (r_settled_amount r)) (filter (\<lambda>r. floor_key r = j) rows) else 0)"
    using upsert_floor_ok [OF 2(4) tot(2), of k] by (intro "2.IH") (auto simp: ok_or_eq_Inr)
  then show ?case
    using sql_sum_exact [OF tot(1)] 2(3) upsert_floor_total [OF 2(4), of k tot j] by auto
qed simp

section \<open>What a prune deletes\<close>

lemma delete_pool_eq_Inr:
  "delete_pool s p = Inr s' \<longleftrightarrow>
     list_all (\<lambda>r. r_pool_id r = p \<longrightarrow> closed_row r) (reservations s)
   \<and> s' = s\<lparr>reservations := filter (\<lambda>r. r_pool_id r \<noteq> p) (reservations s),
       snapshots := filter (\<lambda>n. sn_pool_id n \<noteq> p) (snapshots s),
       quota_pools := filter (\<lambda>q. pr_pool_id q \<noteq> p) (quota_pools s)\<rparr>"
proof -
  have "\<not> list_ex (\<lambda>r. r_pool_id r = p) (filter (\<lambda>r. \<not> (r_pool_id r = p \<and> closed_row r)) (reservations s))
      \<longleftrightarrow> list_all (\<lambda>r. r_pool_id r = p \<longrightarrow> closed_row r) (reservations s)"
    by (auto simp: list_ex_iff list_all_iff)
  moreover have "filter (\<lambda>r. \<not> (r_pool_id r = p \<and> closed_row r)) (reservations s)
      = filter (\<lambda>r. r_pool_id r \<noteq> p) (reservations s)"
    if "list_all (\<lambda>r. r_pool_id r = p \<longrightarrow> closed_row r) (reservations s)"
    using that by (intro filter_cong) (auto simp: list_all_iff)
  ultimately show ?thesis unfolding delete_pool_def Let_def by auto
qed

lemma prune_detail_cases:
  assumes "prune_detail cur req s p = Inr (d, s')"
  obtains (kept) "s' = s" "pd_disposition d \<noteq> Pruned"
  | (pruned) floor i where "\<not> pq_dry_run req" "pool_month_index p = Some i"
    "is_prunable_period i cur (pq_keep_months req)" "pd_disposition d = Pruned"
    "list_all (\<lambda>r. r_pool_id r = p \<longrightarrow> closed_row r) (reservations s)"
    "fold_floor (filter (foldable_charge p) (reservations s)) (charge_floor s)
       (remdups (map floor_key (filter (foldable_charge p) (reservations s)))) = Inr floor"
    "s' = s\<lparr>charge_floor := floor,
       retention_horizon := upsert_horizon LOCAL_BUDGET_PREFIX p (retention_horizon s),
       reservations := filter (\<lambda>r. r_pool_id r \<noteq> p) (reservations s),
       snapshots := filter (\<lambda>n. sn_pool_id n \<noteq> p) (snapshots s),
       quota_pools := filter (\<lambda>q. pr_pool_id q \<noteq> p) (quota_pools s)\<rparr>"
proof (cases "\<exists>i. pool_month_index p = Some i \<and> is_prunable_period i cur (pq_keep_months req)")
  case False
  with assms show ?thesis
    by (intro kept) (auto simp: prune_detail_def skipped_detail_def split: option.splits if_splits)
next
  case True
  then obtain i where i: "pool_month_index p = Some i" "is_prunable_period i cur (pq_keep_months req)" by blast
  obtain tot closed active where c: "pool_counts s p = (tot, closed, active)" by (metis prod.exhaust)
  have one: "prune_one_pool s p (pq_dry_run req) = Inr (d, s')" using assms i by (simp add: prune_detail_def)
  show ?thesis
  proof (cases "0 < active \<or> pq_dry_run req")
    case True
    with one c show ?thesis
      by (intro kept) (auto simp: prune_one_pool_def skipped_detail_def split: if_splits)
  next
    case False
    with one c obtain floor where
      "fold_floor (filter (foldable_charge p) (reservations s)) (charge_floor s)
         (remdups (map floor_key (filter (foldable_charge p) (reservations s)))) = Inr floor"
      "delete_pool (s\<lparr>charge_floor := floor,
         retention_horizon := upsert_horizon LOCAL_BUDGET_PREFIX p (retention_horizon s)\<rparr>) p = Inr s'"
      "pd_disposition d = Pruned"
      by (auto simp: prune_one_pool_def Let_def elim!: rbindE)
    with False i show ?thesis by (intro pruned) (simp_all add: delete_pool_eq_Inr)
  qed
qed

text \<open>The pools a run removes: age-eligible, without an open hold, only when it is not a dry run.\<close>
definition removes ::
    "int \<Rightarrow> PruneRequest \<Rightarrow> PoolId list \<Rightarrow> LedgerStore \<Rightarrow> PoolId set \<Rightarrow> LedgerStore \<Rightarrow> bool" where
  "removes cur req ids s gone s' \<longleftrightarrow> gone \<subseteq> set ids
   \<and> (\<forall>p \<in> gone. \<not> pq_dry_run req
        \<and> (\<exists>i. pool_month_index p = Some i \<and> is_prunable_period i cur (pq_keep_months req)))
   \<and> list_all (\<lambda>r. r_pool_id r \<in> gone \<longrightarrow> closed_row r) (reservations s)
   \<and> reservations s' = filter (\<lambda>r. r_pool_id r \<notin> gone) (reservations s)
   \<and> snapshots s' = filter (\<lambda>n. sn_pool_id n \<notin> gone) (snapshots s)
   \<and> quota_pools s' = filter (\<lambda>q. pr_pool_id q \<notin> gone) (quota_pools s)
   \<and> hold_prompts s' = hold_prompts s \<and> (gone = {} \<longrightarrow> s' = s)"

lemma prune_pools_removes:
  assumes "prune_pools cur req s rep ids = (res, s')"
  shows "\<exists>gone. removes cur req ids s gone s'"
  using assms
proof (induction cur req s rep ids rule: prune_pools.induct)
  case (1 cur req s rep)
  then show ?case by (intro exI [of _ "{}"]) (simp add: removes_def list_all_iff)
next
  case (2 cur req s rep p ids)
  show ?case
  proof (cases "prune_detail cur req s p")
    case (Inl e)
    with 2(2) show ?thesis by (intro exI [of _ "{}"]) (simp add: removes_def list_all_iff)
  next
    case (Inr ds)
    obtain d s1 where ds: "ds = (d, s1)" by fastforce
    with 2(2) Inr have "prune_pools cur req s1 (add_detail d rep) ids = (res, s')" by simp
    with 2(1) Inr ds obtain gone where gone: "removes cur req ids s1 gone s'" by blast
    from Inr ds have "prune_detail cur req s p = Inr (d, s1)" by simp
    then show ?thesis
    proof (cases rule: prune_detail_cases)
      case kept
      with gone show ?thesis by (intro exI [of _ gone]) (auto simp: removes_def)
    next
      case (pruned floor i)
      have "removes cur req (p # ids) s (insert p gone) s'"
        using gone pruned by (auto simp: removes_def list_all_iff intro!: filter_cong)
      then show ?thesis by blast
    qed
  qed
qed

lemma prune_removes:
  assumes "prune_closed_periods cal s req = (res, s')"
  obtains "s' = s"
  | cur gone where
    "month_index_of_alias (monthly_pool_alias cal
       (fst (calendar_month_bounds cal (pq_now req) (pq_time_zone req))) (pq_time_zone req)) = Some cur"
    "pq_keep_months req \<noteq> 0"
    "removes cur req (shared_pool_ids_with_prefix s LOCAL_BUDGET_PREFIX) s gone s'"
  using assms prune_pools_removes
  by (fastforce simp: prune_closed_periods_def Let_def split: if_splits option.splits)

lemma removes_store_ok:
  assumes "store_ok s" "removes cur req ids s gone s'"
  shows "store_ok s'"
  using assms by (auto simp: store_ok_def removes_def distinct_map_filter list_all_iff)

text \<open>
  C16. A prune is safe. Whatever it returns, it deletes whole pools only, and only pools of the local
  monthly budget whose month lies more than \<open>keep_months\<close> before the current one (so never the
  current, a future or a kept month, nor another owner's pool), every row of which is closed: no
  active hold is ever deleted, even an expired one. Rows, pools and provider snapshots of all other pools and every
  prompt mapping are untouched, and a dry run or a refused request writes nothing.
\<close>
theorem prune_deletes_only_closed_old_periods:
  assumes "prune_closed_periods cal s req = (res, s')"
  shows "\<exists>gone. reservations s' = filter (\<lambda>r. r_pool_id r \<notin> gone) (reservations s)
    \<and> quota_pools s' = filter (\<lambda>q. pr_pool_id q \<notin> gone) (quota_pools s)
    \<and> snapshots s' = filter (\<lambda>n. sn_pool_id n \<notin> gone) (snapshots s)
    \<and> hold_prompts s' = hold_prompts s
    \<and> (\<forall>r \<in> set (reservations s). r_pool_id r \<in> gone \<longrightarrow> r_state r \<noteq> ''active'')
    \<and> (\<forall>p \<in> gone. starts_with LOCAL_BUDGET_PREFIX p
        \<and> (\<exists>i cur. pool_month_index p = Some i
            \<and> month_index_of_alias (monthly_pool_alias cal
               (fst (calendar_month_bounds cal (pq_now req) (pq_time_zone req))) (pq_time_zone req)) = Some cur
            \<and> i < cur - uint (pq_keep_months req) \<and> i + 1 < cur))
    \<and> (pq_dry_run req \<or> pq_keep_months req = 0 \<longrightarrow> s' = s)"
  using assms
proof (cases rule: prune_removes)
  case 1
  then show ?thesis by (intro exI [of _ "{}"]) (simp add: filter_True)
next
  case (2 cur gone)
  have "0 < uint (pq_keep_months req)"
    using 2(2) by (metis order_le_less unsigned_eq_0_iff unsigned_greater_eq)
  then show ?thesis
    using 2
    by (intro exI [of _ gone])
      (fastforce simp: removes_def list_all_iff closed_row_def is_prunable_period_def
        shared_pool_ids_with_prefix_def)
qed

definition demo_calendar :: calendar where
  "demo_calendar = \<lparr>civil_month = (\<lambda>t z. (2026, 9)), month_midnight = (\<lambda>m z. 0)\<rparr>"

definition demo_old_pool :: string where "demo_old_pool = LOCAL_BUDGET_PREFIX @ ''monthly-2026-06''"

text \<open>A closed June period with two charges of one subagent family.\<close>
definition demo_closed :: LedgerStore where
  "demo_closed = empty_store\<lparr>
     quota_pools := [\<lparr>pr_pool_id = demo_old_pool, pr_unit_json = ''t'', pr_capacity = 10,
       pr_schema_version = SHARED_POOL_RESERVATION_SCHEMA_VERSION, pr_created_at = '''', pr_updated_at = ''''\<rparr>],
     reservations := map (\<lambda>(i, c). (charge_row demo_externals
         (demo_charge\<lparr>cr_pool_id := demo_old_pool,
            cr_idempotency_key := ''subagent-transcript:s|f|'' @ c\<rparr>)
         (main_executor (Some SubagentTranscript)) i 9 (int_bits 7) None None)) [(3, ''c9''), (4, ''c18'')]\<rparr>"

definition demo_prune :: "bool \<Rightarrow> PruneRequest" where
  "demo_prune dry = \<lparr>pq_keep_months = 1, pq_now = 5, pq_time_zone = ''Etc/UTC'', pq_dry_run = dry\<rparr>"

lemma demo_closed_ok: "store_ok demo_closed" "floor_ok (charge_floor demo_closed)"
  by code_simp+

theorem prune_deletes_only_closed_old_periods_witness:
  "\<exists>gone. reservations (snd (prune_closed_periods demo_calendar demo_closed (demo_prune False)))
     = filter (\<lambda>r. r_pool_id r \<notin> gone) (reservations demo_closed) \<and> demo_old_pool \<in> gone"
proof -
  have old: "reservations (snd (prune_closed_periods demo_calendar demo_closed (demo_prune False))) = []"
    "list_ex (\<lambda>r. r_pool_id r = demo_old_pool) (reservations demo_closed)"
    by code_simp+
  obtain gone where "reservations (snd (prune_closed_periods demo_calendar demo_closed (demo_prune False)))
     = filter (\<lambda>r. r_pool_id r \<notin> gone) (reservations demo_closed)"
    using prune_deletes_only_closed_old_periods [OF surjective_pairing] by blast
  moreover from this have "filter (\<lambda>r. r_pool_id r \<notin> gone) (reservations demo_closed) = []"
    using old(1) by simp
  then have "demo_old_pool \<in> gone" using old(2) by (auto simp: list_ex_iff filter_empty_conv)
  ultimately show ?thesis by blast
qed

section \<open>What a prune must not forget\<close>

text \<open>A family of cumulative charges, as the daemon keys them: a tagged prefix that ends in a bar,
  each key of the family adding a suffix without one.\<close>
definition cumulative_family :: "string \<Rightarrow> ReservationRow list \<Rightarrow> bool" where
  "cumulative_family f rows \<longleftrightarrow>
     (starts_with ''subagent-transcript:'' f \<or> starts_with ''codex-trueup:'' f)
   \<and> f \<noteq> [] \<and> last f = CHR ''|''
   \<and> list_all (\<lambda>r. r_is_charge r \<and> starts_with f (r_idempotency_key r)
        \<longrightarrow> CHR ''|'' \<notin> set (drop (length f) (r_idempotency_key r))) rows"

definition family_total :: "LedgerStore \<Rightarrow> PrincipalId \<Rightarrow> string \<Rightarrow> string \<Rightarrow> int" where
  "family_total s pr f pp =
     sum_col (\<lambda>r. coalesce 0 (r_settled_amount r)) (filter (charge_family_row pr f pp) (reservations s))
   + floor_total (charge_floor s) (pr, f)"

lemma starts_with_trans: "starts_with a b \<Longrightarrow> starts_with b c \<Longrightarrow> starts_with a c"
  by (auto simp: starts_with_iff)

lemma family_row_folds:
  assumes fam: "cumulative_family f rows" and r: "r \<in> set rows" "row_ok r"
    and pp: "starts_with pp p"
  shows "charge_family_row pr f pp r \<and> r_pool_id r = p \<longleftrightarrow> foldable_charge p r \<and> floor_key r = (pr, f)"
proof -
  obtain g where f: "f = g @ [CHR ''|'']" using fam by (metis append_butlast_last_id cumulative_family_def)
  have "family_prefix (r_idempotency_key r) = f" if ch: "r_is_charge r" "starts_with f (r_idempotency_key r)"
  proof -
    obtain t where t: "r_idempotency_key r = f @ t" using ch(2) by (auto simp: starts_with_iff)
    then have "CHR ''|'' \<notin> set t" using fam r(1) ch by (force simp: cumulative_family_def list_all_iff)
    then show ?thesis using family_prefix_last_bar [of t g] by (simp add: t f)
  qed
  moreover have "r_settled_amount r \<noteq> None" if "r_state r = ''settled''"
    using that r(2) by (simp add: row_ok_def)
  moreover have "starts_with f (r_idempotency_key r)" if "family_prefix (r_idempotency_key r) = f"
    using that family_prefix_starts [of "r_idempotency_key r"] by simp
  ultimately show ?thesis
    using fam pp starts_with_trans
    by (auto simp: charge_family_row_def foldable_charge_def floor_key_def cumulative_family_def)
qed

lemma prune_detail_conserves:
  assumes "prune_detail cur req s p = Inr (d, s')" and ok: "list_all row_ok (reservations s)"
    and floor: "floor_ok (charge_floor s)" and fam: "cumulative_family f (reservations s)"
    and pp: "starts_with pp p"
  shows "family_total s' pr f pp = family_total s pr f pp \<and> floor_ok (charge_floor s')"
  using assms(1)
proof (cases rule: prune_detail_cases)
  case (pruned floor' i)
  let ?v = "\<lambda>r. coalesce 0 (r_settled_amount r)"
  let ?fold = "filter (foldable_charge p) (reservations s)"
  note spec = fold_floor_spec [OF pruned(6) distinct_remdups floor, of "(pr, f)"]
  have "filter (\<lambda>r. floor_key r = (pr, f)) ?fold = []" if "(pr, f) \<notin> set (remdups (map floor_key ?fold))"
    using that by (force simp: filter_empty_conv)
  then have e1: "(if (pr, f) \<in> set (remdups (map floor_key ?fold))
        then sum_col ?v (filter (\<lambda>r. floor_key r = (pr, f)) ?fold) else 0)
      = sum_col ?v (filter (\<lambda>r. floor_key r = (pr, f)) ?fold)"
    by (auto simp del: filter_filter)
  have e2: "filter (\<lambda>r. floor_key r = (pr, f)) ?fold
      = filter (\<lambda>r. charge_family_row pr f pp r \<and> r_pool_id r = p) (reservations s)"
    using ok family_row_folds [OF fam _ _ pp, of _ pr] by (auto simp: list_all_iff intro!: filter_cong)
  have "floor_total floor' (pr, f) = floor_total (charge_floor s) (pr, f)
      + sum_col ?v (filter (\<lambda>r. charge_family_row pr f pp r \<and> r_pool_id r = p) (reservations s))"
    using spec [unfolded e1] by (simp only: e2)
  moreover have "sum_col ?v (filter (charge_family_row pr f pp) rows)
      = sum_col ?v (filter (charge_family_row pr f pp) (filter (\<lambda>r. r_pool_id r \<noteq> p) rows))
      + sum_col ?v (filter (\<lambda>r. charge_family_row pr f pp r \<and> r_pool_id r = p) rows)" for rows
    by (induction rows) auto
  ultimately show ?thesis using spec pruned(7) by (simp add: family_total_def)
qed (use floor in simp)

lemma prune_pools_conserves:
  assumes "prune_pools cur req s rep ids = (res, s')" and "list_all row_ok (reservations s)"
    and "floor_ok (charge_floor s)" and "cumulative_family f (reservations s)"
    and "\<forall>p \<in> set ids. starts_with pp p"
  shows "family_total s' pr f pp = family_total s pr f pp \<and> floor_ok (charge_floor s')"
  using assms
proof (induction cur req s rep ids rule: prune_pools.induct)
  case (2 cur req s rep p ids)
  show ?case
  proof (cases "prune_detail cur req s p")
    case (Inr ds)
    obtain d s1 where ds: "ds = (d, s1)" by fastforce
    then have detail: "prune_detail cur req s p = Inr (d, s1)" using Inr by simp
    have rows: "set (reservations s1) \<subseteq> set (reservations s)"
      using detail by (cases rule: prune_detail_cases) auto
    note step = prune_detail_conserves [OF detail 2(3,4,5), of pp pr]
    have "family_total s' pr f pp = family_total s1 pr f pp \<and> floor_ok (charge_floor s')"
      using 2 detail step rows by (intro "2.IH") (auto simp: cumulative_family_def list_all_iff)
    then show ?thesis using step 2(6) by simp
  qed (use 2 in simp)
qed simp

lemma settled_amount_nonneg: "row_ok r \<Longrightarrow> 0 \<le> coalesce 0 (r_settled_amount r)"
  using row_ok_bounds(2) [of r] by (cases "r_settled_amount r") auto

lemma charges_total_exact:
  assumes "list_all row_ok (reservations t)" "floor_ok (charge_floor t)" "family_total t pr f pp \<le> i64_max"
  shows "shared_charges_total_by_key_prefix t pr f pp = Inr (word_of_int (family_total t pr f pp))"
proof -
  let ?rows = "filter (charge_family_row pr f pp) (reservations t)"
  let ?fl = "filter (\<lambda>g. cf_principal_id g = pr \<and> cf_key_prefix g = f) (charge_floor t)"
  have nn: "0 \<le> sum_col (\<lambda>r. coalesce 0 (r_settled_amount r)) ?rows" "0 \<le> floor_total (charge_floor t) (pr, f)"
    using assms(1,2) settled_amount_nonneg
    by (auto simp: floor_total_def floor_ok_def list_all_iff intro!: sum_col_nonneg)
  have "list_all (\<lambda>v. 0 \<le> v) (List.map_filter r_settled_amount ?rows)"
    "list_all (\<lambda>v. 0 \<le> v) (List.map_filter (\<lambda>g. Some (cf_total g)) ?fl)"
    using assms(1,2) row_ok_bounds(2) by (force simp: floor_ok_def list_all_iff List.map_filter_def)+
  then have "sql_sum r_settled_amount ?rows = Some (sum_col (\<lambda>r. coalesce 0 (r_settled_amount r)) ?rows)"
    "sql_sum (\<lambda>g. Some (cf_total g)) ?fl = Some (floor_total (charge_floor t) (pr, f))"
    using nn assms(3)
    by (auto simp: sql_sum_def sql_sum_from_nonneg map_filter_sum family_total_def floor_total_def i64_max_def)
  then show ?thesis
    using nn assms(3)
    by (simp add: shared_charges_total_by_key_prefix_def family_total_def clamp_i64_id i64_min_def
        max0_u64_def max_def)
qed

text \<open>
  C9. A prune forgets no cumulative charge. For every family of cumulative charges (a subagent
  transcript or a Codex true-up, keyed as the daemon keys them) of every principal, the total
  already booked, retained rows plus floor, is the same before and after a prune, however many
  pools it removed and even if it failed part-way; the ledger's query, which a later charge
  subtracts, answers the same. So a replay or a grown transcript is never booked again.
\<close>
theorem prune_conserves_cumulative_charges:
  assumes prune: "prune_closed_periods cal s req = (res, s')"
    and ok: "store_ok s" "floor_ok (charge_floor s)" and fam: "cumulative_family f (reservations s)"
    and pp: "starts_with pp LOCAL_BUDGET_PREFIX" and fits: "family_total s pr f pp \<le> i64_max"
  shows "family_total s' pr f pp = family_total s pr f pp
    \<and> shared_charges_total_by_key_prefix s pr f pp = Inr (word_of_int (family_total s pr f pp))
    \<and> shared_charges_total_by_key_prefix s' pr f pp = shared_charges_total_by_key_prefix s pr f pp"
proof -
  have rows: "list_all row_ok (reservations s)" using ok by (simp add: store_ok_def)
  have conserved: "family_total s' pr f pp = family_total s pr f pp \<and> floor_ok (charge_floor s')"
  proof -
    have "\<forall>p \<in> set (shared_pool_ids_with_prefix s LOCAL_BUDGET_PREFIX). starts_with pp p"
      using pp starts_with_trans by (auto simp: shared_pool_ids_with_prefix_def)
    then show ?thesis
      using prune ok(2) prune_pools_conserves [OF _ rows ok(2) fam, of _ req _ _ res s' pp pr]
      by (auto simp: prune_closed_periods_def Let_def split: if_splits option.splits)
  qed
  moreover have "list_all row_ok (reservations s')"
    using prune by (cases rule: prune_removes) (use rows in \<open>auto simp: removes_def list_all_iff\<close>)
  ultimately show ?thesis using charges_total_exact [OF rows ok(2) fits] charges_total_exact [of s'] fits by simp
qed

theorem prune_conserves_cumulative_charges_witness:
  "shared_charges_total_by_key_prefix (snd (prune_closed_periods demo_calendar demo_closed (demo_prune False)))
     ''a'' ''subagent-transcript:s|f|'' LOCAL_BUDGET_PREFIX = Inr 18
   \<and> reservations (snd (prune_closed_periods demo_calendar demo_closed (demo_prune False))) = []"
proof -
  have "cumulative_family ''subagent-transcript:s|f|'' (reservations demo_closed)"
    "starts_with LOCAL_BUDGET_PREFIX LOCAL_BUDGET_PREFIX"
    "family_total demo_closed ''a'' ''subagent-transcript:s|f|'' LOCAL_BUDGET_PREFIX \<le> i64_max"
    "family_total demo_closed ''a'' ''subagent-transcript:s|f|'' LOCAL_BUDGET_PREFIX = 18"
    "reservations (snd (prune_closed_periods demo_calendar demo_closed (demo_prune False))) = []"
    by code_simp+
  then show ?thesis
    using prune_conserves_cumulative_charges [OF surjective_pairing demo_closed_ok,
        of "''subagent-transcript:s|f|''" LOCAL_BUDGET_PREFIX "''a''" demo_calendar "demo_prune False"]
    by simp
qed

section \<open>A dry run predicts the prune\<close>

definition predicts :: "PoolPruneDetail \<Rightarrow> PoolPruneDetail \<Rightarrow> bool" where
  "predicts dry applied \<longleftrightarrow> pd_pool_id dry = pd_pool_id applied
     \<and> pd_rows_selected dry = pd_rows_selected applied
     \<and> pd_disposition dry = (if pd_disposition applied = Pruned then WouldPrune else pd_disposition applied)"

lemma pool_counts_cong: "pool_rows s p = pool_rows t p \<Longrightarrow> pool_counts s p = pool_counts t p"
  by (simp add: pool_counts_def)

lemma prune_detail_dry:
  assumes "prune_detail cur (req\<lparr>pq_dry_run := False\<rparr>) s p = Inr (d, s')" "pool_rows t p = pool_rows s p"
  shows "\<exists>d'. prune_detail cur (req\<lparr>pq_dry_run := True\<rparr>) t p = Inr (d', t) \<and> predicts d' d"
  using assms(1) pool_counts_cong [OF assms(2)] assms(2)
  by (auto simp: prune_detail_def prune_one_pool_def skipped_detail_def predicts_def Let_def pool_counts_def
      elim!: rbindE split: option.splits if_splits prod.splits)

lemma prune_detail_other_pools:
  assumes "prune_detail cur req s p = Inr (d, s')" "q \<noteq> p"
  shows "pool_rows s' q = pool_rows s q"
  using assms by (cases rule: prune_detail_cases) (auto simp: pool_rows_def intro!: filter_cong)

lemma prune_pools_dry:
  assumes "prune_pools cur (req\<lparr>pq_dry_run := False\<rparr>) s rep ids = (Inr r, s')" "distinct ids"
    and "\<forall>p \<in> set ids. pool_rows t p = pool_rows s p" "list_all2 predicts (pt_pools rep') (pt_pools rep)"
  shows "\<exists>r'. prune_pools cur (req\<lparr>pq_dry_run := True\<rparr>) t rep' ids = (Inr r', t)
    \<and> list_all2 predicts (pt_pools r') (pt_pools r)"
  using assms
proof (induction ids arbitrary: s rep rep')
  case (Cons p ids)
  from Cons.prems(1) obtain d s1 where d: "prune_detail cur (req\<lparr>pq_dry_run := False\<rparr>) s p = Inr (d, s1)"
    and rest: "prune_pools cur (req\<lparr>pq_dry_run := False\<rparr>) s1 (add_detail d rep) ids = (Inr r, s')"
    by (auto split: sum.splits)
  obtain d' where d': "prune_detail cur (req\<lparr>pq_dry_run := True\<rparr>) t p = Inr (d', t)" "predicts d' d"
    using prune_detail_dry [OF d] Cons.prems(3) by auto
  have "\<forall>q \<in> set ids. pool_rows t q = pool_rows s1 q"
    using Cons.prems(2,3) prune_detail_other_pools [OF d] by (metis distinct.simps(2) list.set_intros(2))
  moreover have "list_all2 predicts (pt_pools (add_detail d' rep')) (pt_pools (add_detail d rep))"
    using Cons.prems(4) d'(2) by (auto simp: add_detail_def intro: list_all2_appendI)
  ultimately show ?case using Cons.IH [OF rest] Cons.prems(2) d'(1) by simp
qed simp

text \<open>
  C17. A dry run tells the truth: whenever a prune of a well-formed store succeeds, the dry run of the
  same request on the same store succeeds, writes nothing, and lists the same pools in the same
  order, with "would prune" exactly where the prune pruned and the very row counts it selected.
\<close>
theorem dry_run_predicts_prune:
  assumes ok: "store_ok s"
    and applied: "prune_closed_periods cal s (req\<lparr>pq_dry_run := False\<rparr>) = (Inr report, s')"
  shows "\<exists>dry. prune_closed_periods cal s (req\<lparr>pq_dry_run := True\<rparr>) = (Inr dry, s)
    \<and> list_all2 predicts (pt_pools dry) (pt_pools report)"
proof -
  have "distinct (shared_pool_ids_with_prefix s LOCAL_BUDGET_PREFIX)"
    using ok by (simp add: shared_pool_ids_with_prefix_def store_ok_def)
  then show ?thesis
    using applied prune_pools_dry [where t = s and rep' = "empty_report (req\<lparr>pq_dry_run := True\<rparr>)"]
    by (fastforce simp: prune_closed_periods_def Let_def empty_report_def split: if_splits option.splits)
qed

theorem dry_run_predicts_prune_witness:
  "\<exists>dry. prune_closed_periods demo_calendar demo_closed (demo_prune True) = (Inr dry, demo_closed)
     \<and> map pd_disposition (pt_pools dry) = [WouldPrune]"
proof -
  let ?run = "prune_closed_periods demo_calendar demo_closed ((demo_prune False)\<lparr>pq_dry_run := False\<rparr>)"
  have "case fst ?run of Inl _ \<Rightarrow> False | Inr r \<Rightarrow> map pd_disposition (pt_pools r) = [Pruned]"
    by code_simp
  then obtain r s' where "?run = (Inr r, s')" "map pd_disposition (pt_pools r) = [Pruned]"
    by (cases ?run) (auto split: sum.splits)
  with dry_run_predicts_prune [OF demo_closed_ok(1) this(1)]
  obtain dry where "prune_closed_periods demo_calendar demo_closed ((demo_prune False)\<lparr>pq_dry_run := True\<rparr>)
      = (Inr dry, demo_closed)" "list_all2 predicts (pt_pools dry) (pt_pools r)" by blast
  moreover have "(demo_prune False)\<lparr>pq_dry_run := True\<rparr> = demo_prune True" by (simp add: demo_prune_def)
  ultimately show ?thesis
    using \<open>map pd_disposition (pt_pools r) = [Pruned]\<close>
    by (auto simp: map_eq_Cons_conv list_all2_Cons2 predicts_def)
qed

end
