(* ===== verification/Pool_Machine.thy ===== *)
theory Pool_Machine
  imports Pool_Retention
begin

text \<open>
  The shared-pool ledger as a state machine: the state-changing methods of the previous theories are
  the operations, a step runs one of them as the serialised transaction it is (an error leaves the
  store as it was), and a run is any interleaving of them by any number of sessions. The
  invariants of the reachable stores, the life cycle of a reservation row and the accounting bound
  of a pool are proved over such runs.
\<close>

section \<open>Operations and steps\<close>

datatype ledger_op =
    Op_EnsurePool PoolId QuotaUnit u64 instant
  | Op_Reserve SharedPoolReserveRequest uuid
  | Op_ReserveMetered MeteredReserveRequest "string option" uuid
  | Op_Charge SharedPoolChargeRequest "SettleWatermark option" uuid
  | Op_Settle uuid "u64 option" bool instant ExecutorAttribution "SettleWatermark option"
  | Op_Release uuid instant
  | Op_ReleaseAndForget uuid instant
  | Op_Renew uuid PrincipalId string instant u64 "string option"
  | Op_RecordPrompt PrincipalId string string uuid
  | Op_RecordWatermark uuid SettleWatermark
  | Op_ExpireStale instant
  | Op_SettleOrphans string instant
  | Op_Ingest PoolId instant "instant option" GaugeReading Confidence instant
  | Op_Prune PruneRequest

text \<open>\<open>with_immediate_transaction\<close> (\<open>crates/ledger/src/store.rs\<close>): an error rolls back.\<close>
definition committed :: "LedgerStore \<Rightarrow> LedgerError + ('a \<times> LedgerStore) \<Rightarrow> LedgerStore" where
  "committed s r = (case r of Inl _ \<Rightarrow> s | Inr (_, s') \<Rightarrow> s')"

definition apply_op :: "externals \<Rightarrow> calendar \<Rightarrow> LedgerStore \<Rightarrow> ledger_op \<Rightarrow> LedgerStore" where
  "apply_op x cal s op = (case op of
     Op_EnsurePool p u c t \<Rightarrow> snd (ensure_pool x s p u c t)
   | Op_Reserve req rid \<Rightarrow> committed s (reserve_shared x s req rid)
   | Op_ReserveMetered req prompt rid \<Rightarrow>
       committed s (reserve_shared_metered_for_prompt x s req prompt rid)
   | Op_Charge req wm rid \<Rightarrow> committed s (charge_shared_with_watermark x s req wm rid)
   | Op_Settle rid actual uk t a wm \<Rightarrow> committed s (settle_shared_core x s rid actual uk t a wm)
   | Op_Release rid t \<Rightarrow> committed s (release_shared x s rid t)
   | Op_ReleaseAndForget rid t \<Rightarrow> committed s (release_and_forget_unstarted_shared x s rid t)
   | Op_Renew rid pr se t ttl prompt \<Rightarrow>
       committed s (renew_shared_for_prompt x s rid pr se t ttl prompt)
   | Op_RecordPrompt pr se prompt rid \<Rightarrow> record_hold_prompt x s pr se prompt rid
   | Op_RecordWatermark rid wm \<Rightarrow>
       (case record_shared_watermark x s rid wm of Inl _ \<Rightarrow> s | Inr s' \<Rightarrow> s')
   | Op_ExpireStale t \<Rightarrow> committed s (expire_stale_shared_pool_reservations x s t)
   | Op_SettleOrphans keep t \<Rightarrow> committed s (settle_orphaned_gateway_holds x s keep t)
   | Op_Ingest p observed valid reading conf t \<Rightarrow>
       (case ingest_pool_provider_snapshot x s p observed valid reading conf t of
          Inl _ \<Rightarrow> s | Inr s' \<Rightarrow> s')
   | Op_Prune req \<Rightarrow> snd (prune_closed_periods cal s req))"

inductive ledger_step :: "externals \<Rightarrow> calendar \<Rightarrow> LedgerStore \<Rightarrow> ledger_op \<Rightarrow> LedgerStore \<Rightarrow> bool"
  for x cal where
  step: "ledger_step x cal s op (apply_op x cal s op)"

inductive_simps ledger_step_iff [simp]: "ledger_step x cal s op s'"

inductive reachable :: "externals \<Rightarrow> calendar \<Rightarrow> LedgerStore \<Rightarrow> bool" for x cal where
  start: "reachable x cal empty_store"
| next_step: "reachable x cal s \<Longrightarrow> ledger_step x cal s op s' \<Longrightarrow> reachable x cal s'"

fun run_ops :: "externals \<Rightarrow> calendar \<Rightarrow> LedgerStore \<Rightarrow> ledger_op list \<Rightarrow> LedgerStore" where
  "run_ops x cal s [] = s"
| "run_ops x cal s (op # ops) = run_ops x cal (apply_op x cal s op) ops"

section \<open>What one step does to the reservation table\<close>

text \<open>The states a row may move between.\<close>
inductive life_step :: "string \<Rightarrow> string \<Rightarrow> bool" where
  stay: "life_step st st"
| settle: "life_step ''active'' ''settled''"
| release: "life_step ''active'' ''released''"
| expire: "life_step ''active'' ''expired''"
| late_settle: "life_step ''expired'' ''settled''"

inductive_cases life_step_fromE: "life_step st st'"

text \<open>How one row may change: never its identity, owner, amount or nature; its state only along the
  life cycle; of a settled row only the watermark, of a released row nothing.\<close>
definition evolves :: "ReservationRow \<Rightarrow> ReservationRow \<Rightarrow> bool" where
  "evolves r r' \<longleftrightarrow> same_hold r r' \<and> life_step (r_state r) (r_state r')
     \<and> (r_state r = ''settled'' \<longrightarrow>
         (\<exists>ts ids. r' = r\<lparr>r_watermark_ts := ts, r_watermark_message_ids := ids\<rparr>))
     \<and> (r_state r = ''released'' \<longrightarrow> r' = r)"

text \<open>A step rewrites rows in place, then may append one; or it removes closed rows of whole pools.\<close>
definition in_place :: "ReservationRow list \<Rightarrow> ReservationRow list \<Rightarrow> bool" where
  "in_place rows rows' \<longleftrightarrow>
     (\<exists>upd fresh. rows' = upd @ fresh \<and> list_all2 evolves rows upd
        \<and> (fresh = [] \<or> (\<exists>r. fresh = [r] \<and> r_state r \<in> {''active'', ''settled''})))"

definition table_step :: "ReservationRow list \<Rightarrow> ReservationRow list \<Rightarrow> bool" where
  "table_step rows rows' \<longleftrightarrow> in_place rows rows'
   \<or> (\<exists>gone. rows' = filter (\<lambda>r. r_pool_id r \<notin> gone) rows
        \<and> list_all (\<lambda>r. r_pool_id r \<in> gone \<longrightarrow> closed_row r) rows)"

lemma evolves_refl [simp]: "evolves r r"
proof -
  have "r = r\<lparr>r_watermark_ts := r_watermark_ts r, r_watermark_message_ids := r_watermark_message_ids r\<rparr>" by simp
  then show ?thesis unfolding evolves_def same_hold_def by (blast intro: life_step.stay)
qed

lemma in_place_refl [simp]: "in_place rows rows"
  unfolding in_place_def
  by (rule exI [of _ rows], rule exI [of _ "[]"]) (simp add: list_all2_same)

lemma table_step_refl [simp]: "table_step rows rows"
  by (simp add: table_step_def)

lemma in_place_update:
  assumes "\<And>r. r \<in> set rows \<Longrightarrow> p r \<Longrightarrow> evolves r (f r)"
  shows "in_place rows (update_where p f rows)"
proof -
  have "list_all2 evolves rows (update_where p f rows)"
    using assms by (induction rows) auto
  then show ?thesis
    unfolding in_place_def
    by (intro exI [of _ "update_where p f rows"] exI [of _ "[]"]) simp
qed

lemma in_place_insert:
  assumes "insert_reservation s r = Inr s'" "r_state r \<in> {''active'', ''settled''}"
  shows "in_place (reservations s) (reservations s')"
  using assms unfolding in_place_def
  by (intro exI [of _ "reservations s"] exI [of _ "[r]"])
    (auto simp: insert_reservation_eq_Inr list_all2_same)

lemma life_step_simps [simp]:
  "life_step ''active'' ''settled''" "life_step ''active'' ''released''" "life_step ''active'' ''expired''"
  "life_step ''expired'' ''settled''" "life_step st st"
  by (simp_all add: life_step.intros)

lemma evolves_open:
  assumes "same_hold r r'" "life_step (r_state r) (r_state r')" "r_state r = ''active'' \<or> r_state r = ''expired''"
  shows "evolves r r'"
  using assms by (auto simp: evolves_def)

lemma evolves_settle [intro]:
  "r_state r = ''active'' \<or> r_state r = ''expired'' \<Longrightarrow> evolves r (settle_row v u n a w i r)"
  by (rule evolves_open) auto

lemma evolves_watermark [intro]:
  "r_state r = ''settled'' \<Longrightarrow> evolves r (r\<lparr>r_watermark_ts := wt, r_watermark_message_ids := ids\<rparr>)"
  unfolding evolves_def by (intro conjI impI exI) simp_all

lemma evolves_active [intro]:
  assumes "r_state r = ''active''"
  shows "evolves r (r\<lparr>r_state := ''released'', r_released_at := t\<rparr>)" "evolves r (r\<lparr>r_expires_at := e\<rparr>)"
    "evolves r (resolve_row n g r)"
proof -
  have "same_hold r (resolve_row n g r)"
    by (simp add: same_hold_def resolve_row_def book_row_def expired_row_def row_key_def)
  then show "evolves r (resolve_row n g r)" using assms by (intro evolves_open) (simp_all add: resolve_row_state)
qed (use assms in \<open>auto intro: evolves_open\<close>)

section \<open>The invariant of the store\<close>

definition sound :: "externals \<Rightarrow> LedgerStore \<Rightarrow> bool" where
  "sound x s \<longleftrightarrow> store_ok s \<and> floor_ok (charge_floor s) \<and> list_all (row_intact x) (reservations s)"

lemma soundD:
  assumes "sound x s"
  shows "store_ok s" "floor_ok (charge_floor s)" "list_all (row_intact x) (reservations s)"
    "list_all row_ok (reservations s)"
  using assms by (auto simp: sound_def store_ok_def)

text \<open>Ids are unique: a row is the only one with its id.\<close>
lemma same_row_id:
  assumes "store_ok s" "r \<in> set (reservations s)" "r' \<in> set (reservations s)" "r_id r = r_id r'"
  shows "r = r'"
  using assms by (auto simp: store_ok_def distinct_map dest: inj_onD)

lemma sound_cong:
  assumes "reservations s' = reservations s" "quota_pools s' = quota_pools s"
    "snapshots s' = snapshots s" "charge_floor s' = charge_floor s"
  shows "sound x s' = sound x s"
  using assms store_ok_cong [of s' s] by (simp add: sound_def)

text \<open>Rows as the ledger writes them are intact.\<close>
lemma hold_row_intact:
  assumes "externals_ok x" "rfc3339 x (rq_now req) = Inr n" "rfc3339 x e = Inr e_str"
  shows "row_intact x (hold_row x req a rid (uint (rq_amount req)) n e_str)"
  using hold_row_reads_back [OF assms, of a rid]
  by (simp add: row_intact_def) (simp add: granted_reservation_def hold_row_def)

lemma charge_row_intact:
  assumes "externals_ok x" "rfc3339 x (cr_now req) = Inr n"
  shows "row_intact x (charge_row x req a rid (uint (cr_amount req)) n wt ids)"
  using charge_row_reads_back [OF assms, of a rid wt ids]
  by (simp add: row_intact_def) (simp add: charged_reservation_def charge_row_def)

lemma settle_row_intact:
  assumes "row_intact x r" "parse_time x n = Inr t" "0 \<le> v"
  shows "row_intact x (settle_row v u n (settled_attribution res a) wt ids r)"
  using assms
  by (auto simp: row_intact_iff settle_row_def settled_attribution_def Let_def
      executor_kind.parse_iff charge_source.parse_iff split: prod.splits)

lemma update_intact:
  assumes "list_all (row_intact x) rows" "\<And>r. p r \<Longrightarrow> row_intact x r \<Longrightarrow> row_intact x (f r)"
  shows "list_all (row_intact x) (update_where p f rows)"
  using assms by (intro list_all_update_where) auto

section \<open>The effect of each operation\<close>

lemma ensure_pool_cases:
  assumes "ensure_pool x s p u c t = (res, s')"
  obtains "s' = s" | row where "s' = s\<lparr>quota_pools := quota_pools s @ [row]\<rparr>"
    "pr_pool_id row = p" "pr_pool_id row \<notin> set (map pr_pool_id (quota_pools s))"
    "pr_capacity row = uint c" "uint c \<le> i64_max"
  using assms
  by (auto simp: ensure_pool_def Let_def checked_i64_eq_Inr split: sum.splits if_splits option.splits
      elim!: rbindE)

lemma reserve_shared_effect:
  assumes "reserve_shared x s req rid = Inr (out, s')"
  obtains core where "reserve_shared_core x s req None rid = Inr (core, s')"
  using assms
  by (auto simp: reserve_shared_def elim!: rbindE split: CoreReserveOutcome.splits prod.splits)

lemma reserve_metered_effect:
  assumes "reserve_shared_metered_for_prompt x s req prompt rid = Inr (out, s')"
  obtains core s1 where "reserve_shared_core x s (mr_base req)
      (Some \<lparr>mg_session_cap = mr_session_cap req, mg_capacity_source = mr_capacity_source req\<rparr>) rid
      = Inr (core, s1)"
    "reservations s' = reservations s1" "quota_pools s' = quota_pools s1"
    "snapshots s' = snapshots s1" "charge_floor s' = charge_floor s1"
proof -
  obtain out1 s1 where m: "reserve_shared_metered x s req rid = Inr (out1, s1)"
    and same: "reservations s' = reservations s1" "quota_pools s' = quota_pools s1"
      "snapshots s' = snapshots s1" "charge_floor s' = charge_floor s1"
    using assms
    by (auto simp: reserve_shared_metered_for_prompt_def Let_def elim!: rbindE split: option.splits)
  then show ?thesis using that by (auto simp: reserve_shared_metered_def elim!: rbindE)
qed

lemma reserve_core_sound:
  assumes "externals_ok x" "sound x s" "reserve_shared_core x s req metered rid = Inr (out, s')"
  shows "sound x s' \<and> in_place (reservations s) (reservations s')"
  using assms(3)
proof (cases rule: reserve_core_cases)
  case (1 r)
  with assms(3) obtain a e n e_str where
    n: "rfc3339 x (rq_now req) = Inr n" "rfc3339 x e = Inr e_str"
    and ins: "insert_reservation s (hold_row x req a rid (uint (rq_amount req)) n e_str) = Inr s'"
    by (auto elim: reserve_core_granted)
  have "list_all (row_intact x) (reservations s')"
    using ins soundD(3) [OF assms(2)] hold_row_intact [OF assms(1) n]
    by (auto simp: insert_reservation_eq_Inr)
  moreover have "charge_floor s' = charge_floor s" using ins by (auto simp: insert_reservation_eq_Inr)
  ultimately have "sound x s'"
    using reserve_core_store_ok [OF soundD(1) [OF assms(2)] assms(3)] soundD(2) [OF assms(2)]
    by (simp add: sound_def)
  moreover have "in_place (reservations s) (reservations s')"
    by (rule in_place_insert [OF ins]) (simp add: hold_row_def)
  ultimately show ?thesis ..
qed (use assms in simp)

text \<open>The row a charge adopts its watermark on is settled.\<close>
lemma adopted_in_place:
  assumes "sound x s" "row \<in> set (reservations s)" "row_to_reservation x row = Inr e" "spr_state e = Settled"
  shows "in_place (reservations s) (reservations (adopt_watermark x s (spr_id e) wt ids))"
proof -
  have "r_state r = ''settled''" if "r \<in> set (reservations s)" "r_id r = uuid_to_string x (spr_id e)" for r
  proof -
    have "r_id row = uuid_to_string x (spr_id e)"
      using soundD(3) [OF assms(1)] assms(2,3) by (auto simp: list_all_iff row_intact_def)
    then have "r = row" using same_row_id [OF soundD(1) [OF assms(1)] that(1) assms(2)] that(2) by simp
    with row_to_reservation_state(2) [OF assms(3)] assms(4) show ?thesis by simp
  qed
  then show ?thesis unfolding adopt_watermark_def by (auto intro!: in_place_update)
qed

lemma charge_sound:
  assumes "externals_ok x" "sound x s" "charge_shared_with_watermark x s req wm rid = Inr (out, s')"
  shows "sound x s' \<and> in_place (reservations s) (reservations s')"
  using assms(3)
proof (cases rule: charge_cases)
  case (adopted existing wt ids)
  have "list_all (row_intact x) (reservations s')"
    unfolding adopted(1) adopt_watermark_def
    using soundD(3) [OF assms(2)] by (auto simp: row_intact_iff intro!: update_intact)
  moreover have "in_place (reservations s) (reservations s')"
    unfolding adopted(1) using adopted(3,4) adopted_in_place [OF assms(2)] by blast
  ultimately show ?thesis
    using charge_store_ok [OF soundD(1) [OF assms(2)] assms(3)] soundD(2) [OF assms(2)]
    by (simp add: sound_def adopted(1) adopt_watermark_def)
next
  case (charged a pool now_str wt ids u settled active overhang effective)
  have n: "rfc3339 x (cr_now req) = Inr now_str" using charged(10) .
  have "list_all (row_intact x) (reservations s')"
    using charged(5) soundD(3) [OF assms(2)] charge_row_intact [OF assms(1) n]
    by (auto simp: insert_reservation_eq_Inr)
  moreover have "charge_floor s' = charge_floor s" using charged(5) by (auto simp: insert_reservation_eq_Inr)
  moreover have "in_place (reservations s) (reservations s')"
    by (rule in_place_insert [OF charged(5)]) (simp add: charge_row_def)
  ultimately show ?thesis
    using charge_store_ok [OF soundD(1) [OF assms(2)] assms(3)] soundD(2) [OF assms(2)]
    by (simp add: sound_def)
qed (use assms in simp)

lemma settle_sound:
  assumes "externals_ok x" "sound x s" "settle_shared_core x s rid actual uk t a wm = Inr (out, s')"
  shows "sound x s' \<and> in_place (reservations s) (reservations s')"
  using assms(3)
proof (cases rule: settle_core_cases)
  case (settled row res updated now_str supplied wt ids v)
  have "list_all (row_intact x) (reservations s')"
    unfolding settled(7) using soundD(3) [OF assms(2)]
    by (auto intro!: update_intact settle_row_intact [OF _ rfc3339_parse [OF assms(1) settled(6)]])
  moreover have "in_place (reservations s) (reservations s')"
    unfolding settled(7) using settled(3) by (auto intro!: in_place_update)
  ultimately show ?thesis
    using settle_core_store_ok [OF soundD(1) [OF assms(2)] assms(3)] soundD(2) [OF assms(2)]
    by (simp add: sound_def settled(7))
qed (use assms in simp)

lemma releases_sound:
  assumes "externals_ok x" "sound x s" "releases x s rid row s'"
    and "release_shared x s rid t = Inr (Release_Released u, s')
      \<or> release_and_forget_unstarted_shared x s rid t = Inr (Release_Released u, s')"
  shows "sound x s' \<and> in_place (reservations s) (reservations s')"
proof -
  from assms(4) obtain n where n: "rfc3339 x t = Inr n"
    "reservations s' = release_rows x rid n (reservations s)" "charge_floor s' = charge_floor s"
    by (auto simp: release_shared_def release_and_forget_unstarted_shared_def Let_def elim!: rbindE
        split: option.splits if_splits)
  have "list_all (row_intact x) (reservations s')"
    using n(2) soundD(3) [OF assms(2)] rfc3339_parse [OF assms(1) n(1)]
    by (auto simp: release_rows_def row_intact_iff intro!: update_intact)
  moreover have "in_place (reservations s) (reservations s')"
    unfolding n(2) release_rows_def by (auto intro!: in_place_update)
  ultimately show ?thesis
    using releases_store_ok [OF soundD(1) [OF assms(2)] assms(3)] soundD(2) [OF assms(2)] n(3)
    by (simp add: sound_def)
qed

lemma release_sound:
  assumes "externals_ok x" "sound x s"
    and "release_shared x s rid t = Inr (out, s') \<or> release_and_forget_unstarted_shared x s rid t = Inr (out, s')"
  shows "sound x s' \<and> in_place (reservations s) (reservations s')"
  using assms(3)
proof (cases rule: release_cases)
  case (released row u)
  then show ?thesis using releases_sound [OF assms(1,2)] assms(3) by blast
qed (use assms in simp)

lemma renew_sound:
  assumes "externals_ok x" "sound x s" "renew_shared_for_prompt x s rid pr se t ttl prompt = Inr (out, s')"
  shows "sound x s' \<and> in_place (reservations s) (reservations s')"
  using assms(3)
proof (cases rule: renew_cases)
  case (renewed row res u e e_str)
  have "list_all (row_intact x) (reservations s')"
    using soundD(3) [OF assms(2)] rfc3339_parse [OF assms(1) renewed(8)]
    by (auto simp: renewed(9) renew_rows_def row_intact_iff intro!: update_intact)
  moreover have "in_place (reservations s) (reservations s')"
    unfolding renewed(9) renew_rows_def by (auto intro!: in_place_update)
  ultimately show ?thesis
    using renew_store_ok [OF soundD(1) [OF assms(2)] assms(3)] soundD(2) [OF assms(2)] renewed(12)
    by (simp add: sound_def)
qed (use assms in simp)

lemma record_watermark_sound:
  assumes "sound x s" "record_shared_watermark x s rid wm = Inr s'"
  shows "sound x s' \<and> in_place (reservations s) (reservations s')"
proof -
  obtain at ids where s': "s' = s\<lparr>reservations := update_where
      (\<lambda>r. r_id r = uuid_to_string x rid \<and> r_state r = ''settled'')
      (\<lambda>r. r\<lparr>r_watermark_ts := at, r_watermark_message_ids := ids\<rparr>) (reservations s)\<rparr>"
    using assms(2) by (auto simp: record_shared_watermark_def elim!: rbindE)
  have "store_ok s'"
    unfolding s' using soundD(1) [OF assms(1)]
    by (rule update_rows_store_ok) (auto simp: row_ok_def reservation_checks_def)
  moreover have "list_all (row_intact x) (reservations s')"
    using soundD(3) [OF assms(1)] by (auto simp: s' row_intact_iff intro!: update_intact)
  moreover have "in_place (reservations s) (reservations s')"
    unfolding s' by (auto intro!: in_place_update)
  ultimately show ?thesis using soundD(2) [OF assms(1)] by (simp add: sound_def s')
qed

lemma in_place_swept:
  assumes "\<And>r. P r \<Longrightarrow> r_state r = ''active''"
  shows "in_place rows (swept P g n rows)"
  using in_place_update [of rows P "\<lambda>r. resolve_row n (g r) r"] assms
  by (auto simp: swept_def update_where_def)

lemma expiry_sound:
  assumes "externals_ok x" "sound x s" "expire_stale_shared_pool_reservations x s t = Inr (out, s')"
  shows "sound x s' \<and> in_place (reservations s) (reservations s')"
proof (rule expiry_rows [OF soundD(1) [OF assms(2)] assms(3)])
  fix n assume n: "rfc3339 x t = Inr n"
    and s': "s' = s\<lparr>reservations := swept (stale x t) gateway_hold n (reservations s)\<rparr>"
  have "list_all (row_intact x) (reservations s')"
    using expiry.swept_intact [OF soundD(3) [OF assms(2)] rfc3339_parse [OF assms(1) n]] by (simp add: s')
  moreover have "in_place (reservations s) (reservations s')"
    unfolding s' by (auto simp: stale_def intro!: in_place_swept)
  ultimately show ?thesis
    using expiry_store_ok [OF soundD(1) [OF assms(2)] assms(3)] soundD(2) [OF assms(2)]
    by (simp add: sound_def s')
qed

lemma orphan_sound:
  assumes "externals_ok x" "sound x s" "settle_orphaned_gateway_holds x s keep t = Inr (out, s')"
  shows "sound x s' \<and> in_place (reservations s) (reservations s')"
  using soundD(1) [OF assms(2)] assms(3)
proof (cases rule: orphan_cases)
  case (swept n)
  have "list_all (row_intact x) (reservations s')"
    using orphan.swept_intact [OF soundD(3) [OF assms(2)] rfc3339_parse [OF assms(1) swept(2)]]
    by (simp add: swept(3))
  moreover have "in_place (reservations s) (reservations s')"
    unfolding swept(3) by (auto simp: orphaned_def intro!: in_place_swept)
  ultimately show ?thesis
    using orphan_store_ok [OF soundD(1) [OF assms(2)] assms(3)] soundD(2) [OF assms(2)]
    by (simp add: sound_def swept(3))
qed (use assms in simp)

lemma prune_pools_floor_ok:
  "floor_ok (charge_floor s) \<Longrightarrow> prune_pools cur req s rep ids = (res, s') \<Longrightarrow> floor_ok (charge_floor s')"
proof (induction cur req s rep ids rule: prune_pools.induct)
  case (2 cur req s rep p ids)
  show ?case
  proof (cases "prune_detail cur req s p")
    case (Inr ds)
    obtain d s1 where ds: "ds = (d, s1)" by fastforce
    have "prune_detail cur req s p = Inr (d, s1)" using Inr ds by simp
    then have "floor_ok (charge_floor s1)"
    proof (cases rule: prune_detail_cases)
      case (pruned floor i)
      then show ?thesis using fold_floor_spec [OF pruned(6) distinct_remdups 2(2)] by simp
    qed (use 2 in simp)
    then show ?thesis using 2 Inr ds by simp
  qed (use 2 in simp)
qed simp

lemma prune_sound:
  assumes "sound x s" "prune_closed_periods cal s req = (res, s')"
  shows "sound x s' \<and> table_step (reservations s) (reservations s')"
proof -
  have "floor_ok (charge_floor s')"
    using assms(2) soundD(2) [OF assms(1)] prune_pools_floor_ok
    by (auto simp: prune_closed_periods_def Let_def split: if_splits option.splits)
  with assms(2) show ?thesis
  proof (cases rule: prune_removes)
    case (2 cur gone)
    have "table_step (reservations s) (reservations s')"
      using 2(3) unfolding table_step_def by (intro disjI2 exI [of _ gone]) (simp add: removes_def)
    moreover have "list_all (row_intact x) (reservations s')"
      using 2(3) soundD(3) [OF assms(1)] by (auto simp: removes_def list_all_iff)
    ultimately show ?thesis
      using removes_store_ok [OF soundD(1) [OF assms(1)] 2(3)] \<open>floor_ok (charge_floor s')\<close>
      by (simp add: sound_def)
  qed (use assms in simp)
qed

section \<open>Every step keeps the invariant\<close>

lemma ensure_pool_sound:
  assumes "sound x s" "ensure_pool x s p u c t = (res, s')"
  shows "sound x s' \<and> reservations s' = reservations s"
  using assms(2)
proof (cases rule: ensure_pool_cases)
  case (2 row)
  then show ?thesis using assms(1) by (auto simp: sound_def store_ok_def list_all_iff)
qed (use assms in simp)

lemma ingest_sound:
  assumes "sound x s" "ingest_pool_provider_snapshot x s p observed valid reading conf t = Inr s'"
  shows "sound x s' \<and> reservations s' = reservations s"
proof -
  have "reservations s' = reservations s \<and> charge_floor s' = charge_floor s"
    using assms(2) by (cases rule: ingest_cases) simp_all
  then show ?thesis
    using ingest_store_ok [OF soundD(1) [OF assms(1)] assms(2)] soundD(2,3) [OF assms(1)]
    by (simp add: sound_def)
qed

lemma committed_step:
  assumes "sound x s" "\<And>out s'. r = Inr (out, s') \<Longrightarrow> sound x s' \<and> in_place (reservations s) (reservations s')"
  shows "sound x (committed s r) \<and> in_place (reservations s) (reservations (committed s r))"
  using assms by (auto simp: committed_def split: sum.splits prod.splits)

lemma apply_op_in_place:
  assumes x: "externals_ok x" and s: "sound x s" and op: "\<And>req. op \<noteq> Op_Prune req"
  shows "sound x (apply_op x cal s op) \<and> in_place (reservations s) (reservations (apply_op x cal s op))"
proof (cases op)
  case (Op_EnsurePool p u c t)
  then show ?thesis using ensure_pool_sound [OF s surjective_pairing] by (simp add: apply_op_def)
next
  case (Op_Reserve req rid)
  then show ?thesis
    using reserve_core_sound [OF x s]
    by (auto simp: apply_op_def intro!: committed_step [OF s] elim!: reserve_shared_effect)
next
  case (Op_ReserveMetered req prompt rid)
  have "sound x s' \<and> in_place (reservations s) (reservations s')"
    if "reserve_shared_metered_for_prompt x s req prompt rid = Inr (out, s')" for out s'
    using that
  proof (rule reserve_metered_effect)
    fix core s1
    assume core: "reserve_shared_core x s (mr_base req)
        (Some \<lparr>mg_session_cap = mr_session_cap req, mg_capacity_source = mr_capacity_source req\<rparr>) rid
        = Inr (core, s1)"
      and same: "reservations s' = reservations s1" "quota_pools s' = quota_pools s1"
        "snapshots s' = snapshots s1" "charge_floor s' = charge_floor s1"
    show ?thesis using reserve_core_sound [OF x s core] sound_cong [OF same] same(1) by simp
  qed
  then show ?thesis unfolding apply_op_def Op_ReserveMetered by (simp add: committed_step [OF s])
next
  case (Op_RecordPrompt pr se prompt rid)
  then show ?thesis
    using s sound_cong [of "record_hold_prompt x s pr se prompt rid" s]
    by (simp add: apply_op_def record_hold_prompt_def)
next
  case (Op_RecordWatermark rid wm)
  then show ?thesis using s record_watermark_sound [OF s] by (auto simp: apply_op_def split: sum.splits)
next
  case (Op_Ingest p observed valid reading conf t)
  then show ?thesis using s ingest_sound [OF s] by (auto simp: apply_op_def split: sum.splits)
next
  case (Op_Prune req)
  with op show ?thesis by blast
qed (auto simp: apply_op_def intro!: committed_step [OF s]
    dest: charge_sound [OF x s] settle_sound [OF x s] renew_sound [OF x s] expiry_sound [OF x s]
      orphan_sound [OF x s] release_sound [OF x s disjI1] release_sound [OF x s disjI2])

lemma apply_op_sound:
  assumes x: "externals_ok x" and s: "sound x s"
  shows "sound x (apply_op x cal s op) \<and> table_step (reservations s) (reservations (apply_op x cal s op))"
proof (cases "\<exists>req. op = Op_Prune req")
  case True
  then show ?thesis using prune_sound [OF s surjective_pairing] by (auto simp: apply_op_def)
next
  case False
  then show ?thesis using apply_op_in_place [OF x s, of op cal] by (simp add: table_step_def)
qed

lemma empty_store_sound: "sound x empty_store"
  by (simp add: sound_def store_ok_def floor_ok_def empty_store_def)

text \<open>
  C10. The ledger never corrupts itself: every store reachable from the empty one by any interleaving
  of the ledger's methods, whatever their arguments, satisfies the schema's keys and checks, has no
  row of a pool that does not exist, has every amount in range and a settled amount exactly on
  settled rows, and reads back row by row, so no query fails on what the ledger itself wrote.
\<close>
theorem reachable_stores_sound:
  assumes "externals_ok x" "reachable x cal s"
  shows "store_ok s \<and> floor_ok (charge_floor s) \<and> list_all (row_intact x) (reservations s)"
proof -
  have "sound x s"
    using assms(2)
  proof induction
    case (next_step s op s')
    then show ?case using apply_op_sound [OF assms(1)] by simp
  qed (rule empty_store_sound)
  then show ?thesis by (simp add: sound_def)
qed

definition demo_ops :: "ledger_op list" where
  "demo_ops = [Op_EnsurePool ''p'' Tokens 10 0, Op_Reserve (demo_request ''k'' 7) 1,
     Op_Charge (demo_charge\<lparr>cr_amount := 2\<rparr>) None 2, Op_Settle 1 (Some 9) True 9 attribution_default None]"

lemma reachable_run: "reachable x cal s \<Longrightarrow> reachable x cal (run_ops x cal s ops)"
  by (induction ops arbitrary: s) (auto intro: reachable.next_step [OF _ ledger_step.step])

theorem reachable_stores_sound_witness:
  "length (reservations (run_ops demo_externals demo_calendar empty_store demo_ops)) = 2
   \<and> list_all (row_intact demo_externals)
       (reservations (run_ops demo_externals demo_calendar empty_store demo_ops))"
proof -
  have "length (reservations (run_ops demo_externals demo_calendar empty_store demo_ops)) = 2"
    by code_simp
  with reachable_stores_sound [OF demo_externals_ok reachable_run [OF reachable.start]] show ?thesis
    by blast
qed

section \<open>The life of a reservation\<close>

lemma evolves_path:
  assumes "evolves\<^sup>*\<^sup>* r r'"
  shows "same_hold r r' \<and> (r_state r = ''settled'' \<longrightarrow> r_state r' = ''settled''
      \<and> (\<exists>ts ids. r' = r\<lparr>r_watermark_ts := ts, r_watermark_message_ids := ids\<rparr>))
    \<and> (r_state r = ''released'' \<longrightarrow> r' = r)"
  using assms
proof induction
  case base
  have "r = r\<lparr>r_watermark_ts := r_watermark_ts r, r_watermark_message_ids := r_watermark_message_ids r\<rparr>" by simp
  then show ?case unfolding same_hold_def by blast
next
  case (step y z)
  have "same_hold r z" using step by (simp add: evolves_def same_hold_def)
  moreover have "\<exists>ts ids. z = r\<lparr>r_watermark_ts := ts, r_watermark_message_ids := ids\<rparr>"
    if st: "r_state r = ''settled''"
  proof -
    obtain ts ids where y: "y = r\<lparr>r_watermark_ts := ts, r_watermark_message_ids := ids\<rparr>" using step.IH st by blast
    then have "r_state y = ''settled''" using st by simp
    then obtain ts' ids' where "z = y\<lparr>r_watermark_ts := ts', r_watermark_message_ids := ids'\<rparr>"
      using step(2) unfolding evolves_def by blast
    with y show ?thesis by auto
  qed
  moreover have "z = r" if "r_state r = ''released''" using step that by (simp add: evolves_def)
  ultimately show ?case by auto
qed

lemma in_place_row: "in_place rows rows' \<Longrightarrow> r \<in> set rows \<Longrightarrow> \<exists>r' \<in> set rows'. evolves r r'"
  by (auto simp: in_place_def list_all2_conv_all_nth in_set_conv_nth) (metis Un_iff nth_mem set_append)+

text \<open>The rows of a table that carry an id.\<close>
definition rows_with_id :: "string \<Rightarrow> LedgerStore \<Rightarrow> ReservationRow list" where
  "rows_with_id i s = filter (\<lambda>r. r_id r = i) (reservations s)"

lemma rows_with_id_sole:
  assumes "store_ok s" "r \<in> set (reservations s)"
  shows "rows_with_id (r_id r) s = [r]"
proof -
  have "distinct (map r_id rows) \<Longrightarrow> r \<in> set rows \<Longrightarrow> filter (\<lambda>q. r_id q = r_id r) rows = [r]" for rows
    by (induction rows) (auto simp: filter_empty_conv intro: rev_image_eqI)
  with assms show ?thesis by (simp add: rows_with_id_def store_ok_def)
qed

text \<open>A prune of the run took the row away, and found it closed when it did.\<close>
definition pruned_away :: "externals \<Rightarrow> calendar \<Rightarrow> LedgerStore \<Rightarrow> ledger_op list \<Rightarrow> ReservationRow \<Rightarrow> bool" where
  "pruned_away x cal s ops r \<longleftrightarrow> closed_row r \<and> (\<exists>before req after. ops = before @ Op_Prune req # after
     \<and> rows_with_id (r_id r) (run_ops x cal s before) = [r]
     \<and> rows_with_id (r_id r) (run_ops x cal s (before @ [Op_Prune req])) = [])"

lemma pruned_away_Cons:
  assumes "pruned_away x cal (apply_op x cal s op) ops r"
  shows "pruned_away x cal s (op # ops) r"
proof -
  from assms obtain before req after where "ops = before @ Op_Prune req # after" "closed_row r"
    "rows_with_id (r_id r) (run_ops x cal (apply_op x cal s op) before) = [r]"
    "rows_with_id (r_id r) (run_ops x cal (apply_op x cal s op) (before @ [Op_Prune req])) = []"
    by (auto simp: pruned_away_def)
  then show ?thesis unfolding pruned_away_def by (intro conjI exI [of _ "op # before"] exI) auto
qed

text \<open>One step: the row is still there, changed as it may be, or a prune took it.\<close>
lemma apply_op_row:
  assumes x: "externals_ok x" and s: "sound x s" and r: "r \<in> set (reservations s)"
  shows "(\<exists>r' \<in> set (reservations (apply_op x cal s op)). evolves r r')
    \<or> ((\<exists>req. op = Op_Prune req) \<and> closed_row r \<and> rows_with_id (r_id r) (apply_op x cal s op) = [])"
proof (cases "\<exists>req. op = Op_Prune req")
  case False
  then have "in_place (reservations s) (reservations (apply_op x cal s op))"
    using apply_op_in_place [OF x s, of op cal] by blast
  from in_place_row [OF this r] show ?thesis ..
next
  case True
  then obtain req where op: "op = Op_Prune req" ..
  have "prune_closed_periods cal s req = (fst (prune_closed_periods cal s req), apply_op x cal s op)"
    by (simp add: op apply_op_def)
  then show ?thesis
  proof (cases rule: prune_removes)
    case 1
    with r show ?thesis by (auto intro: bexI [of _ r])
  next
    case (2 cur gone)
    then have rows: "reservations (apply_op x cal s op) = filter (\<lambda>r. r_pool_id r \<notin> gone) (reservations s)"
      and closed: "r_pool_id r \<in> gone \<Longrightarrow> closed_row r"
      using r by (auto simp: removes_def list_all_iff)
    show ?thesis
    proof (cases "r_pool_id r \<in> gone")
      case True
      then have "rows_with_id (r_id r) (apply_op x cal s op) = []"
        using same_row_id [OF soundD(1) [OF s] _ r] by (auto simp: rows_with_id_def rows filter_empty_conv)
      with op closed [OF True] show ?thesis by blast
    qed (use r rows in \<open>auto intro: bexI [of _ r]\<close>)
  qed
qed

text \<open>The row itself, followed by its id through a run.\<close>
lemma row_followed:
  assumes "externals_ok x" "sound x s" "r \<in> set (reservations s)"
  shows "\<exists>r'. evolves\<^sup>*\<^sup>* r r'
    \<and> (rows_with_id (r_id r) (run_ops x cal s ops) = [r'] \<or> pruned_away x cal s ops r')"
  using assms(2,3)
proof (induction ops arbitrary: s r)
  case Nil
  then show ?case using rows_with_id_sole [OF soundD(1)] by (intro exI [of _ r]) simp
next
  case (Cons op ops)
  note step = apply_op_sound [OF assms(1) Cons.prems(1), of cal op]
  from apply_op_row [OF assms(1) Cons.prems, of cal op] show ?case
  proof
    assume "\<exists>r1 \<in> set (reservations (apply_op x cal s op)). evolves r r1"
    then obtain r1 where r1: "r1 \<in> set (reservations (apply_op x cal s op))" "evolves r r1" by blast
    then have id: "r_id r1 = r_id r" by (simp add: evolves_def same_hold_def)
    from Cons.IH [OF conjunct1 [OF step] r1(1)] show ?thesis
      using r1(2) converse_rtranclp_into_rtranclp [of evolves r r1] pruned_away_Cons
      by (simp add: id) blast
  next
    assume "(\<exists>req. op = Op_Prune req) \<and> closed_row r \<and> rows_with_id (r_id r) (apply_op x cal s op) = []"
    then have "pruned_away x cal s (op # ops) r"
      using rows_with_id_sole [OF soundD(1) [OF Cons.prems(1)] Cons.prems(2)]
      unfolding pruned_away_def by (intro conjI exI [of _ "[]"]) auto
    then show ?thesis by (intro exI [of _ r]) simp
  qed
qed

text \<open>
  C11. The life of a reservation. Follow a row by its id along any run of the ledger from a sound
  store. Either exactly one row carries that id in the final table, and it is the row, changed only
  as a reservation may change: it moved only from active to settled, released or expired, and from
  expired to settled (a late settlement); it has the same pool, owner, session, key, reserved amount
  and nature; if it was settled only its watermark can have changed, and if it was released nothing
  has. Or a prune of the run took that row away, at a moment when it was closed. So a run without
  a prune loses no row, and no active hold is ever lost.
\<close>
theorem reservation_life_cycle:
  assumes x: "externals_ok x" and s: "sound x s" and r: "r \<in> set (reservations s)"
  shows "\<exists>r'. evolves\<^sup>*\<^sup>* r r'
    \<and> (rows_with_id (r_id r) (run_ops x cal s ops) = [r'] \<or> pruned_away x cal s ops r')
    \<and> r_id r' = r_id r \<and> row_key r' = row_key r \<and> r_session_id r' = r_session_id r
    \<and> r_amount r' = r_amount r \<and> r_is_charge r' = r_is_charge r
    \<and> (r_state r = ''settled'' \<longrightarrow>
        (\<exists>ts ids. r' = r\<lparr>r_watermark_ts := ts, r_watermark_message_ids := ids\<rparr>))
    \<and> (r_state r = ''released'' \<longrightarrow> r' = r)"
proof -
  from row_followed [OF assms, of cal ops] obtain r' where "evolves\<^sup>*\<^sup>* r r'"
    "rows_with_id (r_id r) (run_ops x cal s ops) = [r'] \<or> pruned_away x cal s ops r'" by blast
  with evolves_path [of r r'] show ?thesis by (intro exI [of _ r']) (auto simp: same_hold_def)
qed

theorem reservation_life_cycle_witness:
  "\<exists>r'. rows_with_id (uuid_to_string demo_externals 1) (run_ops demo_externals demo_calendar demo_held
       [Op_ExpireStale 60000000005, Op_Settle 1 None False 60000000009 attribution_default None]) = [r']
     \<and> evolves\<^sup>*\<^sup>* (hd (reservations demo_held)) r' \<and> r_amount r' = 7 \<and> r_state r' = ''settled''"
proof -
  let ?ops = "[Op_ExpireStale 60000000005, Op_Settle 1 None False 60000000009 attribution_default None]"
  let ?r = "hd (reservations demo_held)"
  have held: "sound demo_externals demo_held" "?r \<in> set (reservations demo_held)" "r_amount ?r = 7"
    "r_id ?r = uuid_to_string demo_externals 1"
    "map r_state (rows_with_id (uuid_to_string demo_externals 1)
       (run_ops demo_externals demo_calendar demo_held ?ops)) = [''settled'']"
    by code_simp+
  have "\<not> pruned_away demo_externals demo_calendar demo_held ?ops r'" for r'
    by (auto simp: pruned_away_def Cons_eq_append_conv)
  with reservation_life_cycle [OF demo_externals_ok held(1,2), of demo_calendar ?ops, unfolded held(4)]
  obtain r' where r': "rows_with_id (uuid_to_string demo_externals 1) (run_ops demo_externals demo_calendar demo_held ?ops) = [r']"
    "evolves\<^sup>*\<^sup>* ?r r'" "r_amount r' = r_amount ?r" by blast
  moreover have "r_state r' = ''settled''" using held(5) unfolding r'(1) by simp
  ultimately show ?thesis using held(3) by (intro exI [of _ r']) (simp del: run_ops.simps)
qed

section \<open>A released hold\<close>

lemma rows_with_id_find:
  assumes "rows_with_id i s = [r]"
  shows "find (\<lambda>r. r_id r = i) (reservations s) = Some r"
proof -
  have "filter P xs = [r] \<Longrightarrow> find P xs = Some r" for P xs by (induction xs) (auto split: if_splits)
  then show ?thesis using assms by (simp add: rows_with_id_def)
qed

text \<open>Every entry point that names the reservation reports it as it is and changes nothing.\<close>
definition answers_final :: "externals \<Rightarrow> LedgerStore \<Rightarrow> uuid \<Rightarrow> SharedPoolReservation \<Rightarrow> bool" where
  "answers_final x s rid u \<longleftrightarrow>
     (\<forall>actual uk t a wm out s'. settle_shared_core x s rid actual uk t a wm = Inr (out, s')
        \<longrightarrow> out = Settle_AlreadyFinal u \<and> s' = s)
   \<and> (\<forall>t. release_shared x s rid t = Inr (Release_AlreadyFinal u, s)
        \<and> release_and_forget_unstarted_shared x s rid t = Inr (Release_AlreadyFinal u, s))
   \<and> (\<forall>pr se t ttl pm. renew_shared_for_prompt x s rid pr se t ttl pm = Inr (Renew_Refused u, s))"

lemma released_answers:
  assumes "get_shared_reservation_tx x s rid = Inr (Some u)" "spr_state u = Released"
  shows "answers_final x s rid u"
  unfolding answers_final_def using assms
  by (auto simp: settle_shared_core_def release_shared_def release_and_forget_unstarted_shared_def
      renew_shared_for_prompt_def Let_def elim!: rbindE)

text \<open>The row a release leaves.\<close>
lemma releases_row:
  assumes "store_ok s" "releases x s rid row s'"
  obtains n where "row\<lparr>r_state := ''released'', r_released_at := Some n\<rparr> \<in> set (reservations s')"
    "r_id row = uuid_to_string x rid"
proof -
  from assms obtain n where row: "row \<in> set (reservations s)" "r_id row = uuid_to_string x rid" "r_state row = ''active''"
    "reservations s' = release_rows x rid n (reservations s)"
    by (auto simp: releases_def dest: find_Some_mem)
  then have "row\<lparr>r_state := ''released'', r_released_at := Some n\<rparr> \<in> set (reservations s')"
    by (auto simp: release_rows_def update_where_def intro!: image_eqI [of _ _ row])
  then show ?thesis using row(2) by (rule that)
qed

text \<open>
  C18. Releasing gives back exactly what was held and is final. Both release entry points lower the
  active total of the hold's pool by the held amount and change no other total, and write nothing
  but the state and the release time of the row. After any further run of ledger operations, by
  anyone, that very row is unchanged in the table, and any settle, release or renewal of its id
  answers that it is final and changes nothing; only a prune of its closed month can take it away,
  and finds it unchanged when it does. In particular a released hold, unlike an expired one, cannot
  be settled late.
\<close>
theorem release_frees_and_is_final:
  assumes x: "externals_ok x" and s: "sound x s"
    and rel: "release_shared x s rid now = Inr (Release_Released u, s')
      \<or> release_and_forget_unstarted_shared x s rid now = Inr (Release_Released u, s')"
  shows "\<exists>row n. find (\<lambda>r. r_id r = uuid_to_string x rid) (reservations s) = Some row
    \<and> r_state row = ''active'' \<and> spr_state u = Released
    \<and> (\<forall>p. settled_total s' p = settled_total s p
        \<and> active_total s' p = active_total s p - (if p = r_pool_id row then r_amount row else 0))
    \<and> (\<forall>cal ops.
        rows_with_id (uuid_to_string x rid) (run_ops x cal s' ops)
          = [row\<lparr>r_state := ''released'', r_released_at := Some n\<rparr>]
        \<and> answers_final x (run_ops x cal s' ops) rid u
        \<or> pruned_away x cal s' ops (row\<lparr>r_state := ''released'', r_released_at := Some n\<rparr>))"
  using rel
proof (cases rule: release_cases)
  case (released row u')
  have s': "sound x s'" using releases_sound [OF x s released(1) rel] ..
  obtain n where row': "row\<lparr>r_state := ''released'', r_released_at := Some n\<rparr> \<in> set (reservations s')"
    and id: "r_id row = uuid_to_string x rid" by (rule releases_row [OF soundD(1) [OF s] released(1)])
  let ?row' = "row\<lparr>r_state := ''released'', r_released_at := Some n\<rparr>"
  have sole: "rows_with_id (uuid_to_string x rid) s' = [?row']"
    using rows_with_id_sole [OF soundD(1) [OF s'] row'] by (simp add: id)
  have u: "row_to_reservation x ?row' = Inr u"
    using rows_with_id_find [OF sole] released(2,3) by (auto simp: get_shared_reservation_tx_eq_Some)
  have reads: "get_shared_reservation_tx x t rid = Inr (Some u) \<and> spr_state u = Released"
    if "rows_with_id (uuid_to_string x rid) t = [?row']" for t
    using rows_with_id_find [OF that] u row_to_reservation_state(3) [OF u]
    by (simp add: get_shared_reservation_tx_eq_Some)
  have "rows_with_id (uuid_to_string x rid) (run_ops x cal s' ops) = [?row']
      \<and> answers_final x (run_ops x cal s' ops) rid u \<or> pruned_away x cal s' ops ?row'" for cal ops
  proof -
    obtain r' where r': "evolves\<^sup>*\<^sup>* ?row' r'"
      "rows_with_id (uuid_to_string x rid) (run_ops x cal s' ops) = [r'] \<or> pruned_away x cal s' ops r'"
      using row_followed [OF x s' row', of cal ops] by (auto simp: id)
    then have "r' = ?row'" using evolves_path [of ?row' r'] by simp
    with r'(2) reads [of "run_ops x cal s' ops"] show ?thesis by (auto intro: released_answers)
  qed
  moreover have "find (\<lambda>r. r_id r = uuid_to_string x rid) (reservations s) = Some row" "r_state row = ''active''"
    using released(1) by (simp_all add: releases_def)
  ultimately show ?thesis using releases_totals [OF soundD(1) [OF s] released(1)] reads [OF sole] by blast
qed blast

theorem release_frees_and_is_final_witness:
  "\<exists>u s'. release_shared demo_externals demo_held 1 8 = Inr (Release_Released u, s')
     \<and> active_total s' ''p'' = 0
     \<and> (let t = run_ops demo_externals demo_calendar s' [Op_ExpireStale 60000000005, Op_Charge demo_charge None 2]
        in release_shared demo_externals t 1 9 = Inr (Release_AlreadyFinal u, t) \<and> length (reservations t) = 2)"
proof -
  let ?ops = "[Op_ExpireStale 60000000005, Op_Charge demo_charge None 2]"
  have "case release_shared demo_externals demo_held 1 8 of Inr (Release_Released u, s') \<Rightarrow>
      length (reservations (run_ops demo_externals demo_calendar s' ?ops)) = 2 | _ \<Rightarrow> False"
    by code_simp
  then obtain u s' where rel: "release_shared demo_externals demo_held 1 8 = Inr (Release_Released u, s')"
    and two: "length (reservations (run_ops demo_externals demo_calendar s' ?ops)) = 2"
    by (auto split: sum.splits prod.splits SharedPoolReleaseOutcome.splits)
  have held: "sound demo_externals demo_held" "find (\<lambda>r. r_id r = uuid_to_string demo_externals 1) (reservations demo_held)
      = Some (hd (reservations demo_held))" "r_pool_id (hd (reservations demo_held)) = ''p''"
    "r_amount (hd (reservations demo_held)) = 7" "active_total demo_held ''p'' = 7"
    by code_simp+
  have "\<not> pruned_away demo_externals demo_calendar s' ?ops r" for r
    by (auto simp: pruned_away_def Cons_eq_append_conv)
  moreover from release_frees_and_is_final [OF demo_externals_ok held(1) disjI1, OF rel]
  have "active_total s' ''p'' = 0" "answers_final demo_externals (run_ops demo_externals demo_calendar s' ?ops) 1 u
      \<or> (\<exists>r. pruned_away demo_externals demo_calendar s' ?ops r)"
    using held(2-5) by (auto simp del: run_ops.simps)
  ultimately show ?thesis using rel two unfolding answers_final_def Let_def by blast
qed

section \<open>A pool never overcommits\<close>

text \<open>What the steps of a system promise about one capped account: the committed amount exceeds the
  cap only by what is booked outside the cap.\<close>
locale capped_account =
  fixes step :: "'s \<Rightarrow> 'op \<Rightarrow> 's" and ok :: "'s \<Rightarrow> bool" and allowed :: "'s \<Rightarrow> 'op \<Rightarrow> bool"
    and amount :: "'s \<Rightarrow> int" and beyond :: "'s \<Rightarrow> 'op \<Rightarrow> int" and cap :: int
  assumes ok_step: "ok s \<Longrightarrow> ok (step s op)"
    and beyond_nonneg: "ok s \<Longrightarrow> 0 \<le> beyond s op"
    and step_bound: "ok s \<Longrightarrow> allowed s op \<Longrightarrow> amount (step s op) \<le> max cap (amount s + beyond s op)"

text \<open>Conditions and amounts collected along a run.\<close>
fun along :: "('s \<Rightarrow> 'op \<Rightarrow> 's) \<Rightarrow> ('s \<Rightarrow> 'op \<Rightarrow> bool) \<Rightarrow> 's \<Rightarrow> 'op list \<Rightarrow> bool" where
  "along step P s [] \<longleftrightarrow> True"
| "along step P s (op # ops) \<longleftrightarrow> P s op \<and> along step P (step s op) ops"

fun total_along :: "('s \<Rightarrow> 'op \<Rightarrow> 's) \<Rightarrow> ('s \<Rightarrow> 'op \<Rightarrow> int) \<Rightarrow> 's \<Rightarrow> 'op list \<Rightarrow> int" where
  "total_along step f s [] = 0"
| "total_along step f s (op # ops) = f s op + total_along step f (step s op) ops"

context capped_account
begin

lemma run_bound:
  assumes "ok s" "amount s \<le> cap + b" "0 \<le> b" "along step allowed s ops"
  shows "amount (foldl step s ops) \<le> cap + b + total_along step beyond s ops"
  using assms
proof (induction ops arbitrary: s b)
  case (Cons op ops)
  have "amount (step s op) \<le> cap + (b + beyond s op)"
    using step_bound [OF Cons.prems(1), of op] beyond_nonneg [OF Cons.prems(1), of op] Cons.prems(2,3,4)
    by auto
  then have "amount (foldl step (step s op) ops)
      \<le> cap + (b + beyond s op) + total_along step beyond (step s op) ops"
    using Cons beyond_nonneg [OF Cons.prems(1), of op] ok_step by (intro Cons.IH) auto
  then show ?case by simp
qed simp

end

text \<open>The capacity that gates an operation's reservation on pool \<open>p\<close> is at most \<open>C\<close>.\<close>
definition pool_capacity_within :: "externals \<Rightarrow> LedgerStore \<Rightarrow> PoolId \<Rightarrow> int \<Rightarrow> bool" where
  "pool_capacity_within x s p C \<longleftrightarrow> (case quota_pool x s p of
     Inr (Some pool) \<Rightarrow> uint (qp_capacity pool) \<le> C | _ \<Rightarrow> True)"

definition gated_within :: "externals \<Rightarrow> PoolId \<Rightarrow> int \<Rightarrow> LedgerStore \<Rightarrow> ledger_op \<Rightarrow> bool" where
  "gated_within x p C s op \<longleftrightarrow> (case op of
     Op_Reserve req _ \<Rightarrow> rq_pool_id req \<noteq> p \<or> pool_capacity_within x s p C
   | Op_ReserveMetered req _ _ \<Rightarrow> rq_pool_id (mr_base req) \<noteq> p \<or>
       (case mr_capacity_source req of LocalConfigured c \<Rightarrow> uint c \<le> C
        | ProviderSnapshot \<Rightarrow> pool_capacity_within x s p C)
   | _ \<Rightarrow> True)"

text \<open>Spend an operation books on pool \<open>p\<close> that no reservation had set aside: a charge, and the part
  of a settlement beyond its hold (all of it when the hold had already expired).\<close>
definition unreserved :: "externals \<Rightarrow> PoolId \<Rightarrow> LedgerStore \<Rightarrow> ledger_op \<Rightarrow> int" where
  "unreserved x p s op = (case op of
     Op_Charge req wm rid \<Rightarrow>
       (case charge_shared_with_watermark x s req wm rid of
          Inr (Charged _ _ _ _, _) \<Rightarrow> if cr_pool_id req = p then uint (cr_amount req) else 0
        | _ \<Rightarrow> 0)
   | Op_Settle rid actual uk t a wm \<Rightarrow>
       (case (settle_shared_core x s rid actual uk t a wm,
              find (\<lambda>r. r_id r = uuid_to_string x rid) (reservations s)) of
          (Inr (Settle_Settled _ _ _, _), Some row) \<Rightarrow>
            if r_pool_id row = p
            then max 0 ((case actual of Some v \<Rightarrow> uint v | None \<Rightarrow> r_amount row)
              - (if r_state row = ''active'' then r_amount row else 0)) else 0
        | _ \<Rightarrow> 0)
   | _ \<Rightarrow> 0)"

lemma unreserved_nonneg: "0 \<le> unreserved x p s op"
  by (auto simp: unreserved_def split: ledger_op.splits sum.splits prod.splits
      SharedPoolChargeOutcome.splits SharedPoolSettleOutcome.splits option.splits)

lemma effective_capacity_le:
  "effective_capacity_tx x s pool ProviderSnapshot t = Inr (Inr c) \<Longrightarrow> c \<le> qp_capacity pool"
  by (auto simp: effective_capacity_tx_def elim!: rbindE)

lemma committed_total_nonneg: "store_ok s \<Longrightarrow> 0 \<le> committed_total s p"
  using totals_nonneg [of s p] by (simp add: committed_total_def store_ok_def)

text \<open>A reservation gated within \<open>C\<close>.\<close>
lemma reserve_core_bound:
  assumes ok: "store_ok s" and core: "reserve_shared_core x s req metered rid = Inr (out, s')"
    and gate: "rq_pool_id req \<noteq> p \<or> (case map_option mg_capacity_source metered of
        Some (LocalConfigured c) \<Rightarrow> uint c \<le> C | _ \<Rightarrow> pool_capacity_within x s p C)"
  shows "committed_total s' p \<le> max C (committed_total s p)"
  using core
proof (cases rule: reserve_core_cases)
  case (1 r)
  note tot = reserve_core_totals [OF core [unfolded 1]]
  show ?thesis
  proof (cases "rq_pool_id req = p \<and> rq_amount req \<noteq> 0")
    case False
    then show ?thesis using tot [of p] by (auto simp: committed_total_def)
  next
    case True
    obtain pool c overhang where pool: "quota_pool x s p = Inr (Some pool)"
      and c: "case metered of None \<Rightarrow> c = qp_capacity pool
        | Some g \<Rightarrow> effective_capacity_tx x s pool (mg_capacity_source g) (rq_now req) = Inr (Inr c)"
      and le: "committed_total s' p + uint (overhang :: u64) \<le> uint (c :: u64)"
      by (rule reserve_core_within [OF ok core [unfolded 1] conjunct2 [OF True],
          unfolded conjunct1 [OF True]]) (rule that, assumption+)
    have "uint c \<le> C"
    proof (cases metered)
      case None
      with c gate True pool show ?thesis by (simp add: pool_capacity_within_def)
    next
      case (Some g)
      show ?thesis
      proof (cases "mg_capacity_source g")
        case ProviderSnapshot
        with c gate True pool Some effective_capacity_le [of x s pool "rq_now req" c] show ?thesis
          by (auto simp: pool_capacity_within_def word_le_def)
      next
        case (LocalConfigured d)
        with c gate True Some show ?thesis by (simp add: effective_capacity_tx_def)
      qed
    qed
    then show ?thesis using le uint_u64_bounds(1) [of overhang] by linarith
  qed
qed simp

lemma release_bound:
  assumes "store_ok s" "release_shared x s rid t = Inr (out, s')
    \<or> release_and_forget_unstarted_shared x s rid t = Inr (out, s')"
  shows "committed_total s' p \<le> committed_total s p"
  using assms(2)
proof (cases rule: release_cases)
  case (released row u)
  then have "row_ok row"
    using assms(1) find_Some_mem by (fastforce simp: releases_def store_ok_def list_all_iff)
  then show ?thesis
    using releases_totals [OF assms(1) released(1), of p] row_ok_bounds(1)
    by (auto simp: committed_total_def)
qed simp

lemma settle_bound:
  assumes "store_ok s"
  shows "committed_total (committed s (settle_shared_core x s rid actual uk t a wm)) p
    \<le> committed_total s p + unreserved x p s (Op_Settle rid actual uk t a wm)"
proof (cases "\<exists>u rf ov s'. settle_shared_core x s rid actual uk t a wm = Inr (Settle_Settled u rf ov, s')")
  case True
  then obtain u rf ov s' where run: "settle_shared_core x s rid actual uk t a wm = Inr (Settle_Settled u rf ov, s')"
    by blast
  show ?thesis
    by (rule settle_core_totals [OF assms run])
      (auto simp: run committed_def unreserved_def committed_total_def)
next
  case False
  have "s' = s" if "settle_shared_core x s rid actual uk t a wm = Inr (out, s')" for out s'
    using that
  proof (cases rule: settle_core_cases)
    case (settled row res updated now_str supplied wt ids v)
    with that False show ?thesis by blast
  qed
  then have "committed s (settle_shared_core x s rid actual uk t a wm) = s"
    by (auto simp: committed_def split: sum.splits)
  then show ?thesis using unreserved_nonneg by simp
qed

lemma charge_bound:
  "committed_total (committed s (charge_shared_with_watermark x s req wm rid)) p
    \<le> committed_total s p + unreserved x p s (Op_Charge req wm rid)"
proof (cases "charge_shared_with_watermark x s req wm rid")
  case (Inl e)
  then show ?thesis by (simp add: committed_def unreserved_nonneg)
next
  case (Inr r)
  obtain out s' where r: "r = (out, s')" by fastforce
  with Inr have run: "charge_shared_with_watermark x s req wm rid = Inr (out, s')" by simp
  show ?thesis
    using charge_totals [OF run, of p] unreserved_nonneg [of x p s "Op_Charge req wm rid"]
    by (cases out) (auto simp: run committed_def unreserved_def committed_total_def split: if_splits)
qed

lemma expiry_bound:
  assumes "store_ok s" "expire_stale_shared_pool_reservations x s t = Inr (out, s')"
  shows "committed_total s' p \<le> committed_total s p"
proof (rule expiry_rows [OF assms])
  fix n assume s': "s' = s\<lparr>reservations := swept (stale x t) gateway_hold n (reservations s)\<rparr>"
  have "sum_col (active_value p) (filter (\<lambda>r. stale x t r \<and> gateway_hold r) rows)
      \<le> sum_col (active_value p) (filter (stale x t) rows)" if "list_all row_ok rows" for rows
    using that row_ok_values(2) by (induction rows) (auto intro: add_increasing)
  then show ?thesis
    using assms(1) expiry.swept_settled [of p x t n "reservations s"] expiry.swept_active [of p x t n "reservations s"]
    by (simp add: s' committed_total_def settled_total_def active_total_def store_ok_def)
qed

lemma prune_bound:
  assumes "store_ok s" "prune_closed_periods cal s req = (res, s')"
  shows "committed_total s' p \<le> committed_total s p"
  using assms(2)
proof (cases rule: prune_removes)
  case (2 cur gone)
  then have "reservations s' = filter (\<lambda>r. r_pool_id r \<notin> gone) (reservations s)" by (simp add: removes_def)
  then show ?thesis
    using assms(1) row_ok_values
    by (auto simp: committed_total_def settled_total_def active_total_def store_ok_def list_all_iff
        intro!: add_mono sum_col_filter_le)
qed simp

lemma committed_total_cong:
  "reservations s' = reservations s \<Longrightarrow> committed_total s' p = committed_total s p"
  by (simp add: committed_total_def settled_total_def active_total_def)

lemma committed_bound:
  assumes "\<And>out s'. r = Inr (out, s') \<Longrightarrow> committed_total s' p \<le> max C (committed_total s p)"
  shows "committed_total (committed s r) p \<le> max C (committed_total s p)"
  using assms by (auto simp: committed_def split: sum.splits)

lemma committed_shrinks:
  assumes "\<And>out s'. r = Inr (out, s') \<Longrightarrow> committed_total s' p \<le> committed_total s p"
  shows "committed_total (committed s r) p \<le> max C (committed_total s p)"
  using assms by (intro committed_bound) (simp add: le_max_iff_disj)

lemma apply_op_bound:
  assumes ok: "sound x s" and gate: "gated_within x p C s op"
  shows "committed_total (apply_op x cal s op) p \<le> max C (committed_total s p + unreserved x p s op)"
proof -
  note sok = soundD(1) [OF ok]
  have le: "committed_total (apply_op x cal s op) p \<le> max C (committed_total s p)
      \<Longrightarrow> ?thesis" using unreserved_nonneg [of x p s op] by auto
  show ?thesis
  proof (cases op)
    case (Op_EnsurePool q u c t)
    have "reservations (apply_op x cal s op) = reservations s"
      using ensure_pool_sound [OF ok surjective_pairing] by (simp add: apply_op_def Op_EnsurePool)
    from committed_total_cong [OF this, of p] show ?thesis by (intro le) simp
  next
    case (Op_Reserve req rid)
    have "committed_total s' p \<le> max C (committed_total s p)"
      if run: "reserve_shared x s req rid = Inr (out, s')" for out s'
    proof (rule reserve_shared_effect [OF run])
      fix core assume "reserve_shared_core x s req None rid = Inr (core, s')"
      from reserve_core_bound [OF sok this, of p C] gate show ?thesis
        by (simp add: gated_within_def Op_Reserve)
    qed
    then show ?thesis by (intro le) (simp add: apply_op_def Op_Reserve committed_bound)
  next
    case (Op_ReserveMetered req prompt rid)
    have "committed_total s' p \<le> max C (committed_total s p)"
      if run: "reserve_shared_metered_for_prompt x s req prompt rid = Inr (out, s')" for out s'
    proof (rule reserve_metered_effect [OF run])
      fix core s1
      assume core: "reserve_shared_core x s (mr_base req) (Some \<lparr>mg_session_cap = mr_session_cap req,
          mg_capacity_source = mr_capacity_source req\<rparr>) rid = Inr (core, s1)"
        and "reservations s' = reservations s1"
      with reserve_core_bound [OF sok core, of p C] gate committed_total_cong [of s' s1 p] show ?thesis
        by (simp add: gated_within_def Op_ReserveMetered split: CapacitySource.splits)
    qed
    then show ?thesis by (intro le) (simp add: apply_op_def Op_ReserveMetered committed_bound)
  next
    case (Op_Charge req wm rid)
    then show ?thesis using charge_bound [of s x req wm rid p] by (auto simp: apply_op_def)
  next
    case (Op_Settle rid actual uk t a wm)
    then show ?thesis
      using settle_bound [OF sok, of x rid actual uk t a wm p] by (simp add: apply_op_def le_max_iff_disj)
  next
    case (Op_Release rid t)
    then show ?thesis
      by (intro le) (simp add: apply_op_def committed_shrinks release_bound [OF sok disjI1])
  next
    case (Op_ReleaseAndForget rid t)
    then show ?thesis
      by (intro le) (simp add: apply_op_def committed_shrinks release_bound [OF sok disjI2])
  next
    case (Op_Renew rid pr se t ttl prompt)
    have "committed_total s' p = committed_total s p"
      if "renew_shared_for_prompt x s rid pr se t ttl prompt = Inr (out, s')" for out s'
      using renew_totals [OF that] by (simp add: committed_total_def)
    then show ?thesis by (intro le) (simp add: apply_op_def Op_Renew committed_bound)
  next
    case (Op_RecordPrompt pr se prompt rid)
    then show ?thesis
      using committed_total_cong [of "record_hold_prompt_tx x s pr se prompt rid" s p]
      by (intro le) (simp add: apply_op_def record_hold_prompt_def)
  next
    case (Op_RecordWatermark rid wm)
    have "committed_total s' p = committed_total s p" if "record_shared_watermark x s rid wm = Inr s'" for s'
      using that
      by (auto simp: record_shared_watermark_def committed_total_def settled_total_def active_total_def
          settled_value_def active_value_def elim!: rbindE intro!: arg_cong2 [where f = "(+)"] sum_col_update_where_same)
    then show ?thesis by (intro le) (auto simp: apply_op_def Op_RecordWatermark split: sum.splits)
  next
    case (Op_ExpireStale t)
    then show ?thesis
      by (intro le) (simp add: apply_op_def committed_shrinks expiry_bound [OF sok])
  next
    case (Op_SettleOrphans keep t)
    then show ?thesis
      by (intro le) (simp add: apply_op_def committed_shrinks orphan_totals [OF sok])
  next
    case (Op_Ingest q observed valid reading conf t)
    have "committed_total s' p = committed_total s p"
      if "ingest_pool_provider_snapshot x s q observed valid reading conf t = Inr s'" for s'
      using ingest_sound [OF ok that] by (intro committed_total_cong) simp
    then show ?thesis by (intro le) (auto simp: apply_op_def Op_Ingest split: sum.splits)
  next
    case (Op_Prune req)
    then show ?thesis
      using prune_bound [OF sok surjective_pairing, of cal req p]
      by (intro le) (simp add: apply_op_def le_max_iff_disj)
  qed
qed

interpretation pool_account: capped_account "apply_op x cal" "\<lambda>s. externals_ok x \<and> sound x s"
  "gated_within x p C" "\<lambda>s. committed_total s p" "unreserved x p" C for x cal p C
  by unfold_locales (auto simp: apply_op_sound unreserved_nonneg apply_op_bound)

lemma run_ops_foldl: "run_ops x cal s ops = foldl (apply_op x cal) s ops"
  by (induction ops arbitrary: s) simp_all

text \<open>
  C3. A shared pool is never overcommitted. Start from the empty ledger and run any sequence of ledger
  operations, by any number of sessions, in any order, successes and failures alike. If every
  reservation against the pool is gated by a capacity of at most C (its stored capacity, the
  operator's cap, or a provider limit below it), then at the end everything settled or held in the
  pool is at most C plus what was booked without a reservation: charges, and settlements beyond
  their hold. Reservations alone can never exceed the cap.
\<close>
theorem pool_never_overcommitted:
  assumes x: "externals_ok x" and cap: "0 \<le> C"
    and gated: "along (apply_op x cal) (gated_within x p C) empty_store ops"
  shows "committed_total (run_ops x cal empty_store ops) p
    \<le> C + total_along (apply_op x cal) (unreserved x p) empty_store ops"
proof -
  have "committed_total empty_store p = 0"
    by (simp add: committed_total_def settled_total_def active_total_def empty_store_def)
  then show ?thesis
    using pool_account.run_bound [of x empty_store p C 0 cal ops] x cap gated empty_store_sound
    by (simp add: run_ops_foldl)
qed

theorem pool_never_overcommitted_witness:
  "committed_total (run_ops demo_externals demo_calendar empty_store demo_ops) ''p'' = 11
   \<and> total_along (apply_op demo_externals demo_calendar) (unreserved demo_externals ''p'') empty_store demo_ops = 4
   \<and> committed_total (run_ops demo_externals demo_calendar empty_store demo_ops) ''p'' \<le> 10 + 4"
proof -
  have "along (apply_op demo_externals demo_calendar) (gated_within demo_externals ''p'' 10) empty_store demo_ops"
    "committed_total (run_ops demo_externals demo_calendar empty_store demo_ops) ''p'' = 11"
    "total_along (apply_op demo_externals demo_calendar) (unreserved demo_externals ''p'') empty_store demo_ops = 4"
    by code_simp+
  then show ?thesis
    using pool_never_overcommitted [OF demo_externals_ok, of 10 demo_calendar "''p''" demo_ops] by simp
qed

end
