(* ===== verification/Quota_Calendar.thy ===== *)
theory Quota_Calendar
  imports Quota_Types
begin

text \<open>
  Calendar arithmetic of quota windows (\<open>crates/domain/src/quota_window/calendar.rs\<close> and the
  validated wall-clock types of \<open>quota_window/mod.rs\<close>). The time-zone database (the jiff crate) and
  the range of the \<open>time\<close> crate are parameters, the fields of \<open>clock\<close>: a civil date is its day
  number (0 is Thursday, 1 January 1970), \<open>clk_date\<close> is the civil date of an instant in a zone,
  \<open>clk_at\<close> the instant of a wall-clock time on a date with the compatible disambiguation,
  \<open>clk_hour_start\<close> the top of the local hour, \<open>clk_checked_add\<close> the addition of a duration in
  nanoseconds that fails outside the representable range, \<open>clk_saturating_add\<close> the one that stops at its ends.
\<close>

section \<open>Wall clocks and zones\<close>

record WallClockTime =
  wct_hour :: nat
  wct_minute :: nat

definition WallClockTime_new :: "nat \<Rightarrow> nat \<Rightarrow> QuotaWindowError + WallClockTime" where
  "WallClockTime_new hour minute =
     (if 24 \<le> hour \<or> 60 \<le> minute then Inl (InvalidWallClockTime hour minute)
      else Inr \<lparr>wct_hour = hour, wct_minute = minute\<rparr>)"

datatype IanaTimeZone = IanaTimeZone string

record clock =
  clk_known_zone :: "string \<Rightarrow> bool"
  clk_date :: "instant \<Rightarrow> IanaTimeZone \<Rightarrow> int"
  clk_at :: "int \<Rightarrow> WallClockTime \<Rightarrow> IanaTimeZone \<Rightarrow> instant"
  clk_hour_start :: "instant \<Rightarrow> IanaTimeZone \<Rightarrow> instant"
  clk_checked_add :: "instant \<Rightarrow> int \<Rightarrow> instant option"
  clk_saturating_add :: "instant \<Rightarrow> int \<Rightarrow> instant"

definition IanaTimeZone_new :: "clock \<Rightarrow> string \<Rightarrow> QuotaWindowError + IanaTimeZone" where
  "IanaTimeZone_new clk name =
     (if clk_known_zone clk name then Inr (IanaTimeZone name) else Inl (UnknownTimeZone name))"

datatype ResetWeekday = Monday | Tuesday | Wednesday | Thursday | Friday | Saturday | Sunday

fun jiff_weekday :: "ResetWeekday \<Rightarrow> int" where
  "jiff_weekday Monday = 0"
| "jiff_weekday Tuesday = 1"
| "jiff_weekday Wednesday = 2"
| "jiff_weekday Thursday = 3"
| "jiff_weekday Friday = 4"
| "jiff_weekday Saturday = 5"
| "jiff_weekday Sunday = 6"

definition date_weekday :: "int \<Rightarrow> int" where
  "date_weekday date = (date + 3) mod 7"

definition yesterday :: "int \<Rightarrow> int" where "yesterday date = date - 1"
definition tomorrow :: "int \<Rightarrow> int" where "tomorrow date = date + 1"

datatype AlignedPeriod = Hour | Day WallClockTime | Week ResetWeekday WallClockTime

section \<open>Period bounds\<close>

lemma mod7_step:
  fixes x w :: int
  assumes "x mod 7 \<noteq> w" "0 \<le> w" "w < 7"
  shows "(x - 1 - w) mod 7 = (x - w) mod 7 - 1"
proof -
  let ?y = "x - w"
  have "?y mod 7 \<noteq> 0"
    using assms by (auto simp: mod_eq_dvd_iff [symmetric] dvd_eq_mod_eq_0 [symmetric])
  moreover have "0 \<le> ?y mod 7" "?y mod 7 < 7" by simp_all
  ultimately have range: "0 \<le> ?y mod 7 - 1" "?y mod 7 - 1 < 7" by linarith+
  have "x - 1 - w = (?y mod 7 - 1) + 7 * (?y div 7)" using mult_div_mod_eq [of 7 ?y] by linarith
  then have "(x - 1 - w) mod 7 = (?y mod 7 - 1) mod 7" by (simp only: mod_mult_self2)
  also have "\<dots> = ?y mod 7 - 1" by (rule mod_pos_pos_trivial [OF range])
  finally show ?thesis .
qed

lemma weekday_range: "0 \<le> jiff_weekday w" "jiff_weekday w < 7"
  by (cases w; simp)+

lemma weekday_step:
  assumes "date_weekday d \<noteq> jiff_weekday w"
  shows "(yesterday d + 3 - jiff_weekday w) mod 7 = (d + 3 - jiff_weekday w) mod 7 - 1"
proof -
  have eq: "yesterday d + 3 - jiff_weekday w = d + 3 - 1 - jiff_weekday w" by (simp add: yesterday_def)
  show ?thesis
    unfolding eq by (rule mod7_step) (use assms weekday_range in \<open>simp_all add: date_weekday_def\<close>)
qed

text \<open>The loop that steps back to the last given weekday.\<close>
function back_to_weekday :: "ResetWeekday \<Rightarrow> int \<Rightarrow> int" where
  "back_to_weekday target date =
     (if date_weekday date \<noteq> jiff_weekday target then back_to_weekday target (yesterday date)
      else date)"
  by auto
termination
proof (relation "measure (\<lambda>(target, date). nat ((date + 3 - jiff_weekday target) mod 7))")
  fix target date
  assume ne: "date_weekday date \<noteq> jiff_weekday target"
  have "(yesterday date + 3 - jiff_weekday target) mod 7 < (date + 3 - jiff_weekday target) mod 7"
    by (simp add: weekday_step [OF ne])
  then show "((target, yesterday date), target, date)
      \<in> measure (\<lambda>(target, date). nat ((date + 3 - jiff_weekday target) mod 7))"
    by simp
qed simp

declare back_to_weekday.simps [simp del]

definition fixed_aligned_bounds ::
    "clock \<Rightarrow> instant \<Rightarrow> AlignedPeriod \<Rightarrow> IanaTimeZone \<Rightarrow> instant \<times> instant" where
  "fixed_aligned_bounds clk now period tz =
     (case period of
        Hour \<Rightarrow>
          let start = clk_hour_start clk now tz;
              end_second = tdiv start ns_per_sec + 3600
          in (start, end_second * ns_per_sec)
      | Day time_of_day \<Rightarrow>
          let date = clk_date clk now tz;
              date = (if now < clk_at clk date time_of_day tz then yesterday date else date)
          in (clk_at clk date time_of_day tz, clk_at clk (tomorrow date) time_of_day tz)
      | Week starts_on time_of_day \<Rightarrow>
          let date = back_to_weekday starts_on (clk_date clk now tz);
              date = (if now < clk_at clk date time_of_day tz then (yesterday ^^ 7) date else date)
          in (clk_at clk date time_of_day tz, clk_at clk ((tomorrow ^^ 7) date) time_of_day tz))"

section \<open>Working hours\<close>

record WorkingHours =
  wh_time_zone :: IanaTimeZone
  wh_start :: WallClockTime
  wh_end :: WallClockTime

datatype WorkingHoursError = StartNotBeforeEnd nat nat nat nat

definition wall_clock_less :: "WallClockTime \<Rightarrow> WallClockTime \<Rightarrow> bool" where
  "wall_clock_less a b \<longleftrightarrow> wct_hour a < wct_hour b \<or> (wct_hour a = wct_hour b \<and> wct_minute a < wct_minute b)"

definition WorkingHours_new ::
    "IanaTimeZone \<Rightarrow> WallClockTime \<Rightarrow> WallClockTime \<Rightarrow> WorkingHoursError + WorkingHours" where
  "WorkingHours_new tz start end_time =
     (if \<not> wall_clock_less start end_time
      then Inl (StartNotBeforeEnd (wct_hour start) (wct_minute start) (wct_hour end_time) (wct_minute end_time))
      else Inr \<lparr>wh_time_zone = tz, wh_start = start, wh_end = end_time\<rparr>)"

definition next_working_instant :: "clock \<Rightarrow> instant \<Rightarrow> WorkingHours \<Rightarrow> instant" where
  "next_working_instant clk now hours =
     (let z = wh_time_zone hours;
          date = clk_date clk now z;
          today_start = clk_at clk date (wh_start hours) z;
          today_end = clk_at clk date (wh_end hours) z
      in if today_start \<le> now \<and> now < today_end then now
         else if now < today_start then today_start
         else clk_at clk (tomorrow date) (wh_start hours) z)"

section \<open>What a zone promises\<close>

text \<open>
  What the calendar code relies on in a zone, clause by clause.
  \<^item> \<open>civil_dates\<close>: civil dates do not go backwards in time, and a wall-clock time of a date falls on
    that date. A daylight-saving change keeps this, a gap being resolved to a later instant and a fold
    to its earlier pass, as long as no fold goes back over a midnight and no gap reaches into the next date.
  \<^item> \<open>local_hours\<close>: local hours are an hour long and follow each other. A change of offset by whole
    hours at the top of an hour keeps this.
  \<^item> \<open>wall_order\<close>: two wall-clock times of a date keep their order. A gap may break this on its day.
\<close>
definition valid_wall :: "WallClockTime \<Rightarrow> bool" where
  "valid_wall w \<longleftrightarrow> wct_hour w < 24 \<and> wct_minute w < 60"

definition hour_ns :: int where "hour_ns = 3600 * ns_per_sec"

definition civil_dates :: "clock \<Rightarrow> IanaTimeZone \<Rightarrow> bool" where
  "civil_dates clk z \<longleftrightarrow>
     (\<forall>s t. s \<le> t \<longrightarrow> clk_date clk s z \<le> clk_date clk t z)
   \<and> (\<forall>d w. valid_wall w \<longrightarrow> clk_date clk (clk_at clk d w z) z = d)"

definition local_hours :: "clock \<Rightarrow> IanaTimeZone \<Rightarrow> bool" where
  "local_hours clk z \<longleftrightarrow>
     (\<forall>t. ns_per_sec dvd clk_hour_start clk t z \<and> clk_hour_start clk t z \<le> t
        \<and> t < clk_hour_start clk t z + hour_ns
        \<and> clk_hour_start clk (clk_hour_start clk t z + hour_ns) z = clk_hour_start clk t z + hour_ns)"

definition wall_order :: "clock \<Rightarrow> IanaTimeZone \<Rightarrow> bool" where
  "wall_order clk z \<longleftrightarrow> (\<forall>d v w. valid_wall v \<longrightarrow> valid_wall w \<longrightarrow> wall_clock_less v w
     \<longrightarrow> clk_at clk d v z < clk_at clk d w z)"

fun valid_period :: "AlignedPeriod \<Rightarrow> bool" where
  "valid_period Hour = True"
| "valid_period (Day w) = valid_wall w"
| "valid_period (Week _ w) = valid_wall w"

text \<open>What a period relies on.\<close>
fun period_zone :: "clock \<Rightarrow> IanaTimeZone \<Rightarrow> AlignedPeriod \<Rightarrow> bool" where
  "period_zone clk z Hour \<longleftrightarrow> local_hours clk z"
| "period_zone clk z (Day _) \<longleftrightarrow> civil_dates clk z"
| "period_zone clk z (Week _ _) \<longleftrightarrow> civil_dates clk z"

lemma WallClockTime_new_valid: "WallClockTime_new h m = Inr w \<Longrightarrow> valid_wall w"
  by (auto simp: WallClockTime_new_def valid_wall_def split: if_splits)

lemma civil_before:
  assumes "civil_dates clk z" "valid_wall w" "d < clk_date clk t z"
  shows "clk_at clk d w z \<le> t"
proof (rule ccontr)
  assume "\<not> clk_at clk d w z \<le> t"
  then have "clk_date clk t z \<le> clk_date clk (clk_at clk d w z) z"
    using assms(1) by (simp add: civil_dates_def)
  with assms show False by (simp add: civil_dates_def)
qed

lemma civil_after:
  assumes "civil_dates clk z" "valid_wall w" "clk_date clk t z < d"
  shows "t < clk_at clk d w z"
proof (rule ccontr)
  assume "\<not> t < clk_at clk d w z"
  then have "clk_date clk (clk_at clk d w z) z \<le> clk_date clk t z"
    using assms(1) by (simp add: civil_dates_def)
  with assms show False by (simp add: civil_dates_def)
qed

lemma civil_reads_back: "civil_dates clk z \<Longrightarrow> valid_wall w \<Longrightarrow> clk_date clk (clk_at clk d w z) z = d"
  by (simp add: civil_dates_def)

lemma steps_pow: "(yesterday ^^ n) d = d - int n" "(tomorrow ^^ n) d = d + int n"
  by (induction n) (simp_all add: yesterday_def tomorrow_def)

lemma back_to_weekday_hit: "date_weekday (back_to_weekday w d) = jiff_weekday w"
  by (induction w d rule: back_to_weekday.induct) (subst back_to_weekday.simps, simp)

lemma back_to_weekday_range: "d - 7 < back_to_weekday w d \<and> back_to_weekday w d \<le> d"
proof -
  have "back_to_weekday w d = d - (d + 3 - jiff_weekday w) mod 7"
  proof (induction w d rule: back_to_weekday.induct)
    case (1 w d)
    show ?case
    proof (cases "date_weekday d = jiff_weekday w")
      case True
      then have "(d + 3 - jiff_weekday w) mod 7 = 0"
        using weekday_range [of w] by (auto simp: date_weekday_def mod_eq_dvd_iff [symmetric] dvd_eq_mod_eq_0 [symmetric])
      with True show ?thesis by (subst back_to_weekday.simps) simp
    next
      case False
      moreover note weekday_step [OF False]
      ultimately show ?thesis
        using 1 by (subst back_to_weekday.simps) (simp add: yesterday_def)
    qed
  qed
  then show ?thesis by simp
qed

lemma back_to_weekday_fix: "date_weekday d = jiff_weekday w \<Longrightarrow> back_to_weekday w d = d"
  by (subst back_to_weekday.simps) simp

lemma weekday_plus_7: "date_weekday (d + 7) = date_weekday d" "date_weekday (d - 7) = date_weekday d"
  using mod_add_self2 [of "d + 3" 7] mod_add_self2 [of "d - 4" 7]
  by (simp_all add: date_weekday_def add.commute)

section \<open>Bounds contain now and tile time\<close>

definition day_bounds :: "clock \<Rightarrow> int \<Rightarrow> int \<Rightarrow> WallClockTime \<Rightarrow> IanaTimeZone \<Rightarrow> instant \<times> instant" where
  "day_bounds clk n d w z = (clk_at clk d w z, clk_at clk (d + n) w z)"

lemma bounds_Day:
  "fixed_aligned_bounds clk now (Day w) z =
     day_bounds clk 1 (clk_date clk now z - (if now < clk_at clk (clk_date clk now z) w z then 1 else 0)) w z"
  by (simp add: fixed_aligned_bounds_def day_bounds_def Let_def yesterday_def tomorrow_def)

lemma bounds_Week:
  "fixed_aligned_bounds clk now (Week s w) z =
     (let d = back_to_weekday s (clk_date clk now z)
      in day_bounds clk 7 (d - (if now < clk_at clk d w z then 7 else 0)) w z)"
  by (simp add: fixed_aligned_bounds_def day_bounds_def Let_def steps_pow)

lemma bounds_Hour:
  assumes "local_hours clk z"
  shows "fixed_aligned_bounds clk now Hour z =
    (clk_hour_start clk now z, clk_hour_start clk now z + hour_ns)"
proof -
  have "ns_per_sec dvd clk_hour_start clk now z" using assms by (simp add: local_hours_def)
  then have "tdiv (clk_hour_start clk now z) ns_per_sec * ns_per_sec = clk_hour_start clk now z"
    by (auto simp: tdiv_def ns_per_sec_def elim!: dvdE)
  then show ?thesis
    by (simp add: fixed_aligned_bounds_def Let_def hour_ns_def algebra_simps)
qed

text \<open>A period of \<open>n\<close> days whose first date is at most \<open>n - 1\<close> days before today.\<close>
lemma day_bounds_contain:
  assumes zone: "civil_dates clk z" "valid_wall w"
    and d: "d \<le> clk_date clk now z" "clk_date clk now z < d + n" "0 < n"
    and e: "e = d - (if now < clk_at clk d w z then n else 0)"
  shows "fst (day_bounds clk n e w z) \<le> now \<and> now < snd (day_bounds clk n e w z)"
proof (cases "now < clk_at clk d w z")
  case True
  with zone d have "clk_at clk (d - n) w z \<le> now" by (intro civil_before) auto
  with True e show ?thesis by (simp add: day_bounds_def)
next
  case False
  with zone d have "now < clk_at clk (d + n) w z" by (intro civil_after) auto
  with False e show ?thesis by (simp add: day_bounds_def)
qed

text \<open>
  Aligned periods partition time. In a zone that keeps what the period relies on, the period computed for an
  instant contains it, and the period computed at its end is the very next one: it starts where this
  one ends. So every instant belongs to exactly one period and usage is never counted in two.
\<close>
theorem aligned_periods_tile:
  assumes "period_zone clk z p" "valid_period p"
  shows "fst (fixed_aligned_bounds clk now p z) \<le> now
       \<and> now < snd (fixed_aligned_bounds clk now p z)
       \<and> fst (fixed_aligned_bounds clk (snd (fixed_aligned_bounds clk now p z)) p z)
           = snd (fixed_aligned_bounds clk now p z)"
proof (cases p)
  case Hour
  with assms(1) show ?thesis by (simp add: bounds_Hour) (simp add: local_hours_def)
next
  case (Day w)
  with assms have zone: "civil_dates clk z" and w: "valid_wall w" by simp_all
  show ?thesis
    using day_bounds_contain [OF zone w _ _ _ refl, of "clk_date clk now z" now 1]
      civil_reads_back [OF zone w]
    by (simp add: Day bounds_Day) (simp add: day_bounds_def)
next
  case (Week s w)
  with assms have zone: "civil_dates clk z" and w: "valid_wall w" by simp_all
  show ?thesis
    using day_bounds_contain [OF zone w _ _ _ refl, of "back_to_weekday s (clk_date clk now z)" now 7]
      civil_reads_back [OF zone w] back_to_weekday_range [of "clk_date clk now z" s]
      back_to_weekday_hit [of s "clk_date clk now z"]
    by (simp add: Week bounds_Week Let_def) (simp add: day_bounds_def back_to_weekday_fix weekday_plus_7)
qed

text \<open>
  What the end of the period around \<open>now\<close> relies on, on the days around it only: within a week, a wall-clock
  time of a date falls on that date and one of a later date lies after \<open>now\<close>; the local hour of \<open>now\<close> lasts an
  hour and the next one starts where it ends.
\<close>
definition dates_near :: "clock \<Rightarrow> IanaTimeZone \<Rightarrow> instant \<Rightarrow> WallClockTime \<Rightarrow> bool" where
  "dates_near clk z now w \<longleftrightarrow>
     (\<forall>d. \<bar>d - clk_date clk now z\<bar> \<le> 7 \<longrightarrow> clk_date clk (clk_at clk d w z) z = d
        \<and> (clk_date clk now z < d \<longrightarrow> now < clk_at clk d w z))"

fun period_near :: "clock \<Rightarrow> IanaTimeZone \<Rightarrow> instant \<Rightarrow> AlignedPeriod \<Rightarrow> bool" where
  "period_near clk z now Hour \<longleftrightarrow>
     ns_per_sec dvd clk_hour_start clk now z \<and> now < clk_hour_start clk now z + hour_ns
   \<and> clk_hour_start clk (clk_hour_start clk now z + hour_ns) z = clk_hour_start clk now z + hour_ns"
| "period_near clk z now (Day w) \<longleftrightarrow> dates_near clk z now w"
| "period_near clk z now (Week _ w) \<longleftrightarrow> dates_near clk z now w"

lemma period_zone_near:
  assumes "period_zone clk z p" "valid_period p"
  shows "period_near clk z now p"
  using assms civil_after [of clk z _ now] civil_reads_back [of clk z]
  by (cases p) (auto simp: local_hours_def dates_near_def)

text \<open>The next period starts where this one ends.\<close>
lemma aligned_period_next:
  assumes "period_near clk z now p"
  shows "now < snd (fixed_aligned_bounds clk now p z)
    \<and> fst (fixed_aligned_bounds clk (snd (fixed_aligned_bounds clk now p z)) p z) = snd (fixed_aligned_bounds clk now p z)"
proof (cases p)
  case Hour
  with assms have h: "ns_per_sec dvd clk_hour_start clk now z" "now < clk_hour_start clk now z + hour_ns"
    "clk_hour_start clk (clk_hour_start clk now z + hour_ns) z = clk_hour_start clk now z + hour_ns" by simp_all
  then have "tdiv (clk_hour_start clk now z) ns_per_sec * ns_per_sec = clk_hour_start clk now z"
    by (auto simp: tdiv_def ns_per_sec_def elim!: dvdE)
  then have "snd (fixed_aligned_bounds clk now Hour z) = clk_hour_start clk now z + hour_ns"
    by (simp add: fixed_aligned_bounds_def Let_def hour_ns_def algebra_simps)
  with h Hour show ?thesis by (simp add: fixed_aligned_bounds_def Let_def)
next
  case (Day w)
  with assms show ?thesis by (simp add: bounds_Day) (simp add: day_bounds_def dates_near_def)
next
  case (Week s w)
  let ?d = "back_to_weekday s (clk_date clk now z)"
  have near: "clk_date clk (clk_at clk d w z) z = d \<and> (clk_date clk now z < d \<longrightarrow> now < clk_at clk d w z)"
    if "d = ?d \<or> d = ?d + 7" for d
    using assms that back_to_weekday_range [of "clk_date clk now z" s] by (auto simp: Week dates_near_def)
  have "now < clk_at clk (?d + 7) w z"
    using near [of "?d + 7"] back_to_weekday_range [of "clk_date clk now z" s] by auto
  then show ?thesis
    using near [of ?d] near [of "?d + 7"] back_to_weekday_hit [of s "clk_date clk now z"]
    by (simp add: Week bounds_Week Let_def) (simp add: day_bounds_def back_to_weekday_fix weekday_plus_7)
qed

text \<open>Coordinated universal time as a concrete clock.\<close>
definition day_ns :: int where "day_ns = 24 * hour_ns"

definition utc_clock :: clock where
  "utc_clock = \<lparr>clk_known_zone = (\<lambda>n. n = ''UTC''),
     clk_date = (\<lambda>t z. t div day_ns),
     clk_at = (\<lambda>d w z. d * day_ns + int (wct_hour w) * hour_ns + int (wct_minute w) * (60 * ns_per_sec)),
     clk_hour_start = (\<lambda>t z. t div hour_ns * hour_ns),
     clk_checked_add = (\<lambda>t d. if - 377705116800 * ns_per_sec \<le> t + d \<and> t + d < 253402300800 * ns_per_sec
        then Some (t + d) else None),
     clk_saturating_add = (\<lambda>t d. clamp (- 377705116800 * ns_per_sec) (253402300800 * ns_per_sec - 1) (t + d))\<rparr>"

lemma zone_utc: "civil_dates utc_clock z" "local_hours utc_clock z" "wall_order utc_clock z"
proof -
  have date: "clk_date utc_clock (clk_at utc_clock d w z) z = d" if "valid_wall w" for d w
  proof -
    let ?r = "int (wct_hour w) * hour_ns + int (wct_minute w) * (60 * ns_per_sec)"
    have "0 \<le> ?r" "?r < day_ns"
      using that by (simp_all add: valid_wall_def hour_ns_def day_ns_def ns_per_sec_def)
    then have "(d * day_ns + ?r) div day_ns = d" by simp
    then show ?thesis by (simp add: utc_clock_def add.assoc)
  qed
  have less: "clk_at utc_clock d v z < clk_at utc_clock d w z"
    if "valid_wall v" "valid_wall w" "wall_clock_less v w" for d v w
    using that by (auto simp: valid_wall_def wall_clock_less_def utc_clock_def hour_ns_def ns_per_sec_def)
  have hour: "t div hour_ns * hour_ns \<le> t" "t < t div hour_ns * hour_ns + hour_ns"
    "ns_per_sec dvd t div hour_ns * hour_ns"
    "(t div hour_ns * hour_ns + hour_ns) div hour_ns * hour_ns = t div hour_ns * hour_ns + hour_ns" for t
  proof -
    have "0 < hour_ns" by (simp add: hour_ns_def ns_per_sec_def)
    then show "t div hour_ns * hour_ns \<le> t" "t < t div hour_ns * hour_ns + hour_ns"
      "(t div hour_ns * hour_ns + hour_ns) div hour_ns * hour_ns = t div hour_ns * hour_ns + hour_ns"
      using div_mult_mod_eq [of t hour_ns] pos_mod_bound [of hour_ns t] pos_mod_sign [of hour_ns t]
      by (linarith, linarith, simp add: algebra_simps)
    show "ns_per_sec dvd t div hour_ns * hour_ns" by (simp add: hour_ns_def)
  qed
  have mono: "s \<le> t \<Longrightarrow> clk_date utc_clock s z \<le> clk_date utc_clock t z" for s t
    by (simp add: utc_clock_def day_ns_def hour_ns_def ns_per_sec_def zdiv_mono1)
  show "civil_dates utc_clock z" unfolding civil_dates_def using date mono by blast
  show "wall_order utc_clock z" unfolding wall_order_def using less by blast
  show "local_hours utc_clock z" unfolding local_hours_def using hour by (simp add: utc_clock_def)
qed

theorem aligned_periods_tile_witness:
  "let b = fixed_aligned_bounds utc_clock (1000 * hour_ns) (Week Monday \<lparr>wct_hour = 9, wct_minute = 30\<rparr>)
       (IanaTimeZone ''UTC'')
   in b = (945 * hour_ns + 1800 * ns_per_sec, 1113 * hour_ns + 1800 * ns_per_sec)
      \<and> fst (fixed_aligned_bounds utc_clock (snd b) (Week Monday \<lparr>wct_hour = 9, wct_minute = 30\<rparr>)
            (IanaTimeZone ''UTC'')) = snd b"
proof -
  let ?p = "Week Monday \<lparr>wct_hour = 9, wct_minute = 30\<rparr>"
  let ?b = "fixed_aligned_bounds utc_clock (1000 * hour_ns) ?p (IanaTimeZone ''UTC'')"
  have "back_to_weekday Monday 41 = 39"
    by (subst back_to_weekday.simps, simp add: date_weekday_def yesterday_def)+
  then have "?b = (945 * hour_ns + 1800 * ns_per_sec, 1113 * hour_ns + 1800 * ns_per_sec)"
    by (simp add: bounds_Week utc_clock_def day_bounds_def day_ns_def hour_ns_def ns_per_sec_def Let_def)
  then show ?thesis
    using aligned_periods_tile [of utc_clock "IanaTimeZone ''UTC''" ?p "1000 * hour_ns"] zone_utc
    by (simp add: valid_wall_def Let_def)
qed

text \<open>A clock with daylight saving: at 02:00 of day 0 the local time moves on to 03:00, and at 02:00 of day
  100 back to 01:00. A time of the gap resolves with the offset before it, one of the fold to its
  first pass.\<close>
definition dst_offset :: "instant \<Rightarrow> int" where
  "dst_offset t = (if 2 * hour_ns \<le> t \<and> t < 100 * day_ns + hour_ns then hour_ns else 0)"

definition dst_clock :: clock where
  "dst_clock = utc_clock\<lparr>clk_known_zone := (\<lambda>n. n = ''Demo/Summer''),
     clk_date := (\<lambda>t z. (t + dst_offset t) div day_ns),
     clk_at := (\<lambda>d w z.
       let l = d * day_ns + int (wct_hour w) * hour_ns + int (wct_minute w) * (60 * ns_per_sec)
       in if 3 * hour_ns \<le> l \<and> l < 100 * day_ns + 2 * hour_ns then l - hour_ns else l)\<rparr>"

lemma day_number: "d * day_ns \<le> t \<Longrightarrow> t < (d + 1) * day_ns \<Longrightarrow> t div day_ns = d"
  by (intro int_div_pos_eq [of _ _ _ "t - d * day_ns"]) (simp_all add: algebra_simps)

lemma zone_dst: "civil_dates dst_clock z" "local_hours dst_clock z"
proof -
  have date: "clk_date dst_clock (clk_at dst_clock d w z) z = d" if "valid_wall w" for d w
  proof -
    let ?r = "int (wct_hour w) * hour_ns + int (wct_minute w) * (60 * ns_per_sec)"
    let ?t = "clk_at dst_clock d w z"
    have r: "0 \<le> ?r" "?r < day_ns"
      using that by (simp_all add: valid_wall_def hour_ns_def day_ns_def ns_per_sec_def)
    have "?t + dst_offset ?t = d * day_ns + ?r \<or> d = 0 \<and> ?t + dst_offset ?t < 4 * hour_ns \<and> 0 \<le> ?t + dst_offset ?t"
      using r by (auto simp: dst_clock_def dst_offset_def Let_def hour_ns_def day_ns_def ns_per_sec_def)
    then have "d * day_ns \<le> ?t + dst_offset ?t" "?t + dst_offset ?t < (d + 1) * day_ns"
      using r by (auto simp: hour_ns_def day_ns_def ns_per_sec_def)
    then show ?thesis using day_number by (simp add: dst_clock_def)
  qed
  have mono: "clk_date dst_clock s z \<le> clk_date dst_clock t z" if "s \<le> t" for s t
  proof (cases "s + dst_offset s \<le> t + dst_offset t")
    case True
    then show ?thesis by (simp add: dst_clock_def zdiv_mono1 day_ns_def hour_ns_def ns_per_sec_def)
  next
    case False
    with that have "s + dst_offset s < 100 * day_ns + 2 * hour_ns" "100 * day_ns \<le> s + dst_offset s"
      "100 * day_ns \<le> t + dst_offset t" "t + dst_offset t < 100 * day_ns + 2 * hour_ns"
      by (auto simp: dst_offset_def hour_ns_def day_ns_def ns_per_sec_def split: if_splits)
    then have "(s + dst_offset s) div day_ns = 100" "(t + dst_offset t) div day_ns = 100"
      by (auto intro!: day_number simp: hour_ns_def day_ns_def ns_per_sec_def)
    then show ?thesis by (simp add: dst_clock_def)
  qed
  show "civil_dates dst_clock z" unfolding civil_dates_def using date mono by blast
  show "local_hours dst_clock z" using zone_utc(2) [of z] by (simp add: local_hours_def dst_clock_def)
qed

section \<open>The next working instant\<close>

definition in_working_hours :: "clock \<Rightarrow> WorkingHours \<Rightarrow> instant \<Rightarrow> bool" where
  "in_working_hours clk h t \<longleftrightarrow>
     (let d = clk_date clk t (wh_time_zone h)
      in clk_at clk d (wh_start h) (wh_time_zone h) \<le> t \<and> t < clk_at clk d (wh_end h) (wh_time_zone h))"

lemma start_of_day_in_hours:
  assumes "civil_dates clk (wh_time_zone h)" "wall_order clk (wh_time_zone h)"
    "valid_wall (wh_start h)" "valid_wall (wh_end h)" "wall_clock_less (wh_start h) (wh_end h)"
  shows "in_working_hours clk h (clk_at clk d (wh_start h) (wh_time_zone h))"
  using assms by (simp add: in_working_hours_def civil_dates_def wall_order_def Let_def)

text \<open>Between two instants of consecutive dates nothing is in hours before the later one's start.\<close>
lemma not_in_hours_before_start:
  assumes "civil_dates clk (wh_time_zone h)" "valid_wall (wh_start h)"
    and "t < clk_at clk d (wh_start h) (wh_time_zone h)" "d \<le> clk_date clk t (wh_time_zone h)"
  shows "\<not> in_working_hours clk h t"
proof -
  have "\<not> d < clk_date clk t (wh_time_zone h)"
    using civil_before [OF assms(1,2), of d t] assms(3) by auto
  with assms(4) have "clk_date clk t (wh_time_zone h) = d" by simp
  with assms(3) show ?thesis by (simp add: in_working_hours_def)
qed

text \<open>
  A task held for working hours is held exactly as long as it must be: the next working instant
  is never before now, lies inside working hours, and no instant between now and it does.
\<close>
theorem next_working_instant_earliest:
  assumes zone: "civil_dates clk (wh_time_zone h)" and order: "wall_order clk (wh_time_zone h)"
    and h: "WorkingHours_new tz s e = Inr h" and "valid_wall s" "valid_wall e"
  shows "now \<le> next_working_instant clk now h
       \<and> in_working_hours clk h (next_working_instant clk now h)
       \<and> (\<forall>t. now \<le> t \<and> t < next_working_instant clk now h \<longrightarrow> \<not> in_working_hours clk h t)"
proof -
  let ?z = "wh_time_zone h" and ?d = "clk_date clk now (wh_time_zone h)"
  from h assms(4,5) have wall: "valid_wall (wh_start h)" "valid_wall (wh_end h)"
    "wall_clock_less (wh_start h) (wh_end h)"
    by (auto simp: WorkingHours_new_def split: if_splits)
  note at_start = start_of_day_in_hours [OF zone order wall]
  have date_mono: "clk_date clk a ?z \<le> clk_date clk b ?z" if "a \<le> b" for a b
    using zone that by (simp add: civil_dates_def)
  note early = not_in_hours_before_start [OF zone wall(1)]
  consider (inside) "in_working_hours clk h now"
    | (early) "now < clk_at clk ?d (wh_start h) ?z" "\<not> in_working_hours clk h now"
    | (late) "clk_at clk ?d (wh_end h) ?z \<le> now" "\<not> now < clk_at clk ?d (wh_start h) ?z"
    by (force simp: in_working_hours_def Let_def)
  then show ?thesis
  proof cases
    case inside
    then show ?thesis by (auto simp: next_working_instant_def in_working_hours_def Let_def)
  next
    case early
    then have "next_working_instant clk now h = clk_at clk ?d (wh_start h) ?z"
      by (simp add: next_working_instant_def Let_def)
    with early at_start [of ?d] show ?thesis
      using not_in_hours_before_start [OF zone wall(1)] date_mono by auto
  next
    case late
    then have eq: "next_working_instant clk now h = clk_at clk (?d + 1) (wh_start h) ?z"
      by (auto simp: next_working_instant_def tomorrow_def Let_def)
    moreover have "now < clk_at clk (?d + 1) (wh_start h) ?z"
      by (rule civil_after [OF zone wall(1)]) simp
    moreover have "\<not> in_working_hours clk h t"
      if t: "now \<le> t" "t < clk_at clk (?d + 1) (wh_start h) ?z" for t
    proof (cases "clk_date clk t ?z = ?d")
      case True
      with late t show ?thesis by (simp add: in_working_hours_def Let_def)
    next
      case False
      with date_mono [OF t(1)] have "?d + 1 \<le> clk_date clk t ?z" by simp
      with not_in_hours_before_start [OF zone wall(1) t(2)] show ?thesis by simp
    qed
    ultimately show ?thesis using at_start [of "?d + 1"] by auto
  qed
qed

theorem next_working_instant_earliest_witness:
  "\<exists>h. WorkingHours_new (IanaTimeZone ''UTC'') \<lparr>wct_hour = 9, wct_minute = 0\<rparr> \<lparr>wct_hour = 17, wct_minute = 0\<rparr> = Inr h
     \<and> next_working_instant utc_clock (20 * hour_ns) h = 33 * hour_ns
     \<and> in_working_hours utc_clock h (33 * hour_ns)"
proof -
  let ?s = "\<lparr>wct_hour = 9, wct_minute = 0\<rparr>" and ?e = "\<lparr>wct_hour = 17, wct_minute = 0\<rparr>"
  let ?h = "\<lparr>wh_time_zone = IanaTimeZone ''UTC'', wh_start = ?s, wh_end = ?e\<rparr>"
  have h: "WorkingHours_new (IanaTimeZone ''UTC'') ?s ?e = Inr ?h"
    by (simp add: WorkingHours_new_def wall_clock_less_def)
  moreover have "next_working_instant utc_clock (20 * hour_ns) ?h = 33 * hour_ns"
    by (simp add: next_working_instant_def utc_clock_def day_ns_def hour_ns_def ns_per_sec_def
        tomorrow_def Let_def)
  ultimately show ?thesis
    using next_working_instant_earliest [OF zone_utc(1,3) h, of "20 * hour_ns"]
    by (auto simp: valid_wall_def)
qed

end
