(* ===== verification/Quota_Window.thy ===== *)
theory Quota_Window
  imports Quota_Calendar "HOL-Library.Product_Lexorder" "HOL-Library.Multiset"
begin

text \<open>
  Quota windows (\<open>crates/domain/src/quota_window/mod.rs\<close>) and their evaluation against evidence
  (\<open>quota_window/evaluate.rs\<close>): fixed aligned periods, sliding windows, refill buckets and opaque
  provider gauges. A timestamp is an \<open>OffsetDateTime\<close> (an instant with its UTC offset in seconds)
  until a constructor has validated it, and an instant afterwards, so the types of scopes and window
  kinds take the type of their timestamps as a parameter. The \<open>i128\<close> intermediates are integers
  with every saturation written out. Date arithmetic that panics outside the representable range of
  the \<open>time\<close> crate is \<open>None\<close>.
\<close>

section \<open>Windows\<close>

record OffsetDateTime =
  odt_instant :: instant
  odt_offset :: int

datatype 't WindowKind =
    FixedAligned AlignedPeriod IanaTimeZone u64
  | Sliding u64 u64
  | RefillBucket u64 u64 u64 't u64
  | OpaqueProviderSnapshot u64

record ProviderAccount =
  pac_provider :: string
  pac_account :: "string option"

datatype QuotaSubject = Principal PrincipalId | SharedPool PoolId | Provider ProviderAccount

datatype EntitlementSource = OperatorConfigured | ProviderDeclaredSource | ImportedSnapshot

record 't QuotaScope =
  qs_subject :: QuotaSubject
  qs_source :: EntitlementSource
  qs_confidence :: Confidence
  qs_observed_at :: 't
  qs_valid_until :: "'t option"

definition QUOTA_WINDOW_SCHEMA_VERSION :: string where
  "QUOTA_WINDOW_SCHEMA_VERSION = ''quota-window-v1''"

definition MAX_SLIDING_LENGTH_SECS :: u64 where
  "MAX_SLIDING_LENGTH_SECS = 100 * 365 * 24 * 3600"

definition normalize_utc_ms :: "OffsetDateTime \<Rightarrow> QuotaWindowError + instant" where
  "normalize_utc_ms value =
     (if odt_offset value \<noteq> 0 then Inl (NotUtc (odt_offset value))
      else Inr (odt_instant value - odt_instant value mod ns_per_ms))"

record QuotaWindow =
  qw_schema_version :: string
  qw_id :: uuid
  qw_scope :: "instant QuotaScope"
  qw_unit :: QuotaUnit
  qw_kind :: "instant WindowKind"

fun is_snapshot_kind :: "'t WindowKind \<Rightarrow> bool" where
  "is_snapshot_kind (OpaqueProviderSnapshot _) = True"
| "is_snapshot_kind _ = False"

fun validated_kind :: "OffsetDateTime WindowKind \<Rightarrow> QuotaWindowError + instant WindowKind" where
  "validated_kind (FixedAligned period time_zone limit) = Inr (FixedAligned period time_zone limit)"
| "validated_kind (Sliding length_secs limit) =
     (if length_secs = 0 then Inl (ZeroField ''length_secs'')
      else if MAX_SLIDING_LENGTH_SECS < length_secs
      then Inl (FieldOutOfRange ''length_secs'' length_secs MAX_SLIDING_LENGTH_SECS)
      else Inr (Sliding length_secs limit))"
| "validated_kind (RefillBucket capacity refill_amount refill_period_secs anchored_at level_at_anchor) =
     (if capacity = 0 then Inl (ZeroField ''capacity'')
      else if refill_amount = 0 then Inl (ZeroField ''refill_amount'')
      else if refill_period_secs = 0 then Inl (ZeroField ''refill_period_secs'')
      else if capacity < level_at_anchor then Inl (LevelExceedsCapacity level_at_anchor capacity)
      else rbind (normalize_utc_ms anchored_at) (\<lambda>anchor.
        Inr (RefillBucket capacity refill_amount refill_period_secs anchor level_at_anchor)))"
| "validated_kind (OpaqueProviderSnapshot max_staleness_secs) =
     (if max_staleness_secs = 0 then Inl (ZeroField ''max_staleness_secs'')
      else Inr (OpaqueProviderSnapshot max_staleness_secs))"

definition QuotaWindow_validated ::
    "uuid \<Rightarrow> OffsetDateTime QuotaScope \<Rightarrow> QuotaUnit \<Rightarrow> OffsetDateTime WindowKind
      \<Rightarrow> QuotaWindowError + QuotaWindow" where
  "QuotaWindow_validated wid scope unit kind =
     (if unit = Percent \<and> \<not> is_snapshot_kind kind then Inl PercentOnNonGaugeWindow
      else rbind (normalize_utc_ms (qs_observed_at scope)) (\<lambda>observed_at.
           rbind (transpose_opt (map_option normalize_utc_ms (qs_valid_until scope))) (\<lambda>valid_until.
           rbind (validated_kind kind) (\<lambda>kind'.
             Inr \<lparr>qw_schema_version = QUOTA_WINDOW_SCHEMA_VERSION, qw_id = wid,
               qw_scope = \<lparr>qs_subject = qs_subject scope, qs_source = qs_source scope,
                  qs_confidence = qs_confidence scope, qs_observed_at = observed_at,
                  qs_valid_until = valid_until\<rparr>,
               qw_unit = unit, qw_kind = kind'\<rparr>))))"

section \<open>Evidence\<close>

record QuotaUsage =
  qu_id :: uuid
  qu_occurred_at :: instant
  qu_amount :: QuotaAmount

definition QuotaUsage_new :: "uuid \<Rightarrow> OffsetDateTime \<Rightarrow> QuotaAmount \<Rightarrow> QuotaWindowError + QuotaUsage" where
  "QuotaUsage_new uid occurred_at amount =
     (if qa_unit amount = Percent then Inl PercentOnNonGaugeWindow
      else rbind (normalize_utc_ms occurred_at) (\<lambda>t.
        Inr \<lparr>qu_id = uid, qu_occurred_at = t, qu_amount = amount\<rparr>))"

record OutstandingHold =
  oh_id :: uuid
  oh_amount :: QuotaAmount

definition OutstandingHold_projected :: "uuid \<Rightarrow> QuotaAmount \<Rightarrow> OutstandingHold" where
  "OutstandingHold_projected hid amount = \<lparr>oh_id = hid, oh_amount = amount\<rparr>"

record ProviderSnapshot =
  ws_schema_version :: string
  ws_window_id :: uuid
  ws_observed_at :: instant
  ws_valid_until :: "instant option"
  ws_declared_reset_at :: "instant option"
  ws_reading :: GaugeReading
  ws_confidence :: Confidence

definition ProviderSnapshot_validated ::
    "uuid \<Rightarrow> OffsetDateTime \<Rightarrow> OffsetDateTime option \<Rightarrow> OffsetDateTime option \<Rightarrow> GaugeReading
      \<Rightarrow> Confidence \<Rightarrow> QuotaWindowError + ProviderSnapshot" where
  "ProviderSnapshot_validated window_id observed_at valid_until declared_reset_at reading confidence =
     (let made = rbind (normalize_utc_ms observed_at) (\<lambda>obs.
                 rbind (transpose_opt (map_option normalize_utc_ms valid_until)) (\<lambda>v.
                 rbind (transpose_opt (map_option normalize_utc_ms declared_reset_at)) (\<lambda>d.
                   Inr \<lparr>ws_schema_version = QUOTA_WINDOW_SCHEMA_VERSION, ws_window_id = window_id,
                     ws_observed_at = obs, ws_valid_until = v, ws_declared_reset_at = d,
                     ws_reading = reading, ws_confidence = confidence\<rparr>)))
      in case reading of
           Undisclosed \<Rightarrow> made
         | Used used limit \<Rightarrow>
             (case (qa_unit used = Percent, limit) of
                (True, Some _) \<Rightarrow> Inl GaugeUnexpectedLimit
              | (False, None) \<Rightarrow> Inl GaugeMissingLimit
              | _ \<Rightarrow> made))"

record QuotaEvidence =
  ev_usage :: "QuotaUsage list"
  ev_holds :: "OutstandingHold list"
  ev_snapshots :: "ProviderSnapshot list"

text \<open>\<open>filter(|x| seen.insert(key(x)))\<close>: the first of each key.\<close>
fun dedup_on :: "('a \<Rightarrow> 'k) \<Rightarrow> 'k list \<Rightarrow> 'a list \<Rightarrow> 'a list" where
  "dedup_on k seen [] = []"
| "dedup_on k seen (x # xs) =
     (if k x \<in> set seen then dedup_on k seen xs else x # dedup_on k (k x # seen) xs)"

definition dedup_usage_by_id :: "QuotaUsage list \<Rightarrow> QuotaUsage list" where
  "dedup_usage_by_id usage = dedup_on qu_id []
     (sort_key (\<lambda>u. (qu_id u, qu_occurred_at u, qa_value (qu_amount u))) usage)"

definition dedup_holds_by_id :: "OutstandingHold list \<Rightarrow> OutstandingHold list" where
  "dedup_holds_by_id holds = dedup_on oh_id [] holds"

section \<open>Evaluation results\<close>

datatype IndeterminateReason = NoSnapshot | SnapshotStale | SnapshotUndisclosed | NoDeclaredLimit
  | SnapshotUnitMismatch | EntitlementExpired | UnsupportedSchemaVersion

datatype BlockingStatus = Blocking | NotBlocking | Indeterminate IndeterminateReason

fun most_restrictive :: "BlockingStatus \<Rightarrow> BlockingStatus \<Rightarrow> BlockingStatus" where
  "most_restrictive Blocking _ = Blocking"
| "most_restrictive _ Blocking = Blocking"
| "most_restrictive (Indeterminate reason) _ = Indeterminate reason"
| "most_restrictive _ (Indeterminate reason) = Indeterminate reason"
| "most_restrictive NotBlocking NotBlocking = NotBlocking"

datatype Relief = ReliefNotBlocking | At instant | ProviderDeclared instant
  | AfterOutstandingHoldsSettle | ReliefUnknown

record PeriodState =
  ps_start :: instant
  ps_end :: instant
  ps_limit :: u64
  ps_settled :: u64
  ps_outstanding :: u64
  ps_remaining :: int
  ps_usage_records :: nat
  ps_relief :: Relief

record BucketState =
  bs_capacity :: u64
  bs_level :: int
  bs_outstanding :: u64
  bs_remaining :: int
  bs_usage_records :: nat
  bs_relief :: Relief

datatype StaleReason = PastValidUntil | ExceedsMaxStaleness

datatype GaugeFreshness = FreshNoSnapshot | Fresh | Stale StaleReason

record GaugeState =
  gs_freshness :: GaugeFreshness
  gs_latest :: "ProviderSnapshot option"
  gs_age_secs :: "u64 option"
  gs_relief :: Relief

definition trusted_reading :: "GaugeState \<Rightarrow> GaugeReading option" where
  "trusted_reading g = (if gs_freshness g = Fresh then map_option ws_reading (gs_latest g) else None)"

datatype WindowState = Period PeriodState | Bucket BucketState | Gauge GaugeState

record WindowEvaluation =
  we_window_id :: uuid
  we_evaluated_at :: instant
  we_state :: WindowState
  we_blocking :: BlockingStatus

section \<open>Evaluation\<close>

record PreparedEvidence =
  pe_usage :: "QuotaUsage list"
  pe_outstanding :: u64

definition usage_value :: "QuotaUsage \<Rightarrow> u64" where "usage_value u = qa_value (qu_amount u)"

text \<open>\<open>fold(0u64, |acc, x| acc.saturating_add(value(x)))\<close>.\<close>
definition saturating_total :: "('a \<Rightarrow> u64) \<Rightarrow> 'a list \<Rightarrow> u64" where
  "saturating_total f xs = fold (\<lambda>x acc. saturating_add acc (f x)) xs 0"

definition prepare :: "QuotaEvidence \<Rightarrow> QuotaWindow \<Rightarrow> instant \<Rightarrow> PreparedEvidence" where
  "prepare evidence window now =
     (let usage = filter (\<lambda>u. qa_unit (qu_amount u) = qw_unit window \<and> qu_occurred_at u \<le> now)
            (dedup_usage_by_id (ev_usage evidence));
          usage = sort_key (\<lambda>u. (qu_occurred_at u, qu_id u)) usage;
          holds = filter (\<lambda>h. qa_unit (oh_amount h) = qw_unit window)
            (dedup_holds_by_id (ev_holds evidence))
      in \<lparr>pe_usage = usage, pe_outstanding = saturating_total (\<lambda>h. qa_value (oh_amount h)) holds\<rparr>)"

definition remaining_i64 :: "u64 \<Rightarrow> u64 \<Rightarrow> u64 \<Rightarrow> int" where
  "remaining_i64 limit settled outstanding =
     clamp_i64 (uint limit - uint settled - uint outstanding)"

definition status_of :: "bool \<Rightarrow> BlockingStatus" where
  "status_of blocking_now = (if blocking_now then Blocking else NotBlocking)"

definition evaluate_period ::
    "clock \<Rightarrow> QuotaWindow \<Rightarrow> QuotaEvidence \<Rightarrow> instant \<Rightarrow> AlignedPeriod \<Rightarrow> IanaTimeZone \<Rightarrow> u64
      \<Rightarrow> WindowState \<times> BlockingStatus" where
  "evaluate_period clk window evidence now period time_zone limit =
     (let (start, end_at) = fixed_aligned_bounds clk now period time_zone;
          prepared = prepare evidence window now;
          in_period = filter (\<lambda>u. start \<le> qu_occurred_at u \<and> qu_occurred_at u < end_at) (pe_usage prepared);
          settled = saturating_total usage_value in_period;
          remaining = remaining_i64 limit settled (pe_outstanding prepared);
          blocking_now = (remaining \<le> 0);
          relief = (if limit \<le> pe_outstanding prepared then AfterOutstandingHoldsSettle
                    else if blocking_now then At end_at else ReliefNotBlocking)
      in (Period \<lparr>ps_start = start, ps_end = end_at, ps_limit = limit, ps_settled = settled,
            ps_outstanding = pe_outstanding prepared, ps_remaining = remaining,
            ps_usage_records = length in_period, ps_relief = relief\<rparr>,
          status_of blocking_now))"

text \<open>\<open>t + time::Duration\<close> panics outside the representable range.\<close>
definition length_ns :: "u64 \<Rightarrow> int" where "length_ns secs = sint secs * ns_per_sec"

text \<open>The walk over the in-window records: \<open>Some None\<close> when no record clears the block.\<close>
fun sliding_relief ::
    "clock \<Rightarrow> u64 \<Rightarrow> int \<Rightarrow> int \<Rightarrow> int \<Rightarrow> int \<Rightarrow> QuotaUsage list \<Rightarrow> instant option option" where
  "sliding_relief clk length_secs limit settled outstanding cumulative_cleared [] = Some None"
| "sliding_relief clk length_secs limit settled outstanding cumulative_cleared (usage # rest) =
     (let cumulative_cleared = cumulative_cleared + uint (usage_value usage);
          projected_settled = settled - cumulative_cleared;
          projected_remaining = limit - projected_settled - outstanding
      in if 0 < projected_remaining
         then map_option Some (clk_checked_add clk (qu_occurred_at usage) (length_ns length_secs))
         else sliding_relief clk length_secs limit settled outstanding cumulative_cleared rest)"

definition evaluate_sliding ::
    "clock \<Rightarrow> QuotaWindow \<Rightarrow> QuotaEvidence \<Rightarrow> instant \<Rightarrow> u64 \<Rightarrow> u64
      \<Rightarrow> (WindowState \<times> BlockingStatus) option" where
  "evaluate_sliding clk window evidence now length_secs limit =
     Option.bind (clk_checked_add clk now (- length_ns length_secs)) (\<lambda>window_start.
     let prepared = prepare evidence window now;
         in_window = filter (\<lambda>u. window_start < qu_occurred_at u \<and> qu_occurred_at u \<le> now) (pe_usage prepared);
         settled = saturating_total usage_value in_window;
         remaining = remaining_i64 limit settled (pe_outstanding prepared);
         blocking_now = (remaining \<le> 0)
     in Option.bind
          (if limit \<le> pe_outstanding prepared then Some AfterOutstandingHoldsSettle
           else if \<not> blocking_now then Some ReliefNotBlocking
           else map_option (\<lambda>relief_at. case relief_at of Some t \<Rightarrow> At t | None \<Rightarrow> ReliefUnknown)
             (sliding_relief clk length_secs (uint limit) (uint settled)
                (uint (pe_outstanding prepared)) 0 in_window))
        (\<lambda>relief.
          Some (Period \<lparr>ps_start = window_start, ps_end = now, ps_limit = limit, ps_settled = settled,
            ps_outstanding = pe_outstanding prepared, ps_remaining = remaining,
            ps_usage_records = length in_window, ps_relief = relief\<rparr>,
          status_of blocking_now)))"

definition whole_milliseconds :: "int \<Rightarrow> int" where
  "whole_milliseconds duration = tdiv duration ns_per_ms"

text \<open>Refill since the cursor, up to the capacity.\<close>
definition refilled :: "int \<Rightarrow> int \<Rightarrow> int \<Rightarrow> int \<Rightarrow> int" where
  "refilled refill_amount capacity_scaled level_scaled delta_ms =
     min (i128_sat (level_scaled + i128_sat (refill_amount * delta_ms))) capacity_scaled"

text \<open>The replay of the recorded usage: the level after the last record, and its instant.\<close>
fun bucket_replay ::
    "int \<Rightarrow> int \<Rightarrow> int \<Rightarrow> int \<Rightarrow> instant \<Rightarrow> QuotaUsage list \<Rightarrow> int \<times> instant" where
  "bucket_replay refill_amount period_ms capacity_scaled level_scaled cursor [] = (level_scaled, cursor)"
| "bucket_replay refill_amount period_ms capacity_scaled level_scaled cursor (usage # rest) =
     (let delta_ms = whole_milliseconds (qu_occurred_at usage - cursor);
          level_scaled = refilled refill_amount capacity_scaled level_scaled delta_ms;
          level_scaled = i128_sat (level_scaled - i128_sat (uint (usage_value usage) * period_ms))
      in bucket_replay refill_amount period_ms capacity_scaled level_scaled (qu_occurred_at usage) rest)"

definition bucket_relief ::
    "clock \<Rightarrow> instant \<Rightarrow> int \<Rightarrow> int \<Rightarrow> int \<Rightarrow> int \<Rightarrow> int \<Rightarrow> bool \<Rightarrow> Relief option" where
  "bucket_relief clk now capacity refill_amount period_ms outstanding level_scaled blocking_now =
     (if capacity < i128_sat (outstanding + 1) then Some AfterOutstandingHoldsSettle
      else if \<not> blocking_now then Some ReliefNotBlocking
      else
        let deficit_scaled = i128_sat (i128_sat (i128_sat (outstanding + 1) * period_ms) - level_scaled)
        in if deficit_scaled \<le> 0 then Some ReliefNotBlocking
           else if refill_amount = 0 then None
           else
             let ms_needed = tdiv (i128_sat (i128_sat (deficit_scaled + refill_amount) - 1)) refill_amount;
                 ms_needed_i64 = clamp 0 i64_max ms_needed
             in Some (case clk_checked_add clk now (ms_needed_i64 * ns_per_ms) of
                  Some t \<Rightarrow> At t | None \<Rightarrow> ReliefUnknown))"

definition evaluate_bucket ::
    "clock \<Rightarrow> QuotaWindow \<Rightarrow> QuotaEvidence \<Rightarrow> instant \<Rightarrow> u64 \<Rightarrow> u64 \<Rightarrow> u64 \<Rightarrow> instant \<Rightarrow> u64
      \<Rightarrow> (WindowState \<times> BlockingStatus) option" where
  "evaluate_bucket clk window evidence now capacity refill_amount refill_period_secs anchored_at
      level_at_anchor =
     (let prepared = prepare evidence window now;
          in_range = filter (\<lambda>u. anchored_at \<le> qu_occurred_at u \<and> qu_occurred_at u \<le> now) (pe_usage prepared);
          period_ms = i128_sat (uint refill_period_secs * 1000);
          capacity_scaled = i128_sat (uint capacity * period_ms);
          level_scaled = i128_sat (uint level_at_anchor * period_ms);
          (level_scaled, cursor) = bucket_replay (uint refill_amount) period_ms capacity_scaled level_scaled
             anchored_at in_range;
          tail_ms = whole_milliseconds (now - cursor);
          level_scaled = refilled (uint refill_amount) capacity_scaled level_scaled tail_ms
      in if period_ms = 0 then None
         else
           let level = level_scaled div period_ms;
               level_i64 = clamp_i64 level;
               remaining_128 = i128_sat (level - uint (pe_outstanding prepared));
               remaining = clamp_i64 remaining_128;
               blocking_now = (remaining \<le> 0)
           in map_option (\<lambda>relief.
                (Bucket \<lparr>bs_capacity = capacity, bs_level = level_i64,
                   bs_outstanding = pe_outstanding prepared, bs_remaining = remaining,
                   bs_usage_records = length in_range, bs_relief = relief\<rparr>,
                 status_of blocking_now))
              (bucket_relief clk now (uint capacity) (uint refill_amount) period_ms
                 (uint (pe_outstanding prepared)) level_scaled blocking_now))"

fun reading_rank :: "GaugeReading \<Rightarrow> u64" where
  "reading_rank Undisclosed = 0"
| "reading_rank (Used used _) = saturating_add (qa_value used) 1"

definition snapshot_rank :: "ProviderSnapshot \<Rightarrow> instant \<times> u64" where
  "snapshot_rank s = (ws_observed_at s, reading_rank (ws_reading s))"

text \<open>\<open>Iterator::max_by\<close>: the last of the greatest.\<close>
fun max_by_rank :: "ProviderSnapshot option \<Rightarrow> ProviderSnapshot list \<Rightarrow> ProviderSnapshot option" where
  "max_by_rank best [] = best"
| "max_by_rank None (s # ss) = max_by_rank (Some s) ss"
| "max_by_rank (Some b) (s # ss) =
     max_by_rank (Some (if snapshot_rank s < snapshot_rank b then b else s)) ss"

definition gauge_freshness :: "ProviderSnapshot \<Rightarrow> instant \<Rightarrow> u64 \<Rightarrow> GaugeFreshness" where
  "gauge_freshness latest now max_staleness_secs =
     (let age_secs = max0_u64 (tdiv (now - ws_observed_at latest) ns_per_sec)
      in if (case ws_valid_until latest of Some v \<Rightarrow> v \<le> now | None \<Rightarrow> False)
         then Stale PastValidUntil
         else if max_staleness_secs < age_secs then Stale ExceedsMaxStaleness
         else Fresh)"

definition gauge_blocking :: "QuotaUnit \<Rightarrow> GaugeFreshness \<Rightarrow> GaugeReading \<Rightarrow> BlockingStatus" where
  "gauge_blocking unit freshness reading =
     (case freshness of
        Stale PastValidUntil \<Rightarrow> Indeterminate SnapshotStale
      | Stale ExceedsMaxStaleness \<Rightarrow> Indeterminate SnapshotStale
      | FreshNoSnapshot \<Rightarrow> Indeterminate NoSnapshot
      | Fresh \<Rightarrow>
          (case reading of
             Undisclosed \<Rightarrow> Indeterminate SnapshotUndisclosed
           | Used used limit \<Rightarrow>
               if qa_unit used \<noteq> unit then Indeterminate SnapshotUnitMismatch
               else if limit = None \<and> qa_unit used \<noteq> Percent then Indeterminate NoDeclaredLimit
               else
                 let effective_limit = (case limit of Some l \<Rightarrow> l | None \<Rightarrow> 10000)
                 in status_of (effective_limit \<le> qa_value used)))"

definition evaluate_gauge ::
    "QuotaWindow \<Rightarrow> QuotaEvidence \<Rightarrow> instant \<Rightarrow> u64 \<Rightarrow> WindowState \<times> BlockingStatus" where
  "evaluate_gauge window evidence now max_staleness_secs =
     (let candidates = filter (\<lambda>s. ws_window_id s = qw_id window \<and> ws_observed_at s \<le> now)
            (ev_snapshots evidence)
      in case max_by_rank None candidates of
           None \<Rightarrow>
             (Gauge \<lparr>gs_freshness = FreshNoSnapshot, gs_latest = None, gs_age_secs = None,
                gs_relief = ReliefUnknown\<rparr>,
              Indeterminate NoSnapshot)
         | Some latest \<Rightarrow>
             let age_secs = max0_u64 (tdiv (now - ws_observed_at latest) ns_per_sec);
                 freshness = gauge_freshness latest now max_staleness_secs;
                 relief = (if freshness = Fresh
                   then (case ws_declared_reset_at latest of Some t \<Rightarrow> ProviderDeclared t | None \<Rightarrow> ReliefUnknown)
                   else ReliefUnknown)
             in (Gauge \<lparr>gs_freshness = freshness, gs_latest = Some latest, gs_age_secs = Some age_secs,
                   gs_relief = relief\<rparr>,
                 gauge_blocking (qw_unit window) freshness (ws_reading latest)))"

definition evaluate_kind ::
    "clock \<Rightarrow> QuotaWindow \<Rightarrow> QuotaEvidence \<Rightarrow> instant \<Rightarrow> (WindowState \<times> BlockingStatus) option" where
  "evaluate_kind clk window evidence now =
     (case qw_kind window of
        FixedAligned period time_zone limit \<Rightarrow>
          Some (evaluate_period clk window evidence now period time_zone limit)
      | Sliding length_secs limit \<Rightarrow> evaluate_sliding clk window evidence now length_secs limit
      | RefillBucket capacity refill_amount refill_period_secs anchored_at level_at_anchor \<Rightarrow>
          evaluate_bucket clk window evidence now capacity refill_amount refill_period_secs anchored_at
            level_at_anchor
      | OpaqueProviderSnapshot max_staleness_secs \<Rightarrow>
          Some (evaluate_gauge window evidence now max_staleness_secs))"

definition evaluate :: "clock \<Rightarrow> QuotaWindow \<Rightarrow> QuotaEvidence \<Rightarrow> instant \<Rightarrow> WindowEvaluation option" where
  "evaluate clk window evidence now =
     map_option (\<lambda>(state, blocking).
       \<lparr>we_window_id = qw_id window, we_evaluated_at = now, we_state = state,
        we_blocking =
          (case qs_valid_until (qw_scope window) of
             Some valid_until \<Rightarrow>
               if valid_until \<le> now
               then most_restrictive blocking (Indeterminate EntitlementExpired)
               else blocking
           | None \<Rightarrow> blocking)\<rparr>)
     (evaluate_kind clk window evidence now)"

section \<open>Deduplication and totals\<close>

lemma dedup_on_subset: "set (dedup_on k seen xs) \<subseteq> set xs"
  by (induction k seen xs rule: dedup_on.induct) auto

lemma dedup_on_keys: "k ` set (dedup_on k seen xs) = k ` set xs - set seen"
  by (induction k seen xs rule: dedup_on.induct) auto

lemma dedup_on_distinct: "distinct (map k (dedup_on k seen xs)) \<and> k ` set (dedup_on k seen xs) \<inter> set seen = {}"
  by (induction k seen xs rule: dedup_on.induct) auto


lemma dedup_on_set:
  assumes "inj_on k (set xs)"
  shows "set (dedup_on k [] xs) = set xs"
proof -
  have "k ` set (dedup_on k [] xs) = k ` set xs" by (simp add: dedup_on_keys)
  then show ?thesis using assms dedup_on_subset [of k "[]" xs] by (simp add: inj_on_image_eq_iff)
qed


lemma dedup_usage_distinct: "distinct (map qu_id (dedup_usage_by_id us))"
  by (simp add: dedup_usage_by_id_def dedup_on_distinct)

lemma dedup_usage_set: "inj_on qu_id (set us) \<Longrightarrow> set (dedup_usage_by_id us) = set us"
  by (simp add: dedup_usage_by_id_def dedup_on_set)


lemma uint_saturating_total:
  "uint (saturating_total f xs) = min (sum_col (\<lambda>x. uint (f x)) xs) u64_max"
proof -
  have "uint (fold (\<lambda>x acc. saturating_add acc (f x)) xs a)
      = min (uint a + sum_col (\<lambda>x. uint (f x)) xs) u64_max" for a
  proof (induction xs arbitrary: a)
    case Nil
    then show ?case using uint_u64_bounds [of a] by simp
  next
    case (Cons x xs)
    have "0 \<le> sum_col (\<lambda>x. uint (f x)) xs" by (rule sum_col_nonneg) simp
    then show ?case using Cons [of "saturating_add a (f x)"]
      by (simp add: uint_saturating_add min_def)
  qed
  from this [of 0] show ?thesis by (simp add: saturating_total_def)
qed

lemma saturating_total_exact:
  "sum_col (\<lambda>x. uint (f x)) xs \<le> u64_max \<Longrightarrow> uint (saturating_total f xs) = sum_col (\<lambda>x. uint (f x)) xs"
  by (simp add: uint_saturating_total)

text \<open>Saturation fails closed: capped totals block exactly when the exact ones do.\<close>
lemma remaining_nonpos_iff:
  "remaining_i64 limit (saturating_total f xs) (saturating_total g ys) \<le> 0 \<longleftrightarrow>
     uint limit \<le> sum_col (\<lambda>x. uint (f x)) xs + sum_col (\<lambda>y. uint (g y)) ys"
proof -
  have "0 \<le> sum_col (\<lambda>x. uint (f x)) xs" "0 \<le> sum_col (\<lambda>y. uint (g y)) ys"
    by (rule sum_col_nonneg, simp)+
  then show ?thesis
    using uint_u64_bounds [of limit]
    by (auto simp: remaining_i64_def clamp_i64_nonpos_iff uint_saturating_total min_def u64_max_def)
qed

lemma sum_col_set:
  "distinct (map k xs) \<Longrightarrow> sum_col f xs = sum f (set xs)"
  by (simp add: sum_col_def sum_list_distinct_conv_sum_set distinct_map)

section \<open>Prepared evidence\<close>

text \<open>Evidence in which an id names one record.\<close>
definition unambiguous :: "QuotaEvidence \<Rightarrow> bool" where
  "unambiguous ev \<longleftrightarrow> inj_on qu_id (set (ev_usage ev)) \<and> inj_on oh_id (set (ev_holds ev))"

text \<open>What was spent in a unit at the instants of \<open>P\<close>, and what is held, in unbounded arithmetic.\<close>
definition spent :: "QuotaUnit \<Rightarrow> QuotaUsage list \<Rightarrow> (instant \<Rightarrow> bool) \<Rightarrow> int" where
  "spent unit us P =
     (\<Sum>u \<in> {u \<in> set us. qa_unit (qu_amount u) = unit \<and> P (qu_occurred_at u)}. uint (usage_value u))"

definition held :: "QuotaUnit \<Rightarrow> OutstandingHold list \<Rightarrow> int" where
  "held unit hs = (\<Sum>h \<in> {h \<in> set hs. qa_unit (oh_amount h) = unit}. uint (qa_value (oh_amount h)))"

lemma spent_list:
  "distinct us \<Longrightarrow> spent unit us P = sum_col (\<lambda>u. uint (usage_value u))
     (filter (\<lambda>u. qa_unit (qu_amount u) = unit \<and> P (qu_occurred_at u)) us)"
  by (simp add: spent_def sum_col_def sum_list_distinct_conv_sum_set)

lemma held_list:
  "distinct hs \<Longrightarrow> held unit hs = sum_col (\<lambda>h. uint (qa_value (oh_amount h)))
     (filter (\<lambda>h. qa_unit (oh_amount h) = unit) hs)"
  by (simp add: held_def sum_col_def sum_list_distinct_conv_sum_set)

lemma spent_nonneg: "0 \<le> spent unit us P"
  by (simp add: spent_def sum_nonneg)

lemma held_nonneg: "0 \<le> held unit hs"
  by (simp add: held_def sum_nonneg)

lemma prepare_usage_sorted: "sorted (map qu_occurred_at (pe_usage (prepare ev w now)))"
proof -
  let ?us = "pe_usage (prepare ev w now)"
  have "sorted (map (\<lambda>u. (qu_occurred_at u, qu_id u)) ?us)" by (simp add: prepare_def Let_def)
  then show ?thesis
    by (auto simp: sorted_wrt_map less_eq_prod_def elim: sorted_wrt_mono_rel [rotated])
qed

lemma prepare_usage_distinct: "distinct (map qu_id (pe_usage (prepare ev w now)))"
proof -
  let ?xs = "filter (\<lambda>u. qa_unit (qu_amount u) = qw_unit w \<and> qu_occurred_at u \<le> now)
      (dedup_usage_by_id (ev_usage ev))"
  have "distinct (map qu_id ?xs)" by (rule distinct_map_filter) (rule dedup_usage_distinct)
  then have "distinct ?xs" "inj_on qu_id (set ?xs)" by (auto simp: distinct_map)
  then show ?thesis by (simp add: prepare_def Let_def distinct_map)
qed

lemma prepare_usage_set:
  "unambiguous ev \<Longrightarrow> set (pe_usage (prepare ev w now)) =
     {u \<in> set (ev_usage ev). qa_unit (qu_amount u) = qw_unit w \<and> qu_occurred_at u \<le> now}"
  by (auto simp: prepare_def Let_def unambiguous_def dedup_usage_set)

lemma sum_prepared_usage:
  assumes "unambiguous ev"
  shows "sum_col (\<lambda>u. uint (usage_value u)) (filter (\<lambda>u. P (qu_occurred_at u)) (pe_usage (prepare ev w now)))
       = spent (qw_unit w) (ev_usage ev) (\<lambda>t. P t \<and> t \<le> now)"
proof -
  have "distinct (map qu_id (filter (\<lambda>u. P (qu_occurred_at u)) (pe_usage (prepare ev w now))))"
    by (rule distinct_map_filter) (rule prepare_usage_distinct)
  then show ?thesis
    unfolding spent_def sum_col_set [where k = qu_id]
    by (subst sum_col_set [where k = qu_id]) (auto simp: prepare_usage_set [OF assms] intro!: sum.cong)
qed

lemma sum_prepared_holds:
  assumes "unambiguous ev"
  shows "sum_col (\<lambda>h. uint (qa_value (oh_amount h)))
           (filter (\<lambda>h. qa_unit (oh_amount h) = qw_unit w) (dedup_holds_by_id (ev_holds ev)))
       = held (qw_unit w) (ev_holds ev)"
proof -
  let ?hs = "filter (\<lambda>h. qa_unit (oh_amount h) = qw_unit w) (dedup_holds_by_id (ev_holds ev))"
  have "distinct (map oh_id ?hs)"
    by (rule distinct_map_filter) (simp add: dedup_holds_by_id_def dedup_on_distinct)
  moreover have "set ?hs = {h \<in> set (ev_holds ev). qa_unit (oh_amount h) = qw_unit w}"
    using assms by (auto simp: dedup_holds_by_id_def unambiguous_def dedup_on_set)
  ultimately show ?thesis by (simp add: sum_col_set held_def)
qed

lemma prepare_outstanding:
  "pe_outstanding (prepare ev w now) = saturating_total (\<lambda>h. qa_value (oh_amount h))
     (filter (\<lambda>h. qa_unit (oh_amount h) = qw_unit w) (dedup_holds_by_id (ev_holds ev)))"
  by (simp add: prepare_def Let_def)

lemma prepared_remaining_iff:
  assumes "unambiguous ev"
  shows "remaining_i64 limit
      (saturating_total usage_value (filter (\<lambda>u. P (qu_occurred_at u)) (pe_usage (prepare ev w now))))
      (pe_outstanding (prepare ev w now)) \<le> 0
    \<longleftrightarrow> uint limit \<le> spent (qw_unit w) (ev_usage ev) (\<lambda>t. P t \<and> t \<le> now) + held (qw_unit w) (ev_holds ev)"
  unfolding prepare_outstanding remaining_nonpos_iff
  by (simp only: sum_prepared_usage [OF assms] sum_prepared_holds [OF assms])

lemma outstanding_reaches_iff:
  assumes "unambiguous ev"
  shows "limit \<le> pe_outstanding (prepare ev w now) \<longleftrightarrow> uint limit \<le> held (qw_unit w) (ev_holds ev)"
  using uint_u64_bounds [of limit]
  by (simp add: prepare_outstanding word_le_def uint_saturating_total sum_prepared_holds [OF assms])

text \<open>Evaluating later, with no record dated after now, sees the same records.\<close>
lemma prepare_later:
  assumes "unambiguous ev" "\<forall>u \<in> set (ev_usage ev). qu_occurred_at u \<le> now" "now \<le> t"
  shows "prepare ev w t = prepare ev w now"
proof -
  have "\<forall>u \<in> set (dedup_usage_by_id (ev_usage ev)). qu_occurred_at u \<le> now"
    using assms(1,2) by (simp add: unambiguous_def dedup_usage_set)
  then have "filter (\<lambda>u. qa_unit (qu_amount u) = qw_unit w \<and> qu_occurred_at u \<le> t) (dedup_usage_by_id (ev_usage ev))
      = filter (\<lambda>u. qa_unit (qu_amount u) = qw_unit w \<and> qu_occurred_at u \<le> now) (dedup_usage_by_id (ev_usage ev))"
    using assms(3) by (intro filter_cong) auto
  then show ?thesis by (simp add: prepare_def Let_def)
qed

section \<open>Blocking is exact\<close>

text \<open>What the code relies on in the time crate: addition, when it is defined, adds; and the
  representable instants lie within some twenty thousand years of the epoch.\<close>
definition time_adds :: "clock \<Rightarrow> bool" where
  "time_adds clk \<longleftrightarrow> (\<forall>t d r. clk_checked_add clk t d = Some r \<longrightarrow> r = t + d \<and> \<bar>r\<bar> \<le> 10 ^ 21)"

lemma time_addsD: "time_adds clk \<Longrightarrow> clk_checked_add clk t d = Some r \<Longrightarrow> r = t + d"
  by (simp add: time_adds_def)

text \<open>The limit of a period or sliding window and the instants whose usage counts at \<open>now\<close>.\<close>
fun counting :: "clock \<Rightarrow> instant WindowKind \<Rightarrow> instant \<Rightarrow> (u64 \<times> (instant \<Rightarrow> bool)) option" where
  "counting clk (FixedAligned p z limit) now =
     Some (limit, \<lambda>t. fst (fixed_aligned_bounds clk now p z) \<le> t \<and> t < snd (fixed_aligned_bounds clk now p z))"
| "counting clk (Sliding len limit) now = Some (limit, \<lambda>t. now - length_ns len < t)"
| "counting clk _ now = None"

lemma evaluate_period_blocking:
  assumes "unambiguous ev" "counting clk (FixedAligned p z limit) now = Some (l, P)"
  shows "snd (evaluate_period clk w ev now p z limit) =
    status_of (uint l \<le> spent (qw_unit w) (ev_usage ev) (\<lambda>t. P t \<and> t \<le> now) + held (qw_unit w) (ev_holds ev))"
proof -
  obtain s e where b: "fixed_aligned_bounds clk now p z = (s, e)" by fastforce
  show ?thesis
    using assms(2) prepared_remaining_iff [OF assms(1), of limit "\<lambda>t. s \<le> t \<and> t < e" w now]
    by (auto simp: evaluate_period_def b Let_def)
qed

lemma evaluate_sliding_eq:
  assumes "time_adds clk" "evaluate_sliding clk w ev now len limit = Some (st, b)"
  shows "b = status_of (remaining_i64 limit (saturating_total usage_value
      (filter (\<lambda>u. now - length_ns len < qu_occurred_at u \<and> qu_occurred_at u \<le> now) (pe_usage (prepare ev w now))))
      (pe_outstanding (prepare ev w now)) \<le> 0)"
  using assms by (auto simp: evaluate_sliding_def Let_def bind_eq_Some_conv dest!: time_addsD)

lemma evaluate_sliding_blocking:
  assumes "time_adds clk" "unambiguous ev" "evaluate_sliding clk w ev now len limit = Some (st, b)"
  shows "b = status_of (uint limit \<le> spent (qw_unit w) (ev_usage ev) (\<lambda>t. now - length_ns len < t \<and> t \<le> now)
      + held (qw_unit w) (ev_holds ev))"
  unfolding evaluate_sliding_eq [OF assms(1,3)]
    prepared_remaining_iff [OF assms(2), of limit "\<lambda>t. now - length_ns len < t \<and> t \<le> now"]
  by (simp add: conj_ac)

text \<open>
  C22. Period and sliding windows block exactly when they must. Whatever the amounts, a window reports
  \<open>Blocking\<close> iff its limit is at most the exact sum, in unbounded arithmetic, of the distinct usage
  records of its unit inside the window and the distinct outstanding holds, and \<open>NotBlocking\<close>
  otherwise: the saturating 64-bit totals never make an exhausted window look free, nor a free one
  look exhausted.
\<close>
theorem window_blocks_exactly:
  assumes "time_adds clk" "unambiguous ev"
    and "counting clk (qw_kind w) now = Some (limit, P)"
    and "evaluate_kind clk w ev now = Some (state, blocking)"
  shows "blocking = (if uint limit \<le> spent (qw_unit w) (ev_usage ev) (\<lambda>t. P t \<and> t \<le> now)
                        + held (qw_unit w) (ev_holds ev)
                     then Blocking else NotBlocking)"
proof (cases "qw_kind w")
  case (FixedAligned p z l)
  with assms(3,4) evaluate_period_blocking [OF assms(2), of clk p z l now limit P w] show ?thesis
    by (auto simp: evaluate_kind_def status_of_def)
next
  case (Sliding len l)
  with assms(3,4) evaluate_sliding_blocking [OF assms(1,2), of w now len l state blocking] show ?thesis
    by (auto simp: evaluate_kind_def status_of_def)
qed (use assms(3) in auto)

definition demo_amount :: "u64 \<Rightarrow> QuotaAmount" where
  "demo_amount v = \<lparr>qa_unit = Tokens, qa_value = v\<rparr>"

definition demo_scope :: "instant QuotaScope" where
  "demo_scope = \<lparr>qs_subject = SharedPool ''p'', qs_source = OperatorConfigured, qs_confidence = High,
     qs_observed_at = 0, qs_valid_until = None\<rparr>"

definition demo_window :: "instant WindowKind \<Rightarrow> QuotaWindow" where
  "demo_window kind = \<lparr>qw_schema_version = QUOTA_WINDOW_SCHEMA_VERSION, qw_id = 7, qw_scope = demo_scope,
     qw_unit = Tokens, qw_kind = kind\<rparr>"

definition demo_usage :: "uuid \<Rightarrow> instant \<Rightarrow> u64 \<Rightarrow> QuotaUsage" where
  "demo_usage i t v = \<lparr>qu_id = i, qu_occurred_at = t, qu_amount = demo_amount v\<rparr>"

definition demo_evidence :: "u64 \<Rightarrow> QuotaEvidence" where
  "demo_evidence v = \<lparr>ev_usage = [demo_usage 2 (50 * ns_per_sec) v, demo_usage 1 (30 * ns_per_sec) 20],
     ev_holds = [\<lparr>oh_id = 1, oh_amount = demo_amount 5\<rparr>], ev_snapshots = []\<rparr>"

lemma time_adds_utc: "time_adds utc_clock"
  by (auto simp: time_adds_def utc_clock_def ns_per_sec_def split: if_splits)

lemma demo_evidence_unambiguous: "unambiguous (demo_evidence v)"
  by (simp add: unambiguous_def demo_evidence_def demo_usage_def)

lemmas demo_window_simps = demo_window_def demo_scope_def demo_evidence_def demo_usage_def demo_amount_def

lemmas window_eval_simps = evaluate_kind_def evaluate_sliding_def evaluate_bucket_def bucket_relief_def
  refilled_def whole_milliseconds_def tdiv_def i128_sat_def i128_max_def i128_min_def ns_per_ms_def
  demo_window_simps prepare_def Let_def utc_clock_def
  dedup_usage_by_id_def dedup_holds_by_id_def length_ns_def ns_per_sec_def saturating_total_def
  usage_value_def remaining_i64_def clamp_i64_def clamp_def status_of_def saturating_add_def
  i64_min_def i64_max_def u64_max_def

theorem window_blocks_exactly_witness:
  "\<exists>state. evaluate_kind utc_clock (demo_window (Sliding 60 100)) (demo_evidence 18446744073709551615) (100 * ns_per_sec)
     = Some (state, Blocking)"
proof -
  let ?w = "demo_window (Sliding 60 100)"
  have "evaluate_kind utc_clock ?w (demo_evidence 18446744073709551615) (100 * ns_per_sec) \<noteq> None"
    by (simp add: evaluate_kind_def evaluate_sliding_def demo_window_simps prepare_def Let_def utc_clock_def
        dedup_usage_by_id_def dedup_holds_by_id_def length_ns_def ns_per_sec_def)
  then obtain st b where "evaluate_kind utc_clock ?w (demo_evidence 18446744073709551615) (100 * ns_per_sec) = Some (st, b)" by auto
  with window_blocks_exactly [OF time_adds_utc demo_evidence_unambiguous [of 18446744073709551615], of ?w "100 * ns_per_sec" 100
      "\<lambda>t. 100 * ns_per_sec - length_ns 60 < t" st b]
  show ?thesis
    by (simp add: demo_window_simps spent_list held_list usage_value_def length_ns_def ns_per_sec_def)
qed

section \<open>Evidence is a set\<close>

lemma max_by_rank_Some:
  "max_by_rank (Some b) ss = Some m \<Longrightarrow>
     m \<in> set (b # ss) \<and> (\<forall>s \<in> set (b # ss). snapshot_rank s \<le> snapshot_rank m)"
proof (induction ss arbitrary: b)
  case (Cons s ss)
  let ?c = "if snapshot_rank s < snapshot_rank b then b else s"
  from Cons.IH [of ?c] Cons.prems have "m \<in> set (?c # ss)" "\<forall>x \<in> set (?c # ss). snapshot_rank x \<le> snapshot_rank m"
    by simp_all
  then show ?case by (auto split: if_splits intro: order.trans less_imp_le simp: not_less)
qed simp


lemma max_by_rank_best:
  "max_by_rank None ss = Some m \<Longrightarrow> m \<in> set ss \<and> (\<forall>s \<in> set ss. snapshot_rank s \<le> snapshot_rank m)"
  by (cases ss) (auto dest!: max_by_rank_Some)





section \<open>Gauges fail closed\<close>

lemma gauge_not_blocking:
  "gauge_blocking unit fr reading = NotBlocking \<longleftrightarrow>
     fr = Fresh \<and> (\<exists>used limit. reading = Used used limit \<and> qa_unit used = unit
       \<and> (limit = None \<longrightarrow> unit = Percent)
       \<and> qa_value used < (case limit of Some l \<Rightarrow> l | None \<Rightarrow> 10000))"
  by (auto simp: gauge_blocking_def status_of_def Let_def not_le
      split: GaugeFreshness.splits StaleReason.splits GaugeReading.splits option.splits if_splits)

lemma evaluate_not_blocking:
  "evaluate clk w ev now = Some e \<Longrightarrow> we_blocking e = NotBlocking \<Longrightarrow>
     (\<exists>st. evaluate_kind clk w ev now = Some (st, NotBlocking))
     \<and> (\<forall>v. qs_valid_until (qw_scope w) = Some v \<longrightarrow> now < v)"
proof -
  have mr: "most_restrictive b (Indeterminate r) \<noteq> NotBlocking" for b r by (cases b) auto
  assume "evaluate clk w ev now = Some e" "we_blocking e = NotBlocking"
  then show ?thesis by (auto simp: evaluate_def mr not_le split: option.splits if_splits)
qed

text \<open>
  C25. A gauge window never admits on missing, stale, foreign or undisclosed evidence, nor on an expired
  entitlement. It reports \<open>NotBlocking\<close> only if the entitlement has not expired and there is a snapshot
  of this very window, observed by now and at least as recent as every other one, that is within its
  own validity and at most \<open>max_staleness_secs\<close> old, and that discloses a use, in the window's
  unit, below the declared limit (or below 100 percent).
\<close>
theorem gauge_fails_closed:
  assumes "qw_kind w = OpaqueProviderSnapshot staleness"
    and "evaluate clk w ev now = Some e" "we_blocking e = NotBlocking"
    and "now \<le> 10 ^ 21" "\<forall>s \<in> set (ev_snapshots ev). - (10 ^ 21) \<le> ws_observed_at s"
  shows "(\<forall>v. qs_valid_until (qw_scope w) = Some v \<longrightarrow> now < v)
   \<and> (\<exists>s used limit. s \<in> set (ev_snapshots ev) \<and> ws_window_id s = qw_id w \<and> ws_observed_at s \<le> now
       \<and> (\<forall>s' \<in> set (ev_snapshots ev). ws_window_id s' = qw_id w \<longrightarrow> ws_observed_at s' \<le> now
            \<longrightarrow> ws_observed_at s' \<le> ws_observed_at s)
       \<and> (\<forall>v. ws_valid_until s = Some v \<longrightarrow> now < v)
       \<and> now - ws_observed_at s < (uint staleness + 1) * ns_per_sec
       \<and> ws_reading s = Used used limit \<and> qa_unit used = qw_unit w
       \<and> qa_value used < (case limit of Some l \<Rightarrow> l | None \<Rightarrow> 10000)
       \<and> (limit = None \<longrightarrow> qw_unit w = Percent))"
proof -
  note nb = evaluate_not_blocking [OF assms(2,3)]
  let ?sel = "filter (\<lambda>s. ws_window_id s = qw_id w \<and> ws_observed_at s \<le> now) (ev_snapshots ev)"
  from nb assms(1) obtain s where s: "max_by_rank None ?sel = Some s"
    "gauge_blocking (qw_unit w) (gauge_freshness s now staleness) (ws_reading s) = NotBlocking"
    by (auto simp: evaluate_kind_def evaluate_gauge_def Let_def split: option.splits)
  note best = max_by_rank_best [OF s(1)]
  from s(2) have fresh: "gauge_freshness s now staleness = Fresh" by (simp add: gauge_not_blocking)
  have age: "0 \<le> now - ws_observed_at s" "now - ws_observed_at s \<le> 2 * 10 ^ 21"
    using best assms(4,5) by auto
  then have "(now - ws_observed_at s) div ns_per_sec \<le> 2 * 10 ^ 21 div ns_per_sec"
    by (intro zdiv_mono1) (simp_all add: ns_per_sec_def)
  with age have "uint (max0_u64 (tdiv (now - ws_observed_at s) ns_per_sec)) = (now - ws_observed_at s) div ns_per_sec"
    by (subst uint_max0_u64) (simp_all add: tdiv_def ns_per_sec_def u64_max_def pos_imp_zdiv_nonneg_iff)
  with fresh have "(now - ws_observed_at s) div ns_per_sec \<le> uint staleness"
    by (auto simp: gauge_freshness_def Let_def word_less_def split: if_splits option.splits)
  then have "now - ws_observed_at s < (uint staleness + 1) * ns_per_sec"
    by (simp add: ns_per_sec_def)
  moreover have "\<forall>v. ws_valid_until s = Some v \<longrightarrow> now < v"
    using fresh by (auto simp: gauge_freshness_def Let_def split: if_splits)
  moreover have "\<forall>s' \<in> set ?sel. ws_observed_at s' \<le> ws_observed_at s"
    using best by (auto simp: snapshot_rank_def less_eq_prod_def)
  ultimately show ?thesis
    using nb best s(2) unfolding gauge_not_blocking by (intro conjI) (auto intro!: exI [of _ s])
qed

definition demo_snapshot :: ProviderSnapshot where
  "demo_snapshot = \<lparr>ws_schema_version = QUOTA_WINDOW_SCHEMA_VERSION, ws_window_id = 7,
     ws_observed_at = 50 * ns_per_sec, ws_valid_until = None, ws_declared_reset_at = None,
     ws_reading = Used (demo_amount 40) (Some 100), ws_confidence = High\<rparr>"

theorem gauge_fails_closed_witness:
  "\<exists>e. evaluate utc_clock (demo_window (OpaqueProviderSnapshot 60))
         ((demo_evidence 90)\<lparr>ev_snapshots := [demo_snapshot]\<rparr>) (100 * ns_per_sec) = Some e
     \<and> we_blocking e = NotBlocking
     \<and> (\<exists>s used limit. s \<in> {demo_snapshot} \<and> ws_reading s = Used used limit \<and> qa_value used < 100)"
proof -
  let ?w = "demo_window (OpaqueProviderSnapshot 60)"
    and ?ev = "(demo_evidence 90)\<lparr>ev_snapshots := [demo_snapshot]\<rparr>" and ?now = "100 * ns_per_sec"
  obtain e where e: "evaluate utc_clock ?w ?ev ?now = Some e" "we_blocking e = NotBlocking"
    by (simp add: evaluate_def evaluate_kind_def evaluate_gauge_def demo_window_simps demo_snapshot_def
        gauge_blocking_def gauge_freshness_def status_of_def Let_def max0_u64_def tdiv_def ns_per_sec_def)
  have "qw_kind ?w = OpaqueProviderSnapshot 60" by (simp add: demo_window_def)
  from gauge_fails_closed [OF this e] e show ?thesis
    by (auto simp: demo_snapshot_def demo_window_simps ns_per_sec_def)
qed

section \<open>Sliding windows: relief is the exact end of the block\<close>

abbreviation usage_sum :: "QuotaUsage list \<Rightarrow> int" where
  "usage_sum us \<equiv> sum_col (\<lambda>u. uint (usage_value u)) us"

lemma usage_sum_nonneg: "0 \<le> usage_sum us"
  by (rule sum_col_nonneg) simp

lemma sliding_relief_walk:
  assumes "time_adds clk" "sliding_relief clk len l s out c us = Some (Some t)" "l \<le> s - c + out"
  shows "\<exists>pre u post. us = pre @ u # post \<and> t = qu_occurred_at u + length_ns len
    \<and> l \<le> s - c - usage_sum pre + out \<and> s - c - usage_sum (pre @ [u]) + out < l"
  using assms(2,3)
proof (induction us arbitrary: c)
  case (Cons v vs)
  show ?case
  proof (cases "0 < l - (s - (c + uint (usage_value v))) - out")
    case True
    with Cons.prems have "clk_checked_add clk (qu_occurred_at v) (length_ns len) = Some t"
      by (simp add: Let_def)
    then have "t = qu_occurred_at v + length_ns len" by (rule time_addsD [OF assms(1)])
    with True Cons.prems(2) show ?thesis by (intro exI [of _ "[]"]) auto
  next
    case False
    with Cons.prems have "sliding_relief clk len l s out (c + uint (usage_value v)) vs = Some (Some t)"
      by (simp add: Let_def)
    from Cons.IH [OF this] False obtain pre u post where
      "vs = pre @ u # post" "t = qu_occurred_at u + length_ns len"
      "l \<le> s - (c + uint (usage_value v)) - usage_sum pre + out"
      "s - (c + uint (usage_value v)) - usage_sum (pre @ [u]) + out < l"
      by auto
    then show ?thesis by (intro exI [of _ "v # pre"] exI [of _ u] exI [of _ post]) (auto simp: algebra_simps)
  qed
qed simp

lemma sliding_relief_exhausted:
  "sliding_relief clk len l s out c us = Some None \<Longrightarrow> l \<le> s - c + out \<Longrightarrow> l \<le> s - c - usage_sum us + out"
proof (induction us arbitrary: c)
  case (Cons v vs)
  then have "\<not> 0 < l - (s - (c + uint (usage_value v))) - out"
    "sliding_relief clk len l s out (c + uint (usage_value v)) vs = Some None"
    by (auto simp: Let_def split: if_splits)
  with Cons.IH [of "c + uint (usage_value v)"] show ?case by (simp add: algebra_simps)
qed simp

lemma spent_until:
  assumes "\<forall>u \<in> set us. qu_occurred_at u \<le> now" "now \<le> t"
  shows "spent unit us (\<lambda>x. P x \<and> x \<le> t) = spent unit us (\<lambda>x. P x \<and> x \<le> now)"
  using assms unfolding spent_def by (intro sum.cong) auto

text \<open>Ageing of a sorted list of records.\<close>
lemma aged_sum:
  assumes "sorted (map qu_occurred_at (pre @ u # post))"
  shows "qu_occurred_at u \<le> a \<Longrightarrow>
      usage_sum (filter (\<lambda>x. a < qu_occurred_at x) (pre @ u # post)) \<le> usage_sum post"
    and "a < qu_occurred_at u \<Longrightarrow>
      usage_sum (u # post) \<le> usage_sum (filter (\<lambda>x. a < qu_occurred_at x) (pre @ u # post))"
proof -
  let ?P = "\<lambda>x. a < qu_occurred_at x"
  {
    assume "qu_occurred_at u \<le> a"
    with assms have "filter ?P pre = []" by (auto simp: sorted_append filter_empty_conv)
    with \<open>qu_occurred_at u \<le> a\<close> show "usage_sum (filter ?P (pre @ u # post)) \<le> usage_sum post"
      using sum_col_filter_le [of post "\<lambda>u. uint (usage_value u)" ?P] by simp
  next
    assume "a < qu_occurred_at u"
    with assms have "filter ?P post = post" by (auto simp: sorted_append filter_id_conv)
    with \<open>a < qu_occurred_at u\<close> show "usage_sum (u # post) \<le> usage_sum (filter ?P (pre @ u # post))"
      using usage_sum_nonneg [of "filter ?P pre"] by simp
  }
qed

text \<open>Where the walk stopped decides the block at every later instant.\<close>
lemma age_decides:
  assumes "sorted (map qu_occurred_at us)" "us = pre @ u # post"
    and "l \<le> usage_sum us - usage_sum pre + h" "usage_sum us - usage_sum (pre @ [u]) + h < l"
  shows "l \<le> usage_sum (filter (\<lambda>x. t - L < qu_occurred_at x) us) + h \<longleftrightarrow> t < qu_occurred_at u + L"
proof -
  let ?S = "usage_sum (filter (\<lambda>x. t - L < qu_occurred_at x) us)"
  have sums: "usage_sum us - usage_sum pre = usage_sum (u # post)"
    "usage_sum us - usage_sum (pre @ [u]) = usage_sum post"
    using assms(2) by simp_all
  show ?thesis
  proof (cases "t < qu_occurred_at u + L")
    case True
    then have "usage_sum (u # post) \<le> ?S"
      using aged_sum(2) [of pre u post "t - L"] assms(1,2) by simp
    with True assms(3) sums(1) show ?thesis by linarith
  next
    case False
    then have "?S \<le> usage_sum post"
      using aged_sum(1) [of pre u post "t - L"] assms(1,2) by simp
    with False assms(4) sums(2) show ?thesis by linarith
  qed
qed

lemma spent_sliding_later:
  assumes "unambiguous ev" "\<forall>u \<in> set (ev_usage ev). qu_occurred_at u \<le> now" "now \<le> t"
  shows "spent (qw_unit w) (ev_usage ev) (\<lambda>x. t - L < x \<and> x \<le> t)
    = usage_sum (filter (\<lambda>x. t - L < qu_occurred_at x)
        (filter (\<lambda>u. now - L < qu_occurred_at u \<and> qu_occurred_at u \<le> now) (pe_usage (prepare ev w now))))"
proof -
  have "spent (qw_unit w) (ev_usage ev) (\<lambda>x. t - L < x \<and> x \<le> t)
      = usage_sum (filter (\<lambda>x. t - L < qu_occurred_at x) (pe_usage (prepare ev w now)))"
    unfolding spent_until [OF assms(2,3)] sum_prepared_usage [OF assms(1), of "\<lambda>x. t - L < x"] by simp
  also have "filter (\<lambda>x. t - L < qu_occurred_at x) (pe_usage (prepare ev w now))
      = filter (\<lambda>x. t - L < qu_occurred_at x)
          (filter (\<lambda>u. now - L < qu_occurred_at u \<and> qu_occurred_at u \<le> now) (pe_usage (prepare ev w now)))"
    using assms(3) prepare_usage_set [OF assms(1), of w now] by (auto intro!: filter_cong)
  finally show ?thesis .
qed

lemma sliding_relief_case:
  assumes "time_adds clk" "evaluate_sliding clk w ev now len limit = Some (Period p, Blocking)"
    and "\<not> limit \<le> pe_outstanding (prepare ev w now)"
  shows "\<exists>r. sliding_relief clk len (uint limit)
      (uint (saturating_total usage_value (filter (\<lambda>u. now - length_ns len < qu_occurred_at u \<and> qu_occurred_at u \<le> now)
         (pe_usage (prepare ev w now)))))
      (uint (pe_outstanding (prepare ev w now))) 0
      (filter (\<lambda>u. now - length_ns len < qu_occurred_at u \<and> qu_occurred_at u \<le> now) (pe_usage (prepare ev w now))) = Some r
    \<and> ps_relief p = (case r of Some t \<Rightarrow> At t | None \<Rightarrow> ReliefUnknown)"
proof -
  from assms(2) obtain ws where ws: "clk_checked_add clk now (- length_ns len) = Some ws"
    by (auto simp: evaluate_sliding_def bind_eq_Some_conv)
  then have "ws = now - length_ns len" using time_addsD [OF assms(1)] by fastforce
  with ws assms(2,3) show ?thesis
    by (auto simp: evaluate_sliding_def Let_def bind_eq_Some_conv status_of_def split: if_splits)
qed

text \<open>
  C23. The relief instant of a sliding window is exact. When such a window blocks, and the outstanding
  holds alone do not fill it, the window names an instant in the future; and with the evidence
  unchanged, evaluating it at any later time finds it blocking before that instant and not
  blocking from that instant on. (The spend inside the window is assumed to fit a 64-bit integer.)
\<close>
theorem sliding_relief_is_exact:
  assumes clk: "time_adds clk" and ev: "unambiguous ev" and kind: "qw_kind w = Sliding len limit"
    and past: "\<forall>u \<in> set (ev_usage ev). qu_occurred_at u \<le> now"
    and fits: "spent (qw_unit w) (ev_usage ev) (\<lambda>t. True) \<le> u64_max"
    and blocked: "evaluate_kind clk w ev now = Some (Period p, Blocking)"
    and room: "held (qw_unit w) (ev_holds ev) < uint limit"
  shows "\<exists>t. ps_relief p = At t \<and> now < t
     \<and> (\<forall>t' st b. now \<le> t' \<longrightarrow> evaluate_kind clk w ev t' = Some (st, b)
          \<longrightarrow> b = (if t' < t then Blocking else NotBlocking))"
proof -
  let ?L = "length_ns len" and ?held = "held (qw_unit w) (ev_holds ev)"
  let ?prep = "prepare ev w now"
  define us where "us = filter (\<lambda>u. now - ?L < qu_occurred_at u \<and> qu_occurred_at u \<le> now) (pe_usage ?prep)"
  have ev_now: "evaluate_sliding clk w ev now len limit = Some (Period p, Blocking)"
    using blocked kind by (simp add: evaluate_kind_def)
  have sum_us: "usage_sum us = spent (qw_unit w) (ev_usage ev) (\<lambda>t. now - ?L < t \<and> t \<le> now)"
    unfolding us_def sum_prepared_usage [OF ev, of "\<lambda>t. now - ?L < t \<and> t \<le> now"] by (simp add: conj_ac)
  have "usage_sum us \<le> spent (qw_unit w) (ev_usage ev) (\<lambda>t. True)"
    unfolding sum_us spent_def by (intro sum_mono2) auto
  then have settled: "uint (saturating_total usage_value us) = usage_sum us"
    using fits by (intro saturating_total_exact) simp
  have outst: "uint (pe_outstanding ?prep) = ?held"
    using room uint_u64_bounds [of limit]
    by (simp add: prepare_outstanding uint_saturating_total sum_prepared_holds [OF ev])
  have start: "uint limit \<le> usage_sum us - 0 + ?held"
    using evaluate_sliding_blocking [OF clk ev ev_now] sum_us by (simp add: status_of_def split: if_splits)
  have "\<not> limit \<le> pe_outstanding ?prep" using room outst by (simp add: word_le_def)
  from sliding_relief_case [OF clk ev_now this] obtain r where
    r: "sliding_relief clk len (uint limit) (usage_sum us) ?held 0 us = Some r"
      "ps_relief p = (case r of Some t \<Rightarrow> At t | None \<Rightarrow> ReliefUnknown)"
    unfolding us_def [symmetric] settled outst by blast
  have "r \<noteq> None" using sliding_relief_exhausted [of clk len "uint limit" "usage_sum us" ?held 0 us] r(1) start room by auto
  then obtain t where t: "r = Some t" by blast
  with sliding_relief_walk [OF clk _ start, of len us t] r(1) obtain pre u post where
    split: "us = pre @ u # post" "t = qu_occurred_at u + ?L"
      "uint limit \<le> usage_sum us - usage_sum pre + ?held"
      "usage_sum us - usage_sum (pre @ [u]) + ?held < uint limit" by auto
  have srt: "sorted (map qu_occurred_at us)"
    unfolding us_def by (rule sorted_filter) (rule prepare_usage_sorted)
  have "u \<in> set us" using split(1) by simp
  then have "now < t" using split(2) by (auto simp: us_def)
  moreover have "b = (if t' < t then Blocking else NotBlocking)"
    if later: "now \<le> t'" and ev': "evaluate_kind clk w ev t' = Some (st, b)" for t' st b
  proof -
    have "evaluate_sliding clk w ev t' len limit = Some (st, b)"
      using ev' kind by (simp add: evaluate_kind_def)
    from evaluate_sliding_blocking [OF clk ev this] show ?thesis
      unfolding spent_sliding_later [OF ev past later] us_def [symmetric]
        age_decides [OF srt split(1,3,4)] split(2) by (simp add: status_of_def)
  qed
  ultimately show ?thesis using r(2) t by auto
qed

theorem sliding_relief_is_exact_witness:
  "\<exists>p st. evaluate_kind utc_clock (demo_window (Sliding 60 100)) (demo_evidence 90) (80 * ns_per_sec)
        = Some (Period p, Blocking)
     \<and> ps_relief p = At (90 * ns_per_sec)
     \<and> evaluate_kind utc_clock (demo_window (Sliding 60 100)) (demo_evidence 90) (90 * ns_per_sec)
        = Some (st, NotBlocking)"
proof -
  let ?w = "demo_window (Sliding 60 100)" and ?ev = "demo_evidence 90" and ?now = "80 * ns_per_sec"
  have kind: "qw_kind ?w = Sliding 60 100" by (simp add: demo_window_def)
  obtain p where p: "evaluate_kind utc_clock ?w ?ev ?now = Some (Period p, Blocking)"
    "ps_relief p = At (90 * ns_per_sec)"
    by (simp add: window_eval_simps)
  obtain st b where later: "evaluate_kind utc_clock ?w ?ev (90 * ns_per_sec) = Some (st, b)"
    by (simp add: window_eval_simps)
  have past: "\<forall>u \<in> set (ev_usage ?ev). qu_occurred_at u \<le> ?now"
    by (simp add: demo_window_simps ns_per_sec_def)
  have fits: "spent (qw_unit ?w) (ev_usage ?ev) (\<lambda>t. True) \<le> u64_max"
    and room: "held (qw_unit ?w) (ev_holds ?ev) < uint (100 :: u64)"
    by (simp_all add: demo_window_simps spent_list held_list usage_value_def u64_max_def)
  from sliding_relief_is_exact [OF time_adds_utc demo_evidence_unambiguous kind past fits p(1) room]
  obtain t where t: "ps_relief p = At t" "\<forall>t' st b. ?now \<le> t' \<longrightarrow>
      evaluate_kind utc_clock ?w ?ev t' = Some (st, b) \<longrightarrow> b = (if t' < t then Blocking else NotBlocking)"
    by blast
  from t(1) p(2) have "t = 90 * ns_per_sec" by simp
  with t(2) [rule_format, OF _ later] have "b = NotBlocking" by (simp add: ns_per_sec_def)
  with p later show ?thesis by blast
qed

section \<open>Refill buckets and aligned periods: relief is honest\<close>

text \<open>Saturation is harmless while the capacity and the recorded debt fit \<open>i128\<close>.\<close>
lemma refilled_exact:
  assumes "cap \<le> i128_max" "0 \<le> r * d" "i128_min \<le> x" "cap \<le> x + i128_max"
  shows "refilled r cap x d = min (x + r * d) cap"
  using assms by (auto simp: refilled_def i128_sat_def clamp_def min_def i128_min_def i128_max_def)

lemma whole_milliseconds_nonneg: "0 \<le> d \<Longrightarrow> 0 \<le> whole_milliseconds d"
  by (simp add: whole_milliseconds_def tdiv_def ns_per_ms_def pos_imp_zdiv_nonneg_iff)

lemma whole_milliseconds_add:
  "0 \<le> d \<Longrightarrow> 0 \<le> k \<Longrightarrow> whole_milliseconds (d + k * ns_per_ms) = whole_milliseconds d + k"
  by (simp add: whole_milliseconds_def tdiv_def ns_per_ms_def)

lemma bucket_replay_bounds:
  assumes "0 < P" "0 \<le> r" "0 \<le> cap" "0 \<le> D" "cap + (D + usage_sum us) * P \<le> i128_max"
    and "- (D * P) \<le> x" "x \<le> cap" "sorted (map qu_occurred_at us)"
    and "\<forall>u \<in> set us. c \<le> qu_occurred_at u \<and> qu_occurred_at u \<le> now" "c \<le> now"
    and "bucket_replay r P cap x c us = (y, c')"
  shows "- ((D + usage_sum us) * P) \<le> y \<and> y \<le> cap \<and> c' \<le> now"
  using assms(4-)
proof (induction us arbitrary: D x c)
  case (Cons u us)
  let ?v = "uint (usage_value u)" and ?d = "whole_milliseconds (qu_occurred_at u - c)"
  let ?x = "refilled r cap x ?d"
  have nn: "0 \<le> usage_sum us" "0 \<le> ?v" by (simp_all add: usage_sum_nonneg)
  then have DP: "0 \<le> D * P" "0 \<le> usage_sum us * P" "0 \<le> ?v * P" using Cons.prems assms(1) by simp_all
  have fits: "cap + (D * P + ?v * P + usage_sum us * P) \<le> i128_max"
    using Cons.prems(2) by (simp add: algebra_simps)
  have "?x = min (x + r * ?d) cap"
    using Cons.prems DP fits assms(2,3) whole_milliseconds_nonneg [of "qu_occurred_at u - c"]
    by (intro refilled_exact) (auto simp: i128_min_def i128_max_def)
  moreover have "0 \<le> r * ?d"
    using assms(2) Cons.prems(6) whole_milliseconds_nonneg [of "qu_occurred_at u - c"] by simp
  ultimately have x: "- (D * P) \<le> ?x" "?x \<le> cap"
    using Cons.prems(3,4) DP assms(3) by (auto simp: min_def)
  have "i128_sat (?v * P) = ?v * P" using fits DP assms(3) by (intro i128_sat_id) (auto simp: i128_min_def)
  moreover have "i128_sat (?x - ?v * P) = ?x - ?v * P"
    using fits x DP assms(3) by (intro i128_sat_id) (auto simp: i128_min_def i128_max_def)
  ultimately have "bucket_replay r P cap (?x - ?v * P) (qu_occurred_at u) us = (y, c')"
    using Cons.prems(8) by (simp add: Let_def)
  moreover have "- ((D + ?v) * P) \<le> ?x - ?v * P" "?x - ?v * P \<le> cap"
    using x DP by (simp_all add: algebra_simps)
  ultimately have "- ((D + ?v + usage_sum us) * P) \<le> y \<and> y \<le> cap \<and> c' \<le> now"
    using Cons.prems nn by (intro Cons.IH) (auto simp: algebra_simps)
  then show ?case by (simp add: algebra_simps)
qed simp

text \<open>The scaled level at \<open>now\<close>, as a function of the level after the last record.\<close>
definition bucket_level_at :: "u64 \<Rightarrow> u64 \<Rightarrow> u64 \<Rightarrow> instant \<Rightarrow> u64 \<Rightarrow> QuotaUsage list \<Rightarrow> instant \<Rightarrow> int" where
  "bucket_level_at capacity refill secs anchor lvl us now =
     (let P = i128_sat (uint secs * 1000);
          (x, c) = bucket_replay (uint refill) P (i128_sat (uint capacity * P)) (i128_sat (uint lvl * P)) anchor us
      in refilled (uint refill) (i128_sat (uint capacity * P)) x (whole_milliseconds (now - c)))"

lemma i128_period: "i128_sat (uint (secs :: u64) * 1000) = uint secs * 1000"
  by (intro i128_sat_id, unfold i128_min_def i128_max_def)
    (use uint_u64_bounds [of secs] in \<open>unfold u64_max_def, linarith+\<close>)

lemma evaluate_bucket_split:
  "evaluate_bucket clk w ev now capacity refill secs anchor lvl =
     (if secs = 0 then None
      else let us = filter (\<lambda>u. anchor \<le> qu_occurred_at u \<and> qu_occurred_at u \<le> now) (pe_usage (prepare ev w now));
               L = bucket_level_at capacity refill secs anchor lvl us now;
               out = uint (pe_outstanding (prepare ev w now));
               level = L div (uint secs * 1000);
               b = (clamp_i64 (i128_sat (level - out)) \<le> 0)
           in map_option (\<lambda>relief.
                (Bucket \<lparr>bs_capacity = capacity, bs_level = clamp_i64 level,
                   bs_outstanding = pe_outstanding (prepare ev w now),
                   bs_remaining = clamp_i64 (i128_sat (level - out)),
                   bs_usage_records = length us, bs_relief = relief\<rparr>, status_of b))
              (bucket_relief clk now (uint capacity) (uint refill) (uint secs * 1000) out L b))"
  by (simp add: evaluate_bucket_def bucket_level_at_def Let_def i128_period case_prod_unfold uint_0_iff)

lemma bucket_level_exact:
  assumes "secs \<noteq> 0" "lvl \<le> capacity" "anchor \<le> now"
    and "(uint capacity + usage_sum us) * (uint secs * 1000) \<le> i128_max"
    and "sorted (map qu_occurred_at us)" "\<forall>u \<in> set us. anchor \<le> qu_occurred_at u \<and> qu_occurred_at u \<le> now"
  shows "\<exists>y c. c \<le> now \<and> (\<forall>t. now \<le> t \<longrightarrow> bucket_level_at capacity refill secs anchor lvl us t
      = min (y + uint refill * whole_milliseconds (t - c)) (uint capacity * (uint secs * 1000)))
    \<and> - (usage_sum us * (uint secs * 1000)) \<le> y"
proof -
  let ?P = "uint secs * 1000" and ?cap = "uint capacity * (uint secs * 1000)"
  have P: "0 < ?P" using assms(1) by (simp add: word_gt_0 uint_0_iff order.strict_iff_order)
  then have nn: "0 \<le> ?cap" "0 \<le> usage_sum us * ?P" "0 \<le> uint lvl * ?P"
    by (simp_all add: usage_sum_nonneg)
  have fits: "?cap + usage_sum us * ?P \<le> i128_max" using assms(4) by (simp add: algebra_simps)
  have "uint lvl * ?P \<le> ?cap" using assms(2) P by (simp add: word_le_def)
  with nn fits have sat: "i128_sat ?cap = ?cap" "i128_sat (uint lvl * ?P) = uint lvl * ?P"
    by (intro i128_sat_nonneg; linarith)+
  obtain y c where yc: "bucket_replay (uint refill) ?P ?cap (uint lvl * ?P) anchor us = (y, c)" by fastforce
  have b: "- ((0 + usage_sum us) * ?P) \<le> y \<and> y \<le> ?cap \<and> c \<le> now"
    using P nn fits \<open>uint lvl * ?P \<le> ?cap\<close> assms(3,5,6) yc
    by (intro bucket_replay_bounds [where r = "uint refill" and x = "uint lvl * ?P" and c = anchor]) auto
  then have b': "- (usage_sum us * ?P) \<le> y" "c \<le> now" by simp_all
  have "bucket_level_at capacity refill secs anchor lvl us t = min (y + uint refill * whole_milliseconds (t - c)) ?cap"
    if "now \<le> t" for t
  proof -
    have "0 \<le> uint refill * whole_milliseconds (t - c)"
      using b that whole_milliseconds_nonneg [of "t - c"] by simp
    then have "refilled (uint refill) ?cap y (whole_milliseconds (t - c))
        = min (y + uint refill * whole_milliseconds (t - c)) ?cap"
      by (intro refilled_exact, unfold i128_min_def i128_max_def)
        (use fits nn b' in \<open>unfold i128_max_def, linarith+\<close>)
    then show ?thesis by (simp add: bucket_level_at_def i128_period sat yc)
  qed
  with b show ?thesis by auto
qed

text \<open>Rounding a quotient up.\<close>
lemma ceil_quotient:
  fixes a r :: int
  assumes "0 < r" "0 < a"
  shows "a \<le> r * tdiv (a + r - 1) r" "0 < tdiv (a + r - 1) r"
proof -
  have q: "tdiv (a + r - 1) r = (a + r - 1) div r" using assms by (simp add: tdiv_def)
  have "a + r - 1 = r * ((a + r - 1) div r) + (a + r - 1) mod r" by simp
  moreover have "(a + r - 1) mod r < r" using assms(1) by simp
  ultimately show "a \<le> r * tdiv (a + r - 1) r" unfolding q by linarith
  then show "0 < tdiv (a + r - 1) r" using assms
    by (metis order.strict_trans2 zero_less_mult_pos)
qed

text \<open>The relief a blocked bucket names is late enough.\<close>
lemma bucket_relief_reaches:
  assumes clk: "time_adds clk" "\<bar>now\<bar> \<le> 10 ^ 21"
    and relief: "bucket_relief clk now cap r P out L True = Some (At t)"
    and bounds: "0 < P" "0 \<le> out" "out \<le> u64_max" "0 \<le> r" "0 \<le> cap * P" "cap * P + r \<le> i128_max"
      "cap * P + r - L \<le> i128_max" "L \<le> cap * P"
  shows "\<exists>k > 0. t = now + k * ns_per_ms \<and> (out + 1) * P \<le> L + r * k \<and> (out + 1) * P \<le> cap * P"
proof -
  let ?need = "(out + 1) * P"
  have out: "i128_sat (out + 1) = out + 1"
    using bounds(2,3) by (intro i128_sat_nonneg) (simp_all add: u64_max_def i128_max_def)
  with relief have "out + 1 \<le> cap" by (auto simp: bucket_relief_def split: if_splits)
  then have need: "?need \<le> cap * P" "0 \<le> ?need" using bounds(1,2) by (simp_all add: mult_right_mono)
  have "i128_sat ?need = ?need" by (intro i128_sat_nonneg) (use need bounds in linarith)+
  moreover have "i128_sat (?need - L) = ?need - L"
    by (intro i128_sat_id, unfold i128_min_def) (use need bounds in \<open>unfold i128_max_def, linarith+\<close>)
  ultimately have deficit: "i128_sat (i128_sat (i128_sat (out + 1) * P) - L) = ?need - L" using out by simp
  with relief have pos: "0 < ?need - L" "r \<noteq> 0"
    by (auto simp: bucket_relief_def Let_def split: if_splits)
  with bounds have r: "0 < r" by simp
  let ?ms = "tdiv (?need - L + r - 1) r"
  have "i128_sat (?need - L + r) = ?need - L + r"
    by (intro i128_sat_nonneg) (use pos r need bounds in linarith)+
  moreover have "i128_sat (?need - L + r - 1) = ?need - L + r - 1"
    by (intro i128_sat_nonneg) (use pos r need bounds in linarith)+
  ultimately have "i128_sat (i128_sat (?need - L + r) - 1) = ?need - L + r - 1" by simp
  with relief deficit out pos \<open>out + 1 \<le> cap\<close> have
    "clk_checked_add clk now (clamp 0 i64_max ?ms * ns_per_ms) = Some t"
    by (auto simp: bucket_relief_def Let_def split: if_splits option.splits)
  with clk(1) have t: "t = now + clamp 0 i64_max ?ms * ns_per_ms" "\<bar>t\<bar> \<le> 10 ^ 21"
    by (auto simp: time_adds_def)
  have "clamp 0 i64_max ?ms = ?ms"
    using t clk(2) ceil_quotient(2) [OF r pos(1)]
    by (auto simp: clamp_def i64_max_def ns_per_ms_def split: if_splits)
  with t ceil_quotient [OF r pos(1)] need show ?thesis by (intro exI [of _ ?ms]) auto
qed

lemma period_relief_honest:
  assumes zone: "period_near clk z now p" and ev: "unambiguous ev"
    and past: "\<forall>u \<in> set (ev_usage ev). qu_occurred_at u \<le> now"
    and st: "fst (evaluate_period clk w ev now p z limit) = Period ps" "ps_relief ps = At t"
  shows "now < t \<and> snd (evaluate_period clk w ev t p z limit) = NotBlocking"
proof -
  obtain s e where b: "fixed_aligned_bounds clk now p z = (s, e)" by fastforce
  with st have t: "t = e" and room: "\<not> limit \<le> pe_outstanding (prepare ev w now)"
    by (auto simp: evaluate_period_def Let_def split: if_splits)
  obtain s' e' where b': "fixed_aligned_bounds clk t p z = (s', e')" by fastforce
  have tile: "now < t" "s' = t"
    using aligned_period_next [OF zone] b b' t by auto
  have "spent (qw_unit w) (ev_usage ev) (\<lambda>x. (t \<le> x \<and> x < e') \<and> x \<le> t) = 0"
    unfolding spent_def using past tile by (intro sum.neutral) auto
  moreover have "held (qw_unit w) (ev_holds ev) < uint limit"
    using room outstanding_reaches_iff [OF ev, of limit w now] by simp
  ultimately show ?thesis
    using evaluate_period_blocking [OF ev, of clk p z limit t limit "\<lambda>x. s' \<le> x \<and> x < e'" w] b' tile
    by (simp add: status_of_def)
qed

text \<open>At the relief instant the level exceeds the outstanding holds.\<close>
lemma bucket_clears:
  assumes clk: "time_adds clk" "\<bar>now\<bar> \<le> 10 ^ 21"
    and relief: "bucket_relief clk now cap r P out (L now) True = Some (At t)"
    and sizes: "0 < P" "0 \<le> out" "out \<le> u64_max" "0 \<le> r" "0 \<le> cap" "0 \<le> S" "cap * P + S + r \<le> i128_max"
    and level: "- S \<le> y" "c \<le> now"
      "\<And>t. now \<le> t \<Longrightarrow> L t = min (y + r * whole_milliseconds (t - c)) (cap * P)"
  shows "now < t \<and> out + 1 \<le> L t div P"
proof -
  have ms: "0 \<le> r * whole_milliseconds (now - c)" "0 \<le> cap * P"
    using sizes level(2) whole_milliseconds_nonneg [of "now - c"] by simp_all
  have Lnow: "L now = min (y + r * whole_milliseconds (now - c)) (cap * P)" using level(3) by simp
  then have "- S \<le> L now" "L now \<le> cap * P" using ms sizes(6) level(1) by linarith+
  then have "\<exists>k > 0. t = now + k * ns_per_ms \<and> (out + 1) * P \<le> L now + r * k \<and> (out + 1) * P \<le> cap * P"
    by (intro bucket_relief_reaches [OF clk relief] sizes ms) (use sizes ms in linarith)+
  then obtain k where k: "0 < k" "t = now + k * ns_per_ms" "(out + 1) * P \<le> L now + r * k"
    "(out + 1) * P \<le> cap * P" by blast
  then have "now < t" by (simp add: ns_per_ms_def)
  have "whole_milliseconds (t - c) = whole_milliseconds (now - c) + k"
    using whole_milliseconds_add [of "now - c" k] level(2) k by (simp add: algebra_simps)
  then have "L t = min (y + r * whole_milliseconds (now - c) + r * k) (cap * P)"
    using level(3) [of t] \<open>now < t\<close> by (simp add: algebra_simps)
  then have "(out + 1) * P \<le> L t" using k Lnow by (auto simp: min_def split: if_splits)
  then have "(out + 1) * P div P \<le> L t div P" using sizes(1) by (intro zdiv_mono1)
  then have "out + 1 \<le> L t div P" using sizes(1) by simp
  with \<open>now < t\<close> show ?thesis by simp
qed

lemma bucket_relief_honest:
  assumes clk: "time_adds clk" "\<bar>now\<bar> \<le> 10 ^ 21" and ev: "unambiguous ev"
    and past: "\<forall>u \<in> set (ev_usage ev). qu_occurred_at u \<le> now"
    and valid: "secs \<noteq> 0" "lvl \<le> capacity" "anchor \<le> now"
    and fits: "(uint capacity + spent (qw_unit w) (ev_usage ev) (\<lambda>x. True)) * (uint secs * 1000) + uint refill \<le> i128_max"
    and st: "evaluate_bucket clk w ev now capacity refill secs anchor lvl = Some (Bucket bs, b)" "bs_relief bs = At t"
    and later: "evaluate_bucket clk w ev t capacity refill secs anchor lvl = Some (st', b')"
  shows "now < t \<and> b' = NotBlocking"
proof -
  let ?P = "uint secs * 1000" and ?out = "uint (pe_outstanding (prepare ev w now))"
  let ?r = "uint refill" and ?cap = "uint capacity * (uint secs * 1000)"
  define us where "us = filter (\<lambda>u. anchor \<le> qu_occurred_at u \<and> qu_occurred_at u \<le> now) (pe_usage (prepare ev w now))"
  let ?L = "bucket_level_at capacity refill secs anchor lvl us"
  have P: "0 < ?P" using valid(1) by (simp add: uint_0_iff order.strict_iff_order)
  have "usage_sum us \<le> spent (qw_unit w) (ev_usage ev) (\<lambda>x. True)"
    unfolding us_def sum_prepared_usage [OF ev, of "\<lambda>x. anchor \<le> x \<and> x \<le> now"] spent_def
    by (intro sum_mono2) auto
  then have "(uint capacity + usage_sum us) * ?P \<le> (uint capacity + spent (qw_unit w) (ev_usage ev) (\<lambda>x. True)) * ?P"
    using P by (intro mult_right_mono) simp_all
  then have fits': "?cap + usage_sum us * ?P + ?r \<le> i128_max" using fits by (simp add: algebra_simps)
  have srt: "sorted (map qu_occurred_at us)"
    unfolding us_def by (rule sorted_filter) (rule prepare_usage_sorted)
  have "(uint capacity + usage_sum us) * ?P \<le> i128_max"
    using fits' uint_ge_0 [of refill] unfolding distrib_right by linarith
  then have "\<exists>y c. c \<le> now \<and> (\<forall>t. now \<le> t \<longrightarrow> ?L t = min (y + ?r * whole_milliseconds (t - c)) ?cap)
      \<and> - (usage_sum us * ?P) \<le> y"
    using valid srt by (intro bucket_level_exact) (simp_all add: us_def)
  then obtain y c where level: "c \<le> now" "- (usage_sum us * ?P) \<le> y"
    "\<And>t. now \<le> t \<Longrightarrow> ?L t = min (y + ?r * whole_milliseconds (t - c)) ?cap" by blast
  have "\<exists>bl. bucket_relief clk now (uint capacity) ?r ?P ?out (?L now) bl = Some (At t)"
    using st valid(1) by (auto simp: evaluate_bucket_split Let_def us_def [symmetric])
  then have "bucket_relief clk now (uint capacity) ?r ?P ?out (?L now) True = Some (At t)"
    by (auto simp: bucket_relief_def split: if_splits)
  then have clear: "now < t" "?out + 1 \<le> ?L t div ?P"
    using bucket_clears [OF clk _ P, where S = "usage_sum us * ?P" and y = y and c = c and L = ?L]
      uint_u64_bounds fits' level usage_sum_nonneg [of us] by auto
  have same: "prepare ev w t = prepare ev w now" using clear(1) by (intro prepare_later [OF ev past]) simp
  have "\<forall>u \<in> set (pe_usage (prepare ev w now)). qu_occurred_at u \<le> now"
    unfolding prepare_usage_set [OF ev] by simp
  then have us_t: "filter (\<lambda>u. anchor \<le> qu_occurred_at u \<and> qu_occurred_at u \<le> t) (pe_usage (prepare ev w now)) = us"
    unfolding us_def using clear(1) by (intro filter_cong) auto
  show ?thesis
    using later clear valid(1)
    by (auto simp: evaluate_bucket_split Let_def same us_t status_of_def clamp_i64_nonpos_iff i128_sat_nonpos_iff)
qed

text \<open>
  C24. A relief instant computed for an aligned period or a refill bucket is honest: it lies in the
  future, and at that instant, with the evidence unchanged and no spend dated in the future, the
  window no longer blocks. For a daily or weekly reset this asks of the zone, on the days around now only,
  that the reset time of a date falls on that date and lies after now when the date does: daylight saving
  keeps this unless a fold goes back over a midnight or a gap reaches into the next date. For an hourly reset the local
  hour lasts an hour and the next one starts where it ends. A bucket has scaled amounts that fit 128
  bits and an anchor that is not in the future.
\<close>
theorem relief_instant_is_honest:
  assumes "time_adds clk" "\<bar>now\<bar> \<le> 10 ^ 21" "unambiguous ev"
    and "\<forall>u \<in> set (ev_usage ev). qu_occurred_at u \<le> now"
    and "case qw_kind w of
           FixedAligned p z limit \<Rightarrow> period_near clk z now p
         | RefillBucket capacity refill secs anchor lvl \<Rightarrow>
             secs \<noteq> 0 \<and> lvl \<le> capacity \<and> anchor \<le> now
             \<and> (uint capacity + spent (qw_unit w) (ev_usage ev) (\<lambda>x. True)) * (uint secs * 1000) + uint refill \<le> i128_max
         | _ \<Rightarrow> False"
    and "evaluate_kind clk w ev now = Some (state, b)"
    and "case state of Period ps \<Rightarrow> ps_relief ps = At t | Bucket bs \<Rightarrow> bs_relief bs = At t | Gauge g \<Rightarrow> False"
    and "evaluate_kind clk w ev t = Some (state', b')"
  shows "now < t \<and> b' = NotBlocking"
proof (cases "qw_kind w")
  case (FixedAligned p z limit)
  with assms(6,8) have eval: "evaluate_period clk w ev now p z limit = (state, b)"
    "evaluate_period clk w ev t p z limit = (state', b')"
    by (simp_all add: evaluate_kind_def)
  moreover from eval(1) assms(7) obtain ps where "state = Period ps" "ps_relief ps = At t"
    by (auto simp: evaluate_period_def Let_def split: prod.splits)
  ultimately show ?thesis
    using FixedAligned assms(5) period_relief_honest [OF _ assms(3,4), of clk z p w limit ps t] by simp
next
  case (RefillBucket capacity refill secs anchor lvl)
  with assms(6,8) have eval: "evaluate_bucket clk w ev now capacity refill secs anchor lvl = Some (state, b)"
    "evaluate_bucket clk w ev t capacity refill secs anchor lvl = Some (state', b')"
    by (simp_all add: evaluate_kind_def)
  moreover from eval(1) assms(7) obtain bs where "state = Bucket bs" "bs_relief bs = At t"
    by (auto simp: evaluate_bucket_split Let_def split: if_splits)
  ultimately show ?thesis
    using RefillBucket assms(5) by (intro bucket_relief_honest [OF assms(1-4)]) auto
qed (use assms(5) in auto)

text \<open>A daily limit that resets at 02:30, on the day on which that time does not exist.\<close>
definition demo_daily :: QuotaWindow where
  "demo_daily = demo_window (FixedAligned (Day \<lparr>wct_hour = 2, wct_minute = 30\<rparr>) (IanaTimeZone ''Demo/Summer'') 100)"

abbreviation demo_bucket :: QuotaWindow where
  "demo_bucket \<equiv> demo_window (RefillBucket 100 1 1 0 100)"

lemma demo_bucket_runs:
  obtains bs b st b' where "evaluate_kind utc_clock demo_bucket (demo_evidence 110) (60 * ns_per_sec) = Some (Bucket bs, b)"
    "bs_relief bs = At (66 * ns_per_sec)"
    "evaluate_kind utc_clock demo_bucket (demo_evidence 110) (66 * ns_per_sec) = Some (st, b')"
proof -
  have "evaluate_kind utc_clock demo_bucket (demo_evidence 110) (60 * ns_per_sec) = Some (Bucket \<lparr>bs_capacity = 100, bs_level = 0,
      bs_outstanding = 5, bs_remaining = - 5, bs_usage_records = 2, bs_relief = At (66 * ns_per_sec)\<rparr>, Blocking)"
    by code_simp
  moreover have "evaluate_kind utc_clock demo_bucket (demo_evidence 110) (66 * ns_per_sec) \<noteq> None" by code_simp
  ultimately show ?thesis using that by auto
qed

lemma demo_daily_runs:
  obtains ps st b' where "evaluate_kind dst_clock demo_daily (demo_evidence 90) (60 * ns_per_sec) = Some (Period ps, Blocking)"
    "ps_relief ps = At (9000 * ns_per_sec)"
    "evaluate_kind dst_clock demo_daily (demo_evidence 90) (9000 * ns_per_sec) = Some (st, b')"
proof -
  have "case evaluate_kind dst_clock demo_daily (demo_evidence 90) (60 * ns_per_sec) of
      Some (Period ps, b) \<Rightarrow> b = Blocking \<and> ps_relief ps = At (9000 * ns_per_sec) | _ \<Rightarrow> False"
    by code_simp
  moreover have "evaluate_kind dst_clock demo_daily (demo_evidence 90) (9000 * ns_per_sec) \<noteq> None" by code_simp
  ultimately show ?thesis using that by (auto split: option.splits prod.splits WindowState.splits)
qed

lemma demo_relief_conditions:
  "\<forall>u \<in> set (ev_usage (demo_evidence v)). qu_occurred_at u \<le> 60 * ns_per_sec" "\<bar>60 * ns_per_sec\<bar> \<le> 10 ^ 21"
  "(1::u64) \<noteq> 0 \<and> (100::u64) \<le> 100 \<and> 0 \<le> 60 * ns_per_sec
    \<and> (uint (100::u64) + spent (qw_unit demo_bucket) (ev_usage (demo_evidence 110)) (\<lambda>x. True)) * (uint (1::u64) * 1000)
        + uint (1::u64) \<le> i128_max"
  "period_near dst_clock (IanaTimeZone ''Demo/Summer'') (60 * ns_per_sec) (Day \<lparr>wct_hour = 2, wct_minute = 30\<rparr>)"
  "time_adds dst_clock"
proof -
  show "period_near dst_clock (IanaTimeZone ''Demo/Summer'') (60 * ns_per_sec) (Day \<lparr>wct_hour = 2, wct_minute = 30\<rparr>)"
    by (rule period_zone_near) (simp_all add: zone_dst valid_wall_def)
  show "time_adds dst_clock" using time_adds_utc by (simp add: time_adds_def dst_clock_def)
qed (simp_all add: demo_window_simps spent_list usage_value_def i128_max_def ns_per_sec_def)

theorem relief_instant_is_honest_witness:
  "(\<exists>bs b st. evaluate_kind utc_clock demo_bucket (demo_evidence 110) (60 * ns_per_sec) = Some (Bucket bs, b)
     \<and> bs_relief bs = At (66 * ns_per_sec)
     \<and> evaluate_kind utc_clock demo_bucket (demo_evidence 110) (66 * ns_per_sec) = Some (st, NotBlocking))
   \<and> (\<exists>ps st. evaluate_kind dst_clock demo_daily (demo_evidence 90) (60 * ns_per_sec) = Some (Period ps, Blocking)
     \<and> ps_relief ps = At (9000 * ns_per_sec)
     \<and> evaluate_kind dst_clock demo_daily (demo_evidence 90) (9000 * ns_per_sec) = Some (st, NotBlocking))"
proof -
  obtain bs b st b' where bucket: "evaluate_kind utc_clock demo_bucket (demo_evidence 110) (60 * ns_per_sec) = Some (Bucket bs, b)"
    "bs_relief bs = At (66 * ns_per_sec)"
    "evaluate_kind utc_clock demo_bucket (demo_evidence 110) (66 * ns_per_sec) = Some (st, b')"
    by (rule demo_bucket_runs)
  obtain ps st2 b2 where daily: "evaluate_kind dst_clock demo_daily (demo_evidence 90) (60 * ns_per_sec) = Some (Period ps, Blocking)"
    "ps_relief ps = At (9000 * ns_per_sec)"
    "evaluate_kind dst_clock demo_daily (demo_evidence 90) (9000 * ns_per_sec) = Some (st2, b2)"
    by (rule demo_daily_runs)
  have kinds: "qw_kind demo_bucket = RefillBucket 100 1 1 0 100"
    "qw_kind demo_daily = FixedAligned (Day \<lparr>wct_hour = 2, wct_minute = 30\<rparr>) (IanaTimeZone ''Demo/Summer'') 100"
    by (simp_all add: demo_daily_def demo_window_def)
  have "b' = NotBlocking"
    by (rule relief_instant_is_honest [OF time_adds_utc demo_relief_conditions(2) demo_evidence_unambiguous
          demo_relief_conditions(1) _ bucket(1) _ bucket(3), THEN conjunct2])
      (unfold kinds, use demo_relief_conditions(3) bucket(2) in simp_all)
  moreover have "b2 = NotBlocking"
    by (rule relief_instant_is_honest [OF demo_relief_conditions(5,2) demo_evidence_unambiguous
          demo_relief_conditions(1) _ daily(1) _ daily(3), THEN conjunct2])
      (unfold kinds, use demo_relief_conditions(4) daily(2) in simp_all)
  ultimately show ?thesis using bucket daily by blast
qed

end
