(* ===== verification/Completion_Reserve.thy ===== *)
theory Completion_Reserve
  imports Complex_Main Quota_Types
begin

text \<open>
  Resource amounts (\<open>crates/domain/src/resource_amount.rs\<close>), their reading as quota amounts
  (\<open>quota_window/mod.rs\<close>), and the completion reserve of a contract under a policy
  (\<open>completion_contract.rs\<close>, \<open>policy.rs\<close>, \<open>reservation.rs\<close>). The floating-point operations of the
  language are the fields of the record \<open>floats\<close>, over an abstract carrier \<open>'f\<close> of \<open>f32\<close> and \<open>f64\<close>
  values: the definitions are the code over these operations, and what is proved about their
  clients holds whatever the rounding. Of a policy only the fields that pacing reads are kept.
\<close>

section \<open>Floating point\<close>

record 'f floats =
  f_of_int :: "int \<Rightarrow> 'f"
  f_literal :: "int \<Rightarrow> int \<Rightarrow> 'f"
  f_add :: "'f \<Rightarrow> 'f \<Rightarrow> 'f"
  f_mul :: "'f \<Rightarrow> 'f \<Rightarrow> 'f"
  f_div :: "'f \<Rightarrow> 'f \<Rightarrow> 'f"
  f_min :: "'f \<Rightarrow> 'f \<Rightarrow> 'f"
  f_max :: "'f \<Rightarrow> 'f \<Rightarrow> 'f"
  f_less :: "'f \<Rightarrow> 'f \<Rightarrow> bool"
  f_less_eq :: "'f \<Rightarrow> 'f \<Rightarrow> bool"
  f_eq :: "'f \<Rightarrow> 'f \<Rightarrow> bool"
  f_is_finite :: "'f \<Rightarrow> bool"
  f_round :: "'f \<Rightarrow> 'f"
  f_ceil :: "'f \<Rightarrow> 'f"
  f_as_i64 :: "'f \<Rightarrow> int"
  f_as_u64 :: "'f \<Rightarrow> u64"
  f_as_u128 :: "'f \<Rightarrow> int"
  f_as_f32 :: "'f \<Rightarrow> 'f"
  f32_mul :: "'f \<Rightarrow> 'f \<Rightarrow> 'f"
  f32_clamp :: "'f \<Rightarrow> 'f \<Rightarrow> 'f \<Rightarrow> 'f"

section \<open>Resource amounts\<close>

datatype ResourceKind = Kind_Usd | Kind_Tokens | Kind_QuotaPercent

datatype 'f ResourceAmount = RA_UsdCents int | RA_Tokens u64 | RA_QuotaPercent 'f

fun ra_kind :: "'f ResourceAmount \<Rightarrow> ResourceKind" where
  "ra_kind (RA_UsdCents _) = Kind_Usd"
| "ra_kind (RA_Tokens _) = Kind_Tokens"
| "ra_kind (RA_QuotaPercent _) = Kind_QuotaPercent"

fun ra_as_f64 :: "'f floats \<Rightarrow> 'f ResourceAmount \<Rightarrow> 'f" where
  "ra_as_f64 f (RA_UsdCents c) = f_of_int f c"
| "ra_as_f64 f (RA_Tokens t) = f_of_int f (uint t)"
| "ra_as_f64 f (RA_QuotaPercent p) = p"

fun ra_scaled :: "'f floats \<Rightarrow> 'f ResourceAmount \<Rightarrow> 'f \<Rightarrow> 'f ResourceAmount" where
  "ra_scaled f (RA_UsdCents c) factor = RA_UsdCents (f_as_i64 f (f_round f (f_mul f (f_of_int f c) factor)))"
| "ra_scaled f (RA_Tokens t) factor = RA_Tokens (f_as_u64 f (f_round f (f_mul f (f_of_int f (uint t)) factor)))"
| "ra_scaled f (RA_QuotaPercent p) factor =
     RA_QuotaPercent (f32_clamp f (f_literal f 0 1) (f_literal f 100 1) (f32_mul f p (f_as_f32 f factor)))"

text \<open>\<open>TryFrom<ResourceAmount> for QuotaAmount\<close>.\<close>
fun QuotaAmount_try_from :: "'f floats \<Rightarrow> 'f ResourceAmount \<Rightarrow> QuotaWindowError + QuotaAmount" where
  "QuotaAmount_try_from f (RA_UsdCents c) =
     (if c < 0 then Inl NegativeAmount else Inr \<lparr>qa_unit = UsdCents, qa_value = word_of_int c\<rparr>)"
| "QuotaAmount_try_from f (RA_Tokens t) = Inr \<lparr>qa_unit = Tokens, qa_value = t\<rparr>"
| "QuotaAmount_try_from f (RA_QuotaPercent p) =
     (if \<not> f_is_finite f p \<or> f_less f p (f_literal f 0 1) then Inl NegativeAmount
      else let basis_points = f_round f (f_mul f p (f_literal f 100 1))
        in if \<not> f_is_finite f basis_points \<or> f_less f basis_points (f_literal f 0 1) then Inl NegativeAmount
           else Inr \<lparr>qa_unit = Percent, qa_value = f_as_u64 f basis_points\<rparr>)"

section \<open>Contracts and policies\<close>

record CompletionCriterion =
  cc_description :: string
  cc_required :: bool

record CompletionContract =
  ct_revision :: "32 word"
  ct_criteria :: "CompletionCriterion list"

definition required_criteria :: "CompletionContract \<Rightarrow> CompletionCriterion list" where
  "required_criteria c = filter cc_required (ct_criteria c)"

record 'f TurnBound =
  tb_cold_start_request :: "'f ResourceAmount"
  tb_ceiling :: "'f ResourceAmount"

record 'f Policy =
  po_target :: "'f ResourceAmount"
  po_hard_ceiling :: "'f ResourceAmount"
  po_deadline :: "instant option"
  po_min_confidence :: Confidence
  po_turn :: "'f TurnBound option"

definition turn_fallback_request :: "'f Policy \<Rightarrow> 'f ResourceAmount" where
  "turn_fallback_request p = (case po_turn p of Some t \<Rightarrow> tb_cold_start_request t | None \<Rightarrow> po_target p)"

section \<open>The completion reserve\<close>

datatype CompletionReserveBasis = EstimateP80 | PolicyTarget

record 'f CompletionReserveEstimate =
  cre_amount :: "'f ResourceAmount"
  cre_basis :: CompletionReserveBasis
  cre_fraction :: 'f
  cre_required_criteria_count :: nat

text \<open>Of the estimate only its P80 resource quantile is read.\<close>
definition completion_reserve_for ::
    "'f floats \<Rightarrow> CompletionContract \<Rightarrow> 'f ResourceAmount option \<Rightarrow> 'f Policy \<Rightarrow> 'f CompletionReserveEstimate" where
  "completion_reserve_for f contract estimate_p80 policy =
     (let policy_kind = ra_kind (po_target policy);
          (basis_amount, basis) = (case estimate_p80 of
              Some amount \<Rightarrow> if ra_kind amount = policy_kind then (amount, EstimateP80)
                else (turn_fallback_request policy, PolicyTarget)
            | None \<Rightarrow> (turn_fallback_request policy, PolicyTarget));
          required_criteria_count = length (required_criteria contract);
          fraction = f_min f (f_add f (f_literal f 20 100)
              (f_mul f (f_literal f 5 100) (f_of_int f (int required_criteria_count)))) (f_literal f 50 100);
          raw = ra_scaled f basis_amount fraction;
          amount = (if f_less f (ra_as_f64 f (po_hard_ceiling policy)) (ra_as_f64 f raw)
            then po_hard_ceiling policy else raw)
      in \<lparr>cre_amount = amount, cre_basis = basis, cre_fraction = fraction,
          cre_required_criteria_count = required_criteria_count\<rparr>)"

section \<open>Rational arithmetic as a concrete instance\<close>

definition rat_floats :: "rat floats" where
  "rat_floats = \<lparr>f_of_int = of_int, f_literal = (\<lambda>n d. of_int n / of_int d),
     f_add = (+), f_mul = (*), f_div = (/), f_min = min, f_max = max, f_less = (<), f_less_eq = (\<le>), f_eq = (=),
     f_is_finite = (\<lambda>_. True), f_round = (\<lambda>x. of_int (round x)), f_ceil = (\<lambda>x. of_int \<lceil>x\<rceil>),
     f_as_i64 = (\<lambda>x. clamp_i64 \<lfloor>x\<rfloor>), f_as_u64 = (\<lambda>x. word_of_int (clamp 0 u64_max \<lfloor>x\<rfloor>)),
     f_as_u128 = (\<lambda>x. clamp 0 (2 ^ 128 - 1) \<lfloor>x\<rfloor>), f_as_f32 = (\<lambda>x. x), f32_mul = (*),
     f32_clamp = (\<lambda>lo hi x. max lo (min hi x))\<rparr>"

end
