(* ===== verification/Pacing_Tasks.thy ===== *)
theory Pacing_Tasks
  imports Completion_Reserve "HOL-Library.Product_Lexorder"
begin

text \<open>
  The task graph of the pacing simulator (\<open>crates/domain/src/pacing/mod.rs\<close>) and the order in which
  ready tasks are offered (\<open>pacing/ready.rs\<close>). \<open>TaskSet::validated\<close> is Kahn's algorithm: the
  \<open>HashMap\<close> of in-degrees is an association list in task order, the map of dependents a function, the
  queue is held from its cursor on. A missing entry and a subtraction below zero, which panic,
  are \<open>None\<close>.
\<close>

section \<open>Tasks\<close>

type_synonym SimTaskId = "32 word"

datatype Priority = PrioLow | PrioNormal | PrioHigh | PrioUrgent

datatype 'f RemainingResource =
    Unavailable_resource string
  | Insufficient_resource nat nat
  | Quantiles ResourceKind "'f ResourceAmount" "'f ResourceAmount" "'f ResourceAmount" nat

record 'f RemainingWorkEstimate =
  rwe_resource :: "'f RemainingResource"
  rwe_confidence :: Confidence

record 'f SimTask =
  st_id :: SimTaskId
  st_principal :: PrincipalId
  st_depends_on :: "SimTaskId list"
  st_priority :: Priority
  st_deadline :: "instant option"
  st_estimate :: "'f RemainingWorkEstimate"

datatype ScenarioError =
    TooManyTasks nat
  | TooManyEvents nat
  | TooManyWindows nat
  | DuplicateTaskId SimTaskId
  | UnknownDependency SimTaskId SimTaskId
  | DependencyCycle SimTaskId

definition MAX_SCENARIO_TASKS :: nat where "MAX_SCENARIO_TASKS = 4096"

record 'f TaskSet =
  ts_tasks :: "'f SimTask list"

definition ts_get :: "'f TaskSet \<Rightarrow> SimTaskId \<Rightarrow> 'f SimTask option" where
  "ts_get ts tid = find (\<lambda>t. st_id t = tid) (ts_tasks ts)"

section \<open>Validation\<close>

text \<open>The first pass: no id twice.\<close>
fun check_distinct :: "SimTaskId list \<Rightarrow> 'f SimTask list \<Rightarrow> ScenarioError + SimTaskId list" where
  "check_distinct seen [] = Inr seen"
| "check_distinct seen (task # tasks) =
     (if st_id task \<in> set seen then Inl (DuplicateTaskId (st_id task))
      else check_distinct (st_id task # seen) tasks)"

type_synonym indegrees = "(SimTaskId \<times> nat) list"
type_synonym dependents_map = "SimTaskId \<Rightarrow> SimTaskId list"

text \<open>The second pass: in-degrees and dependents, task by task and dependency by dependency.\<close>
fun link_deps ::
    "SimTaskId list \<Rightarrow> SimTaskId \<Rightarrow> SimTaskId list \<Rightarrow> nat \<Rightarrow> dependents_map
      \<Rightarrow> ScenarioError + (nat \<times> dependents_map)" where
  "link_deps seen tid [] deg dependents = Inr (deg, dependents)"
| "link_deps seen tid (dep # deps) deg dependents =
     (if dep \<notin> set seen then Inl (UnknownDependency tid dep)
      else link_deps seen tid deps (deg + 1) (dependents(dep := dependents dep @ [tid])))"

fun link_tasks ::
    "SimTaskId list \<Rightarrow> 'f SimTask list \<Rightarrow> indegrees \<Rightarrow> dependents_map
      \<Rightarrow> ScenarioError + (indegrees \<times> dependents_map)" where
  "link_tasks seen [] indegree dependents = Inr (indegree, dependents)"
| "link_tasks seen (task # tasks) indegree dependents =
     rbind (link_deps seen (st_id task) (st_depends_on task) 0 dependents) (\<lambda>(deg, dependents').
       link_tasks seen tasks (indegree @ [(st_id task, deg)]) dependents')"

text \<open>Kahn's algorithm.\<close>
fun decrement :: "SimTaskId \<Rightarrow> indegrees \<Rightarrow> (nat \<times> indegrees) option" where
  "decrement k [] = None"
| "decrement k ((j, n) # m) =
     (if j = k then (if n = 0 then None else Some (n - 1, (j, n - 1) # m))
      else map_option (\<lambda>(e, m'). (e, (j, n) # m')) (decrement k m))"

fun release_dependents :: "SimTaskId list \<Rightarrow> indegrees \<Rightarrow> (SimTaskId list \<times> indegrees) option" where
  "release_dependents [] indegree = Some ([], indegree)"
| "release_dependents (dep # deps) indegree =
     Option.bind (decrement dep indegree) (\<lambda>(entry, indegree').
     map_option (\<lambda>(next_ready, indegree'').
         (if entry = 0 then dep # next_ready else next_ready, indegree''))
       (release_dependents deps indegree'))"

lemma decrement_sum: "decrement k m = Some (e, m') \<Longrightarrow> sum_list (map snd m) = Suc (sum_list (map snd m'))"
  by (induction k m arbitrary: e m' rule: decrement.induct) (auto split: if_splits)

lemma release_dependents_sum:
  "release_dependents ds m = Some (r, m') \<Longrightarrow> length r + sum_list (map snd m') \<le> sum_list (map snd m)"
  by (induction ds m arbitrary: r m' rule: release_dependents.induct)
    (fastforce simp: bind_eq_Some_conv dest: decrement_sum split: if_splits)+

function kahn :: "dependents_map \<Rightarrow> SimTaskId list \<Rightarrow> nat \<Rightarrow> indegrees \<Rightarrow> (nat \<times> indegrees) option" where
  "kahn dependents [] removed indegree = Some (removed, indegree)"
| "kahn dependents (tid # queue) removed indegree =
     Option.bind (release_dependents (dependents tid) indegree) (\<lambda>(next_ready, indegree').
       kahn dependents (queue @ sort next_ready) (removed + 1) indegree')"
  by pat_completeness auto
termination
  by (relation "measure (\<lambda>(d, queue, removed, indegree). length queue + sum_list (map snd indegree))")
    (auto dest!: release_dependents_sum)

definition TaskSet_validated :: "'f SimTask list \<Rightarrow> (ScenarioError + 'f TaskSet) option" where
  "TaskSet_validated tasks =
     (if MAX_SCENARIO_TASKS < length tasks then Some (Inl (TooManyTasks (length tasks)))
      else case check_distinct [] tasks of
        Inl e \<Rightarrow> Some (Inl e)
      | Inr seen \<Rightarrow>
          (case link_tasks seen tasks [] (\<lambda>_. []) of
             Inl e \<Rightarrow> Some (Inl e)
           | Inr (indegree, dependents) \<Rightarrow>
               let queue = sort (map fst (filter (\<lambda>(tid, deg). deg = 0) indegree))
               in Option.bind (kahn dependents queue 0 indegree) (\<lambda>(removed, indegree').
                    if removed \<noteq> length tasks
                    then (let stuck = map fst (filter (\<lambda>(tid, deg). 0 < deg) indegree')
                          in if stuck = [] then None else Some (Inl (DependencyCycle (Min (set stuck)))))
                    else Some (Inr \<lparr>ts_tasks = tasks\<rparr>))))"

section \<open>Ready order\<close>

fun priority_rank :: "Priority \<Rightarrow> nat" where
  "priority_rank PrioLow = 0"
| "priority_rank PrioNormal = 1"
| "priority_rank PrioHigh = 2"
| "priority_rank PrioUrgent = 3"

text \<open>The comparison as a sort key: priority descending, deadline ascending with undated tasks last, id.\<close>
definition ready_key :: "'f SimTask \<Rightarrow> int \<times> (nat \<times> int) \<times> SimTaskId" where
  "ready_key t = (- int (priority_rank (st_priority t)),
     (case st_deadline t of Some d \<Rightarrow> (0, d) | None \<Rightarrow> (1, 0)), st_id t)"

definition is_ready :: "SimTaskId set \<Rightarrow> 'f SimTask \<Rightarrow> bool" where
  "is_ready completed t \<longleftrightarrow> st_id t \<notin> completed \<and> list_all (\<lambda>d. d \<in> completed) (st_depends_on t)"

definition ready_order :: "'f TaskSet \<Rightarrow> SimTaskId set \<Rightarrow> 'f SimTask list" where
  "ready_order tasks completed = sort_key ready_key (filter (is_ready completed) (ts_tasks tasks))"

section \<open>The passes of the validation\<close>

lemma check_distinct_iff:
  "check_distinct seen ts = Inr s \<longleftrightarrow>
     distinct (map st_id ts) \<and> set (map st_id ts) \<inter> set seen = {} \<and> s = rev (map st_id ts) @ seen"
  by (induction seen ts rule: check_distinct.induct) auto

lemma check_distinct_Inl: "check_distinct seen ts = Inl e \<Longrightarrow> \<exists>k. e = DuplicateTaskId k"
  by (induction seen ts rule: check_distinct.induct) (auto split: if_splits)

lemma link_deps_eq:
  "link_deps seen tid deps deg D =
     (case find (\<lambda>d. d \<notin> set seen) deps of
        Some d \<Rightarrow> Inl (UnknownDependency tid d)
      | None \<Rightarrow> Inr (deg + length deps, \<lambda>d. D d @ replicate (count_list deps d) tid))"
proof (induction deps arbitrary: deg D)
  case (Cons dep deps)
  have "(\<lambda>d. (D(dep := D dep @ [tid])) d @ replicate (count_list deps d) tid)
      = (\<lambda>d. D d @ replicate (count_list (dep # deps) d) tid)" by auto
  with Cons show ?case by (simp split: option.split)
qed simp

definition dependents_of :: "'f SimTask list \<Rightarrow> dependents_map" where
  "dependents_of ts d = concat (map (\<lambda>t. replicate (count_list (st_depends_on t) d) (st_id t)) ts)"

lemma link_tasks_known:
  assumes "\<forall>t \<in> set ts. set (st_depends_on t) \<subseteq> set seen"
  shows "link_tasks seen ts m D = Inr (m @ map (\<lambda>t. (st_id t, length (st_depends_on t))) ts,
     \<lambda>d. D d @ dependents_of ts d)"
  using assms
proof (induction ts arbitrary: m D)
  case (Cons t ts)
  then have "find (\<lambda>d. d \<notin> set seen) (st_depends_on t) = None" by (auto simp: find_None_iff)
  with Cons show ?case by (simp add: link_deps_eq dependents_of_def)
qed (simp add: dependents_of_def)

lemma link_tasks_unknown:
  assumes "t \<in> set ts" "\<not> set (st_depends_on t) \<subseteq> set seen"
  shows "\<exists>u d. u \<in> set ts \<and> d \<in> set (st_depends_on u) \<and> d \<notin> set seen
    \<and> link_tasks seen ts m D = Inl (UnknownDependency (st_id u) d)"
  using assms
proof (induction ts arbitrary: m D)
  case (Cons u ts)
  show ?case
  proof (cases "find (\<lambda>d. d \<notin> set seen) (st_depends_on u)")
    case None
    then have "set (st_depends_on u) \<subseteq> set seen" by (auto simp: find_None_iff)
    with Cons.prems have "t \<in> set ts" by auto
    with Cons.IH [OF this Cons.prems(2)] None show ?thesis by (fastforce simp: link_deps_eq)
  next
    case (Some d)
    with find_Some_mem [OF Some] show ?thesis by (auto simp: link_deps_eq)
  qed
qed simp

section \<open>One round of Kahn's algorithm\<close>

abbreviation degree_table :: "SimTaskId list \<Rightarrow> (SimTaskId \<Rightarrow> nat) \<Rightarrow> indegrees" where
  "degree_table ks g \<equiv> map (\<lambda>k. (k, g k)) ks"

lemma decrement_table:
  "distinct ks \<Longrightarrow> k \<in> set ks \<Longrightarrow> decrement k (degree_table ks g) =
     (if g k = 0 then None else Some (g k - 1, degree_table ks (g(k := g k - 1))))"
  by (induction ks) auto

lemma table_keys: "map fst (filter (\<lambda>(tid, deg). p deg) (degree_table ks g)) = filter (\<lambda>k. p (g k)) ks"
  by (induction ks) auto

lemma release_table:
  assumes "distinct ks" "set xs \<subseteq> set ks" "\<forall>k. count_list xs k \<le> g k"
  shows "\<exists>next. release_dependents xs (degree_table ks g)
      = Some (next, degree_table ks (\<lambda>k. g k - count_list xs k))
    \<and> distinct next \<and> set next = {k \<in> set xs. count_list xs k = g k}"
  using assms(2,3)
proof (induction xs arbitrary: g)
  case (Cons k xs)
  let ?g = "g(k := g k - 1)"
  have gk: "g k \<noteq> 0" using Cons.prems(2) [rule_format, of k] by simp
  have "count_list xs j \<le> ?g j" for j
    using Cons.prems(2) [rule_format, of j] by (cases "j = k") auto
  with Cons.IH [of ?g] Cons.prems(1) obtain nxt where nxt:
    "release_dependents xs (degree_table ks ?g) = Some (nxt, degree_table ks (\<lambda>j. ?g j - count_list xs j))"
    "distinct nxt" "set nxt = {j \<in> set xs. count_list xs j = ?g j}" by auto
  have dec: "decrement k (degree_table ks g) = Some (g k - 1, degree_table ks ?g)"
    using decrement_table [OF assms(1), of k g] Cons.prems(1) gk by simp
  have tab: "(\<lambda>j. ?g j - count_list xs j) = (\<lambda>j. g j - count_list (k # xs) j)" by auto
  show ?case
  proof (cases "g k = 1")
    case True
    with Cons.prems(2) [rule_format, of k] have "k \<notin> set xs" by (simp add: count_list_0_iff)
    moreover have "{j \<in> set (k # xs). count_list (k # xs) j = g j} = insert k {j \<in> set xs. count_list xs j = ?g j}"
      using True \<open>k \<notin> set xs\<close> by auto
    moreover have "release_dependents (k # xs) (degree_table ks g)
        = Some (k # nxt, degree_table ks (\<lambda>j. g j - count_list (k # xs) j))"
      unfolding tab [symmetric] using dec nxt(1) True by simp
    ultimately show ?thesis using nxt by auto
  next
    case False
    have "count_list xs k = g k - 1 \<longleftrightarrow> count_list (k # xs) k = g k" using gk by auto
    moreover have "k \<in> set xs" if "count_list xs k = g k - 1"
    proof (rule ccontr)
      assume "k \<notin> set xs"
      with that have "g k - 1 = 0" by (simp add: count_list_0_iff)
      with False gk show False by simp
    qed
    ultimately have "{j \<in> set (k # xs). count_list (k # xs) j = g j} = {j \<in> set xs. count_list xs j = ?g j}"
      by auto
    moreover have "release_dependents (k # xs) (degree_table ks g)
        = Some (nxt, degree_table ks (\<lambda>j. g j - count_list (k # xs) j))"
      unfolding tab [symmetric] using dec nxt(1) False gk by simp
    ultimately show ?thesis using nxt by auto
  qed
qed simp

section \<open>Kahn's algorithm accepts exactly the acyclic graphs\<close>

definition deps_of :: "'f SimTask list \<Rightarrow> SimTaskId \<Rightarrow> SimTaskId list" where
  "deps_of ts k = (case find (\<lambda>t. st_id t = k) ts of Some t \<Rightarrow> st_depends_on t | None \<Rightarrow> [])"

definition dep_edges :: "'f SimTask list \<Rightarrow> (SimTaskId \<times> SimTaskId) set" where
  "dep_edges ts = {(d, st_id t) | d t. t \<in> set ts \<and> d \<in> set (st_depends_on t)}"

text \<open>The dependencies of a task that are not yet removed.\<close>
definition open_deps :: "'f SimTask list \<Rightarrow> SimTaskId set \<Rightarrow> SimTaskId \<Rightarrow> nat" where
  "open_deps ts P k = length (filter (\<lambda>d. d \<notin> P) (deps_of ts k))"

lemma deps_of_task: "distinct (map st_id ts) \<Longrightarrow> t \<in> set ts \<Longrightarrow> deps_of ts (st_id t) = st_depends_on t"
  by (simp add: deps_of_def find_unique)

lemma dep_edges_iff:
  assumes "distinct (map st_id ts)"
  shows "(d, k) \<in> dep_edges ts \<longleftrightarrow> k \<in> st_id ` set ts \<and> d \<in> set (deps_of ts k)"
  using deps_of_task [OF assms] by (auto simp: dep_edges_def)

lemma open_deps_0_iff: "open_deps ts P k = 0 \<longleftrightarrow> set (deps_of ts k) \<subseteq> P"
  by (auto simp: open_deps_def filter_empty_conv)

lemma open_deps_insert:
  "d \<notin> P \<Longrightarrow> open_deps ts P k - count_list (deps_of ts k) d = open_deps ts (insert d P) k"
  "d \<notin> P \<Longrightarrow> count_list (deps_of ts k) d \<le> open_deps ts P k"
proof -
  assume "d \<notin> P"
  then have "length (filter (\<lambda>x. x \<notin> P) xs) = count_list xs d + length (filter (\<lambda>x. x \<notin> insert d P) xs)" for xs
    by (induction xs) auto
  then show "open_deps ts P k - count_list (deps_of ts k) d = open_deps ts (insert d P) k"
    "count_list (deps_of ts k) d \<le> open_deps ts P k"
    by (simp_all add: open_deps_def)
qed

lemma count_dependents:
  assumes "distinct (map st_id ts)"
  shows "count_list (dependents_of ts d) k = count_list (deps_of ts k) d"
  using assms
proof (induction ts)
  case (Cons t ts)
  have "count_list (replicate n a) k = (if a = k then n else 0)" for n a by (induction n) auto
  moreover have "deps_of ts k = []" if "k = st_id t"
  proof -
    have "find (\<lambda>t. st_id t = k) ts = None" using Cons.prems that by (simp add: find_key_None)
    then show ?thesis by (simp add: deps_of_def)
  qed
  ultimately show ?case
    using Cons by (auto simp: dependents_of_def deps_of_def)
qed (simp add: dependents_of_def deps_of_def)

lemma dependents_subset: "set (dependents_of ts d) \<subseteq> st_id ` set ts"
  by (auto simp: dependents_of_def)

text \<open>One removal: the table follows, and exactly the tasks whose last open dependency it was are released.\<close>
lemma kahn_round:
  assumes ids: "distinct (map st_id ts)" and d: "d \<notin> P"
  shows "\<exists>next. release_dependents (dependents_of ts d) (degree_table (map st_id ts) (open_deps ts P))
      = Some (next, degree_table (map st_id ts) (open_deps ts (insert d P)))
    \<and> distinct next
    \<and> set next = {k \<in> st_id ` set ts. open_deps ts P k \<noteq> 0 \<and> open_deps ts (insert d P) k = 0}"
proof -
  let ?D = "dependents_of ts d"
  note count = count_dependents [OF ids, of d] and ins = open_deps_insert [OF d, of ts]
  have released: "{k \<in> set ?D. count_list ?D k = open_deps ts P k}
      = {k \<in> st_id ` set ts. open_deps ts P k \<noteq> 0 \<and> open_deps ts (insert d P) k = 0}"
  proof (rule set_eqI, rule iffI; clarsimp)
    fix k assume k: "k \<in> set ?D" "count_list ?D k = open_deps ts P k"
    then have "0 < count_list ?D k" using count_list_0_iff [of ?D k] by (intro gr0I) auto
    with k ins(1) [of k] count [of k] dependents_subset [of ts d]
    show "k \<in> st_id ` set ts \<and> 0 < open_deps ts P k \<and> open_deps ts (insert d P) k = 0" by auto
  next
    fix t assume t: "t \<in> set ts" "0 < open_deps ts P (st_id t)" "open_deps ts (insert d P) (st_id t) = 0"
    then have c: "count_list ?D (st_id t) = open_deps ts P (st_id t)"
      using ins [of "st_id t"] count [of "st_id t"] by simp
    moreover have "st_id t \<in> set ?D" using c t(2) by (metis count_list_0_iff less_irrefl)
    ultimately show "st_id t \<in> set ?D \<and> count_list ?D (st_id t) = open_deps ts P (st_id t)" by simp
  qed
  have tab: "open_deps ts P k - count_list ?D k = open_deps ts (insert d P) k" for k
    using ins(1) count by simp
  have "\<forall>k. count_list ?D k \<le> open_deps ts P k" "set ?D \<subseteq> set (map st_id ts)"
    using ins(2) count dependents_subset [of ts d] by simp_all
  from release_table [OF ids this(2,1)] show ?thesis unfolding released tab .
qed

text \<open>The loop: it never panics, it removes exactly the tasks all of whose dependencies it removed, and
  every removed task is accessible along the dependencies.\<close>
lemma kahn_loop:
  assumes ids: "distinct (map st_id ts)"
    and q: "distinct queue" "set queue \<inter> P = {}" "finite P"
    and zero: "P \<union> set queue = {k \<in> st_id ` set ts. open_deps ts P k = 0}"
    and acc: "P \<union> set queue \<subseteq> Wellfounded.acc (dep_edges ts)"
  shows "\<exists>P'. finite P' \<and> kahn (dependents_of ts) queue (card P) (degree_table (map st_id ts) (open_deps ts P))
      = Some (card P', degree_table (map st_id ts) (open_deps ts P'))
    \<and> P' = {k \<in> st_id ` set ts. open_deps ts P' k = 0} \<and> P' \<subseteq> Wellfounded.acc (dep_edges ts)"
  using q zero acc
proof (induction "card (st_id ` set ts - P)" arbitrary: P queue rule: less_induct)
  case less
  show ?case
  proof (cases queue)
    case Nil
    with less.prems show ?thesis by (intro exI [of _ P]) simp
  next
    case (Cons d rest)
    with less.prems have d: "d \<notin> P" "d \<in> st_id ` set ts" by auto
    let ?P = "insert d P"
    from kahn_round [OF ids d(1)] obtain nxt where nxt:
      "release_dependents (dependents_of ts d) (degree_table (map st_id ts) (open_deps ts P))
        = Some (nxt, degree_table (map st_id ts) (open_deps ts ?P))" "distinct nxt"
      "set nxt = {k \<in> st_id ` set ts. open_deps ts P k \<noteq> 0 \<and> open_deps ts ?P k = 0}" by blast
    have mono: "open_deps ts ?P k \<le> open_deps ts P k" for k
      using open_deps_insert(1) [OF d(1), of ts k] by simp
    have "nxt_k \<in> Wellfounded.acc (dep_edges ts)" if "nxt_k \<in> set nxt" for nxt_k
    proof (rule accI)
      fix y assume "(y, nxt_k) \<in> dep_edges ts"
      with that nxt(3) have "y \<in> ?P" by (auto simp: dep_edges_iff [OF ids] open_deps_0_iff)
      with less.prems(5) Cons show "y \<in> Wellfounded.acc (dep_edges ts)" by auto
    qed
    with less.prems(5) Cons have acc': "?P \<union> set (rest @ sort nxt) \<subseteq> Wellfounded.acc (dep_edges ts)" by auto
    have disj: "set nxt \<inter> (P \<union> set queue) = {}" using less.prems(4) nxt(3) by auto
    have zero': "?P \<union> set (rest @ sort nxt) = {k \<in> st_id ` set ts. open_deps ts ?P k = 0}"
    proof -
      have "?P \<union> set (rest @ sort nxt) = (P \<union> set queue) \<union> set nxt" using Cons by auto
      also have "\<dots> = {k \<in> st_id ` set ts. open_deps ts ?P k = 0}"
        unfolding less.prems(4) nxt(3) using mono by (auto dest: le_zero_eq [THEN iffD1, OF order.trans])
      finally show ?thesis .
    qed
    have "card (st_id ` set ts - ?P) < card (st_id ` set ts - P)"
      using d by (intro psubset_card_mono) auto
    moreover have "distinct (rest @ sort nxt)" "set (rest @ sort nxt) \<inter> ?P = {}" "finite ?P"
      using less.prems Cons disj nxt(2) by auto
    ultimately obtain P' where "finite P'" "kahn (dependents_of ts) (rest @ sort nxt) (card ?P)
          (degree_table (map st_id ts) (open_deps ts ?P)) = Some (card P', degree_table (map st_id ts) (open_deps ts P'))"
        "P' = {k \<in> st_id ` set ts. open_deps ts P' k = 0}" "P' \<subseteq> Wellfounded.acc (dep_edges ts)"
      using less.hyps [of ?P "rest @ sort nxt"] zero' acc' by blast
    with Cons nxt(1) d(1) less.prems(3) show ?thesis by (intro exI [of _ P']) simp
  qed
qed

lemma finite_dep_edges: "finite (dep_edges ts)"
proof -
  have "dep_edges ts = (\<Union>t \<in> set ts. (\<lambda>d. (d, st_id t)) ` set (st_depends_on t))"
    by (auto simp: dep_edges_def)
  then show ?thesis by simp
qed

lemma wf_dep_edges_iff: "wf (dep_edges ts) \<longleftrightarrow> acyclic (dep_edges ts)"
  using finite_acyclic_wf [OF finite_dep_edges] wf_acyclic by blast

lemma open_deps_empty: "open_deps ts {} k = length (deps_of ts k)"
  by (simp add: open_deps_def)

text \<open>The outcome of the loop started by \<open>validated\<close>.\<close>
lemma kahn_start:
  assumes ids: "distinct (map st_id ts)"
    and known: "\<forall>t \<in> set ts. set (st_depends_on t) \<subseteq> st_id ` set ts"
  defines "indegree \<equiv> map (\<lambda>t. (st_id t, length (st_depends_on t))) ts"
  shows "\<exists>P. kahn (dependents_of ts) (sort (map fst (filter (\<lambda>(tid, deg). deg = 0) indegree))) 0 indegree
      = Some (card P, degree_table (map st_id ts) (open_deps ts P))
    \<and> P \<subseteq> st_id ` set ts \<and> (P = st_id ` set ts \<longleftrightarrow> acyclic (dep_edges ts))
    \<and> (\<forall>k \<in> st_id ` set ts. 0 < open_deps ts P k \<longleftrightarrow> k \<notin> P)"
proof -
  let ?q = "sort (map fst (filter (\<lambda>(tid, deg). deg = 0) indegree))"
  have tab: "indegree = degree_table (map st_id ts) (open_deps ts {})"
    by (simp add: indegree_def open_deps_empty deps_of_task [OF ids])
  have keys: "map fst (filter (\<lambda>(tid, deg). deg = 0) indegree) = filter (\<lambda>k. open_deps ts {} k = 0) (map st_id ts)"
    unfolding tab table_keys ..
  have q: "set ?q = {k \<in> st_id ` set ts. open_deps ts {} k = 0}" unfolding keys by auto
  have dq: "distinct ?q" "set ?q \<inter> {} = {}" unfolding keys using ids by simp_all
  have zero: "{} \<union> set ?q = {k \<in> st_id ` set ts. open_deps ts {} k = 0}" unfolding q by simp
  have "{} \<union> set ?q \<subseteq> Wellfounded.acc (dep_edges ts)"
  proof
    fix k assume "k \<in> {} \<union> set ?q"
    from this q have "deps_of ts k = []" by (simp add: open_deps_empty)
    show "k \<in> Wellfounded.acc (dep_edges ts)" by (rule accI) (simp add: dep_edges_iff [OF ids] \<open>deps_of ts k = []\<close>)
  qed
  from kahn_loop [OF ids dq finite.emptyI zero this] obtain P where P: "kahn (dependents_of ts) ?q 0 indegree
      = Some (card P, degree_table (map st_id ts) (open_deps ts P))"
    "P = {k \<in> st_id ` set ts. open_deps ts P k = 0}" "P \<subseteq> Wellfounded.acc (dep_edges ts)"
    unfolding tab [symmetric] card.empty by (elim exE conjE) (rule that; assumption)
  have mem: "k \<in> P \<longleftrightarrow> k \<in> st_id ` set ts \<and> open_deps ts P k = 0" for k
    by (subst (1) P(2)) simp
  have dag: "acyclic (dep_edges ts)" if "P = st_id ` set ts"
  proof -
    have "k \<in> Wellfounded.acc (dep_edges ts)" for k
      using P(3) that by (cases "k \<in> st_id ` set ts") (auto intro: accI simp: dep_edges_iff [OF ids])
    then have "wf (dep_edges ts)" by (intro acc_wfI) blast
    then show ?thesis by (simp add: wf_dep_edges_iff)
  qed
  have all: "P = st_id ` set ts" if "acyclic (dep_edges ts)"
  proof (rule ccontr)
    assume "P \<noteq> st_id ` set ts"
    with P(2) obtain k where "k \<in> st_id ` set ts - P" by auto
    with that obtain z where z: "z \<in> st_id ` set ts - P" "\<And>y. (y, z) \<in> dep_edges ts \<Longrightarrow> y \<notin> st_id ` set ts - P"
      using wfE_min [of "dep_edges ts" k "st_id ` set ts - P"] by (auto simp: wf_dep_edges_iff)
    with P(2) have "\<not> set (deps_of ts z) \<subseteq> P" by (auto simp: open_deps_0_iff)
    then obtain y where y: "y \<in> set (deps_of ts z)" "y \<notin> P" by blast
    from z(1) obtain t where t: "t \<in> set ts" "z = st_id t" by blast
    then have "set (deps_of ts z) \<subseteq> st_id ` set ts" using known deps_of_task [OF ids t(1)] by simp
    with y have "y \<in> st_id ` set ts - P" by blast
    with z y show False by (auto simp: dep_edges_iff [OF ids])
  qed
  show ?thesis
  proof (intro exI [of _ P] conjI)
    show "P \<subseteq> st_id ` set ts" using mem by blast
    show "P = st_id ` set ts \<longleftrightarrow> acyclic (dep_edges ts)" using dag all by blast
    show "\<forall>k \<in> st_id ` set ts. 0 < open_deps ts P k \<longleftrightarrow> k \<notin> P" using mem by (metis gr0I less_irrefl)
  qed (rule P(1))
qed

lemma validated_kahn:
  assumes "length ts \<le> MAX_SCENARIO_TASKS" and ids: "distinct (map st_id ts)"
    and known: "\<forall>t \<in> set ts. set (st_depends_on t) \<subseteq> st_id ` set ts"
  shows "(acyclic (dep_edges ts) \<longrightarrow> TaskSet_validated ts = Some (Inr \<lparr>ts_tasks = ts\<rparr>))
    \<and> (\<not> acyclic (dep_edges ts) \<longrightarrow>
         (\<exists>k \<in> st_id ` set ts. TaskSet_validated ts = Some (Inl (DependencyCycle k))))"
proof -
  let ?m = "map (\<lambda>t. (st_id t, length (st_depends_on t))) ts"
  from kahn_start [OF ids known] obtain P where P:
    "kahn (dependents_of ts) (sort (map fst (filter (\<lambda>(tid, deg). deg = 0) ?m))) 0 ?m
      = Some (card P, degree_table (map st_id ts) (open_deps ts P))"
    "P \<subseteq> st_id ` set ts" "P = st_id ` set ts \<longleftrightarrow> acyclic (dep_edges ts)"
    "\<forall>k \<in> st_id ` set ts. 0 < open_deps ts P k \<longleftrightarrow> k \<notin> P" by blast
  have n: "card (st_id ` set ts) = length ts" using distinct_card [OF ids] by simp
  have all: "card P = length ts \<longleftrightarrow> P = st_id ` set ts"
    using card_subset_eq [of "st_id ` set ts" P] P(2) n by auto
  let ?stuck = "map fst (filter (\<lambda>(tid, deg). 0 < deg) (degree_table (map st_id ts) (open_deps ts P)))"
  have stuck: "set ?stuck = st_id ` set ts - P" unfolding table_keys using P(4) by auto
  have link: "link_tasks (rev (map st_id ts)) ts [] (\<lambda>_. []) = Inr (?m, dependents_of ts)"
    using link_tasks_known [of ts "rev (map st_id ts)" "[]" "\<lambda>_. []"] known by simp
  have check: "check_distinct [] ts = Inr (rev (map st_id ts))" using ids by (simp add: check_distinct_iff)
  have run: "TaskSet_validated ts =
      (if card P \<noteq> length ts
       then (if ?stuck = [] then None else Some (Inl (DependencyCycle (Min (set ?stuck)))))
       else Some (Inr \<lparr>ts_tasks = ts\<rparr>))"
    using assms(1) P(1) by (simp add: TaskSet_validated_def check link Let_def)
  show ?thesis
  proof (cases "P = st_id ` set ts")
    case True
    with run all P(3) show ?thesis by simp
  next
    case False
    with P(2) have "st_id ` set ts - P \<noteq> {}" by blast
    then have ne: "set ?stuck \<noteq> {}" unfolding stuck .
    then have "Min (set ?stuck) \<in> set ?stuck" by (intro Min_in) simp_all
    then have m: "Min (set ?stuck) \<in> st_id ` set ts" unfolding stuck by blast
    have ne': "card P \<noteq> length ts" "?stuck \<noteq> []" using all False ne by (blast, metis set_empty)
    have "TaskSet_validated ts = Some (Inl (DependencyCycle (Min (set ?stuck))))"
      unfolding run if_P [OF ne'(1)] if_not_P [OF ne'(2)] ..
    with m False P(3) show ?thesis by blast
  qed
qed

lemma validated_accepts:
  assumes "TaskSet_validated tasks = Some (Inr ts)"
  shows "ts = \<lparr>ts_tasks = tasks\<rparr> \<and> distinct (map st_id tasks) \<and> acyclic (dep_edges tasks)
    \<and> (\<forall>t \<in> set tasks. set (st_depends_on t) \<subseteq> st_id ` set tasks)"
proof -
  have len: "length tasks \<le> MAX_SCENARIO_TASKS"
    using assms by (auto simp: TaskSet_validated_def split: if_splits)
  obtain s where s: "check_distinct [] tasks = Inr s"
    using assms by (auto simp: TaskSet_validated_def split: if_splits sum.splits)
  then have ids: "distinct (map st_id tasks)" "s = rev (map st_id tasks)" by (simp_all add: check_distinct_iff)
  have "\<exists>m D. link_tasks s tasks [] (\<lambda>_. []) = Inr (m, D)"
    using assms s by (auto simp: TaskSet_validated_def split: if_splits sum.splits)
  then have known: "\<forall>t \<in> set tasks. set (st_depends_on t) \<subseteq> st_id ` set tasks"
    using link_tasks_unknown [of _ tasks s "[]" "\<lambda>_. []"] ids(2) by fastforce
  with validated_kahn [OF len ids(1) known] assms ids show ?thesis
    by (cases "acyclic (dep_edges tasks)") auto
qed

text \<open>
  C35. A task set is accepted exactly when it is sound. Validation always answers (it never panics or
  loops), and it accepts a list of tasks iff there are at most 4096 of them, their ids are
  distinct, every dependency names a task of the list, and the dependency graph has no cycle. A
  cycle is always reported, on a task of the list, and never claimed where there is none.
\<close>
theorem task_set_accepts_exactly_dags:
  "TaskSet_validated tasks \<noteq> None
   \<and> (\<forall>ts. TaskSet_validated tasks = Some (Inr ts) \<longleftrightarrow>
        ts = \<lparr>ts_tasks = tasks\<rparr> \<and> length tasks \<le> 4096 \<and> distinct (map st_id tasks)
        \<and> list_all (\<lambda>t. set (st_depends_on t) \<subseteq> set (map st_id tasks)) tasks
        \<and> acyclic (dep_edges tasks))
   \<and> (\<forall>k. TaskSet_validated tasks = Some (Inl (DependencyCycle k)) \<longrightarrow>
        k \<in> set (map st_id tasks) \<and> \<not> acyclic (dep_edges tasks))"
proof -
  consider (many) "4096 < length tasks" | (dup) "length tasks \<le> 4096" "\<not> distinct (map st_id tasks)"
    | (unknown) t where "length tasks \<le> 4096" "distinct (map st_id tasks)" "t \<in> set tasks"
        "\<not> set (st_depends_on t) \<subseteq> st_id ` set tasks"
    | (graph) "length tasks \<le> 4096" "distinct (map st_id tasks)"
        "\<forall>t \<in> set tasks. set (st_depends_on t) \<subseteq> st_id ` set tasks"
    by force
  then show ?thesis
  proof cases
    case many
    then show ?thesis by (simp add: TaskSet_validated_def MAX_SCENARIO_TASKS_def)
  next
    case dup
    then have no: "check_distinct [] tasks \<noteq> Inr s" for s by (simp add: check_distinct_iff)
    then obtain k where "check_distinct [] tasks = Inl (DuplicateTaskId k)"
      by (cases "check_distinct [] tasks") (auto dest: check_distinct_Inl)
    with dup show ?thesis by (simp add: TaskSet_validated_def MAX_SCENARIO_TASKS_def)
  next
    case unknown
    then have "check_distinct [] tasks = Inr (rev (map st_id tasks))" by (simp add: check_distinct_iff)
    moreover obtain u d where "link_tasks (rev (map st_id tasks)) tasks [] (\<lambda>_. []) = Inl (UnknownDependency u d)"
      using link_tasks_unknown [of t tasks "rev (map st_id tasks)" "[]" "\<lambda>_. []"] unknown by auto
    ultimately show ?thesis
      using unknown by (auto simp: TaskSet_validated_def MAX_SCENARIO_TASKS_def list_all_iff)
  next
    case graph
    with validated_kahn [of tasks] show ?thesis
      by (cases "acyclic (dep_edges tasks)") (auto simp: MAX_SCENARIO_TASKS_def list_all_iff)
  qed
qed

definition demo_task :: "SimTaskId \<Rightarrow> SimTaskId list \<Rightarrow> rat SimTask" where
  "demo_task i deps = \<lparr>st_id = i, st_principal = ''p'', st_depends_on = deps, st_priority = PrioNormal,
     st_deadline = None, st_estimate = \<lparr>rwe_resource = Quantiles Kind_Tokens (RA_Tokens 10) (RA_Tokens 20)
       (RA_Tokens 30) 5, rwe_confidence = Medium\<rparr>\<rparr>"

theorem task_set_accepts_exactly_dags_witness:
  "TaskSet_validated [demo_task 1 [], demo_task 2 [1], demo_task 3 [1, 2]]
     = Some (Inr \<lparr>ts_tasks = [demo_task 1 [], demo_task 2 [1], demo_task 3 [1, 2]]\<rparr>)
   \<and> \<not> acyclic (dep_edges [demo_task 1 [2], demo_task 2 [1]])"
proof -
  have "TaskSet_validated [demo_task 1 [2], demo_task 2 [1]] = Some (Inl (DependencyCycle 1))"
    by code_simp
  moreover have "TaskSet_validated [demo_task 1 [], demo_task 2 [1], demo_task 3 [1, 2]]
     = Some (Inr \<lparr>ts_tasks = [demo_task 1 [], demo_task 2 [1], demo_task 3 [1, 2]]\<rparr>)"
    by code_simp
  ultimately show ?thesis
    using task_set_accepts_exactly_dags [of "[demo_task 1 [2], demo_task 2 [1]]"] by blast
qed

section \<open>Ready tasks\<close>

text \<open>
  C36. A validated schedule never deadlocks and is offered fairly. The ready tasks are exactly the
  unfinished tasks all of whose dependencies are finished, ordered by priority, then deadline (dated
  tasks first), then id; and as long as some task of a validated set is unfinished, at least
  one is ready, whatever has been completed so far.
\<close>
theorem ready_order_complete_and_live:
  assumes "TaskSet_validated tasks = Some (Inr ts)"
  shows "set (ready_order ts completed) = {t \<in> set tasks. st_id t \<notin> completed \<and> set (st_depends_on t) \<subseteq> completed}
    \<and> sorted_wrt (\<lambda>a b. ready_key a < ready_key b) (ready_order ts completed)
    \<and> (\<not> st_id ` set tasks \<subseteq> completed \<longrightarrow> ready_order ts completed \<noteq> [])"
proof -
  note ok = validated_accepts [OF assms]
  let ?ready = "filter (is_ready completed) tasks"
  have members: "set (ready_order ts completed) = {t \<in> set tasks. st_id t \<notin> completed \<and> set (st_depends_on t) \<subseteq> completed}"
    using ok by (auto simp: ready_order_def is_ready_def list_all_iff)
  have "distinct (map st_id ?ready)" using ok by (intro distinct_map_filter) simp
  then have "distinct (map ready_key ?ready)"
    by (auto simp: distinct_map inj_on_def ready_key_def)
  then have "distinct (map ready_key (ready_order ts completed))"
    using ok by (simp add: ready_order_def distinct_map)
  moreover have "sorted (map ready_key (ready_order ts completed))" by (simp add: ready_order_def)
  ultimately have "sorted_wrt (<) (map ready_key (ready_order ts completed))"
    by (simp add: strict_sorted_iff)
  moreover have "ready_order ts completed \<noteq> []" if left: "\<not> st_id ` set tasks \<subseteq> completed"
  proof -
    from left obtain k where "k \<in> st_id ` set tasks - completed" by blast
    with ok obtain z where z: "z \<in> st_id ` set tasks - completed"
      "\<And>y. (y, z) \<in> dep_edges tasks \<Longrightarrow> y \<notin> st_id ` set tasks - completed"
      using wfE_min [of "dep_edges tasks" k "st_id ` set tasks - completed"] by (auto simp: wf_dep_edges_iff)
    then obtain t where t: "t \<in> set tasks" "z = st_id t" "st_id t \<notin> completed" by auto
    have "d \<in> completed" if "d \<in> set (st_depends_on t)" for d
    proof -
      have "(d, z) \<in> dep_edges tasks" using that t by (auto simp: dep_edges_def)
      moreover have "d \<in> st_id ` set tasks" using ok t(1) that by blast
      ultimately show ?thesis using z(2) by blast
    qed
    with t have "t \<in> set (ready_order ts completed)" unfolding members by blast
    then show ?thesis by auto
  qed
  ultimately show ?thesis using members by (simp add: sorted_wrt_map)
qed

theorem ready_order_complete_and_live_witness:
  "map st_id (ready_order \<lparr>ts_tasks = [demo_task 1 [], demo_task 2 [1], demo_task 3 [1, 2]]\<rparr> {1}) = [2]
   \<and> ready_order \<lparr>ts_tasks = [demo_task 1 [], demo_task 2 [1], demo_task 3 [1, 2]]\<rparr> {1, 2} \<noteq> []"
proof -
  let ?ts = "[demo_task 1 [], demo_task 2 [1], demo_task 3 [1, 2]]"
  have ok: "TaskSet_validated ?ts = Some (Inr \<lparr>ts_tasks = ?ts\<rparr>)" by code_simp
  have "\<not> st_id ` set ?ts \<subseteq> {1, 2}" by (simp add: demo_task_def)
  then have "ready_order \<lparr>ts_tasks = ?ts\<rparr> {1, 2} \<noteq> []"
    using ready_order_complete_and_live [OF ok, of "{1, 2}"] by blast
  moreover have "map st_id (ready_order \<lparr>ts_tasks = ?ts\<rparr> {1}) = [2]"
    by (simp add: ready_order_def is_ready_def demo_task_def)
  ultimately show ?thesis by simp
qed

end
