(* ===== verification/Pacing_Forecast.thy ===== *)
theory Pacing_Forecast
  imports Pacing_Tasks Quota_Window
begin

text \<open>
  The earliest-safe-admit forecast of the pacing simulator (\<open>crates/domain/src/pacing/forecast.rs\<close>): the
  need of a candidate task, the check of one window with that need injected as a hold, and the probe
  that walks relief instants until every window admits. A panic of the evaluated window is \<open>None\<close>.
\<close>

unbundle bit_operations_syntax

section \<open>Outcomes\<close>

datatype UnavailableReason =
    WindowIndeterminate uuid IndeterminateReason
  | NoEstimateInWindowUnit uuid
  | EstimateInsufficient
  | BelowMinConfidence
  | ProviderDeclaredReliefOnly
  | UnknownRelief
  | ProbeBudgetExhausted
  | BeyondHorizon
  | NeedExceedsWindowLimit uuid
  | NoProjectedRelief uuid
  | PastDeadline
  | PastTargetEnd
  | NonAdvancingRelief uuid

datatype PacingCause = Spacing | WorkingHours

datatype NextAdmit = Now | AdmitAt instant uuid | Paced instant PacingCause | Unavailable UnavailableReason

definition MAX_PROBE_STEPS :: nat where "MAX_PROBE_STEPS = 64"

record PendingHold =
  ph_id :: uuid
  ph_amount :: QuotaAmount

record WindowInput =
  wi_window :: QuotaWindow
  wi_usage :: "QuotaUsage list"
  wi_pending :: "PendingHold list"
  wi_snapshots :: "ProviderSnapshot list"

datatype ForecastMode = SustainMode "16 word" | BurstMode

datatype WindowOutcome = Admit | BlockedAt instant | OutcomeUnavailable UnavailableReason

text \<open>The first and the last byte of the id, which is big-endian.\<close>
definition synthetic_uuid :: "uuid \<Rightarrow> 8 word \<Rightarrow> uuid" where
  "synthetic_uuid source tag = (source XOR push_bit 120 (ucast tag)) XOR ucast tag"

definition SYNTHETIC_NEED_TAG :: "8 word" where "SYNTHETIC_NEED_TAG = 0xA5"

section \<open>The need of a task\<close>

definition is_gauge :: "QuotaWindow \<Rightarrow> bool" where
  "is_gauge window = (case qw_kind window of OpaqueProviderSnapshot _ \<Rightarrow> True | _ \<Rightarrow> False)"

definition limit_or_capacity :: "QuotaWindow \<Rightarrow> u64 option" where
  "limit_or_capacity window =
     (case qw_kind window of
        FixedAligned _ _ limit \<Rightarrow> Some limit
      | Sliding _ limit \<Rightarrow> Some limit
      | RefillBucket capacity _ _ _ _ \<Rightarrow> Some capacity
      | OpaqueProviderSnapshot _ \<Rightarrow> None)"

fun extract_relief :: "WindowState \<Rightarrow> Relief" where
  "extract_relief (Period p) = ps_relief p"
| "extract_relief (Bucket b) = bs_relief b"
| "extract_relief (Gauge g) = gs_relief g"

fun resource_kind_for_unit :: "QuotaUnit \<Rightarrow> ResourceKind option" where
  "resource_kind_for_unit UsdCents = Some Kind_Usd"
| "resource_kind_for_unit Tokens = Some Kind_Tokens"
| "resource_kind_for_unit Percent = Some Kind_QuotaPercent"
| "resource_kind_for_unit Requests = None"
| "resource_kind_for_unit (OpaqueCredit _) = None"

text \<open>\<open>u64::try_from(x).unwrap_or(u64::MAX)\<close> of a non-negative \<open>u128\<close>.\<close>
definition u64_or_max :: "int \<Rightarrow> u64" where
  "u64_or_max x = (if x \<le> u64_max then word_of_int x else - 1)"

definition resource_amount_to_quota_amount ::
    "'f floats \<Rightarrow> 'f ResourceAmount \<Rightarrow> QuotaUnit \<Rightarrow> QuotaAmount option" where
  "resource_amount_to_quota_amount f amount unit =
     (case QuotaAmount_try_from f amount of
        Inl _ \<Rightarrow> None
      | Inr converted \<Rightarrow> if qa_unit converted = unit then Some converted else None)"

text \<open>\<open>min_by_key\<close> on the limit: the first of the least.\<close>
fun smallest_limit :: "(u64 \<times> uuid) list \<Rightarrow> (u64 \<times> uuid) option" where
  "smallest_limit [] = None"
| "smallest_limit (x # xs) =
     (case smallest_limit xs of None \<Rightarrow> Some x | Some y \<Rightarrow> if fst y < fst x then Some y else Some x)"

definition matching_windows :: "QuotaWindow list \<Rightarrow> ResourceKind \<Rightarrow> QuotaWindow list" where
  "matching_windows windows kind =
     filter (\<lambda>w. \<not> is_gauge w \<and> resource_kind_for_unit (qw_unit w) = Some kind) windows"

definition floored_need ::
    "'f floats \<Rightarrow> CompletionContract option \<Rightarrow> 'f ResourceAmount option \<Rightarrow> 'f Policy \<Rightarrow> ResourceKind
      \<Rightarrow> QuotaAmount \<Rightarrow> QuotaAmount" where
  "floored_need f contract estimate_for_reserve policy kind need =
     (case contract of
        None \<Rightarrow> need
      | Some c \<Rightarrow>
          let reserve = completion_reserve_for f c estimate_for_reserve policy
          in if ra_kind (cre_amount reserve) = kind
             then (case resource_amount_to_quota_amount f (cre_amount reserve) (qa_unit need) of
                     Some reserve_floor \<Rightarrow> need\<lparr>qa_value := max (qa_value need) (qa_value reserve_floor)\<rparr>
                   | None \<Rightarrow> need)
             else need)"

definition backed_off :: "u64 \<Rightarrow> u64 \<Rightarrow> u64 \<Rightarrow> u64" where
  "backed_off value numerator denominator =
     u64_or_max (uint value * uint (max numerator 1) div uint (max denominator 1))"

definition compute_task_need ::
    "'f floats \<Rightarrow> QuotaWindow list \<Rightarrow> 'f RemainingWorkEstimate \<Rightarrow> CompletionContract option
      \<Rightarrow> 'f ResourceAmount option \<Rightarrow> 'f Policy \<Rightarrow> u64 \<Rightarrow> u64 \<Rightarrow> UnavailableReason + QuotaAmount option" where
  "compute_task_need f windows estimate contract estimate_for_reserve policy backoff_numerator
      backoff_denominator =
     (case rwe_resource estimate of
        Quantiles kind _ _ base _ \<Rightarrow>
          (case matching_windows windows kind of
             [] \<Rightarrow> Inr None
           | first # rest \<Rightarrow>
               rbind (ok_or (NoEstimateInWindowUnit (qw_id first))
                   (resource_amount_to_quota_amount f base (qw_unit first))) (\<lambda>base_need.
               let need = floored_need f contract estimate_for_reserve policy kind base_need;
                   smallest = smallest_limit (List.map_filter
                     (\<lambda>w. map_option (\<lambda>limit. (limit, qw_id w)) (limit_or_capacity w)) (first # rest))
               in case smallest of
                    Some (limit, limiting_window) \<Rightarrow>
                      if limit \<le> qa_value need then Inl (NeedExceedsWindowLimit limiting_window)
                      else
                        let scaled = backed_off (qa_value need) backoff_numerator backoff_denominator
                        in Inr (Some (need\<lparr>qa_value := if 0 < limit then min scaled (limit - 1) else scaled\<rparr>))
                  | None \<Rightarrow>
                      Inr (Some (need\<lparr>qa_value :=
                        backed_off (qa_value need) backoff_numerator backoff_denominator\<rparr>))))
      | _ \<Rightarrow> Inl EstimateInsufficient)"

section \<open>One window\<close>

definition continuity_addition :: "QuotaWindow \<Rightarrow> ForecastMode \<Rightarrow> u64" where
  "continuity_addition window mode =
     (case mode of
        BurstMode \<Rightarrow> 0
      | SustainMode continuity_reserve_bp \<Rightarrow>
          (case limit_or_capacity window of
             None \<Rightarrow> 0
           | Some limit \<Rightarrow> u64_or_max (uint limit * uint continuity_reserve_bp div 10000)))"

definition injected_need :: "QuotaWindow \<Rightarrow> ForecastMode \<Rightarrow> QuotaAmount \<Rightarrow> QuotaAmount" where
  "injected_need window mode need =
     (let value = saturating_add (qa_value need) (continuity_addition window mode)
      in need\<lparr>qa_value :=
           (case limit_or_capacity window of
              Some limit \<Rightarrow> if 0 < limit then min value (limit - 1) else value
            | None \<Rightarrow> value)\<rparr>)"

definition pending_holds :: "WindowInput \<Rightarrow> OutstandingHold list" where
  "pending_holds input = map (\<lambda>p. OutstandingHold_projected (ph_id p) (ph_amount p)) (wi_pending input)"

text \<open>The evidence a window is checked against: its usage, the pending holds and the candidate's need.\<close>
definition probe_evidence :: "WindowInput \<Rightarrow> ForecastMode \<Rightarrow> QuotaAmount \<Rightarrow> QuotaEvidence" where
  "probe_evidence input mode need =
     \<lparr>ev_usage = wi_usage input,
      ev_holds = pending_holds input @ [OutstandingHold_projected
        (synthetic_uuid (qw_id (wi_window input)) SYNTHETIC_NEED_TAG) (injected_need (wi_window input) mode need)],
      ev_snapshots = wi_snapshots input\<rparr>"

definition check_window ::
    "clock \<Rightarrow> WindowInput \<Rightarrow> QuotaAmount option \<Rightarrow> ForecastMode \<Rightarrow> instant \<Rightarrow> WindowOutcome option" where
  "check_window clk input need mode t =
     (let window = wi_window input
      in if is_gauge window then
           map_option (\<lambda>eval.
             case we_blocking eval of
               NotBlocking \<Rightarrow> Admit
             | Indeterminate reason \<Rightarrow> OutcomeUnavailable (WindowIndeterminate (qw_id window) reason)
             | Blocking \<Rightarrow>
                 (case extract_relief (we_state eval) of
                    ProviderDeclared _ \<Rightarrow> OutcomeUnavailable ProviderDeclaredReliefOnly
                  | _ \<Rightarrow> OutcomeUnavailable UnknownRelief))
           (evaluate clk window \<lparr>ev_usage = wi_usage input, ev_holds = [], ev_snapshots = wi_snapshots input\<rparr> t)
         else case need of
           None \<Rightarrow> Some (OutcomeUnavailable (NoEstimateInWindowUnit (qw_id window)))
         | Some need \<Rightarrow>
             if qa_unit need \<noteq> qw_unit window
             then Some (OutcomeUnavailable (NoEstimateInWindowUnit (qw_id window)))
             else
               map_option (\<lambda>eval.
                 case we_blocking eval of
                   NotBlocking \<Rightarrow> Admit
                 | Indeterminate reason \<Rightarrow> OutcomeUnavailable (WindowIndeterminate (qw_id window) reason)
                 | Blocking \<Rightarrow>
                     (case extract_relief (we_state eval) of
                        At x \<Rightarrow> BlockedAt x
                      | AfterOutstandingHoldsSettle \<Rightarrow> OutcomeUnavailable (NoProjectedRelief (qw_id window))
                      | ProviderDeclared _ \<Rightarrow> OutcomeUnavailable ProviderDeclaredReliefOnly
                      | ReliefUnknown \<Rightarrow> OutcomeUnavailable UnknownRelief
                      | ReliefNotBlocking \<Rightarrow> Admit))
               (evaluate clk window (probe_evidence input mode need) t))"

section \<open>The probe\<close>

text \<open>One round over the windows: \<open>Inl\<close> is an early return, \<open>Inr\<close> the latest relief seen.\<close>
fun probe_windows ::
    "clock \<Rightarrow> QuotaAmount option \<Rightarrow> ForecastMode \<Rightarrow> instant \<Rightarrow> (instant \<times> uuid) option \<Rightarrow> WindowInput list
      \<Rightarrow> (UnavailableReason + (instant \<times> uuid) option) option" where
  "probe_windows clk need mode t latest_relief [] = Some (Inr latest_relief)"
| "probe_windows clk need mode t latest_relief (input # inputs) =
     Option.bind (check_window clk input need mode t) (\<lambda>outcome.
       case outcome of
         Admit \<Rightarrow> probe_windows clk need mode t latest_relief inputs
       | BlockedAt relief_at \<Rightarrow>
           if relief_at \<le> t then Some (Inl (NonAdvancingRelief (qw_id (wi_window input))))
           else probe_windows clk need mode t
             (case latest_relief of
                Some (latest, _) \<Rightarrow> if relief_at \<le> latest then latest_relief
                  else Some (relief_at, qw_id (wi_window input))
              | None \<Rightarrow> Some (relief_at, qw_id (wi_window input)))
             inputs
       | OutcomeUnavailable reason \<Rightarrow> Some (Inl reason))"

fun probe ::
    "nat \<Rightarrow> clock \<Rightarrow> WindowInput list \<Rightarrow> QuotaAmount option \<Rightarrow> ForecastMode \<Rightarrow> instant \<Rightarrow> uuid option
      \<Rightarrow> NextAdmit option" where
  "probe 0 clk windows need mode t limiting = Some (Unavailable ProbeBudgetExhausted)"
| "probe (Suc n) clk windows need mode t limiting =
     Option.bind (probe_windows clk need mode t None windows) (\<lambda>round_result.
       case round_result of
         Inl reason \<Rightarrow> Some (Unavailable reason)
       | Inr None \<Rightarrow> Some (case limiting of None \<Rightarrow> Now | Some w \<Rightarrow> AdmitAt t w)
       | Inr (Some (next_t, w)) \<Rightarrow> probe n clk windows need mode next_t (Some w))"

definition earliest_safe_admit ::
    "'f floats \<Rightarrow> clock \<Rightarrow> WindowInput list \<Rightarrow> 'f RemainingWorkEstimate \<Rightarrow> 'f Policy \<Rightarrow> CompletionContract option
      \<Rightarrow> 'f ResourceAmount option \<Rightarrow> ForecastMode \<Rightarrow> u64 \<Rightarrow> u64 \<Rightarrow> instant \<Rightarrow> NextAdmit option" where
  "earliest_safe_admit f clk windows need_estimate policy contract estimate_for_reserve mode
      backoff_numerator backoff_denominator start_at =
     (if rwe_confidence need_estimate < po_min_confidence policy then Some (Unavailable BelowMinConfidence)
      else case compute_task_need f (map wi_window windows) need_estimate contract estimate_for_reserve policy
             backoff_numerator backoff_denominator of
        Inl reason \<Rightarrow> Some (Unavailable reason)
      | Inr need \<Rightarrow> probe MAX_PROBE_STEPS clk windows need mode start_at None)"

section \<open>The need fits every window\<close>

lemma pred_u64:
  assumes "(v :: u64) < limit" shows "limit - 1 < limit \<and> v \<le> limit - 1"
proof -
  from assms have "uint v < uint limit" by (simp add: word_less_def)
  then have one: "1 \<le> uint limit" using uint_ge_0 [of v] by linarith
  then have "uint (limit - 1) = uint limit - 1" by (subst uint_minus_u64) (simp_all add: word_le_def)
  with \<open>uint v < uint limit\<close> show ?thesis by (simp add: word_less_def word_le_def)
qed

lemma smallest_limit_None: "smallest_limit xs = None \<longleftrightarrow> xs = []"
  by (cases xs) (auto split: option.splits)

lemma smallest_limit_least:
  "smallest_limit xs = Some y \<Longrightarrow> y \<in> set xs \<and> (\<forall>x \<in> set xs. fst y \<le> fst x)"
proof (induction xs arbitrary: y)
  case (Cons x xs)
  show ?case
  proof (cases "smallest_limit xs")
    case None
    then have "xs = []" by (simp add: smallest_limit_None)
    with Cons.prems show ?thesis by simp
  next
    case (Some z)
    with Cons.prems have "y = (if fst z < fst x then z else x)" by (auto split: if_splits)
    with Cons.IH [OF Some] show ?thesis by (cases "fst z < fst x") (auto intro: order.trans simp: not_less)
  qed
qed simp

lemma uint_u64_or_max: "0 \<le> x \<Longrightarrow> uint (u64_or_max x) = min x u64_max"
proof -
  assume x: "0 \<le> x"
  have "uint (- 1 :: u64) = u64_max" by (simp add: u64_max_def unsigned_minus_1_eq_mask mask_eq_exp_minus_1)
  with x show ?thesis
    by (auto simp: u64_or_max_def min_def uint_word_of_int u64_max_def mod_pos_pos_trivial)
qed

lemma uint_backed_off:
  "uint (backed_off v n d) = min (uint v * uint (max n 1) div uint (max d 1)) u64_max"
  unfolding backed_off_def by (rule uint_u64_or_max) (simp add: pos_imp_zdiv_nonneg_iff word_le_def max_def)

lemma backed_off_unit: "backed_off v 1 1 = v"
  using uint_u64_bounds [of v] by (simp add: word_uint_eq_iff uint_backed_off)

lemma backed_off_grows:
  assumes "d \<le> n" shows "v \<le> backed_off v n d"
proof -
  let ?d = "uint (max d 1)" and ?n = "uint (max n 1)"
  have "1 \<le> ?d" by (simp add: max_def word_le_def)
  moreover have "?d \<le> ?n" using assms by (auto simp: max_def word_le_def)
  ultimately have "uint v * ?d div ?d \<le> uint v * ?n div ?d"
    by (intro zdiv_mono1 mult_left_mono) auto
  with \<open>1 \<le> ?d\<close> show ?thesis using uint_u64_bounds [of v] by (simp add: word_le_def uint_backed_off)
qed

lemma resource_unit_inj:
  "resource_kind_for_unit u = Some k \<Longrightarrow> resource_kind_for_unit v = Some k \<Longrightarrow> u = v"
  by (cases u; cases v) auto

lemma to_quota_amount_unit: "resource_amount_to_quota_amount f a u = Some q \<Longrightarrow> qa_unit q = u"
  by (auto simp: resource_amount_to_quota_amount_def split: sum.splits if_splits)

lemma floored_need_unit [simp]: "qa_unit (floored_need f c e p k q) = qa_unit q"
  by (simp add: floored_need_def Let_def split: option.splits)

text \<open>The one successful path of the computation, as a function of the backoff.\<close>
lemma compute_task_need_Some:
  assumes "compute_task_need f windows est contract e policy num den = Inr (Some need)"
  shows "\<exists>kind limit base.
     (\<forall>n d. compute_task_need f windows est contract e policy n d
        = Inr (Some (base\<lparr>qa_value := min (backed_off (qa_value base) n d) (limit - 1)\<rparr>)))
   \<and> qa_value base < limit \<and> resource_kind_for_unit (qa_unit base) = Some kind
   \<and> (\<forall>w \<in> set (matching_windows windows kind). \<exists>l. limit_or_capacity w = Some l \<and> limit \<le> l)"
proof -
  from assms obtain kind p50 p80 p90 cn first rest b where res: "rwe_resource est = Quantiles kind p50 p80 p90 cn"
    "matching_windows windows kind = first # rest" "resource_amount_to_quota_amount f p90 (qw_unit first) = Some b"
    by (auto simp: compute_task_need_def res_simps split: RemainingResource.splits list.splits)
  let ?base = "floored_need f contract e policy kind b"
  let ?lims = "List.map_filter (\<lambda>w. map_option (\<lambda>limit. (limit, qw_id w)) (limit_or_capacity w)) (first # rest)"
  have lims: "\<exists>l. limit_or_capacity w = Some l \<and> (l, qw_id w) \<in> set ?lims"
    if "w \<in> set (first # rest)" for w
  proof -
    have "\<not> is_gauge w" using that res(2) [symmetric] by (auto simp: matching_windows_def)
    then obtain l where "limit_or_capacity w = Some l"
      by (auto simp: is_gauge_def limit_or_capacity_def split: WindowKind.splits)
    with that show ?thesis by (force simp: map_filter_def image_iff)
  qed
  have "first \<in> set (first # rest)" by simp
  from lims [OF this] have "?lims \<noteq> []" by (metis empty_iff list.set(1))
  then obtain limit i where sm: "smallest_limit ?lims = Some (limit, i)"
    using smallest_limit_None by (cases "smallest_limit ?lims") auto
  have least: "\<exists>l. limit_or_capacity w = Some l \<and> limit \<le> l" if "w \<in> set (matching_windows windows kind)" for w
    using lims [of w] that smallest_limit_least [OF sm] res(2) by force
  have fits: "qa_value ?base < limit"
    using assms res sm by (auto simp: compute_task_need_def Let_def not_le split: if_splits)
  then have "0 < limit" by (metis word_gt_0 word_not_simps(1))
  then have run: "compute_task_need f windows est contract e policy n d
      = Inr (Some (?base\<lparr>qa_value := min (backed_off (qa_value ?base) n d) (limit - 1)\<rparr>))" for n d
    using res sm fits by (simp add: compute_task_need_def Let_def)
  have "first \<in> set (matching_windows windows kind)" using res(2) by simp
  then have "resource_kind_for_unit (qa_unit ?base) = Some kind"
    using to_quota_amount_unit [OF res(3)] by (simp add: matching_windows_def)
  with run fits least show ?thesis by blast
qed

lemma need_below_limit:
  assumes "compute_task_need f windows est contract e policy num den = Inr (Some need)"
    and "w \<in> set windows" "\<not> is_gauge w" "qw_unit w = qa_unit need"
  shows "\<exists>limit. limit_or_capacity w = Some limit \<and> qa_value need < limit"
proof -
  from compute_task_need_Some [OF assms(1)] obtain kind limit b where
    run: "\<And>n d. compute_task_need f windows est contract e policy n d
        = Inr (Some (b\<lparr>qa_value := min (backed_off (qa_value b) n d) (limit - 1)\<rparr>))"
    and b: "qa_value b < limit" "resource_kind_for_unit (qa_unit b) = Some kind"
    and lims: "\<forall>w \<in> set (matching_windows windows kind). \<exists>l. limit_or_capacity w = Some l \<and> limit \<le> l"
    by blast
  have need: "need = b\<lparr>qa_value := min (backed_off (qa_value b) num den) (limit - 1)\<rparr>"
    using assms(1) run by simp
  have "qa_value need < limit"
    using pred_u64 [OF b(1)] by (auto simp: need min_less_iff_disj)
  moreover have "w \<in> set (matching_windows windows kind)"
    using assms(2-4) b(2) by (simp add: matching_windows_def need)
  ultimately show ?thesis using lims by (auto intro: less_le_trans)
qed

text \<open>
  C34. The need computed for a task fits every window at once, and backoff only throttles. Whatever the
  floating-point arithmetic, a computed need is strictly below the limit of every enforceable
  window of its unit, so no window can refuse it for ever. The backoff ratio never decides whether
  there is a need: if one ratio yields a need so does every other, and a ratio of at least one
  never yields less than the need without backoff.
\<close>
theorem task_need_fits_every_window:
  assumes "compute_task_need f windows est contract e policy num den = Inr (Some need)"
  shows "(\<forall>w \<in> set windows. \<not> is_gauge w \<and> qw_unit w = qa_unit need
            \<longrightarrow> (\<exists>limit. limit_or_capacity w = Some limit \<and> qa_value need < limit))
       \<and> (\<forall>n d. \<exists>other. compute_task_need f windows est contract e policy n d = Inr (Some other))
       \<and> (\<forall>base. den \<le> num \<longrightarrow> compute_task_need f windows est contract e policy 1 1 = Inr (Some base)
            \<longrightarrow> qa_unit base = qa_unit need \<and> qa_value base \<le> qa_value need)"
proof -
  from compute_task_need_Some [OF assms] obtain limit b where
    run: "\<And>n d. compute_task_need f windows est contract e policy n d
        = Inr (Some (b\<lparr>qa_value := min (backed_off (qa_value b) n d) (limit - 1)\<rparr>))"
    and b: "qa_value b < limit"
    by blast
  have need: "need = b\<lparr>qa_value := min (backed_off (qa_value b) num den) (limit - 1)\<rparr>"
    using assms run by simp
  have pred: "qa_value b \<le> limit - 1" using pred_u64 [OF b] by simp
  have "qa_value b \<le> qa_value need" if "den \<le> num"
    using backed_off_grows [OF that, of "qa_value b"] pred by (simp add: need)
  with need_below_limit [OF assms] run pred show ?thesis by (auto simp: backed_off_unit need)
qed

definition demo_policy :: "rat Policy" where
  "demo_policy = \<lparr>po_target = RA_Tokens 100, po_hard_ceiling = RA_Tokens 150, po_deadline = None,
     po_min_confidence = Low, po_turn = None\<rparr>"

theorem task_need_fits_every_window_witness:
  "\<exists>need. compute_task_need rat_floats [demo_window (Sliding 60 100), demo_window (Sliding 3600 50)]
        (st_estimate (demo_task 1 [])) None None demo_policy 200 100 = Inr (Some need)
     \<and> qa_value need = 49 \<and> qa_value need < 50"
proof -
  let ?ws = "[demo_window (Sliding 60 100), demo_window (Sliding 3600 50)]"
  have run: "compute_task_need rat_floats ?ws (st_estimate (demo_task 1 [])) None None demo_policy 200 100
      = Inr (Some \<lparr>qa_unit = Tokens, qa_value = 49\<rparr>)"
    by code_simp
  from task_need_fits_every_window [OF run] have "\<forall>w \<in> set ?ws. \<not> is_gauge w \<and> qw_unit w = Tokens
      \<longrightarrow> (\<exists>limit. limit_or_capacity w = Some limit \<and> (49 :: u64) < limit)" by simp
  then have "(49 :: u64) < 50"
    by (simp add: demo_window_def is_gauge_def limit_or_capacity_def)
  with run show ?thesis by simp
qed

section \<open>An admit instant is safe\<close>

text \<open>A bucket whose scaled capacity fits \<open>i128\<close>.\<close>
definition bucket_fits :: "QuotaWindow \<Rightarrow> bool" where
  "bucket_fits w = (case qw_kind w of
     RefillBucket capacity _ secs _ _ \<Rightarrow> uint capacity * (uint secs * 1000) \<le> i128_max | _ \<Rightarrow> True)"

lemma bucket_relief_consistent:
  assumes "secs \<noteq> 0" "uint capacity * (uint secs * 1000) \<le> i128_max"
    and "L div (uint secs * 1000) \<le> uint out" "0 \<le> uint out"
  shows "bucket_relief clk now (uint capacity) r (uint secs * 1000) (uint (out :: u64)) L True \<noteq> Some ReliefNotBlocking"
proof
  let ?P = "uint secs * 1000"
  assume relief: "bucket_relief clk now (uint capacity) r ?P (uint out) L True = Some ReliefNotBlocking"
  have P: "0 < ?P" using assms(1) by (simp add: uint_0_iff order.strict_iff_order)
  have one: "i128_sat (uint out + 1) = uint out + 1"
    by (rule i128_sat_nonneg) (use uint_u64_bounds [of out] in \<open>simp_all add: u64_max_def i128_max_def\<close>)
  with relief have "uint out + 1 \<le> uint capacity"
    by (auto simp: bucket_relief_def split: if_splits)
  then have "(uint out + 1) * ?P \<le> uint capacity * ?P" using P by (intro mult_right_mono) simp_all
  also note assms(2)
  finally have "i128_sat ((uint out + 1) * ?P) = (uint out + 1) * ?P"
    by (rule i128_sat_nonneg [rotated]) simp
  moreover have "L < (uint out + 1) * ?P"
  proof -
    have "L = ?P * (L div ?P) + L mod ?P" by simp
    moreover have "L mod ?P < ?P" using P by simp
    moreover have "?P * (L div ?P) \<le> ?P * uint out" using P assms(3) by (intro mult_left_mono) simp_all
    ultimately show ?thesis by (simp add: algebra_simps)
  qed
  ultimately show False
    using relief one by (auto simp: bucket_relief_def Let_def i128_sat_nonpos_iff split: if_splits option.splits)
qed

lemma evaluate_Blocking_kind:
  assumes "evaluate clk w ev t = Some e" "we_blocking e = Blocking"
  shows "\<exists>st. evaluate_kind clk w ev t = Some (st, Blocking) \<and> we_state e = st"
proof -
  have mr: "most_restrictive b (Indeterminate r) = Blocking \<longleftrightarrow> b = Blocking" for b r by (cases b) auto
  from assms show ?thesis by (auto simp: evaluate_def mr split: option.splits if_splits)
qed

text \<open>A blocked window never reports a relief of \<open>NotBlocking\<close>.\<close>
lemma blocked_relief_consistent:
  assumes "evaluate clk w ev t = Some e" "we_blocking e = Blocking" "bucket_fits w"
  shows "extract_relief (we_state e) \<noteq> ReliefNotBlocking"
proof -
  from evaluate_Blocking_kind [OF assms(1,2)] obtain st where
    st: "evaluate_kind clk w ev t = Some (st, Blocking)" "we_state e = st" by blast
  show ?thesis unfolding st(2)
  proof (cases "qw_kind w")
    case (FixedAligned p z l)
    with st(1) show "extract_relief st \<noteq> ReliefNotBlocking"
      by (auto simp: evaluate_kind_def evaluate_period_def Let_def status_of_def split: prod.splits if_splits)
  next
    case (Sliding len l)
    with st(1) show "extract_relief st \<noteq> ReliefNotBlocking"
      by (auto simp: evaluate_kind_def evaluate_sliding_def Let_def status_of_def bind_eq_Some_conv
          split: if_splits option.splits)
  next
    case (RefillBucket c r s a l)
    let ?us = "filter (\<lambda>u. a \<le> qu_occurred_at u \<and> qu_occurred_at u \<le> t) (pe_usage (prepare ev w t))"
    let ?out = "pe_outstanding (prepare ev w t)"
    have "evaluate_bucket clk w ev t c r s a l = Some (st, Blocking)"
      using st(1) RefillBucket by (simp add: evaluate_kind_def)
    then obtain relief where s: "s \<noteq> 0" and relief:
      "bucket_relief clk t (uint c) (uint r) (uint s * 1000) (uint ?out) (bucket_level_at c r s a l ?us t) True = Some relief"
      "extract_relief st = relief" "bucket_level_at c r s a l ?us t div (uint s * 1000) \<le> uint ?out"
      by (auto simp: evaluate_bucket_split Let_def status_of_def clamp_i64_nonpos_iff i128_sat_nonpos_iff
          split: if_splits)
    with bucket_relief_consistent [of s c _ ?out clk t "uint r"] assms(3) RefillBucket show "extract_relief st \<noteq> ReliefNotBlocking"
      by (auto simp: bucket_fits_def)
  next
    case (OpaqueProviderSnapshot m)
    with st(1) show "extract_relief st \<noteq> ReliefNotBlocking"
      by (auto simp: evaluate_kind_def evaluate_gauge_def Let_def split: option.splits if_splits)
  qed
qed

text \<open>What \<open>Admit\<close> means for a window at an instant.\<close>
definition admits_at :: "clock \<Rightarrow> QuotaAmount option \<Rightarrow> ForecastMode \<Rightarrow> WindowInput \<Rightarrow> instant \<Rightarrow> bool" where
  "admits_at clk need mode i t \<longleftrightarrow>
     (if is_gauge (wi_window i)
      then \<exists>e. evaluate clk (wi_window i) \<lparr>ev_usage = wi_usage i, ev_holds = [], ev_snapshots = wi_snapshots i\<rparr> t = Some e
             \<and> we_blocking e = NotBlocking
      else \<exists>n e. need = Some n \<and> qa_unit n = qw_unit (wi_window i)
             \<and> evaluate clk (wi_window i) (probe_evidence i mode n) t = Some e \<and> we_blocking e = NotBlocking)"

lemma check_window_Admit:
  assumes "check_window clk i need mode t = Some Admit" "bucket_fits (wi_window i)"
  shows "admits_at clk need mode i t"
proof (cases "is_gauge (wi_window i)")
  case True
  with assms(1) obtain ev where ev: "evaluate clk (wi_window i)
      \<lparr>ev_usage = wi_usage i, ev_holds = [], ev_snapshots = wi_snapshots i\<rparr> t = Some ev"
    by (auto simp: check_window_def Let_def)
  with assms(1) True show ?thesis
    by (cases "we_blocking ev") (auto simp: check_window_def admits_at_def Let_def split: Relief.splits)
next
  case False
  with assms(1) obtain n e where n: "need = Some n" "qa_unit n = qw_unit (wi_window i)"
    "evaluate clk (wi_window i) (probe_evidence i mode n) t = Some e"
    by (auto simp: check_window_def Let_def split: option.splits if_splits)
  with assms(1) False have "we_blocking e = NotBlocking
      \<or> (we_blocking e = Blocking \<and> extract_relief (we_state e) = ReliefNotBlocking)"
    by (cases "we_blocking e") (auto simp: check_window_def Let_def split: Relief.splits)
  with blocked_relief_consistent [OF n(3) _ assms(2)] n False show ?thesis by (auto simp: admits_at_def)
qed

lemma probe_windows_result:
  assumes "probe_windows clk need mode t lr is = Some (Inr lr')" "\<forall>i \<in> set is. bucket_fits (wi_window i)"
    and "\<forall>u w. lr = Some (u, w) \<longrightarrow> t < u"
  shows "(lr' = None \<longrightarrow> lr = None \<and> (\<forall>i \<in> set is. admits_at clk need mode i t))
    \<and> (\<forall>u w. lr' = Some (u, w) \<longrightarrow> t < u)"
  using assms
proof (induction "is" arbitrary: lr)
  case (Cons i "is")
  from Cons.prems(1) obtain out where out: "check_window clk i need mode t = Some out"
    by (auto simp: bind_eq_Some_conv)
  show ?case
  proof (cases out)
    case Admit
    with Cons.prems(1) out have "probe_windows clk need mode t lr is = Some (Inr lr')" by simp
    from Cons.IH [OF this _ Cons.prems(3)] check_window_Admit [of clk i need mode t] out Admit Cons.prems(2)
    show ?thesis by simp
  next
    case (BlockedAt u)
    define lr2 where "lr2 = (case lr of Some (latest, _) \<Rightarrow> if u \<le> latest then lr else Some (u, qw_id (wi_window i))
      | None \<Rightarrow> Some (u, qw_id (wi_window i)))"
    have "t < u" "probe_windows clk need mode t lr2 is = Some (Inr lr')"
      using Cons.prems(1) out BlockedAt unfolding lr2_def by (cases "u \<le> t"; simp)+
    moreover have "lr2 \<noteq> None" "\<forall>v w. lr2 = Some (v, w) \<longrightarrow> t < v"
      using Cons.prems(3) \<open>t < u\<close> unfolding lr2_def by (cases lr; force split: if_splits)+
    ultimately show ?thesis using Cons.IH [of lr2] Cons.prems(2) by auto
  next
    case (OutcomeUnavailable r)
    with Cons.prems(1) out show ?thesis by simp
  qed
qed simp

lemma probe_result:
  assumes "probe k clk is need mode t lw = Some r" "\<forall>i \<in> set is. bucket_fits (wi_window i)"
  shows "(\<forall>u c. r \<noteq> Paced u c)
    \<and> (r = Now \<longrightarrow> lw = None \<and> (\<forall>i \<in> set is. admits_at clk need mode i t))
    \<and> (\<forall>u w. r = AdmitAt u w \<longrightarrow> (if lw = None then t < u else t \<le> u) \<and> (\<forall>i \<in> set is. admits_at clk need mode i u))"
  using assms
proof (induction k arbitrary: t lw)
  case (Suc k)
  from Suc.prems(1) obtain res where res: "probe_windows clk need mode t None is = Some res"
    by (auto simp: bind_eq_Some_conv)
  show ?case
  proof (cases res)
    case (Inl a)
    with Suc.prems(1) res show ?thesis by auto
  next
    case (Inr lr)
    with probe_windows_result [of clk need mode t None "is" lr] res Suc.prems(2) have
      *: "lr = None \<longrightarrow> (\<forall>i \<in> set is. admits_at clk need mode i t)" "\<forall>u w. lr = Some (u, w) \<longrightarrow> t < u" by auto
    show ?thesis
    proof (cases lr)
      case None
      with * Inr Suc.prems(1) res show ?thesis by (auto split: option.splits)
    next
      case (Some uw)
      obtain u w where uw: "uw = (u, w)" by fastforce
      with Some Inr Suc.prems(1) res have "probe k clk is need mode u (Some w) = Some r" by simp
      from Suc.IH [OF this Suc.prems(2)] *(2) Some uw show ?thesis by (auto split: if_splits)
    qed
  qed
qed auto

lemma earliest_safe_admit_result:
  assumes "earliest_safe_admit f clk is est policy contract e mode num den start = Some r"
    and "\<forall>i \<in> set is. bucket_fits (wi_window i)" "r = Now \<or> r = AdmitAt u w"
  shows "\<exists>need. compute_task_need f (map wi_window is) est contract e policy num den = Inr need
    \<and> po_min_confidence policy \<le> rwe_confidence est
    \<and> (r = Now \<longrightarrow> (\<forall>i \<in> set is. admits_at clk need mode i start))
    \<and> (r = AdmitAt u w \<longrightarrow> start < u \<and> (\<forall>i \<in> set is. admits_at clk need mode i u))"
proof -
  from assms(1,3) obtain need where need: "compute_task_need f (map wi_window is) est contract e policy num den = Inr need"
    "probe MAX_PROBE_STEPS clk is need mode start None = Some r" "po_min_confidence policy \<le> rwe_confidence est"
    by (auto simp: earliest_safe_admit_def split: if_splits sum.splits)
  from probe_result [OF need(2) assms(2)] need show ?thesis by auto
qed

text \<open>
  C33. An admit instant is safe. When the forecast admits a task, now or at a later instant \<open>u\<close>, the
  estimate meets the policy's minimum confidence, a later instant is strictly after the start, and
  at the admit instant every window evaluates to not blocking: a metered window with every pending hold and
  the task's own need counted as outstanding in the window's unit, a provider gauge on its
  snapshots. The buckets' scaled capacities fit the 128-bit arithmetic.
\<close>
theorem admit_instant_is_safe:
  assumes "earliest_safe_admit f clk is est policy contract e mode num den start = Some r"
    and "\<forall>i \<in> set is. bucket_fits (wi_window i)"
    and "r = Now \<and> u = start \<or> r = AdmitAt u w"
  shows "po_min_confidence policy \<le> rwe_confidence est
    \<and> (r = AdmitAt u w \<longrightarrow> start < u)
    \<and> (\<exists>need. compute_task_need f (map wi_window is) est contract e policy num den = Inr need
         \<and> (\<forall>i \<in> set is. admits_at clk need mode i u))"
  using earliest_safe_admit_result [OF assms(1,2)] assms(3) by blast

definition demo_input :: "instant WindowKind \<Rightarrow> WindowInput" where
  "demo_input k = \<lparr>wi_window = demo_window k, wi_usage = [], wi_pending = [], wi_snapshots = []\<rparr>"

theorem admit_instant_is_safe_witness:
  "earliest_safe_admit rat_floats utc_clock [demo_input (Sliding 60 100)] (st_estimate (demo_task 1 [])) demo_policy
      None None BurstMode 100 100 0 = Some Now
   \<and> (\<exists>need. admits_at utc_clock need BurstMode (demo_input (Sliding 60 100)) 0)"
proof -
  have run: "earliest_safe_admit rat_floats utc_clock [demo_input (Sliding 60 100)] (st_estimate (demo_task 1 []))
      demo_policy None None BurstMode 100 100 0 = Some Now"
    by code_simp
  have "\<forall>i \<in> set [demo_input (Sliding 60 100)]. bucket_fits (wi_window i)" by code_simp
  from admit_instant_is_safe [OF run this, where u = 0] run show ?thesis by auto
qed

text \<open>The bound on the scaled capacity is needed: a full bucket that saturates 128-bit arithmetic evaluates to
  blocking with a relief of \<open>NotBlocking\<close>, and the check admits.\<close>
definition huge_bucket_input :: WindowInput where
  "huge_bucket_input = \<lparr>wi_window = demo_window (RefillBucket (2 ^ 63) 1 (2 ^ 63) 0 (2 ^ 63)), wi_usage = [],
     wi_pending = [\<lparr>ph_id = 1, ph_amount = \<lparr>qa_unit = Tokens, qa_value = 2 ^ 60\<rparr>\<rparr>], wi_snapshots = []\<rparr>"

lemma saturated_bucket_admits:
  "map_option we_blocking (evaluate utc_clock (wi_window huge_bucket_input)
      (probe_evidence huge_bucket_input BurstMode \<lparr>qa_unit = Tokens, qa_value = 1\<rparr>) 0) = Some Blocking
   \<and> check_window utc_clock huge_bucket_input (Some \<lparr>qa_unit = Tokens, qa_value = 1\<rparr>) BurstMode 0 = Some Admit"
  by code_simp

end
