(* ===== verification/Pacing_Step.thy ===== *)
theory Pacing_Step
  imports Pacing_Forecast
begin

text \<open>
  The pacing state machine (\<open>crates/domain/src/pacing/step.rs\<close>): the state of a replay, one
  transition per event, and the admission pass that follows it. The ordered map of active tasks is a list
  sorted by key, as its iteration order is read; the maps that are only looked up are maps. A panic of
  an evaluated window is \<open>None\<close>.
\<close>

unbundle bit_operations_syntax

section \<open>Preferences, events and proposals\<close>

datatype PacingPreference =
    Sustain u64 "WorkingHours option" "16 word"
  | Burst instant "16 word"

datatype 'f PacingEvent =
    Spend OffsetDateTime u64 SimTaskId QuotaAmount
  | TaskCompleted OffsetDateTime u64 SimTaskId
  | EstimateRevised OffsetDateTime u64 SimTaskId "'f RemainingWorkEstimate"
  | ModeChanged OffsetDateTime u64
  | SnapshotIngested OffsetDateTime u64 ProviderSnapshot

fun pe_at :: "'f PacingEvent \<Rightarrow> OffsetDateTime" where
  "pe_at (Spend t _ _ _) = t"
| "pe_at (TaskCompleted t _ _) = t"
| "pe_at (EstimateRevised t _ _ _) = t"
| "pe_at (ModeChanged t _) = t"
| "pe_at (SnapshotIngested t _ _) = t"

fun pe_seq :: "'f PacingEvent \<Rightarrow> u64" where
  "pe_seq (Spend _ seq _ _) = seq"
| "pe_seq (TaskCompleted _ seq _) = seq"
| "pe_seq (EstimateRevised _ seq _ _) = seq"
| "pe_seq (ModeChanged _ seq) = seq"
| "pe_seq (SnapshotIngested _ seq _) = seq"

datatype Proposal = Start SimTaskId instant QuotaAmount "uuid option" | Hold NextAdmit

record 'f Scenario =
  sc_tasks :: "'f TaskSet"
  sc_windows :: "QuotaWindow list"
  sc_contract :: "CompletionContract option"
  sc_preference :: PacingPreference

definition MAX_BACKOFF_RATIO_X100 :: u64 where "MAX_BACKOFF_RATIO_X100 = 400"

section \<open>Ordered maps\<close>

text \<open>\<open>BTreeMap\<close> as the list of its entries in key order; \<open>map_of\<close> is \<open>get\<close>.\<close>
fun bt_insert :: "'k :: linorder \<Rightarrow> 'v \<Rightarrow> ('k \<times> 'v) list \<Rightarrow> ('k \<times> 'v) list" where
  "bt_insert k v [] = [(k, v)]"
| "bt_insert k v ((k', v') # m) =
     (if k < k' then (k, v) # (k', v') # m
      else if k = k' then (k, v) # m
      else (k', v') # bt_insert k v m)"

definition bt_remove :: "'k \<Rightarrow> ('k \<times> 'v) list \<Rightarrow> ('k \<times> 'v) list" where
  "bt_remove k m = filter (\<lambda>e. fst e \<noteq> k) m"

section \<open>The state\<close>

record ActiveTask =
  at_principal :: PrincipalId
  at_hold :: QuotaAmount
  at_settlement_floor :: u64
  at_started_at :: instant

record 'f PacerState =
  pc_completed :: "SimTaskId set"
  pc_active :: "(SimTaskId \<times> ActiveTask) list"
  pc_backoff_x100 :: "PrincipalId \<rightharpoonup> u64"
  pc_last_start :: "instant option"
  pc_pending_timer :: "instant option"
  pc_usage_log :: "QuotaUsage list"
  pc_spend_so_far :: "SimTaskId \<rightharpoonup> u64"
  pc_revised_estimates :: "SimTaskId \<rightharpoonup> 'f RemainingWorkEstimate"

definition PacerState_default :: "'f PacerState" where
  "PacerState_default = \<lparr>pc_completed = {}, pc_active = [], pc_backoff_x100 = Map.empty, pc_last_start = None,
     pc_pending_timer = None, pc_usage_log = [], pc_spend_so_far = Map.empty, pc_revised_estimates = Map.empty\<rparr>"

definition backoff_for :: "'f PacerState \<Rightarrow> PrincipalId \<Rightarrow> u64" where
  "backoff_for st prin = (case pc_backoff_x100 st prin of Some r \<Rightarrow> r | None \<Rightarrow> 100)"

definition restart_reset :: "'f PacerState \<Rightarrow> 'f PacerState" where
  "restart_reset st = \<lparr>pc_completed = pc_completed st, pc_active = [], pc_backoff_x100 = Map.empty,
     pc_last_start = pc_last_start st, pc_pending_timer = None, pc_usage_log = pc_usage_log st,
     pc_spend_so_far = Map.empty, pc_revised_estimates = pc_revised_estimates st\<rparr>"

section \<open>Derived ids and pending holds\<close>

definition ACTIVE_HOLD_TAG :: "8 word" where "ACTIVE_HOLD_TAG = 0x5A"

text \<open>The tag in byte 0 and the task id in bytes 4 to 7 of the big-endian id.\<close>
definition pending_hold_id :: "uuid \<Rightarrow> SimTaskId \<Rightarrow> uuid" where
  "pending_hold_id window_id task =
     (window_id XOR push_bit 120 (ucast ACTIVE_HOLD_TAG)) XOR push_bit 64 (ucast task)"

definition SETTLEMENT_NAMESPACE :: uuid where
  "SETTLEMENT_NAMESPACE = 0x1a2b3c4d5e6f708192a3b4c5d6e7f809"

text \<open>The task id in bytes 0 to 3.\<close>
definition pending_hold_settlement_uuid :: "SimTaskId \<Rightarrow> uuid" where
  "pending_hold_settlement_uuid task = SETTLEMENT_NAMESPACE XOR push_bit 96 (ucast task)"

definition settled_usage_for :: "'f PacerState \<Rightarrow> SimTaskId \<Rightarrow> QuotaAmount option" where
  "settled_usage_for st task =
     map_option qu_amount (find (\<lambda>u. qu_id u = pending_hold_settlement_uuid task) (pc_usage_log st))"

definition pending_amount :: "'f PacerState \<Rightarrow> SimTaskId \<Rightarrow> ActiveTask \<Rightarrow> u64" where
  "pending_amount st task_id a =
     (let reported_spend = (case pc_spend_so_far st task_id of Some s \<Rightarrow> s | None \<Rightarrow> 0)
      in max (qa_value (at_hold a)) reported_spend)"

definition pending_for_window :: "QuotaWindow \<Rightarrow> 'f PacerState \<Rightarrow> PendingHold list" where
  "pending_for_window window st =
     map (\<lambda>(task_id, a). \<lparr>ph_id = pending_hold_id (qw_id window) task_id,
           ph_amount = \<lparr>qa_unit = qa_unit (at_hold a), qa_value = pending_amount st task_id a\<rparr>\<rparr>)
       (filter (\<lambda>(_, a). qa_unit (at_hold a) = qw_unit window) (pc_active st))"

section \<open>Pacing constraints\<close>

text \<open>\<open>Duration::seconds(i64::try_from(secs).unwrap_or(i64::MAX))\<close>, in nanoseconds.\<close>
definition seconds_ns :: "u64 \<Rightarrow> int" where
  "seconds_ns secs = min (uint secs) i64_max * ns_per_sec"

definition cutoff_refusal ::
    "clock \<Rightarrow> instant \<Rightarrow> 'f Policy \<Rightarrow> PacingPreference \<Rightarrow> instant \<Rightarrow> UnavailableReason option" where
  "cutoff_refusal clk instant policy preference now =
     (if (case po_deadline policy of Some deadline \<Rightarrow> deadline < instant | None \<Rightarrow> False) then Some PastDeadline
      else case preference of
        Burst target_end _ \<Rightarrow> if target_end < instant then Some PastTargetEnd else None
      | Sustain horizon_secs _ _ \<Rightarrow>
          if clk_saturating_add clk now (seconds_ns horizon_secs) < instant then Some BeyondHorizon else None)"

definition u128_sat :: "int \<Rightarrow> int" where "u128_sat x = min x (2 ^ 128 - 1)"

text \<open>The rate of a window, as an amount per seconds.\<close>
definition window_rate :: "QuotaWindow \<Rightarrow> (u64 \<times> u64) option" where
  "window_rate window =
     (case qw_kind window of
        Sliding length_secs limit \<Rightarrow> if 0 < length_secs then Some (limit, length_secs) else None
      | RefillBucket _ refill_amount refill_period_secs _ _ \<Rightarrow>
          if 0 < refill_period_secs then Some (refill_amount, refill_period_secs) else None
      | _ \<Rightarrow> None)"

fun sustain_spacing :: "QuotaWindow list \<Rightarrow> u64 \<Rightarrow> u64 option \<Rightarrow> u64 option" where
  "sustain_spacing [] need tightest = tightest"
| "sustain_spacing (window # windows) need tightest =
     sustain_spacing windows need
       (case window_rate window of
          Some (rate, secs) \<Rightarrow>
            if 0 < rate then
              let numerator = u128_sat (uint need * uint secs);
                  candidate_spacing = u64_or_max (u128_sat (numerator + (uint rate - 1)) div uint rate)
              in Some (case tightest of None \<Rightarrow> candidate_spacing | Some t \<Rightarrow> max t candidate_spacing)
            else tightest
        | None \<Rightarrow> tightest)"

definition approximate_need :: "'f floats \<Rightarrow> 'f RemainingWorkEstimate \<Rightarrow> u64" where
  "approximate_need f estimate =
     (case rwe_resource estimate of
        Quantiles _ _ _ p90 _ \<Rightarrow>
          (case p90 of
             RA_UsdCents c \<Rightarrow> if c < 0 then 0 else word_of_int c
           | RA_Tokens t \<Rightarrow> t
           | RA_QuotaPercent p \<Rightarrow> f_as_u64 f (f_max f p (f_literal f 0 1)))
      | _ \<Rightarrow> 0)"

definition recorded_hold ::
    "'f floats \<Rightarrow> 'f RemainingWorkEstimate \<Rightarrow> 'f Scenario \<Rightarrow> 'f Policy \<Rightarrow> u64 \<Rightarrow> QuotaAmount" where
  "recorded_hold f estimate scenario policy backoff =
     (case compute_task_need f (sc_windows scenario) estimate (sc_contract scenario) None policy backoff 100 of
        Inr (Some need) \<Rightarrow> need
      | _ \<Rightarrow> \<lparr>qa_unit = Tokens, qa_value = 0\<rparr>)"

definition start_task ::
    "'f PacerState \<Rightarrow> SimTaskId \<Rightarrow> PrincipalId \<Rightarrow> QuotaAmount \<Rightarrow> u64 \<Rightarrow> instant \<Rightarrow> 'f PacerState" where
  "start_task st tid prin hold settlement_floor t =
     st\<lparr>pc_active := bt_insert tid \<lparr>at_principal = prin, at_hold = hold,
          at_settlement_floor = settlement_floor, at_started_at = t\<rparr> (pc_active st),
        pc_last_start := Some t\<rparr>"

section \<open>The admission pass\<close>

text \<open>The earliest instant the scheduling constraints allow, and which of them moved it.\<close>
definition earliest_start ::
    "'f floats \<Rightarrow> clock \<Rightarrow> 'f Scenario \<Rightarrow> 'f PacerState \<Rightarrow> 'f RemainingWorkEstimate \<Rightarrow> instant
      \<Rightarrow> instant \<times> PacingCause option" where
  "earliest_start f clk scenario working est now =
     (let (earliest_at, cause) =
        (case sc_preference scenario of
           Sustain _ (Some hours) _ \<Rightarrow>
             let after_hours = next_working_instant clk now hours
             in if now < after_hours then (after_hours, Some WorkingHours) else (now, None)
         | _ \<Rightarrow> (now, None))
      in case (pc_last_start working, sc_preference scenario) of
           (Some last_start, Sustain _ _ _) \<Rightarrow>
             (case sustain_spacing (sc_windows scenario) (approximate_need f est) None of
                Some spacing \<Rightarrow>
                  let next_allowed = clk_saturating_add clk last_start (seconds_ns spacing)
                  in if earliest_at < next_allowed then (next_allowed, Some Spacing) else (earliest_at, cause)
              | None \<Rightarrow> (earliest_at, cause))
         | _ \<Rightarrow> (earliest_at, cause))"

definition forecast_mode :: "PacingPreference \<Rightarrow> ForecastMode" where
  "forecast_mode preference =
     (case preference of Sustain _ _ continuity_reserve_bp \<Rightarrow> SustainMode continuity_reserve_bp | Burst _ _ \<Rightarrow> BurstMode)"

definition window_inputs :: "'f Scenario \<Rightarrow> 'f PacerState \<Rightarrow> WindowInput list" where
  "window_inputs scenario working =
     map (\<lambda>window. \<lparr>wi_window = window, wi_usage = pc_usage_log working,
        wi_pending = pending_for_window window working, wi_snapshots = []\<rparr>) (sc_windows scenario)"

definition live_estimate :: "'f PacerState \<Rightarrow> 'f SimTask \<Rightarrow> 'f RemainingWorkEstimate" where
  "live_estimate working task =
     (case pc_revised_estimates working (st_id task) of Some e \<Rightarrow> e | None \<Rightarrow> st_estimate task)"

fun resolved_at :: "instant \<Rightarrow> NextAdmit \<Rightarrow> instant option" where
  "resolved_at earliest_at Now = Some earliest_at"
| "resolved_at earliest_at (AdmitAt t _) = Some t"
| "resolved_at earliest_at (Paced t _) = Some t"
| "resolved_at earliest_at (Unavailable _) = None"

text \<open>What one turn of the loop decides of its candidate: skip it for this pass, with the proposals pushed
  and the instant to wake at, or start it with its hold, settlement floor and limiting window.\<close>
datatype candidate_outcome =
    Skip "Proposal list" "instant option"
  | StartNow QuotaAmount u64 "uuid option"

text \<open>From the forecast's answer to the decision.\<close>
definition decide_candidate ::
    "clock \<Rightarrow> 'f Policy \<Rightarrow> PacingPreference \<Rightarrow> instant \<Rightarrow> instant \<Rightarrow> PacingCause option \<Rightarrow> QuotaAmount \<Rightarrow> u64
      \<Rightarrow> NextAdmit \<Rightarrow> candidate_outcome" where
  "decide_candidate clk policy preference now earliest_at pacing_cause hold settlement_floor admit =
     (case resolved_at earliest_at admit of
        None \<Rightarrow> Skip [Hold admit] None
      | Some instant \<Rightarrow>
          (case cutoff_refusal clk instant policy preference now of
             Some reason \<Rightarrow> Skip [Hold (Unavailable reason)] None
           | None \<Rightarrow>
               if instant \<le> now
               then StartNow hold settlement_floor (case admit of AdmitAt _ limiting \<Rightarrow> Some limiting | _ \<Rightarrow> None)
               else Skip [Hold
                 (case admit of
                    AdmitAt _ _ \<Rightarrow> admit
                  | Paced _ _ \<Rightarrow> admit
                  | _ \<Rightarrow> (case pacing_cause of Some cause \<Rightarrow> Paced instant cause | None \<Rightarrow> admit))]
                 (Some instant)))"

definition consider_candidate ::
    "'f floats \<Rightarrow> clock \<Rightarrow> 'f Policy \<Rightarrow> 'f Scenario \<Rightarrow> instant \<Rightarrow> 'f PacerState \<Rightarrow> 'f SimTask
      \<Rightarrow> candidate_outcome option" where
  "consider_candidate f clk policy scenario now working task =
     (let est = live_estimate working task;
          backoff = backoff_for working (st_principal task)
      in if 100 < backoff \<and> list_ex (\<lambda>(_, a). at_principal a = st_principal task) (pc_active working)
         then Some (Skip [] None)
         else
           let (earliest_at, pacing_cause) = earliest_start f clk scenario working est now
           in case cutoff_refusal clk earliest_at policy (sc_preference scenario) now of
             Some reason \<Rightarrow> Some (Skip [Hold (Unavailable reason)] None)
           | None \<Rightarrow>
               map_option
                 (decide_candidate clk policy (sc_preference scenario) now earliest_at pacing_cause
                    (recorded_hold f est scenario policy backoff)
                    (qa_value (recorded_hold f est scenario policy 100)))
                 (earliest_safe_admit f clk (window_inputs scenario working) est policy (sc_contract scenario)
                    None (forecast_mode (sc_preference scenario)) backoff 100 earliest_at))"

definition next_candidate :: "'f Scenario \<Rightarrow> 'f PacerState \<Rightarrow> SimTaskId set \<Rightarrow> 'f SimTask option" where
  "next_candidate scenario working skip =
     find (\<lambda>t. map_of (pc_active working) (st_id t) = None \<and> st_id t \<notin> skip)
       (ready_order (sc_tasks scenario) (pc_completed working))"

definition fanout_cap :: "PacingPreference \<Rightarrow> 32 word" where
  "fanout_cap preference = (case preference of Burst _ max_fanout \<Rightarrow> ucast max_fanout | Sustain _ _ _ \<Rightarrow> 1)"

definition earlier_timer :: "instant option \<Rightarrow> instant \<Rightarrow> instant" where
  "earlier_timer current candidate =
     (case current of Some c \<Rightarrow> if c \<le> candidate then c else candidate | None \<Rightarrow> candidate)"

lemma map_of_bt_insert: "map_of (bt_insert k v m) = (map_of m)(k \<mapsto> v)"
proof (induction k v m rule: bt_insert.induct)
  case (2 k v k' v' m)
  then show ?case by (cases "k = k'") (auto simp: fun_upd_twist)
qed simp

definition task_ids :: "'f Scenario \<Rightarrow> SimTaskId set" where
  "task_ids scenario = st_id ` set (ts_tasks (sc_tasks scenario))"

lemma next_candidate_Some:
  assumes "next_candidate scenario working skip = Some task"
  shows "task \<in> set (ts_tasks (sc_tasks scenario))" "is_ready (pc_completed working) task"
    "map_of (pc_active working) (st_id task) = None" "st_id task \<notin> skip"
proof -
  from assms have "task \<in> set (ready_order (sc_tasks scenario) (pc_completed working))
      \<and> map_of (pc_active working) (st_id task) = None \<and> st_id task \<notin> skip"
    unfolding next_candidate_def find_Some_iff by (metis nth_mem)
  then show "task \<in> set (ts_tasks (sc_tasks scenario))" "is_ready (pc_completed working) task"
    "map_of (pc_active working) (st_id task) = None" "st_id task \<notin> skip"
    by (auto simp: ready_order_def)
qed

text \<open>The tasks a pass may still decide on.\<close>
definition undecided :: "'f Scenario \<Rightarrow> 'f PacerState \<Rightarrow> SimTaskId set \<Rightarrow> SimTaskId set" where
  "undecided scenario working skip = task_ids scenario - dom (map_of (pc_active working)) - skip"

lemma undecided_shrinks:
  assumes "next_candidate scenario working skip = Some task"
  shows "card (undecided scenario working (insert (st_id task) skip)) < card (undecided scenario working skip)"
    "card (undecided scenario (start_task working (st_id task) prin hold fl t) skip)
       < card (undecided scenario working skip)"
  using next_candidate_Some [OF assms]
  by (intro psubset_card_mono; auto simp: undecided_def task_ids_def start_task_def map_of_bt_insert domIff)+

function admit_loop ::
    "'f floats \<Rightarrow> clock \<Rightarrow> 'f Policy \<Rightarrow> 'f Scenario \<Rightarrow> instant \<Rightarrow> SimTaskId set \<Rightarrow> instant option
      \<Rightarrow> 'f PacerState \<Rightarrow> Proposal list \<Rightarrow> ('f PacerState \<times> Proposal list) option" where
  "admit_loop f clk policy scenario now skip timer working proposals =
     (if fanout_cap (sc_preference scenario) \<le> of_nat (length (pc_active working))
      then Some (working\<lparr>pc_pending_timer := timer\<rparr>, proposals)
      else case next_candidate scenario working skip of
        None \<Rightarrow> Some (working\<lparr>pc_pending_timer := timer\<rparr>, proposals)
      | Some task \<Rightarrow>
          (case consider_candidate f clk policy scenario now working task of
             None \<Rightarrow> None
           | Some (Skip held_back wake) \<Rightarrow>
               admit_loop f clk policy scenario now (insert (st_id task) skip)
                 (case wake of None \<Rightarrow> timer | Some t \<Rightarrow> Some (earlier_timer timer t))
                 working (proposals @ held_back)
           | Some (StartNow hold settlement_floor limiting) \<Rightarrow>
               admit_loop f clk policy scenario now skip timer
                 (start_task working (st_id task) (st_principal task) hold settlement_floor now)
                 (proposals @ [Start (st_id task) now hold limiting])))"
  by pat_completeness auto
termination
  by (relation "measure (\<lambda>(f, clk, policy, scenario, now, skip, timer, working, proposals).
        card (undecided scenario working skip))")
    (auto simp: undecided_shrinks)

declare admit_loop.simps [simp del]

definition try_admit ::
    "'f floats \<Rightarrow> clock \<Rightarrow> 'f PacerState \<Rightarrow> instant \<Rightarrow> 'f Policy \<Rightarrow> 'f Scenario
      \<Rightarrow> ('f PacerState \<times> Proposal list) option" where
  "try_admit f clk st now policy scenario = admit_loop f clk policy scenario now {} None st []"

section \<open>The transition\<close>

definition ceil_div :: "u64 \<Rightarrow> u64 \<Rightarrow> u64" where
  "ceil_div a b = (if b = 0 then a else saturating_add a (b - 1) div b)"

definition saturating_mul :: "u64 \<Rightarrow> u64 \<Rightarrow> u64" where
  "saturating_mul a b = u64_or_max (uint a * uint b)"

definition unwrap_or :: "'a \<Rightarrow> 'a option \<Rightarrow> 'a" where
  "unwrap_or d x = (case x of Some v \<Rightarrow> v | None \<Rightarrow> d)"

definition complete_task :: "'f PacerState \<Rightarrow> OffsetDateTime \<Rightarrow> SimTaskId \<Rightarrow> 'f PacerState" where
  "complete_task st t task =
     (case map_of (pc_active st) task of
        None \<Rightarrow> st
      | Some active \<Rightarrow>
          let spend = pc_spend_so_far st task;
              within_reservation = (unwrap_or 0 spend \<le> qa_value (at_hold active));
              settled_value = max (unwrap_or 0 spend) (at_settlement_floor active)
          in st\<lparr>pc_active := bt_remove task (pc_active st),
               pc_completed := insert task (pc_completed st),
               pc_spend_so_far := (pc_spend_so_far st)(task := None),
               pc_backoff_x100 := (if within_reservation then (pc_backoff_x100 st)(at_principal active \<mapsto> 100)
                 else pc_backoff_x100 st),
               pc_usage_log := (case QuotaUsage_new (pending_hold_settlement_uuid task) t
                     \<lparr>qa_unit = qa_unit (at_hold active), qa_value = settled_value\<rparr> of
                   Inr usage \<Rightarrow> pc_usage_log st @ [usage]
                 | Inl _ \<Rightarrow> pc_usage_log st)\<rparr>)"

definition report_spend :: "'f PacerState \<Rightarrow> SimTaskId \<Rightarrow> QuotaAmount \<Rightarrow> 'f PacerState" where
  "report_spend st task amount =
     (case map_of (pc_active st) task of
        None \<Rightarrow> st
      | Some active \<Rightarrow>
          if qa_unit (at_hold active) = qa_unit amount
          then
            let st = st\<lparr>pc_spend_so_far := (pc_spend_so_far st)
                  (task \<mapsto> max (unwrap_or 0 (pc_spend_so_far st task)) (qa_value amount))\<rparr>
            in if qa_value (at_hold active) < qa_value amount
               then
                 let ratio = saturating_mul (ceil_div (qa_value amount) (max (qa_value (at_hold active)) 1)) 100;
                     capped = max 100 (min ratio MAX_BACKOFF_RATIO_X100)
                 in st\<lparr>pc_backoff_x100 := (pc_backoff_x100 st)
                      (at_principal active \<mapsto> max (backoff_for st (at_principal active)) capped)\<rparr>
               else st
          else st)"

definition revise_estimate ::
    "'f Scenario \<Rightarrow> 'f PacerState \<Rightarrow> SimTaskId \<Rightarrow> 'f RemainingWorkEstimate \<Rightarrow> 'f PacerState" where
  "revise_estimate scenario st task estimate =
     (if ts_get (sc_tasks scenario) task \<noteq> None \<and> map_of (pc_active st) task = None \<and> task \<notin> pc_completed st
      then st\<lparr>pc_revised_estimates := (pc_revised_estimates st)(task \<mapsto> estimate)\<rparr>
      else st)"

fun apply_event :: "'f Scenario \<Rightarrow> 'f PacerState \<Rightarrow> 'f PacingEvent \<Rightarrow> 'f PacerState" where
  "apply_event scenario st (TaskCompleted t _ task) = complete_task st t task"
| "apply_event scenario st (Spend _ _ task amount) = report_spend st task amount"
| "apply_event scenario st (EstimateRevised _ _ task estimate) = revise_estimate scenario st task estimate"
| "apply_event scenario st (ModeChanged _ _) = st"
| "apply_event scenario st (SnapshotIngested _ _ _) = st"

definition step ::
    "'f floats \<Rightarrow> clock \<Rightarrow> 'f PacerState \<Rightarrow> 'f PacingEvent \<Rightarrow> 'f Policy \<Rightarrow> 'f Scenario
      \<Rightarrow> ('f PacerState \<times> Proposal list) option" where
  "step f clk st event policy scenario =
     try_admit f clk (apply_event scenario (st\<lparr>pc_pending_timer := None\<rparr>) event)
       (odt_instant (pe_at event)) policy scenario"

end
