(* ===== verification/Pacing_Invariants.thy ===== *)
theory Pacing_Invariants
  imports Pacing_Step
begin

text \<open>
  What the pacing state machine keeps. An invariant of the admission pass is proved once, in the locale
  \<open>admission_pass\<close>, from what it must survive: a skipped candidate, a started one and the timer. Its
  interpretations give the well-formedness of the state, the frame of the pass and the place of its timer; the
  reachable states of the machine are those of any sequence of events and restarts.
\<close>

unbundle bit_operations_syntax

section \<open>Ordered maps\<close>

lemma set_bt_insert_keys: "set (map fst (bt_insert k v m)) = insert k (set (map fst m))"
  by (induction k v m rule: bt_insert.induct) auto

lemma bt_insert_sorted: "sorted_wrt (<) (map fst m) \<Longrightarrow> sorted_wrt (<) (map fst (bt_insert k v m))"
proof (induction k v m rule: bt_insert.induct)
  case (2 k v k' v' m)
  have "set (map fst (bt_insert k v m)) = insert k (set (map fst m))" by (rule set_bt_insert_keys)
  with 2 show ?case by (auto simp del: set_map)
qed simp

lemma bt_insert_new: "k \<notin> fst ` set m \<Longrightarrow> set (bt_insert k v m) = insert (k, v) (set m)"
  by (induction k v m rule: bt_insert.induct) auto

lemma length_bt_insert_new: "k \<notin> fst ` set m \<Longrightarrow> length (bt_insert k v m) = Suc (length m)"
  by (induction k v m rule: bt_insert.induct) auto

lemma bt_remove_sorted: "sorted_wrt (<) (map fst m) \<Longrightarrow> sorted_wrt (<) (map fst (bt_remove k m))"
  by (simp add: bt_remove_def sorted_wrt_map sorted_wrt_filter)

lemma map_of_bt_remove: "map_of (bt_remove k m) = (map_of m)(k := None)"
  by (induction m) (auto simp: bt_remove_def fun_eq_iff)

lemma set_bt_remove: "set (bt_remove k m) = {e \<in> set m. fst e \<noteq> k}"
  by (auto simp: bt_remove_def)

lemma length_bt_remove: "length (bt_remove k m) \<le> length m"
  by (simp add: bt_remove_def)

lemma sorted_keys_distinct: "sorted_wrt (<) (map fst m) \<Longrightarrow> distinct (map fst (m :: ('k :: linorder \<times> 'v) list))"
  by (simp add: strict_sorted_iff)

section \<open>One candidate\<close>

lemma earliest_start_ge: "now \<le> fst (earliest_start f clk sc w est now)"
  by (auto simp: earliest_start_def Let_def split: PacingPreference.splits option.splits)

lemma probe_windows_advances:
  "probe_windows clk need mode t lr is = Some (Inr (Some (u, w))) \<Longrightarrow> \<forall>v x. lr = Some (v, x) \<longrightarrow> t < v \<Longrightarrow> t < u"
proof (induction "is" arbitrary: lr)
  case (Cons i "is")
  from Cons.prems(1) obtain out where out: "check_window clk i need mode t = Some out"
    by (auto simp: bind_eq_Some_conv)
  show ?case
  proof (cases out)
    case Admit
    with Cons.prems(1) out have "probe_windows clk need mode t lr is = Some (Inr (Some (u, w)))" by simp
    from Cons.IH [OF this Cons.prems(2)] show ?thesis .
  next
    case (BlockedAt v)
    define lr2 where "lr2 = (case lr of Some (latest, _) \<Rightarrow> if v \<le> latest then lr else Some (v, qw_id (wi_window i))
      | None \<Rightarrow> Some (v, qw_id (wi_window i)))"
    have "t < v" "probe_windows clk need mode t lr2 is = Some (Inr (Some (u, w)))"
      using Cons.prems(1) out BlockedAt unfolding lr2_def by (cases "v \<le> t"; simp)+
    moreover have "\<forall>v w. lr2 = Some (v, w) \<longrightarrow> t < v"
      using Cons.prems(2) \<open>t < v\<close> unfolding lr2_def by (cases lr; force split: if_splits)
    ultimately show ?thesis using Cons.IH by blast
  next
    case (OutcomeUnavailable r)
    with Cons.prems(1) out show ?thesis by simp
  qed
qed simp

lemma probe_advances:
  "probe k clk is need mode t lw = Some r \<Longrightarrow>
     (\<forall>u c. r \<noteq> Paced u c) \<and> (\<forall>u w. r = AdmitAt u w \<longrightarrow> (if lw = None then t < u else t \<le> u))"
proof (induction k arbitrary: t lw)
  case (Suc k)
  from Suc.prems obtain res where res: "probe_windows clk need mode t None is = Some res"
    by (auto simp: bind_eq_Some_conv)
  consider (early) a where "res = Inl a" | (admit) "res = Inr None" | (later) u w where "res = Inr (Some (u, w))"
    by (cases res) (auto, metis not_None_eq old.prod.exhaust)
  then show ?case
  proof cases
    case early
    with Suc.prems res show ?thesis by auto
  next
    case admit
    with Suc.prems res show ?thesis by (auto split: option.splits)
  next
    case later
    with probe_windows_advances res have "t < u" by blast
    moreover from later Suc.prems res have "probe k clk is need mode u (Some w) = Some r" by simp
    ultimately show ?thesis using Suc.IH by fastforce
  qed
qed auto

lemma earliest_safe_admit_advances:
  "earliest_safe_admit f clk is est policy contract e mode num den t = Some r \<Longrightarrow>
     (\<forall>u c. r \<noteq> Paced u c) \<and> (\<forall>u w. r = AdmitAt u w \<longrightarrow> t < u)"
  using probe_advances [of MAX_PROBE_STEPS clk "is" _ mode t None r]
  by (auto simp: earliest_safe_admit_def split: if_splits sum.splits)

lemma decide_StartNow:
  assumes "decide_candidate clk policy pref now ea cause h0 fl0 admit = StartNow hold flr limiting"
  shows "\<exists>i. resolved_at ea admit = Some i \<and> i \<le> now \<and> cutoff_refusal clk i policy pref now = None
    \<and> hold = h0 \<and> flr = fl0 \<and> limiting = (case admit of AdmitAt _ l \<Rightarrow> Some l | _ \<Rightarrow> None)"
  using assms by (auto simp: decide_candidate_def split: option.splits if_splits)

lemma decide_Skip:
  assumes "decide_candidate clk policy pref now ea cause h0 fl0 admit = Skip hb wake"
  shows "(\<forall>p \<in> set hb. \<exists>n. p = Hold n) \<and> (\<forall>t. wake = Some t \<longrightarrow> now < t)"
  using assms by (auto simp: decide_candidate_def split: option.splits if_splits)

text \<open>A candidate starts only if nothing delays it: the scheduling constraints allow this very instant, no
  cutoff has passed, the principal's backoff leaves it a slot, and the forecast admits it now.\<close>
lemma consider_StartNow:
  assumes "consider_candidate f clk policy sc now w task = Some (StartNow hold flr limiting)"
  defines "est \<equiv> live_estimate w task" and "backoff \<equiv> backoff_for w (st_principal task)"
  shows "fst (earliest_start f clk sc w est now) = now" "cutoff_refusal clk now policy (sc_preference sc) now = None"
    "earliest_safe_admit f clk (window_inputs sc w) est policy (sc_contract sc) None
       (forecast_mode (sc_preference sc)) backoff 100 now = Some Now"
    "hold = recorded_hold f est sc policy backoff" "flr = qa_value (recorded_hold f est sc policy 100)"
    "limiting = None" "\<not> (100 < backoff \<and> list_ex (\<lambda>(_, a). at_principal a = st_principal task) (pc_active w))"
proof -
  obtain ea cause where es: "earliest_start f clk sc w est now = (ea, cause)" by fastforce
  have ge: "now \<le> ea" using earliest_start_ge [of now f clk sc w est] es by simp
  let ?throttled = "100 < backoff \<and> list_ex (\<lambda>(_, a). at_principal a = st_principal task) (pc_active w)"
  have free: "\<not> ?throttled"
  proof
    assume ?throttled
    with assms(1) show False by (simp add: consider_candidate_def Let_def est_def backoff_def)
  qed
  note run = assms(1) [unfolded consider_candidate_def Let_def, folded est_def backoff_def, unfolded if_not_P [OF free] es]
  then obtain admit where a: "earliest_safe_admit f clk (window_inputs sc w) est policy
      (sc_contract sc) None (forecast_mode (sc_preference sc)) backoff 100 ea = Some admit"
    "decide_candidate clk policy (sc_preference sc) now ea cause (recorded_hold f est sc policy backoff)
      (qa_value (recorded_hold f est sc policy 100)) admit = StartNow hold flr limiting"
    by (auto split: option.splits)
  note admit = a(1) decide_StartNow [OF a(2)]
  have "admit = Now"
    using earliest_safe_admit_advances [OF admit(1)] admit(2) ge by (cases admit) force+
  moreover from this admit(2) ge have "ea = now" by auto
  ultimately show "fst (earliest_start f clk sc w est now) = now"
    "cutoff_refusal clk now policy (sc_preference sc) now = None"
    "earliest_safe_admit f clk (window_inputs sc w) est policy (sc_contract sc) None
       (forecast_mode (sc_preference sc)) backoff 100 now = Some Now"
    "hold = recorded_hold f est sc policy backoff" "flr = qa_value (recorded_hold f est sc policy 100)"
    "limiting = None" "\<not> (100 < backoff \<and> list_ex (\<lambda>(_, a). at_principal a = st_principal task) (pc_active w))"
    using admit es free by simp_all
qed

lemma consider_Skip:
  assumes "consider_candidate f clk policy sc now w task = Some (Skip hb wake)"
  shows "(\<forall>p \<in> set hb. \<exists>n. p = Hold n) \<and> (\<forall>t. wake = Some t \<longrightarrow> now < t)"
  using assms unfolding consider_candidate_def
  by (auto simp: Let_def dest: decide_Skip split: if_splits option.splits prod.splits)

section \<open>Invariants of the admission pass\<close>

text \<open>The contract of an invariant of the pass over the working state and the proposals pushed so far.\<close>
locale admission_pass =
  fixes f :: "'f floats" and clk :: clock and policy :: "'f Policy" and sc :: "'f Scenario" and now :: instant
    and inv :: "'f PacerState \<Rightarrow> Proposal list \<Rightarrow> bool"
  assumes skips: "inv w ps \<Longrightarrow> \<forall>p \<in> set hb. \<exists>n. p = Hold n \<Longrightarrow> inv w (ps @ hb)"
    and starts: "inv w ps \<Longrightarrow> of_nat (length (pc_active w)) < fanout_cap (sc_preference sc)
      \<Longrightarrow> next_candidate sc w skip = Some task
      \<Longrightarrow> consider_candidate f clk policy sc now w task = Some (StartNow hold flr limiting)
      \<Longrightarrow> inv (start_task w (st_id task) (st_principal task) hold flr now) (ps @ [Start (st_id task) now hold limiting])"
    and times: "inv w ps \<Longrightarrow> inv (w\<lparr>pc_pending_timer := timer\<rparr>) ps"
begin

lemma loop_keeps:
  "admit_loop f clk policy sc now skip timer w ps = Some (w', ps') \<Longrightarrow> inv w ps \<Longrightarrow> inv w' ps'"
proof (induction "card (undecided sc w skip)" arbitrary: skip timer w ps rule: less_induct)
  case less
  note run = less.prems(1) [unfolded admit_loop.simps [of f clk policy sc now skip timer w ps]]
  show ?case
  proof (cases "fanout_cap (sc_preference sc) \<le> of_nat (length (pc_active w)) \<or> next_candidate sc w skip = None")
    case True
    with run times [OF less.prems(2)] show ?thesis by (auto split: if_splits)
  next
    case False
    then obtain task where task: "next_candidate sc w skip = Some task"
      "\<not> fanout_cap (sc_preference sc) \<le> of_nat (length (pc_active w))" by auto
    with run obtain out where out: "consider_candidate f clk policy sc now w task = Some out"
      by (cases "consider_candidate f clk policy sc now w task") simp_all
    show ?thesis
    proof (cases out)
      case (Skip hb wake)
      have "inv w (ps @ hb)" by (rule skips [OF less.prems(2)]) (use consider_Skip out Skip in blast)
      with less.hyps [OF undecided_shrinks(1) [OF task(1)]] run task out Skip show ?thesis by simp
    next
      case (StartNow hold flr limiting)
      have "inv (start_task w (st_id task) (st_principal task) hold flr now)
          (ps @ [Start (st_id task) now hold limiting])"
        using task(2) out StartNow by (intro starts [OF less.prems(2) _ task(1)]) (simp_all add: not_le)
      with less.hyps [OF undecided_shrinks(2) [OF task(1)]] run task out StartNow show ?thesis by simp
    qed
  qed
qed

lemma pass_keeps: "try_admit f clk w now policy sc = Some (w', ps') \<Longrightarrow> inv w [] \<Longrightarrow> inv w' ps'"
  unfolding try_admit_def by (rule loop_keeps)

end

section \<open>Derived ids\<close>

lemma settlement_uuid_inj: "pending_hold_settlement_uuid a = pending_hold_settlement_uuid b \<longleftrightarrow> a = b"
proof
  assume eq: "pending_hold_settlement_uuid a = pending_hold_settlement_uuid b"
  show "a = b"
  proof (rule bit_word_eqI)
    fix n assume "n < LENGTH(32)"
    moreover from eq have "bit (pending_hold_settlement_uuid a) (n + 96) = bit (pending_hold_settlement_uuid b) (n + 96)"
      by simp
    ultimately show "bit a n = bit b n"
      by (auto simp: pending_hold_settlement_uuid_def bit_xor_iff bit_push_bit_iff bit_ucast_iff)
  qed
qed simp

lemma pending_hold_id_inj: "pending_hold_id w a = pending_hold_id w b \<longleftrightarrow> a = b"
proof
  assume eq: "pending_hold_id w a = pending_hold_id w b"
  show "a = b"
  proof (rule bit_word_eqI)
    fix n assume "n < LENGTH(32)"
    moreover from eq have "bit (pending_hold_id w a) (n + 64) = bit (pending_hold_id w b) (n + 64)" by simp
    ultimately show "bit a n = bit b n"
      by (auto simp: pending_hold_id_def bit_xor_iff bit_push_bit_iff bit_ucast_iff)
  qed
qed simp

lemma synthetic_not_pending: "synthetic_uuid w SYNTHETIC_NEED_TAG \<noteq> pending_hold_id w a"
proof
  assume "synthetic_uuid w SYNTHETIC_NEED_TAG = pending_hold_id w a"
  then have "bit (synthetic_uuid w SYNTHETIC_NEED_TAG) 120 = bit (pending_hold_id w a) 120" by simp
  moreover have "\<not> bit a 56" by (rule impossible_bit) simp
  ultimately show False
    by (simp add: synthetic_uuid_def pending_hold_id_def SYNTHETIC_NEED_TAG_def ACTIVE_HOLD_TAG_def
        bit_xor_iff bit_push_bit_iff bit_ucast_iff)
qed

section \<open>Holds and backoff\<close>

lemma backed_off_mono: "n \<le> m \<Longrightarrow> backed_off v n d \<le> backed_off v m d"
proof -
  assume "n \<le> m"
  then have "uint v * uint (max n 1) div uint (max d 1) \<le> uint v * uint (max m 1) div uint (max d 1)"
    by (intro zdiv_mono1 mult_left_mono) (auto simp: max_def word_le_def word_less_def)
  then show ?thesis by (simp add: word_le_def uint_backed_off)
qed

lemma recorded_hold_mono:
  assumes "n \<le> m"
  shows "qa_value (recorded_hold f est sc policy n) \<le> qa_value (recorded_hold f est sc policy m)"
proof (cases "\<exists>k need. compute_task_need f (sc_windows sc) est (sc_contract sc) None policy k 100 = Inr (Some need)")
  case True
  then obtain k need where "compute_task_need f (sc_windows sc) est (sc_contract sc) None policy k 100 = Inr (Some need)"
    by blast
  from compute_task_need_Some [OF this] obtain limit base where
    "\<And>n. compute_task_need f (sc_windows sc) est (sc_contract sc) None policy n 100
      = Inr (Some (base\<lparr>qa_value := min (backed_off (qa_value base) n 100) (limit - 1)\<rparr>))"
    by blast
  with backed_off_mono [OF assms, of "qa_value base" 100] show ?thesis
    by (simp add: recorded_hold_def min.coboundedI1)
next
  case False
  then have "recorded_hold f est sc policy k = \<lparr>qa_unit = Tokens, qa_value = 0\<rparr>" for k
    by (auto simp: recorded_hold_def split: sum.splits option.splits)
  then show ?thesis by simp
qed

section \<open>Well-formed states\<close>

definition scenario_ok :: "'f Scenario \<Rightarrow> bool" where
  "scenario_ok sc \<longleftrightarrow> TaskSet_validated (ts_tasks (sc_tasks sc)) = Some (Inr (sc_tasks sc))"

definition deps_done :: "'f Scenario \<Rightarrow> SimTaskId set \<Rightarrow> SimTaskId set \<Rightarrow> bool" where
  "deps_done sc K completed \<longleftrightarrow>
     (\<forall>t \<in> set (ts_tasks (sc_tasks sc)). st_id t \<in> K \<longrightarrow> set (st_depends_on t) \<subseteq> completed)"

abbreviation active_ids :: "'f PacerState \<Rightarrow> SimTaskId set" where
  "active_ids st \<equiv> fst ` set (pc_active st)"

definition tasks_inv :: "'f Scenario \<Rightarrow> 'f PacerState \<Rightarrow> bool" where
  "tasks_inv sc st \<longleftrightarrow> sorted_wrt (<) (map fst (pc_active st))
     \<and> active_ids st \<inter> pc_completed st = {}
     \<and> active_ids st \<union> pc_completed st \<subseteq> task_ids sc
     \<and> deps_done sc (active_ids st \<union> pc_completed st) (pc_completed st)
     \<and> length (pc_active st) \<le> unat (fanout_cap (sc_preference sc))"

definition ledger_inv :: "'f PacerState \<Rightarrow> bool" where
  "ledger_inv st \<longleftrightarrow> dom (pc_spend_so_far st) \<subseteq> active_ids st
     \<and> (\<forall>p r. pc_backoff_x100 st p = Some r \<longrightarrow> 100 \<le> r \<and> r \<le> 400)
     \<and> (\<forall>(k, a) \<in> set (pc_active st). at_settlement_floor a \<le> qa_value (at_hold a))
     \<and> distinct (map qu_id (pc_usage_log st))
     \<and> (\<forall>u \<in> set (pc_usage_log st). qu_id u \<in> pending_hold_settlement_uuid ` pc_completed st)"

definition pacer_inv :: "'f Scenario \<Rightarrow> 'f PacerState \<Rightarrow> bool" where
  "pacer_inv sc st \<longleftrightarrow> tasks_inv sc st \<and> ledger_inv st"

lemmas pacer_inv_defs = pacer_inv_def tasks_inv_def ledger_inv_def

lemma scenario_okD:
  assumes "scenario_ok sc"
  shows "distinct (map st_id (ts_tasks (sc_tasks sc)))" "card (task_ids sc) < 2 ^ 32"
proof -
  from validated_accepts [OF assms [unfolded scenario_ok_def]]
  show "distinct (map st_id (ts_tasks (sc_tasks sc)))" by simp
  have "length (ts_tasks (sc_tasks sc)) \<le> MAX_SCENARIO_TASKS"
    using assms by (auto simp: scenario_ok_def TaskSet_validated_def split: if_splits)
  moreover have "card (task_ids sc) \<le> length (ts_tasks (sc_tasks sc))"
    unfolding task_ids_def by (metis card_image_le card_length finite_set le_trans)
  ultimately show "card (task_ids sc) < 2 ^ 32" by (simp add: MAX_SCENARIO_TASKS_def)
qed

lemma default_inv: "pacer_inv sc PacerState_default"
  by (simp add: pacer_inv_defs PacerState_default_def deps_done_def)

lemma restart_inv: "pacer_inv sc st \<Longrightarrow> pacer_inv sc (restart_reset st)"
  by (auto simp: pacer_inv_defs restart_reset_def deps_done_def)

lemma backoff_for_ge: "ledger_inv st \<Longrightarrow> 100 \<le> backoff_for st p"
  by (auto simp: ledger_inv_def backoff_for_def split: option.splits)

lemma active_few:
  assumes "scenario_ok sc" "tasks_inv sc st" shows "length (pc_active st) < 2 ^ 32"
proof -
  have "distinct (map fst (pc_active st))" using assms(2) by (simp add: tasks_inv_def sorted_keys_distinct)
  then have "length (pc_active st) = card (active_ids st)" by (metis distinct_card length_map set_map)
  also have "\<dots> \<le> card (task_ids sc)"
    using assms(2) by (intro card_mono) (auto simp: tasks_inv_def task_ids_def)
  finally show ?thesis using scenario_okD(2) [OF assms(1)] by linarith
qed

lemma start_task_inv:
  assumes "scenario_ok sc" "pacer_inv sc w" "of_nat (length (pc_active w)) < fanout_cap (sc_preference sc)"
    and "next_candidate sc w skip = Some task" "flr \<le> qa_value hold"
  shows "pacer_inv sc (start_task w (st_id task) prin hold flr now)"
proof -
  note cand = next_candidate_Some [OF assms(4)]
  have new: "st_id task \<notin> active_ids w" using cand(3) by (simp add: map_of_eq_None_iff)
  have "length (pc_active w) < unat (fanout_cap (sc_preference sc))"
    using assms(3) active_few [OF assms(1)] assms(2)
    by (simp add: word_less_nat_alt unat_of_nat pacer_inv_def)
  moreover have "set (st_depends_on t) \<subseteq> pc_completed w"
    if "t \<in> set (ts_tasks (sc_tasks sc))" "st_id t = st_id task" for t
  proof -
    have "t = task" using scenario_okD(1) [OF assms(1)] that cand(1) by (auto simp: distinct_map dest: inj_onD)
    with cand(2) show ?thesis by (auto simp: is_ready_def list_all_iff)
  qed
  moreover have "st_id task \<notin> pc_completed w" "st_id task \<in> task_ids sc"
    using cand(1,2) by (auto simp: is_ready_def task_ids_def)
  ultimately show ?thesis
    using assms(2,5) new
    by (auto simp: pacer_inv_defs start_task_def bt_insert_sorted bt_insert_new length_bt_insert_new deps_done_def)
qed

interpretation well_formed: admission_pass f clk policy sc now
  "\<lambda>w ps. scenario_ok sc \<longrightarrow> pacer_inv sc w" for f clk policy sc now
proof
  fix w ps skip task hold flr limiting
  assume inv: "scenario_ok sc \<longrightarrow> pacer_inv sc w" "of_nat (length (pc_active w)) < fanout_cap (sc_preference sc)"
    "next_candidate sc w skip = Some task"
    "consider_candidate f clk policy sc now w task = Some (StartNow hold flr limiting)"
  have "flr \<le> qa_value hold" if "pacer_inv sc w"
    unfolding consider_StartNow(4,5) [OF inv(4)]
    by (rule recorded_hold_mono, rule backoff_for_ge) (use that in \<open>simp add: pacer_inv_def\<close>)
  with inv start_task_inv show "scenario_ok sc \<longrightarrow>
      pacer_inv sc (start_task w (st_id task) (st_principal task) hold flr now)" by blast
qed (auto simp: pacer_inv_defs deps_done_def)

section \<open>Events\<close>

lemma complete_task_inv:
  assumes "pacer_inv sc st"
  shows "pacer_inv sc (complete_task st t task)"
proof (cases "map_of (pc_active st) task")
  case None
  with assms show ?thesis by (simp add: complete_task_def)
next
  case (Some a)
  then have act: "task \<in> active_ids st" by (force dest: map_of_SomeD)
  let ?st' = "complete_task st t task"
  have st': "pc_active ?st' = bt_remove task (pc_active st)" "pc_completed ?st' = insert task (pc_completed st)"
    "pc_spend_so_far ?st' = (pc_spend_so_far st)(task := None)"
    "pc_backoff_x100 ?st' = pc_backoff_x100 st \<or> pc_backoff_x100 ?st' = (pc_backoff_x100 st)(at_principal a \<mapsto> 100)"
    using Some by (simp_all add: complete_task_def Let_def)
  have ids: "active_ids ?st' = active_ids st - {task}" by (auto simp: st' set_bt_remove)
  have log: "pc_usage_log ?st' = pc_usage_log st
      \<or> (\<exists>u. pc_usage_log ?st' = pc_usage_log st @ [u] \<and> qu_id u = pending_hold_settlement_uuid task)"
    using Some by (auto simp: complete_task_def Let_def QuotaUsage_new_def res_simps split: sum.splits if_splits)
  have "tasks_inv sc ?st'"
    using assms act unfolding tasks_inv_def pacer_inv_def deps_done_def ids st'(1,2)
    by (auto simp: bt_remove_sorted set_bt_remove intro: order.trans [OF length_bt_remove])
  moreover have "pending_hold_settlement_uuid task \<notin> qu_id ` set (pc_usage_log st)"
  proof
    assume "pending_hold_settlement_uuid task \<in> qu_id ` set (pc_usage_log st)"
    then have "pending_hold_settlement_uuid task \<in> pending_hold_settlement_uuid ` pc_completed st"
      using assms by (auto simp: pacer_inv_defs)
    then have "task \<in> pc_completed st" by (auto simp: settlement_uuid_inj)
    with assms act show False by (auto simp: pacer_inv_defs)
  qed
  then have "ledger_inv ?st'"
    using assms log st'(4) unfolding ledger_inv_def pacer_inv_def ids st'(1,2,3)
    by (auto simp: set_bt_remove split: if_splits)
  ultimately show ?thesis by (simp add: pacer_inv_def)
qed

lemma report_spend_inv:
  assumes "pacer_inv sc st" shows "pacer_inv sc (report_spend st task amount)"
proof (cases "map_of (pc_active st) task")
  case None
  with assms show ?thesis by (simp add: report_spend_def)
next
  case (Some a)
  then have act: "task \<in> active_ids st" by (force dest: map_of_SomeD)
  have "backoff_for st p \<le> 400" for p
    using assms by (auto simp: pacer_inv_defs backoff_for_def split: option.splits)
  moreover have "backoff_for (st\<lparr>pc_spend_so_far := s\<rparr>) p = backoff_for st p" for s p
    by (simp add: backoff_for_def)
  ultimately show ?thesis
    using assms act Some
    by (auto simp: pacer_inv_defs report_spend_def Let_def deps_done_def MAX_BACKOFF_RATIO_X100_def le_max_iff_disj
        min_le_iff_disj split: if_splits)
qed

lemma apply_event_inv: "pacer_inv sc st \<Longrightarrow> pacer_inv sc (apply_event sc st ev)"
proof (cases ev)
  case (EstimateRevised t s k e)
  assume "pacer_inv sc st"
  with EstimateRevised show ?thesis by (simp add: revise_estimate_def pacer_inv_defs)
qed (simp_all add: complete_task_inv report_spend_inv)

lemma untimed_inv: "pacer_inv sc (st\<lparr>pc_pending_timer := t\<rparr>) = pacer_inv sc st"
  by (simp add: pacer_inv_defs deps_done_def)

lemma step_inv:
  assumes "scenario_ok sc" "pacer_inv sc st" "step f clk st ev policy sc = Some (st', ps)"
  shows "pacer_inv sc st'"
  using well_formed.pass_keeps [OF assms(3) [unfolded step_def]] assms(1,2)
  by (simp add: apply_event_inv untimed_inv)

section \<open>Reachable states\<close>

inductive pacer_reachable :: "'f floats \<Rightarrow> clock \<Rightarrow> 'f Policy \<Rightarrow> 'f Scenario \<Rightarrow> 'f PacerState \<Rightarrow> bool"
  for f clk policy sc where
  initial: "pacer_reachable f clk policy sc PacerState_default"
| event: "pacer_reachable f clk policy sc st \<Longrightarrow> step f clk st ev policy sc = Some (st', ps)
    \<Longrightarrow> pacer_reachable f clk policy sc st'"
| restart: "pacer_reachable f clk policy sc st \<Longrightarrow> pacer_reachable f clk policy sc (restart_reset st)"

lemma reachable_inv: "pacer_reachable f clk policy sc st \<Longrightarrow> scenario_ok sc \<Longrightarrow> pacer_inv sc st"
  by (induction rule: pacer_reachable.induct) (auto simp: default_inv restart_inv intro: step_inv)

text \<open>
  C29. Every reachable schedule is sound. After any sequence of events and restarts of a validated scenario, no
  task is both running and done, every running or finished task has all its dependencies finished,
  at most the allowed fan-out runs at once (one task under Sustain), every principal's backoff
  ratio lies between 1x and 4x, and every settled usage record belongs to a finished task, at most
  one per task.
\<close>
theorem reachable_schedule_sound:
  assumes "pacer_reachable f clk policy sc st" "scenario_ok sc"
  shows "active_ids st \<inter> pc_completed st = {}
    \<and> (\<forall>t \<in> set (ts_tasks (sc_tasks sc)). st_id t \<in> active_ids st \<union> pc_completed st
         \<longrightarrow> set (st_depends_on t) \<subseteq> pc_completed st)
    \<and> length (pc_active st) \<le> (case sc_preference sc of Sustain _ _ _ \<Rightarrow> 1 | Burst _ max_fanout \<Rightarrow> unat max_fanout)
    \<and> (\<forall>p. 100 \<le> backoff_for st p \<and> backoff_for st p \<le> 400)
    \<and> distinct (map qu_id (pc_usage_log st))
    \<and> (\<forall>u \<in> set (pc_usage_log st). \<exists>k \<in> pc_completed st. qu_id u = pending_hold_settlement_uuid k)"
proof -
  have inv: "pacer_inv sc st" by (rule reachable_inv [OF assms])
  have cap: "unat (fanout_cap (sc_preference sc))
      = (case sc_preference sc of Sustain _ _ _ \<Rightarrow> 1 | Burst _ max_fanout \<Rightarrow> unat max_fanout)"
  proof (cases "sc_preference sc")
    case (Burst target_end max_fanout)
    have "unat max_fanout < 2 ^ 16" using unsigned_less [of max_fanout] by simp
    with Burst show ?thesis by (simp add: fanout_cap_def unsigned_ucast_eq take_bit_nat_eq_self)
  qed (simp add: fanout_cap_def)
  from inv have "\<forall>p. 100 \<le> backoff_for st p \<and> backoff_for st p \<le> 400"
    by (auto simp: pacer_inv_defs backoff_for_def split: option.splits)
  with inv cap show ?thesis by (auto simp: pacer_inv_defs deps_done_def)
qed

text \<open>A concrete scenario: two tasks, the second after the first, and one window of a hundred tokens.\<close>
definition demo_scenario :: "PacingPreference \<Rightarrow> rat Scenario" where
  "demo_scenario pref = \<lparr>sc_tasks = \<lparr>ts_tasks = [demo_task 1 [], demo_task 2 [1]]\<rparr>,
     sc_windows = [demo_window (Sliding 60 100)], sc_contract = None, sc_preference = pref\<rparr>"

definition demo_tick :: "int \<Rightarrow> rat PacingEvent" where
  "demo_tick t = ModeChanged \<lparr>odt_instant = t, odt_offset = 0\<rparr> 0"

definition demo_done :: "int \<Rightarrow> SimTaskId \<Rightarrow> rat PacingEvent" where
  "demo_done t k = TaskCompleted \<lparr>odt_instant = t, odt_offset = 0\<rparr> 1 k"

abbreviation demo_step :: "rat PacerState \<Rightarrow> rat PacingEvent \<Rightarrow> (rat PacerState \<times> Proposal list) option" where
  "demo_step st ev \<equiv> step rat_floats utc_clock st ev demo_policy (demo_scenario (Burst 1000 2))"

lemma demo_scenario_ok: "scenario_ok (demo_scenario pref)"
proof -
  have "TaskSet_validated [demo_task 1 [], demo_task 2 [1]] = Some (Inr \<lparr>ts_tasks = [demo_task 1 [], demo_task 2 [1]]\<rparr>)"
    by code_simp
  then show ?thesis by (simp add: scenario_ok_def demo_scenario_def)
qed

lemma demo_first_step:
  obtains st ps where "demo_step PacerState_default (demo_tick 0) = Some (st, ps)"
    "pacer_reachable rat_floats utc_clock demo_policy (demo_scenario (Burst 1000 2)) st"
    "map (\<lambda>(k, a). (k, at_hold a)) (pc_active st) = [(1, \<lparr>qa_unit = Tokens, qa_value = 30\<rparr>)]"
    "ps = [Start 1 0 \<lparr>qa_unit = Tokens, qa_value = 30\<rparr> None]"
proof -
  have "map_option (\<lambda>(st, ps). (map (\<lambda>(k, a). (k, at_hold a)) (pc_active st), ps)) (demo_step PacerState_default (demo_tick 0))
      = Some ([(1, \<lparr>qa_unit = Tokens, qa_value = 30\<rparr>)], [Start 1 0 \<lparr>qa_unit = Tokens, qa_value = 30\<rparr> None])"
    by code_simp
  then obtain st ps where run: "demo_step PacerState_default (demo_tick 0) = Some (st, ps)"
    "map (\<lambda>(k, a). (k, at_hold a)) (pc_active st) = [(1, \<lparr>qa_unit = Tokens, qa_value = 30\<rparr>)]"
    "ps = [Start 1 0 \<lparr>qa_unit = Tokens, qa_value = 30\<rparr> None]"
    by auto
  show ?thesis
    by (rule that [OF run(1) pacer_reachable.event [OF pacer_reachable.initial run(1)] run(2,3)])
qed

theorem reachable_schedule_sound_witness:
  "\<exists>st. pacer_reachable rat_floats utc_clock demo_policy (demo_scenario (Burst 1000 2)) st
     \<and> length (pc_active st) = 1 \<and> length (pc_active st) \<le> 2"
proof -
  obtain st ps where st: "pacer_reachable rat_floats utc_clock demo_policy (demo_scenario (Burst 1000 2)) st"
    "map (\<lambda>(k, a). (k, at_hold a)) (pc_active st) = [(1, \<lparr>qa_unit = Tokens, qa_value = 30\<rparr>)]"
    by (rule demo_first_step)
  from reachable_schedule_sound [OF st(1) demo_scenario_ok]
  have "length (pc_active st) \<le> 2" by (simp add: demo_scenario_def)
  moreover have "length (pc_active st) = 1" using arg_cong [OF st(2), of length] by simp
  ultimately show ?thesis using st(1) by blast
qed

section \<open>What a pass leaves alone\<close>

definition frame :: "'f PacerState \<Rightarrow> 'f PacerState \<Rightarrow> bool" where
  "frame st w \<longleftrightarrow> pc_completed w = pc_completed st \<and> pc_usage_log w = pc_usage_log st
     \<and> pc_spend_so_far w = pc_spend_so_far st \<and> pc_revised_estimates w = pc_revised_estimates st
     \<and> pc_backoff_x100 w = pc_backoff_x100 st \<and> map_of (pc_active st) \<subseteq>\<^sub>m map_of (pc_active w)"

lemma frame_active: "frame st w \<Longrightarrow> map_of (pc_active st) k = Some a \<Longrightarrow> map_of (pc_active w) k = Some a"
  unfolding frame_def map_le_def by (metis domI)

interpretation framed: admission_pass f clk policy sc now "\<lambda>w ps. frame st w" for f clk policy sc now st
proof
  fix w skip task hold flr
  assume fr: "frame st w" and c: "next_candidate sc w skip = Some task"
  have "map_of (pc_active st) (st_id task) = None"
    using frame_active [OF fr] next_candidate_Some(3) [OF c]
    by (cases "map_of (pc_active st) (st_id task)") auto
  with fr show "frame st (start_task w (st_id task) (st_principal task) hold flr now)"
    by (auto simp: frame_def start_task_def map_of_bt_insert map_le_def)
qed (auto simp: frame_def)

lemma step_frame:
  "step f clk st ev policy sc = Some (st', ps) \<Longrightarrow> frame (apply_event sc (st\<lparr>pc_pending_timer := None\<rparr>) ev) st'"
  unfolding step_def by (erule framed.pass_keeps) (simp add: frame_def)

lemma complete_task_Some:
  assumes "map_of (pc_active st) k = Some a"
  shows "pc_active (complete_task st t k) = bt_remove k (pc_active st)"
    "pc_completed (complete_task st t k) = insert k (pc_completed st)"
    "pc_usage_log (complete_task st t k) = (case QuotaUsage_new (pending_hold_settlement_uuid k) t
        \<lparr>qa_unit = qa_unit (at_hold a),
         qa_value = max (unwrap_or 0 (pc_spend_so_far st k)) (at_settlement_floor a)\<rparr> of
       Inr usage \<Rightarrow> pc_usage_log st @ [usage] | Inl _ \<Rightarrow> pc_usage_log st)"
  using assms by (simp_all add: complete_task_def Let_def)

lemma pending_amount_eq: "pending_amount st k a = max (qa_value (at_hold a)) (unwrap_or 0 (pc_spend_so_far st k))"
  by (simp add: pending_amount_def unwrap_or_def)

lemma apply_event_other:
  assumes "map_of (pc_active st) k = Some a" "\<nexists>t s. ev = TaskCompleted t s k"
  shows "map_of (pc_active (apply_event sc st ev)) k = Some a"
    "unwrap_or 0 (pc_spend_so_far st k) \<le> unwrap_or 0 (pc_spend_so_far (apply_event sc st ev) k)"
  using assms
  by (cases ev; auto simp: complete_task_def report_spend_def revise_estimate_def Let_def map_of_bt_remove
      unwrap_or_def split: option.splits)+

lemma unsettled_while_active:
  assumes "pacer_inv sc st" "k \<in> active_ids st"
  shows "find (\<lambda>u. qu_id u = pending_hold_settlement_uuid k) (pc_usage_log st) = None"
proof -
  have "qu_id u \<noteq> pending_hold_settlement_uuid k" if "u \<in> set (pc_usage_log st)" for u
  proof -
    obtain j where "j \<in> pc_completed st" "qu_id u = pending_hold_settlement_uuid j"
      using assms(1) \<open>u \<in> set (pc_usage_log st)\<close> by (auto simp: pacer_inv_defs)
    moreover have "k \<notin> pc_completed st" using assms by (auto simp: pacer_inv_defs)
    ultimately show ?thesis by (auto simp: settlement_uuid_inj)
  qed
  then show ?thesis by (simp add: find_None_iff)
qed

text \<open>
  C28. Running work is never cancelled, and settles at most what it held. Whatever event a reachable
  state processes, a running task keeps running under the same hold, and counts against its windows for no less
  than before, unless the event is its own completion. Then it is done, and if the event carries a UTC
  timestamp and the hold is metered, the record settled for it is the larger of the reported spend
  and the settlement floor, never more than what its windows already counted. A completion
  with another UTC offset settles nothing.
\<close>
theorem in_flight_work_runs_to_completion:
  assumes "pacer_reachable f clk policy sc st" "scenario_ok sc" "step f clk st ev policy sc = Some (st', ps)"
    and "map_of (pc_active st) k = Some a"
  shows "if \<exists>t s. ev = TaskCompleted t s k
    then map_of (pc_active st') k = None \<and> k \<in> pc_completed st'
      \<and> (odt_offset (pe_at ev) = 0 \<and> qa_unit (at_hold a) \<noteq> Percent \<longrightarrow>
          (\<exists>v. settled_usage_for st' k = Some \<lparr>qa_unit = qa_unit (at_hold a), qa_value = v\<rparr>
             \<and> v = max (unwrap_or 0 (pc_spend_so_far st k)) (at_settlement_floor a) \<and> v \<le> pending_amount st k a))
      \<and> (odt_offset (pe_at ev) \<noteq> 0 \<longrightarrow> pc_usage_log st' = pc_usage_log st)
    else map_of (pc_active st') k = Some a \<and> pending_amount st k a \<le> pending_amount st' k a"
proof (cases "\<exists>t s. ev = TaskCompleted t s k")
  case False
  let ?st0 = "st\<lparr>pc_pending_timer := None\<rparr>"
  note fr = step_frame [OF assms(3)]
  have ev: "map_of (pc_active (apply_event sc ?st0 ev)) k = Some a"
    "unwrap_or 0 (pc_spend_so_far st k) \<le> unwrap_or 0 (pc_spend_so_far (apply_event sc ?st0 ev) k)"
    using apply_event_other [of ?st0 k a ev sc] assms(4) False by simp_all
  with frame_active [OF fr] fr show ?thesis using False
    by (auto simp: frame_def pending_amount_eq le_max_iff_disj)
next
  case True
  then obtain t s where ev: "ev = TaskCompleted t s k" by blast
  let ?st0 = "st\<lparr>pc_pending_timer := None\<rparr>"
  have fr: "frame (complete_task ?st0 t k) st'" using step_frame [OF assms(3)] by (simp add: ev)
  have inv: "pacer_inv sc st" by (rule reachable_inv [OF assms(1,2)])
  then have inv': "pacer_inv sc st'" by (rule step_inv [OF assms(2) _ assms(3)])
  note fin = complete_task_Some [of ?st0 k a t, simplified, OF assms(4)]
  have k: "k \<in> pc_completed st'" using fr fin(2) by (simp add: frame_def)
  with inv' have none: "map_of (pc_active st') k = None" by (auto simp: pacer_inv_defs map_of_eq_None_iff)
  have act: "(k, a) \<in> set (pc_active st)" using assms(4) by (rule map_of_SomeD)
  have fresh: "find (\<lambda>u. qu_id u = pending_hold_settlement_uuid k) (pc_usage_log st) = None"
    using act by (intro unsettled_while_active [OF inv]) force
  have "at_settlement_floor a \<le> qa_value (at_hold a)" using inv act by (auto simp: pacer_inv_defs)
  with fr fin(3) ev k none fresh show ?thesis
    by (auto simp: frame_def settled_usage_for_def QuotaUsage_new_def normalize_utc_ms_def res_simps
        pending_amount_eq find_append max.coboundedI1 le_max_iff_disj)
qed

theorem in_flight_work_runs_to_completion_witness:
  "\<exists>st st' ps a. demo_step st (demo_done 5 1) = Some (st', ps) \<and> map_of (pc_active st) 1 = Some a
     \<and> 1 \<in> pc_completed st' \<and> settled_usage_for st' 1 \<noteq> None"
proof -
  obtain st ps where st: "demo_step PacerState_default (demo_tick 0) = Some (st, ps)"
    "pacer_reachable rat_floats utc_clock demo_policy (demo_scenario (Burst 1000 2)) st"
    "map (\<lambda>(k, a). (k, at_hold a)) (pc_active st) = [(1, \<lparr>qa_unit = Tokens, qa_value = 30\<rparr>)]"
    by (rule demo_first_step)
  then obtain a where a: "pc_active st = [(1, a)]" "at_hold a = \<lparr>qa_unit = Tokens, qa_value = 30\<rparr>" by auto
  have "Option.bind (demo_step PacerState_default (demo_tick 0)) (\<lambda>(st, ps). demo_step st (demo_done 5 1)) \<noteq> None"
    by code_simp
  with st(1) obtain st' ps' where run: "demo_step st (demo_done 5 1) = Some (st', ps')" by auto
  from in_flight_work_runs_to_completion [OF st(2) demo_scenario_ok run, of 1 a] a
  have "1 \<in> pc_completed st' \<and> settled_usage_for st' 1 \<noteq> None" by (auto simp: demo_done_def)
  with run a show ?thesis by fastforce
qed

section \<open>What a start respects\<close>

definition within_cutoffs :: "clock \<Rightarrow> 'f Policy \<Rightarrow> PacingPreference \<Rightarrow> instant \<Rightarrow> bool" where
  "within_cutoffs clk policy pref t \<longleftrightarrow> (\<forall>d. po_deadline policy = Some d \<longrightarrow> t \<le> d)
     \<and> (case pref of Burst target_end _ \<Rightarrow> t \<le> target_end | Sustain _ hours _ \<Rightarrow>
          (\<forall>h. hours = Some h \<longrightarrow> next_working_instant clk t h \<le> t))"

text \<open>The gap Sustain keeps from the start before.\<close>
definition spaced :: "'f floats \<Rightarrow> clock \<Rightarrow> 'f Scenario \<Rightarrow> instant option \<Rightarrow> 'f RemainingWorkEstimate \<Rightarrow> instant \<Rightarrow> bool" where
  "spaced f clk sc last_start est t \<longleftrightarrow>
     (\<forall>h w c s l. sc_preference sc = Sustain h w c \<longrightarrow> last_start = Some l
        \<longrightarrow> sustain_spacing (sc_windows sc) (approximate_need f est) None = Some s
        \<longrightarrow> clk_saturating_add clk l (seconds_ns s) \<le> t)"

lemma earliest_start_now:
  assumes "fst (earliest_start f clk sc w est now) = now" "cutoff_refusal clk now policy (sc_preference sc) now = None"
  shows "within_cutoffs clk policy (sc_preference sc) now" "spaced f clk sc (pc_last_start w) est now"
  using assms
  by (auto simp: within_cutoffs_def spaced_def earliest_start_def cutoff_refusal_def Let_def not_less
      split: PacingPreference.splits option.splits if_splits)

definition start_ok :: "'f floats \<Rightarrow> clock \<Rightarrow> 'f Policy \<Rightarrow> 'f Scenario \<Rightarrow> instant \<Rightarrow> 'f PacerState \<Rightarrow> Proposal \<Rightarrow> bool" where
  "start_ok f clk policy sc now st p \<longleftrightarrow>
     (\<forall>k t hold l. p = Start k t hold l \<longrightarrow> t = now \<and> l = None
        \<and> (\<exists>task \<in> set (ts_tasks (sc_tasks sc)). st_id task = k \<and> is_ready (pc_completed st) task
             \<and> map_of (pc_active st) k = None \<and> spaced f clk sc (pc_last_start st) (live_estimate st task) now)
        \<and> within_cutoffs clk policy (sc_preference sc) now)"

text \<open>The tasks a list of proposals starts.\<close>
definition started :: "Proposal list \<Rightarrow> SimTaskId list" where
  "started ps = List.map_filter (\<lambda>p. case p of Start k _ _ _ \<Rightarrow> Some k | _ \<Rightarrow> None) ps"

lemma started_simps [simp]:
  "started [] = []" "started (ps @ qs) = started ps @ started qs" "started [Start k t h l] = [k]"
  by (simp_all add: started_def List.map_filter_def)

lemma started_none: "(\<And>k t h l. Start k t h l \<notin> set ps) \<Longrightarrow> started ps = []"
  by (auto simp: started_def List.map_filter_def filter_empty_conv split: Proposal.splits)

text \<open>The invariant of a pass that began in \<open>st\<close>: its starts are in order, no task is started twice, and Sustain has started nothing
  while nothing runs.\<close>
definition paced_inv where
  "paced_inv f clk policy sc now st w ps \<longleftrightarrow> pacer_inv sc w \<and> frame st w
     \<and> distinct (started ps) \<and> set (started ps) \<subseteq> dom (map_of (pc_active w))
     \<and> (\<forall>p \<in> set ps. start_ok f clk policy sc now st p)
     \<and> (\<forall>h u c. sc_preference sc = Sustain h u c \<longrightarrow> pc_active w = [] \<longrightarrow> pc_last_start w = pc_last_start st)"

lemma sustain_idle:
  assumes "scenario_ok sc" "pacer_inv sc w" "of_nat (length (pc_active w)) < fanout_cap (sc_preference sc)"
    and "sc_preference sc = Sustain h u c"
  shows "pc_active w = []"
proof -
  have "length (pc_active w) < 2 ^ 32" using active_few [OF assms(1)] assms(2) by (simp add: pacer_inv_def)
  with assms(3,4) show ?thesis
    by (simp add: fanout_cap_def word_less_nat_alt unat_of_nat)
qed

lemma paced_start:
  assumes inv: "paced_inv f clk policy sc now st w ps" and ok: "scenario_ok sc"
    and cap: "of_nat (length (pc_active w)) < fanout_cap (sc_preference sc)"
    and c: "next_candidate sc w skip = Some task"
    and start: "consider_candidate f clk policy sc now w task = Some (StartNow hold flr limiting)"
  shows "start_ok f clk policy sc now st (Start (st_id task) now hold limiting)"
proof -
  note cand = next_candidate_Some [OF c] and go = consider_StartNow [OF start]
  have fr: "frame st w" and w: "pacer_inv sc w" using inv by (simp_all add: paced_inv_def)
  have live: "live_estimate w task = live_estimate st task" using fr by (simp add: live_estimate_def frame_def)
  have "pc_last_start w = pc_last_start st" if "sc_preference sc = Sustain h u co" for h u co
    using sustain_idle [OF ok w cap that] that inv by (simp add: paced_inv_def)
  with earliest_start_now(2) [OF go(1,2)]
  have "spaced f clk sc (pc_last_start st) (live_estimate st task) now"
    unfolding live by (auto simp: spaced_def)
  moreover have "map_of (pc_active st) (st_id task) = None"
    using frame_active [OF fr] cand(3) by (cases "map_of (pc_active st) (st_id task)") auto
  moreover have "is_ready (pc_completed st) task" using cand(2) fr by (simp add: frame_def)
  ultimately show ?thesis
    using cand(1) go(6) earliest_start_now(1) [OF go(1,2)] by (auto simp: start_ok_def)
qed

interpretation paced: admission_pass f clk policy sc now
  "\<lambda>w ps. scenario_ok sc \<longrightarrow> paced_inv f clk policy sc now st w ps" for f clk policy sc now st
proof
  fix w ps skip task hold flr limiting
  assume inv: "scenario_ok sc \<longrightarrow> paced_inv f clk policy sc now st w ps"
    and run: "of_nat (length (pc_active w)) < fanout_cap (sc_preference sc)"
      "next_candidate sc w skip = Some task"
      "consider_candidate f clk policy sc now w task = Some (StartNow hold flr limiting)"
  let ?w = "start_task w (st_id task) (st_principal task) hold flr now"
  have "paced_inv f clk policy sc now st ?w (ps @ [Start (st_id task) now hold limiting])" if ok: "scenario_ok sc"
  proof -
    have w: "paced_inv f clk policy sc now st w ps" using inv ok by simp
    have "pacer_inv sc ?w"
      using well_formed.starts [OF _ run] w ok by (simp add: paced_inv_def)
    moreover have "frame st ?w"
      using framed.starts [OF _ run] w by (simp add: paced_inv_def)
    moreover have "pc_active ?w \<noteq> []" by (cases "pc_active w") (auto simp: start_task_def split: if_splits)
    moreover have "distinct (started (ps @ [Start (st_id task) now hold limiting]))"
      "set (started (ps @ [Start (st_id task) now hold limiting])) \<subseteq> dom (map_of (pc_active ?w))"
      using w next_candidate_Some(3) [OF run(2)] by (auto simp: paced_inv_def start_task_def map_of_bt_insert)
    ultimately show ?thesis using w paced_start [OF w ok run] by (auto simp: paced_inv_def)
  qed
  then show "scenario_ok sc \<longrightarrow> paced_inv f clk policy sc now st ?w (ps @ [Start (st_id task) now hold limiting])" ..
next
  fix w ps timer
  assume "scenario_ok sc \<longrightarrow> paced_inv f clk policy sc now st w ps"
  then show "scenario_ok sc \<longrightarrow> paced_inv f clk policy sc now st (w\<lparr>pc_pending_timer := timer\<rparr>) ps"
    by (simp add: paced_inv_def untimed_inv) (simp add: frame_def)
next
  fix w ps hb
  assume inv: "scenario_ok sc \<longrightarrow> paced_inv f clk policy sc now st w ps" and hb: "\<forall>p \<in> set hb. \<exists>n. p = Hold n"
  have "started hb = []" using hb by (intro started_none) fastforce
  with inv hb show "scenario_ok sc \<longrightarrow> paced_inv f clk policy sc now st w (ps @ hb)"
    by (auto simp: paced_inv_def start_ok_def)
qed

text \<open>An event takes a task off the running ones only by completing it.\<close>
lemma apply_event_active:
  "map_of (pc_active st) k \<noteq> None \<Longrightarrow>
     map_of (pc_active (apply_event sc st ev)) k \<noteq> None \<or> k \<in> pc_completed (apply_event sc st ev)"
  by (cases ev) (auto simp: complete_task_def report_spend_def revise_estimate_def Let_def map_of_bt_insert map_of_bt_remove split: option.splits)

text \<open>
  C30. A start is never early, late, repeated or out of order. When a step proposes to start a task, the task was
  idle: not running when the event came, and started once by the pass; it is not done, all its dependencies are done, the start is dated at the event itself, not
  after the policy's deadline nor the burst's target end, and inside the working hours; under Sustain it keeps
  the spacing its need asks for from the start before, even across restarts; and no window is
  named as limiting. The state the pass began in is the one after the event.
\<close>
theorem starts_respect_pacing:
  assumes "pacer_reachable f clk policy sc st" "scenario_ok sc" "step f clk st ev policy sc = Some (st', ps)"
    and "Start k t hold l \<in> set ps"
  shows "t = odt_instant (pe_at ev) \<and> l = None \<and> within_cutoffs clk policy (sc_preference sc) t
    \<and> map_of (pc_active st) k = None
    \<and> map_of (pc_active (apply_event sc (st\<lparr>pc_pending_timer := None\<rparr>) ev)) k = None
    \<and> distinct (started ps)
    \<and> (\<exists>task. task \<in> set (ts_tasks (sc_tasks sc)) \<and> st_id task = k
         \<and> k \<notin> pc_completed st' \<and> set (st_depends_on task) \<subseteq> pc_completed st'
         \<and> spaced f clk sc (pc_last_start st) (live_estimate st' task) t)"
proof -
  let ?st0 = "apply_event sc (st\<lparr>pc_pending_timer := None\<rparr>) ev"
  have inv0: "pacer_inv sc ?st0"
    using reachable_inv [OF assms(1,2)] by (simp add: apply_event_inv untimed_inv)
  then have "paced_inv f clk policy sc (odt_instant (pe_at ev)) ?st0 ?st0 []"
    by (simp add: paced_inv_def frame_def)
  with paced.pass_keeps [OF assms(3) [unfolded step_def]] assms(2)
  have fin: "paced_inv f clk policy sc (odt_instant (pe_at ev)) ?st0 st' ps" by blast
  then have "start_ok f clk policy sc (odt_instant (pe_at ev)) ?st0 (Start k t hold l)"
    using assms(4) by (simp add: paced_inv_def)
  moreover have "pc_last_start ?st0 = pc_last_start st"
    by (cases ev) (auto simp: complete_task_def report_spend_def revise_estimate_def Let_def split: option.splits)
  moreover have "live_estimate ?st0 = live_estimate st'" "pc_completed ?st0 = pc_completed st'"
    using fin by (auto simp: paced_inv_def frame_def live_estimate_def)
  moreover have "distinct (started ps)" using fin by (simp add: paced_inv_def)
  moreover have "map_of (pc_active st) k = None"
    using calculation(1) apply_event_active [of "st\<lparr>pc_pending_timer := None\<rparr>" k sc ev]
    by (cases "map_of (pc_active st) k") (auto simp: start_ok_def is_ready_def)
  ultimately show ?thesis by (auto simp: start_ok_def is_ready_def list_all_iff)
qed

theorem starts_respect_pacing_witness:
  "\<exists>st' ps. demo_step PacerState_default (demo_tick 0) = Some (st', ps)
     \<and> Start 1 0 \<lparr>qa_unit = Tokens, qa_value = 30\<rparr> None \<in> set ps
     \<and> within_cutoffs utc_clock demo_policy (Burst 1000 2) 0"
proof -
  obtain st ps where st: "demo_step PacerState_default (demo_tick 0) = Some (st, ps)"
    "ps = [Start 1 0 \<lparr>qa_unit = Tokens, qa_value = 30\<rparr> None]"
    by (rule demo_first_step)
  from starts_respect_pacing [OF pacer_reachable.initial demo_scenario_ok st(1)] st(2)
  have "within_cutoffs utc_clock demo_policy (sc_preference (demo_scenario (Burst 1000 2))) 0" by force
  with st show ?thesis by (auto simp: demo_scenario_def)
qed

end
