(* ===== verification/Pacing_Replay.thy ===== *)
theory Pacing_Replay
  imports Pacing_Invariants "HOL-Library.Sublist"
begin

text \<open>
  The replay driver of the pacing machine (\<open>crates/domain/src/pacing/simulate.rs\<close>) and the read-only view of
  its states (\<open>pacing/view.rs\<close>). The driver merges the sorted events with the one timer a step leaves
  pending; its loop ends because every turn consumes an event or one of \<open>max_ticks\<close> timer ticks. A
  synthesized tick carries the timer's instant; its UTC offset is never read.
\<close>

section \<open>The driver\<close>

definition MAX_SCENARIO_EVENTS :: nat where "MAX_SCENARIO_EVENTS = 65536"

definition MAX_TIMER_TICKS :: nat where "MAX_TIMER_TICKS = MAX_SCENARIO_EVENTS"

datatype 'f Tick = EventTick "'f PacingEvent" | TimerTick instant

datatype 'f Due = DueEvent "'f PacingEvent" | DueTimer instant

definition due_now :: "'f PacingEvent list \<Rightarrow> instant option \<Rightarrow> 'f Due option" where
  "due_now order timer =
     (case (order, timer) of
        ([], None) \<Rightarrow> None
      | (ev # _, None) \<Rightarrow> Some (DueEvent ev)
      | ([], Some t) \<Rightarrow> Some (DueTimer t)
      | (ev # _, Some t) \<Rightarrow> if t < odt_instant (pe_at ev) then Some (DueTimer t) else Some (DueEvent ev))"

fun due_at :: "'f Due \<Rightarrow> instant" where
  "due_at (DueEvent ev) = odt_instant (pe_at ev)"
| "due_at (DueTimer t) = t"

definition past_until :: "instant option \<Rightarrow> instant \<Rightarrow> bool" where
  "past_until until t = (case until of Some u \<Rightarrow> u < t | None \<Rightarrow> False)"

definition timer_event :: "instant \<Rightarrow> nat \<Rightarrow> 'f PacingEvent" where
  "timer_event t ticks = ModeChanged \<lparr>odt_instant = t, odt_offset = 0\<rparr> (- 1 - of_nat ticks)"

text \<open>The loop: the final state, the trace from here on, and whether the tick budget ran out.\<close>
function replay_loop ::
    "'f floats \<Rightarrow> clock \<Rightarrow> 'f Policy \<Rightarrow> 'f Scenario \<Rightarrow> instant option \<Rightarrow> nat \<Rightarrow> 'f PacingEvent list \<Rightarrow> nat \<Rightarrow> 'f PacerState
      \<Rightarrow> ('f PacerState \<times> ('f Tick \<times> Proposal list) list \<times> bool) option" where
  "replay_loop f clk policy scenario until max_ticks order ticks st =
     (case due_now order (pc_pending_timer st) of
        None \<Rightarrow> Some (st, [], False)
      | Some due \<Rightarrow>
          if past_until until (due_at due) then Some (st, [], False)
          else case due of
            DueEvent ev \<Rightarrow>
              (case step f clk st ev policy scenario of
                 None \<Rightarrow> None
               | Some (new_state, proposals) \<Rightarrow>
                   map_option (\<lambda>(final, trace, exhausted). (final, (EventTick ev, proposals) # trace, exhausted))
                     (replay_loop f clk policy scenario until max_ticks (tl order) ticks new_state))
          | DueTimer t \<Rightarrow>
              if max_ticks < ticks + 1 then Some (st, [], True)
              else
                (case step f clk st (timer_event t (ticks + 1)) policy scenario of
                   None \<Rightarrow> None
                 | Some (new_state, proposals) \<Rightarrow>
                     map_option (\<lambda>(final, trace, exhausted). (final, (TimerTick t, proposals) # trace, exhausted))
                       (replay_loop f clk policy scenario until max_ticks order (ticks + 1) new_state)))"
  by pat_completeness auto
termination
  by (relation "measure (\<lambda>(f, clk, policy, scenario, until, max_ticks, order, ticks, st).
        length order + (max_ticks - ticks))")
    (auto simp: due_now_def split: list.splits option.splits if_splits)

declare replay_loop.simps [simp del]

definition simulate_bounded ::
    "'f floats \<Rightarrow> clock \<Rightarrow> 'f PacingEvent list \<Rightarrow> 'f Policy \<Rightarrow> 'f Scenario \<Rightarrow> instant option \<Rightarrow> nat
      \<Rightarrow> ('f PacerState \<times> ('f Tick \<times> Proposal list) list \<times> bool) option" where
  "simulate_bounded f clk events policy scenario until max_ticks =
     (let order = sort_key (\<lambda>e. (odt_instant (pe_at e), pe_seq e)) events
      in replay_loop f clk policy scenario until max_ticks order 0 PacerState_default)"

definition simulate ::
    "'f floats \<Rightarrow> clock \<Rightarrow> 'f PacingEvent list \<Rightarrow> 'f Policy \<Rightarrow> 'f Scenario
      \<Rightarrow> ('f PacerState \<times> ('f Tick \<times> Proposal list) list \<times> bool) option" where
  "simulate f clk events policy scenario = simulate_bounded f clk events policy scenario None MAX_TIMER_TICKS"

definition simulate_until ::
    "'f floats \<Rightarrow> clock \<Rightarrow> 'f PacingEvent list \<Rightarrow> 'f Policy \<Rightarrow> 'f Scenario \<Rightarrow> instant option
      \<Rightarrow> ('f PacerState \<times> ('f Tick \<times> Proposal list) list \<times> bool) option" where
  "simulate_until f clk events policy scenario until =
     simulate_bounded f clk events policy scenario until MAX_TIMER_TICKS"

section \<open>The view\<close>

definition view_evidence :: "'f PacerState \<Rightarrow> ProviderSnapshot list \<Rightarrow> QuotaWindow \<Rightarrow> QuotaEvidence" where
  "view_evidence st snapshots window =
     \<lparr>ev_usage = pc_usage_log st,
      ev_holds = map (\<lambda>p. OutstandingHold_projected (ph_id p) (ph_amount p)) (pending_for_window window st),
      ev_snapshots = snapshots\<rparr>"

definition evaluate_at ::
    "clock \<Rightarrow> 'f PacerState \<Rightarrow> 'f Scenario \<Rightarrow> ProviderSnapshot list \<Rightarrow> instant \<Rightarrow> WindowEvaluation list option" where
  "evaluate_at clk st scenario snapshots t =
     those (map (\<lambda>window. evaluate clk window (view_evidence st snapshots window) t) (sc_windows scenario))"

definition task_actuals :: "'f PacerState \<Rightarrow> (SimTaskId \<times> (QuotaAmount option \<times> u64 option)) list" where
  "task_actuals st =
     (let out = fold (\<lambda>(task, a). bt_insert task (Some (at_hold a), pc_spend_so_far st task)) (pc_active st) []
      in fold (\<lambda>task. bt_insert task (None, map_option qa_value (settled_usage_for st task)))
           (sorted_list_of_set (pc_completed st)) out)"

section \<open>Time moves forward\<close>

lemma admit_loop_timer:
  "admit_loop f clk policy sc now skip timer w ps = Some (w', ps') \<Longrightarrow> \<forall>t. timer = Some t \<longrightarrow> now < t
     \<Longrightarrow> \<forall>t. pc_pending_timer w' = Some t \<longrightarrow> now < t"
proof (induction f clk policy sc now skip timer w ps rule: admit_loop.induct)
  case (1 f clk policy sc now skip timer w ps)
  note run = "1.prems"(1) [unfolded admit_loop.simps [of f clk policy sc now skip timer w ps]]
  show ?case
  proof (cases "fanout_cap (sc_preference sc) \<le> of_nat (length (pc_active w)) \<or> next_candidate sc w skip = None")
    case True
    with run "1.prems"(2) show ?thesis by (auto split: if_splits)
  next
    case False
    then obtain task where task: "\<not> fanout_cap (sc_preference sc) \<le> of_nat (length (pc_active w))"
      "next_candidate sc w skip = Some task" by auto
    with run obtain out where out: "consider_candidate f clk policy sc now w task = Some out"
      by (cases "consider_candidate f clk policy sc now w task") simp_all
    show ?thesis
    proof (cases out)
      case (Skip hb wake)
      have "\<forall>t. (case wake of None \<Rightarrow> timer | Some t \<Rightarrow> Some (earlier_timer timer t)) = Some t \<longrightarrow> now < t"
        using consider_Skip [of f clk policy sc now w task hb wake] out Skip "1.prems"(2)
        by (auto simp: earlier_timer_def split: option.splits)
      with "1.IH"(1) [OF task out Skip] run task out Skip show ?thesis by simp
    next
      case (StartNow hold flr limiting)
      with "1.IH"(2) [OF task out StartNow] run task out "1.prems"(2) show ?thesis by simp
    qed
  qed
qed

lemma step_timer: "step f clk st ev policy sc = Some (st', ps) \<Longrightarrow> pc_pending_timer st' = Some t \<Longrightarrow> odt_instant (pe_at ev) < t"
  using admit_loop_timer by (fastforce simp: step_def try_admit_def)

section \<open>The run of a replay\<close>

text \<open>The loop as a relation, one rule per way a turn goes.\<close>
inductive replays :: "'f floats \<Rightarrow> clock \<Rightarrow> 'f Policy \<Rightarrow> 'f Scenario \<Rightarrow> instant option \<Rightarrow> nat \<Rightarrow> 'f PacingEvent list \<Rightarrow> nat
    \<Rightarrow> 'f PacerState \<Rightarrow> 'f PacerState \<Rightarrow> ('f Tick \<times> Proposal list) list \<Rightarrow> bool \<Rightarrow> bool"
  for f clk policy sc until max_ticks where
  quiet: "due_now order (pc_pending_timer st) = None \<Longrightarrow> replays f clk policy sc until max_ticks order ticks st st [] False"
| cut: "due_now order (pc_pending_timer st) = Some due \<Longrightarrow> past_until until (due_at due)
    \<Longrightarrow> replays f clk policy sc until max_ticks order ticks st st [] False"
| budget: "due_now order (pc_pending_timer st) = Some (DueTimer t) \<Longrightarrow> \<not> past_until until t \<Longrightarrow> max_ticks < ticks + 1
    \<Longrightarrow> replays f clk policy sc until max_ticks order ticks st st [] True"
| event: "due_now order (pc_pending_timer st) = Some (DueEvent ev) \<Longrightarrow> \<not> past_until until (odt_instant (pe_at ev))
    \<Longrightarrow> step f clk st ev policy sc = Some (st', ps)
    \<Longrightarrow> replays f clk policy sc until max_ticks (tl order) ticks st' final trace ex
    \<Longrightarrow> replays f clk policy sc until max_ticks order ticks st final ((EventTick ev, ps) # trace) ex"
| timer: "due_now order (pc_pending_timer st) = Some (DueTimer t) \<Longrightarrow> \<not> past_until until t \<Longrightarrow> ticks + 1 \<le> max_ticks
    \<Longrightarrow> step f clk st (timer_event t (ticks + 1)) policy sc = Some (st', ps)
    \<Longrightarrow> replays f clk policy sc until max_ticks order (ticks + 1) st' final trace ex
    \<Longrightarrow> replays f clk policy sc until max_ticks order ticks st final ((TimerTick t, ps) # trace) ex"

lemma replay_loop_replays:
  "replay_loop f clk policy sc until max_ticks order ticks st = Some (final, trace, ex)
     \<Longrightarrow> replays f clk policy sc until max_ticks order ticks st final trace ex"
proof (induction f clk policy sc until max_ticks order ticks st arbitrary: trace rule: replay_loop.induct)
  case (1 f clk policy sc until max_ticks order ticks st)
  note run = "1.prems" [unfolded replay_loop.simps [of f clk policy sc until max_ticks order ticks st]]
  show ?case
  proof (cases "due_now order (pc_pending_timer st)")
    case None
    with run show ?thesis by (auto intro: replays.quiet)
  next
    case (Some due)
    show ?thesis
    proof (cases "past_until until (due_at due)")
      case True
      with run Some show ?thesis by (auto intro: replays.cut)
    next
      case now: False
      show ?thesis
      proof (cases due)
        case (DueEvent ev)
        with run Some now obtain st' ps trace' where *: "step f clk st ev policy sc = Some (st', ps)"
          "replay_loop f clk policy sc until max_ticks (tl order) ticks st' = Some (final, trace', ex)"
          "trace = (EventTick ev, ps) # trace'"
          by (auto split: option.splits)
        from "1.IH"(1) [OF Some now DueEvent *(1) refl *(2)] * Some now DueEvent show ?thesis
          by (auto intro: replays.event)
      next
        case (DueTimer t)
        show ?thesis
        proof (cases "max_ticks < ticks + 1")
          case True
          with run Some now DueTimer show ?thesis by (auto intro: replays.budget)
        next
          case False
          with run Some now DueTimer obtain st' ps trace' where *:
            "step f clk st (timer_event t (ticks + 1)) policy sc = Some (st', ps)"
            "replay_loop f clk policy sc until max_ticks order (ticks + 1) st' = Some (final, trace', ex)"
            "trace = (TimerTick t, ps) # trace'"
            by (auto split: option.splits)
          from "1.IH"(2) [OF Some now DueTimer False *(1) refl *(2)] * Some now DueTimer False show ?thesis
            by (auto intro!: replays.timer)
        qed
      qed
    qed
  qed
qed

fun tick_at :: "'f Tick \<Rightarrow> instant" where
  "tick_at (EventTick ev) = odt_instant (pe_at ev)"
| "tick_at (TimerTick t) = t"

definition trace_events :: "('f Tick \<times> Proposal list) list \<Rightarrow> 'f PacingEvent list" where
  "trace_events trace = List.map_filter (\<lambda>(tick, _). case tick of EventTick ev \<Rightarrow> Some ev | TimerTick _ \<Rightarrow> None) trace"

definition timer_ticks :: "('f Tick \<times> Proposal list) list \<Rightarrow> nat" where
  "timer_ticks trace = length (filter (\<lambda>(tick, _). case tick of EventTick _ \<Rightarrow> False | TimerTick _ \<Rightarrow> True) trace)"

lemma trace_simps [simp]:
  "trace_events [] = []" "trace_events ((EventTick ev, ps) # tr) = ev # trace_events tr"
  "trace_events ((TimerTick t, ps) # tr) = trace_events tr"
  "timer_ticks [] = 0" "timer_ticks ((EventTick ev, ps) # tr) = timer_ticks tr"
  "timer_ticks ((TimerTick t, ps) # tr) = Suc (timer_ticks tr)"
  by (simp_all add: trace_events_def timer_ticks_def map_filter_def)

abbreviation event_times :: "'f PacingEvent list \<Rightarrow> instant list" where
  "event_times order \<equiv> map (\<lambda>e. odt_instant (pe_at e)) order"

text \<open>What is due lies before everything else that is pending.\<close>
lemma due_now_least:
  assumes "due_now order timer = Some due" "sorted (event_times order)"
  shows "(\<forall>e \<in> set order. due_at due \<le> odt_instant (pe_at e)) \<and> (\<forall>t. timer = Some t \<longrightarrow> due_at due \<le> t)"
  using assms by (auto simp: due_now_def split: list.splits option.splits if_splits)

lemma due_now_event: "due_now order timer = Some (DueEvent ev) \<Longrightarrow> \<exists>rest. order = ev # rest"
  by (auto simp: due_now_def split: list.splits option.splits if_splits)

lemma due_now_None: "due_now order timer = None \<longleftrightarrow> order = [] \<and> timer = None"
  by (auto simp: due_now_def split: list.splits option.splits)

lemma replays_budget:
  "replays f clk policy sc until max_ticks order ticks st final trace ex \<Longrightarrow> ticks \<le> max_ticks
     \<Longrightarrow> ticks + timer_ticks trace \<le> max_ticks \<and> (ex \<longrightarrow> ticks + timer_ticks trace = max_ticks)"
  by (induction rule: replays.induct) auto

lemma replays_reachable:
  "replays f clk policy sc until max_ticks order ticks st final trace ex \<Longrightarrow> pacer_reachable f clk policy sc st
     \<Longrightarrow> pacer_reachable f clk policy sc final"
  by (induction rule: replays.induct) (auto intro: pacer_reachable.event)

lemma replays_consumes:
  "replays f clk policy sc until max_ticks order ticks st final trace ex \<Longrightarrow> sorted (event_times order)
     \<Longrightarrow> \<exists>rest. order = trace_events trace @ rest
       \<and> (ex \<or> (\<forall>ev \<in> set rest. past_until until (odt_instant (pe_at ev)))
            \<and> (\<forall>t. pc_pending_timer final = Some t \<longrightarrow> past_until until t))"
proof (induction rule: replays.induct)
  case (quiet order st ticks)
  then show ?case by (simp add: due_now_None)
next
  case (cut order st due ticks)
  from due_now_least [OF cut(1,3)] cut(2) show ?case
    by (auto simp: past_until_def split: option.splits)
next
  case (event order st ev st' ps ticks final trace ex)
  from due_now_event [OF event(1)] obtain rest where "order = ev # rest" by blast
  with event show ?case by auto
qed auto

lemma replays_forward:
  "replays f clk policy sc until max_ticks order ticks st final trace ex \<Longrightarrow> sorted (event_times order)
     \<Longrightarrow> \<forall>e \<in> set order. t0 \<le> odt_instant (pe_at e) \<Longrightarrow> \<forall>t. pc_pending_timer st = Some t \<longrightarrow> t0 \<le> t
     \<Longrightarrow> sorted (map (\<lambda>(tick, _). tick_at tick) trace)
       \<and> (\<forall>(tick, _) \<in> set trace. t0 \<le> tick_at tick \<and> \<not> past_until until (tick_at tick))"
proof (induction arbitrary: t0 rule: replays.induct)
  case (event order st ev st' ps ticks final trace ex)
  from due_now_event [OF event(1)] obtain rest where order: "order = ev # rest" by blast
  have "sorted (map (\<lambda>(tick, _). tick_at tick) trace)
      \<and> (\<forall>(tick, _) \<in> set trace. odt_instant (pe_at ev) \<le> tick_at tick \<and> \<not> past_until until (tick_at tick))"
    using event.prems order step_timer [OF event(3)] by (intro event.IH) (auto intro: less_imp_le)
  moreover have "t0 \<le> odt_instant (pe_at ev)" using event.prems order by simp
  ultimately show ?case using event.hyps(2) by fastforce
next
  case (timer order st t ticks st' ps final trace ex)
  have least: "\<forall>e \<in> set order. t \<le> odt_instant (pe_at e)"
    using due_now_least [OF timer(1) timer.prems(1)] by simp
  have "pc_pending_timer st = Some t"
    using timer(1) by (auto simp: due_now_def split: list.splits option.splits if_splits)
  then have t0: "t0 \<le> t" using timer.prems(3) by simp
  have "\<forall>u. pc_pending_timer st' = Some u \<longrightarrow> t \<le> u"
    using step_timer [OF timer(4)] by (force simp: timer_event_def)
  from timer.IH [OF timer.prems(1) least this] t0 timer.hyps(2) show ?case by fastforce
qed auto

text \<open>
  C31. A replay is ordered and leaves nothing due behind. Its trace goes forward in time and never past
  the bound; it takes the events in the order of their instant and sequence number, skipping none;
  it synthesizes at most the budget of timer ticks and reports exhaustion only when the budget is
  spent. Unless it is exhausted, every event it has not taken and the timer it leaves pending lie past
  the bound. The state it ends in is a reachable state of the machine.
\<close>
theorem replay_ordered_and_complete:
  assumes "simulate_bounded f clk events policy sc until max_ticks = Some (final, trace, exhausted)"
  shows "sorted (map (\<lambda>(tick, _). tick_at tick) trace)
    \<and> (\<forall>(tick, _) \<in> set trace. \<not> past_until until (tick_at tick))
    \<and> (\<exists>rest. sort_key (\<lambda>e. (odt_instant (pe_at e), pe_seq e)) events = trace_events trace @ rest
         \<and> (exhausted \<or> (\<forall>ev \<in> set rest. past_until until (odt_instant (pe_at ev)))
              \<and> (\<forall>t. pc_pending_timer final = Some t \<longrightarrow> past_until until t)))
    \<and> timer_ticks trace \<le> max_ticks \<and> (exhausted \<longrightarrow> timer_ticks trace = max_ticks)
    \<and> pacer_reachable f clk policy sc final"
proof -
  define order where "order = sort_key (\<lambda>e. (odt_instant (pe_at e), pe_seq e)) events"
  have "sorted (map (\<lambda>e. (odt_instant (pe_at e), pe_seq e)) order)" by (simp add: order_def)
  then have sorted: "sorted (event_times order)"
    by (auto simp: sorted_wrt_map less_eq_prod_def elim: sorted_wrt_mono_rel [rotated])
  have run: "replays f clk policy sc until max_ticks order 0 PacerState_default final trace exhausted"
    using assms by (intro replay_loop_replays) (simp add: simulate_bounded_def order_def)
  have "\<forall>e \<in> set order. Min (insert 0 (set (event_times order))) \<le> odt_instant (pe_at e)" by simp
  from replays_forward [OF run sorted this] replays_consumes [OF run sorted] replays_budget [OF run]
    replays_reachable [OF run pacer_reachable.initial]
  show ?thesis by (auto simp: PacerState_default_def order_def [symmetric])
qed

theorem replay_ordered_and_complete_witness:
  "\<exists>final trace. simulate_bounded rat_floats utc_clock [demo_done 5 1, demo_tick 0] demo_policy
      (demo_scenario (Burst 1000 2)) None 2 = Some (final, trace, False)
   \<and> sorted (map (\<lambda>(tick, _). tick_at tick) trace) \<and> trace_events trace = [demo_tick 0, demo_done 5 1]"
proof -
  let ?run = "simulate_bounded rat_floats utc_clock [demo_done 5 1, demo_tick 0] demo_policy
      (demo_scenario (Burst 1000 2)) None 2"
  have "map_option (\<lambda>(_, trace, ex). (trace_events trace, ex)) ?run = Some ([demo_tick 0, demo_done 5 1], False)"
    by code_simp
  then obtain final trace where "?run = Some (final, trace, False)" "trace_events trace = [demo_tick 0, demo_done 5 1]"
    by auto
  with replay_ordered_and_complete [OF this(1)] show ?thesis by blast
qed

lemma replays_until:
  "replays f clk policy sc until max_ticks order ticks st final trace ex \<Longrightarrow> until = None \<Longrightarrow>
     \<exists>final' ex'. replay_loop f clk policy sc (Some u) max_ticks order ticks st
       = Some (final', takeWhile (\<lambda>(tick, _). tick_at tick \<le> u) trace, ex') \<and> (ex' \<longrightarrow> ex)"
proof (induction rule: replays.induct)
  case (event order st ev st' ps ticks final trace ex)
  then obtain final' ex' where "replay_loop f clk policy sc (Some u) max_ticks (tl order) ticks st'
      = Some (final', takeWhile (\<lambda>(tick, _). tick_at tick \<le> u) trace, ex')" "ex' \<longrightarrow> ex" by blast
  with event.hyps show ?case
    by (subst replay_loop.simps) (auto simp: past_until_def not_less)
next
  case (timer order st t ticks st' ps final trace ex)
  then obtain final' ex' where "replay_loop f clk policy sc (Some u) max_ticks order (ticks + 1) st'
      = Some (final', takeWhile (\<lambda>(tick, _). tick_at tick \<le> u) trace, ex')" "ex' \<longrightarrow> ex" by blast
  with timer.hyps show ?case
    by (subst replay_loop.simps) (auto simp: past_until_def not_less)
qed (subst replay_loop.simps, auto simp: past_until_def)+

text \<open>
  C32. A bounded replay is the unbounded one, cut. Whatever the instant and the tick budget, replaying the same events up to it
  succeeds whenever the unbounded replay does, and yields exactly those steps of the unbounded
  trace that are dated no later, with the same proposals; and it runs out of ticks only if the unbounded
  replay does.
\<close>
theorem bounded_replay_is_prefix:
  assumes "simulate_bounded f clk events policy sc None max_ticks = Some (final, trace, exhausted)"
  shows "\<exists>final' exhausted'. simulate_bounded f clk events policy sc (Some u) max_ticks
      = Some (final', takeWhile (\<lambda>(tick, _). tick_at tick \<le> u) trace, exhausted') \<and> (exhausted' \<longrightarrow> exhausted)"
  using replays_until [OF replay_loop_replays refl] assms
  by (auto simp: simulate_bounded_def)

theorem bounded_replay_is_prefix_witness:
  "\<exists>final' ex'. simulate_bounded rat_floats utc_clock [demo_done 5 1, demo_tick 0] demo_policy
      (demo_scenario (Burst 1000 2)) (Some 3) 2
    = Some (final', [(EventTick (demo_tick 0), [Start 1 0 \<lparr>qa_unit = Tokens, qa_value = 30\<rparr> None])], ex')"
proof -
  let ?run = "simulate_bounded rat_floats utc_clock [demo_done 5 1, demo_tick 0] demo_policy
      (demo_scenario (Burst 1000 2)) None 2"
  let ?trace = "[(EventTick (demo_tick 0), [Start 1 0 \<lparr>qa_unit = Tokens, qa_value = 30\<rparr> None]),
    (EventTick (demo_done 5 1), [Start 2 5 \<lparr>qa_unit = Tokens, qa_value = 30\<rparr> None])]"
  have "map_option (\<lambda>(_, trace, ex). (trace, ex)) ?run = Some (?trace, False)"
    by code_simp
  then obtain final where "?run = Some (final, ?trace, False)" by auto
  from bounded_replay_is_prefix [OF this, of 3] show ?thesis
    by (auto simp: demo_tick_def demo_done_def)
qed

section \<open>A start never overcommits a window\<close>

lemma sliding_not_blocking:
  "(\<exists>st. evaluate_sliding clk w ev t len l = Some (st, NotBlocking)) \<longleftrightarrow>
     (\<exists>y. clk_checked_add clk t (- length_ns len) = Some y
        \<and> 0 < remaining_i64 l (saturating_total usage_value
            (filter (\<lambda>u. y < qu_occurred_at u \<and> qu_occurred_at u \<le> t) (pe_usage (prepare ev w t))))
          (pe_outstanding (prepare ev w t)))"
  by (cases "clk_checked_add clk t (- length_ns len)")
    (auto simp: evaluate_sliding_def Let_def status_of_def bind_eq_Some_conv split: if_splits)

lemma evaluate_eased:
  assumes "evaluate clk w ev t = Some e" "we_blocking e = NotBlocking" "\<not> is_gauge w" "ev_usage ev' = ev_usage ev"
    and "pe_outstanding (prepare ev' w t) \<le> pe_outstanding (prepare ev w t)"
  shows "\<exists>e'. evaluate clk w ev' t = Some e' \<and> we_blocking e' = NotBlocking"
proof -
  have usage: "pe_usage (prepare ev' w t) = pe_usage (prepare ev w t)"
    using assms(4) by (simp add: prepare_def Let_def)
  have out: "uint (pe_outstanding (prepare ev' w t)) \<le> uint (pe_outstanding (prepare ev w t))"
    using assms(5) by (simp add: word_le_def)
  from evaluate_not_blocking [OF assms(1,2)] obtain st where st: "evaluate_kind clk w ev t = Some (st, NotBlocking)"
    and valid: "\<forall>v. qs_valid_until (qw_scope w) = Some v \<longrightarrow> t < v" by blast
  have "\<exists>st'. evaluate_kind clk w ev' t = Some (st', NotBlocking)"
  proof (cases "qw_kind w")
    case (FixedAligned p z l)
    with st out show ?thesis
      by (auto simp: evaluate_kind_def evaluate_period_def Let_def usage status_of_def remaining_i64_def
          clamp_i64_nonpos_iff split: prod.splits if_splits)
  next
    case (Sliding len l)
    with st have "\<exists>st. evaluate_sliding clk w ev t len l = Some (st, NotBlocking)" by (auto simp: evaluate_kind_def)
    with out have "\<exists>st. evaluate_sliding clk w ev' t len l = Some (st, NotBlocking)"
      unfolding sliding_not_blocking usage by (force simp: remaining_i64_def clamp_i64_pos_iff)
    with Sliding show ?thesis by (simp add: evaluate_kind_def)
  next
    case (RefillBucket c r s a l)
    with st out show ?thesis
      by (auto simp: evaluate_kind_def evaluate_bucket_split Let_def usage status_of_def bucket_relief_def
          clamp_i64_nonpos_iff i128_sat_nonpos_iff split: if_splits)
  next
    case (OpaqueProviderSnapshot m)
    with assms(3) show ?thesis by (simp add: is_gauge_def)
  qed
  with valid show ?thesis by (cases "qs_valid_until (qw_scope w)") (auto simp: evaluate_def)
qed

lemma gauge_needs_snapshots:
  assumes "evaluate clk w \<lparr>ev_usage = us, ev_holds = hs, ev_snapshots = []\<rparr> t = Some e" "is_gauge w"
  shows "we_blocking e \<noteq> NotBlocking"
proof
  assume "we_blocking e = NotBlocking"
  from evaluate_not_blocking [OF assms(1) this] assms(2) show False
    by (auto simp: is_gauge_def evaluate_kind_def evaluate_gauge_def split: WindowKind.splits)
qed

lemma dedup_on_id: "distinct (map k xs) \<Longrightarrow> k ` set xs \<inter> set seen = {} \<Longrightarrow> dedup_on k seen xs = xs"
  by (induction xs arbitrary: seen) auto

lemma outstanding_distinct:
  assumes "distinct (map oh_id (ev_holds ev))" "\<forall>h \<in> set (ev_holds ev). qa_unit (oh_amount h) = qw_unit w"
  shows "uint (pe_outstanding (prepare ev w t))
    = min (sum_col (\<lambda>h. uint (qa_value (oh_amount h))) (ev_holds ev)) u64_max"
  using assms by (simp add: prepare_outstanding dedup_holds_by_id_def dedup_on_id uint_saturating_total filter_True)

lemma sum_col_bt_insert: "k \<notin> fst ` set m \<Longrightarrow> sum_col g (bt_insert k v m) = g (k, v) + sum_col g m"
  by (induction k v m rule: bt_insert.induct) auto

text \<open>What the running tasks hold of a window.\<close>
definition pending_sum :: "QuotaWindow \<Rightarrow> 'f PacerState \<Rightarrow> int" where
  "pending_sum win w = sum_col (\<lambda>(k, a). if qa_unit (at_hold a) = qw_unit win then uint (pending_amount w k a) else 0) (pc_active w)"

abbreviation pending_outstanding :: "QuotaWindow \<Rightarrow> 'f PacerState \<Rightarrow> OutstandingHold list" where
  "pending_outstanding win w \<equiv> map (\<lambda>p. OutstandingHold_projected (ph_id p) (ph_amount p)) (pending_for_window win w)"

lemma pending_outstanding_facts:
  assumes "pacer_inv sc w"
  shows "distinct (map oh_id (pending_outstanding win w))"
    "\<forall>h \<in> set (pending_outstanding win w). qa_unit (oh_amount h) = qw_unit win"
    "sum_col (\<lambda>h. uint (qa_value (oh_amount h))) (pending_outstanding win w) = pending_sum win w"
    "synthetic_uuid (qw_id win) SYNTHETIC_NEED_TAG \<notin> set (map oh_id (pending_outstanding win w))"
proof -
  have "distinct (map fst (pc_active w))" using assms by (simp add: pacer_inv_defs sorted_keys_distinct)
  then have "distinct (map fst (filter (\<lambda>(_, a). qa_unit (at_hold a) = qw_unit win) (pc_active w)))"
    by (rule distinct_map_filter)
  moreover have "map oh_id (pending_outstanding win w)
      = map (pending_hold_id (qw_id win)) (map fst (filter (\<lambda>(_, a). qa_unit (at_hold a) = qw_unit win) (pc_active w)))"
    by (simp add: pending_for_window_def OutstandingHold_projected_def comp_def case_prod_unfold)
  ultimately show "distinct (map oh_id (pending_outstanding win w))"
    by (simp only: distinct_map [of "pending_hold_id (qw_id win)"] inj_on_def pending_hold_id_inj) simp
  show "\<forall>h \<in> set (pending_outstanding win w). qa_unit (oh_amount h) = qw_unit win"
    by (auto simp: pending_for_window_def OutstandingHold_projected_def)
  have "sum_col (\<lambda>h. uint (qa_value (oh_amount h))) (pending_outstanding win w)
      = sum_list (map (\<lambda>x. uint (pending_amount w (fst x) (snd x))) (filter (\<lambda>x. qa_unit (at_hold (snd x)) = qw_unit win) (pc_active w)))"
    by (simp add: sum_col_def pending_for_window_def OutstandingHold_projected_def comp_def case_prod_unfold)
  also have "\<dots> = pending_sum win w"
    by (simp add: pending_sum_def sum_col_def sum_list_map_filter' case_prod_unfold)
  finally show "sum_col (\<lambda>h. uint (qa_value (oh_amount h))) (pending_outstanding win w) = pending_sum win w" .
  show "synthetic_uuid (qw_id win) SYNTHETIC_NEED_TAG \<notin> set (map oh_id (pending_outstanding win w))"
    using synthetic_not_pending by (auto simp: pending_for_window_def OutstandingHold_projected_def)
qed

text \<open>The forecast's hold is at least the hold the start records.\<close>
lemma injected_covers:
  assumes "compute_task_need f windows est contract e policy num den = Inr (Some need)"
    and "win \<in> set windows" "\<not> is_gauge win" "qw_unit win = qa_unit need"
  shows "qa_unit (injected_need win mode need) = qw_unit win" "qa_value need \<le> qa_value (injected_need win mode need)"
proof -
  show "qa_unit (injected_need win mode need) = qw_unit win" using assms(4) by (simp add: injected_need_def Let_def)
  obtain limit where limit: "limit_or_capacity win = Some limit" "qa_value need < limit"
    using need_below_limit [OF assms] by blast
  have "qa_value need \<le> saturating_add (qa_value need) c" for c
    using uint_u64_bounds [of c] uint_u64_bounds [of "qa_value need"] by (simp add: word_le_def uint_saturating_add)
  with limit pred_u64 [OF limit(2)] show "qa_value need \<le> qa_value (injected_need win mode need)"
    by (simp add: injected_need_def Let_def)
qed

lemma start_pending_sum:
  assumes "pacer_inv sc w" "map_of (pc_active w) k = None" "qa_unit hold = qw_unit win"
  shows "pending_sum win (start_task w k prin hold flr now) = uint (qa_value hold) + pending_sum win w"
proof -
  have new: "k \<notin> fst ` set (pc_active w)" using assms(2) by (simp add: map_of_eq_None_iff)
  with assms(1) have "pc_spend_so_far w k = None" by (auto simp: pacer_inv_defs domIff)
  then have "pending_amount w k \<lparr>at_principal = prin, at_hold = hold, at_settlement_floor = flr, at_started_at = now\<rparr>
      = qa_value hold" by (simp add: pending_amount_def max_def)
  moreover have amount: "pending_amount (start_task w k prin hold flr now) = pending_amount w"
    by (simp add: fun_eq_iff pending_amount_def start_task_def)
  moreover have active: "pc_active (start_task w k prin hold flr now) = bt_insert k
      \<lparr>at_principal = prin, at_hold = hold, at_settlement_floor = flr, at_started_at = now\<rparr> (pc_active w)"
    by (simp add: start_task_def)
  ultimately show ?thesis
    using new assms(3) unfolding pending_sum_def amount active by (simp add: sum_col_bt_insert)
qed

text \<open>One admitted window still admits once the task runs.\<close>
lemma started_window_open:
  assumes inv: "pacer_inv sc w" and k: "map_of (pc_active w) k = None"
    and inv': "pacer_inv sc (start_task w k prin need flr now)"
    and need: "compute_task_need f (sc_windows sc) est contract e policy num den = Inr (Some need)"
    and win: "win \<in> set (sc_windows sc)" "\<not> is_gauge win"
    and adm: "admits_at clk (Some need) mode \<lparr>wi_window = win, wi_usage = pc_usage_log w,
        wi_pending = pending_for_window win w, wi_snapshots = []\<rparr> now"
  shows "\<exists>ev. evaluate clk win (view_evidence (start_task w k prin need flr now) snaps win) now = Some ev
    \<and> we_blocking ev = NotBlocking"
proof -
  let ?i = "\<lparr>wi_window = win, wi_usage = pc_usage_log w, wi_pending = pending_for_window win w, wi_snapshots = []\<rparr>"
  let ?w' = "start_task w k prin need flr now" and ?inj = "injected_need win mode need"
  from adm win(2) obtain ev where unit: "qw_unit win = qa_unit need"
    and ev: "evaluate clk win (probe_evidence ?i mode need) now = Some ev" "we_blocking ev = NotBlocking"
    by (auto simp: admits_at_def)
  note inj = injected_covers [OF need win unit, of mode] and old = pending_outstanding_facts [OF inv, where win = win]
  have holds: "ev_holds (probe_evidence ?i mode need) = pending_outstanding win w
      @ [OutstandingHold_projected (synthetic_uuid (qw_id win) SYNTHETIC_NEED_TAG) ?inj]"
    by (simp add: probe_evidence_def pending_holds_def)
  have "distinct (map oh_id (ev_holds (probe_evidence ?i mode need)))"
    using old(1,4) unfolding holds map_append
    by (simp add: distinct_append OutstandingHold_projected_def del: map_map set_map)
  moreover have "\<forall>h \<in> set (ev_holds (probe_evidence ?i mode need)). qa_unit (oh_amount h) = qw_unit win"
    using old(2) inj(1) unfolding holds by (simp add: OutstandingHold_projected_def)
  ultimately have before: "uint (pe_outstanding (prepare (probe_evidence ?i mode need) win now))
      = min (pending_sum win w + uint (qa_value ?inj)) u64_max"
    using old(3) by (simp add: outstanding_distinct holds OutstandingHold_projected_def)
  have after: "uint (pe_outstanding (prepare (view_evidence ?w' snaps win) win now)) = min (pending_sum win ?w') u64_max"
    using pending_outstanding_facts(1-3) [OF inv', where win = win] by (subst outstanding_distinct) (simp_all add: view_evidence_def)
  have "uint (qa_value need) \<le> uint (qa_value ?inj)" using inj(2) by (simp add: word_le_def)
  with start_pending_sum [OF inv k unit [symmetric]] before after
  have "pe_outstanding (prepare (view_evidence ?w' snaps win) win now)
      \<le> pe_outstanding (prepare (probe_evidence ?i mode need) win now)" by (simp add: word_le_def)
  then show ?thesis
    by (intro evaluate_eased [OF ev win(2)]) (simp_all add: view_evidence_def probe_evidence_def start_task_def)
qed

text \<open>What a start leaves open: every window, none of them a gauge.\<close>
definition windows_open :: "clock \<Rightarrow> 'f Scenario \<Rightarrow> ProviderSnapshot list \<Rightarrow> instant \<Rightarrow> 'f PacerState \<Rightarrow> bool" where
  "windows_open clk sc snaps now w \<longleftrightarrow> (\<forall>win \<in> set (sc_windows sc).
     \<exists>ev. evaluate clk win (view_evidence w snaps win) now = Some ev \<and> we_blocking ev = NotBlocking)"

lemma start_keeps_windows_open:
  assumes ok: "scenario_ok sc" "pacer_inv sc w" "\<forall>win \<in> set (sc_windows sc). bucket_fits win"
    and run: "of_nat (length (pc_active w)) < fanout_cap (sc_preference sc)" "next_candidate sc w skip = Some task"
      "consider_candidate f clk policy sc now w task = Some (StartNow hold flr limiting)"
  shows "windows_open clk sc snaps now (start_task w (st_id task) (st_principal task) hold flr now)"
proof -
  let ?mode = "forecast_mode (sc_preference sc)" and ?b = "backoff_for w (st_principal task)"
  note go = consider_StartNow [OF run(3)]
  have inv': "pacer_inv sc (start_task w (st_id task) (st_principal task) hold flr now)"
    using well_formed.starts [OF _ run] ok by simp
  have wins: "map wi_window (window_inputs sc w) = sc_windows sc" by (simp add: window_inputs_def comp_def)
  have "\<forall>i \<in> set (window_inputs sc w). bucket_fits (wi_window i)" using ok(3) by (auto simp: window_inputs_def)
  from earliest_safe_admit_result [OF go(3) this] obtain need where
    need: "compute_task_need f (sc_windows sc) (live_estimate w task) (sc_contract sc) None policy ?b 100 = Inr need"
    and adm: "\<forall>i \<in> set (window_inputs sc w). admits_at clk need ?mode i now"
    unfolding wins by blast
  have "\<exists>ev. evaluate clk win (view_evidence (start_task w (st_id task) (st_principal task) hold flr now) snaps win) now = Some ev
      \<and> we_blocking ev = NotBlocking" if win: "win \<in> set (sc_windows sc)" for win
  proof -
    let ?i = "\<lparr>wi_window = win, wi_usage = pc_usage_log w, wi_pending = pending_for_window win w, wi_snapshots = []\<rparr>"
    have a: "admits_at clk need ?mode ?i now" using adm win by (auto simp: window_inputs_def)
    have g: "\<not> is_gauge win" using a gauge_needs_snapshots by (fastforce simp: admits_at_def)
    with a obtain n where n: "need = Some n" by (auto simp: admits_at_def)
    then have "hold = n" using go(4) need by (simp add: recorded_hold_def)
    with started_window_open [OF ok(2) next_candidate_Some(3) [OF run(2)] _ need [unfolded n] win g a [unfolded n]] inv'
    show ?thesis by simp
  qed
  then show ?thesis by (simp add: windows_open_def)
qed

interpretation committed: admission_pass f clk policy sc now
  "\<lambda>w ps. scenario_ok sc \<and> (\<forall>win \<in> set (sc_windows sc). bucket_fits win)
     \<longrightarrow> pacer_inv sc w \<and> ((\<exists>k t h l. Start k t h l \<in> set ps) \<longrightarrow> windows_open clk sc snaps now w)"
  for f clk policy sc now snaps
proof
  fix w ps skip task hold flr limiting
  assume inv: "scenario_ok sc \<and> (\<forall>win \<in> set (sc_windows sc). bucket_fits win)
      \<longrightarrow> pacer_inv sc w \<and> ((\<exists>k t h l. Start k t h l \<in> set ps) \<longrightarrow> windows_open clk sc snaps now w)"
    and run: "of_nat (length (pc_active w)) < fanout_cap (sc_preference sc)"
      "next_candidate sc w skip = Some task"
      "consider_candidate f clk policy sc now w task = Some (StartNow hold flr limiting)"
  show "scenario_ok sc \<and> (\<forall>win \<in> set (sc_windows sc). bucket_fits win) \<longrightarrow>
      pacer_inv sc (start_task w (st_id task) (st_principal task) hold flr now)
      \<and> ((\<exists>k t h l. Start k t h l \<in> set (ps @ [Start (st_id task) now hold limiting]))
         \<longrightarrow> windows_open clk sc snaps now (start_task w (st_id task) (st_principal task) hold flr now))"
    using inv well_formed.starts [OF _ run] start_keeps_windows_open [OF _ _ _ run] by blast
next
  fix w ps timer
  assume "scenario_ok sc \<and> (\<forall>win \<in> set (sc_windows sc). bucket_fits win)
      \<longrightarrow> pacer_inv sc w \<and> ((\<exists>k t h l. Start k t h l \<in> set ps) \<longrightarrow> windows_open clk sc snaps now w)"
  then show "scenario_ok sc \<and> (\<forall>win \<in> set (sc_windows sc). bucket_fits win)
      \<longrightarrow> pacer_inv sc (w\<lparr>pc_pending_timer := timer\<rparr>)
        \<and> ((\<exists>k t h l. Start k t h l \<in> set ps) \<longrightarrow> windows_open clk sc snaps now (w\<lparr>pc_pending_timer := timer\<rparr>))"
    by (simp add: untimed_inv windows_open_def view_evidence_def pending_for_window_def pending_amount_def)
qed auto

lemma those_map: "(\<forall>x \<in> set xs. \<exists>y. g x = Some y \<and> P y) \<Longrightarrow> \<exists>ys. those (map g xs) = Some ys \<and> (\<forall>y \<in> set ys. P y)"
  by (induction xs) auto

text \<open>
  C27. A start never overcommits any window. After a step of a reachable state that starts a task, the view
  of the new state at that instant evaluates, without panicking, every window of the scenario to
  not blocking: the settled usage and the holds of all running tasks, the one just started and any
  overrun reported so far included, leave every limit unreached. The buckets' scaled capacities
  fit the 128-bit arithmetic.
\<close>
theorem start_never_overcommits:
  assumes "pacer_reachable f clk policy sc st" "scenario_ok sc" "\<forall>win \<in> set (sc_windows sc). bucket_fits win"
    and "step f clk st ev policy sc = Some (st', ps)" "Start k t hold l \<in> set ps"
  shows "\<exists>evals. evaluate_at clk st' sc snaps (odt_instant (pe_at ev)) = Some evals
    \<and> (\<forall>e \<in> set evals. we_blocking e = NotBlocking)"
proof -
  have "pacer_inv sc (apply_event sc (st\<lparr>pc_pending_timer := None\<rparr>) ev)"
    using reachable_inv [OF assms(1,2)] by (simp add: apply_event_inv untimed_inv)
  with committed.pass_keeps [OF assms(4) [unfolded step_def], of snaps] assms(2,3,5)
  have "windows_open clk sc snaps (odt_instant (pe_at ev)) st'" by auto
  then show ?thesis unfolding evaluate_at_def windows_open_def by (rule those_map)
qed

theorem start_never_overcommits_witness:
  "\<exists>st' ps evals. demo_step PacerState_default (demo_tick 0) = Some (st', ps)
     \<and> Start 1 0 \<lparr>qa_unit = Tokens, qa_value = 30\<rparr> None \<in> set ps
     \<and> evaluate_at utc_clock st' (demo_scenario (Burst 1000 2)) [] 0 = Some evals
     \<and> (\<forall>e \<in> set evals. we_blocking e = NotBlocking)"
proof -
  obtain st ps where st: "demo_step PacerState_default (demo_tick 0) = Some (st, ps)"
    "ps = [Start 1 0 \<lparr>qa_unit = Tokens, qa_value = 30\<rparr> None]"
    by (rule demo_first_step)
  have fits: "\<forall>win \<in> set (sc_windows (demo_scenario (Burst 1000 2))). bucket_fits win"
    by (simp add: demo_scenario_def demo_window_def bucket_fits_def)
  have "Start 1 0 \<lparr>qa_unit = Tokens, qa_value = 30\<rparr> None \<in> set ps" using st(2) by simp
  from start_never_overcommits [OF pacer_reachable.initial demo_scenario_ok fits st(1) this, of "[]"] st this
  show ?thesis by (simp add: demo_tick_def)
qed

end
