(* ===== verification/Gateway_Usage.thy ===== *)
theory Gateway_Usage
  imports Prelude "HOL-Library.Char_ord"
begin

text \<open>
  Reading the provider's own token accounting out of a relayed response (\<open>crates/gateway/src/usage.rs\<close>, and
  the report types of \<open>pricing.rs\<close>). A byte is a \<open>char\<close>. Decoding a frame belongs to \<open>serde_json\<close>: it is the
  parameter \<open>decode\<close> of the definitions; a JSON value is the documented data type of that crate, an
  object being the list of its members and a number its reading as \<open>u64\<close>, if it has one.
\<close>

section \<open>JSON values\<close>

datatype json =
    JNull
  | JBool bool
  | JNumber "u64 option"
  | JString string
  | JArray "json list"
  | JObject "(string \<times> json) list"

fun as_u64 :: "json \<Rightarrow> u64 option" where
  "as_u64 (JNumber n) = n"
| "as_u64 _ = None"

fun as_str :: "json \<Rightarrow> string option" where
  "as_str (JString s) = Some s"
| "as_str _ = None"

fun as_array :: "json \<Rightarrow> json list option" where
  "as_array (JArray xs) = Some xs"
| "as_array _ = None"

text \<open>\<open>Value::get\<close> with a key.\<close>
fun json_get :: "json \<Rightarrow> string \<Rightarrow> json option" where
  "json_get (JObject m) k = map_of m k"
| "json_get _ k = None"

section \<open>Reports\<close>

datatype CacheWriteSplit = SplitAbsent | Split u64 u64 | SplitMalformed

text \<open>\<open>CacheWriteSplit::resolve\<close>.\<close>
fun split_resolve :: "CacheWriteSplit \<Rightarrow> u64 \<Rightarrow> (u64 \<times> u64) option" where
  "split_resolve SplitAbsent written = Some (0, written)"
| "split_resolve (Split five_minute one_hour) written =
     Option.bind (checked_add five_minute one_hour) (\<lambda>sum.
     Option.bind (checked_sub written sum) (\<lambda>rest.
     Some (five_minute, saturating_add one_hour rest)))"
| "split_resolve SplitMalformed written = None"

datatype SpeedReport = SpeedAbsent | SpeedStandard | SpeedFast | SpeedUnrecognised

fun SpeedReport_from_json :: "json option \<Rightarrow> SpeedReport" where
  "SpeedReport_from_json None = SpeedAbsent"
| "SpeedReport_from_json (Some JNull) = SpeedAbsent"
| "SpeedReport_from_json (Some (JString s)) =
     (if s = ''standard'' then SpeedStandard else if s = ''fast'' then SpeedFast else SpeedUnrecognised)"
| "SpeedReport_from_json (Some _) = SpeedUnrecognised"

datatype GeoReport = GeoAbsent | GeoGlobal | GeoUs | GeoOther

fun GeoReport_from_json :: "json option \<Rightarrow> GeoReport" where
  "GeoReport_from_json None = GeoAbsent"
| "GeoReport_from_json (Some JNull) = GeoAbsent"
| "GeoReport_from_json (Some (JString s)) =
     (if s = ''global'' then GeoGlobal else if s = ''us'' then GeoUs else GeoOther)"
| "GeoReport_from_json (Some _) = GeoOther"

record ObservedUsage =
  ou_input_tokens :: u64
  ou_cache_creation_input_tokens :: u64
  ou_cache_read_input_tokens :: u64
  ou_output_tokens :: u64
  ou_cache_creation_split :: CacheWriteSplit
  ou_speed :: SpeedReport
  ou_inference_geo :: GeoReport

definition ObservedUsage_default :: ObservedUsage where
  "ObservedUsage_default = \<lparr>ou_input_tokens = 0, ou_cache_creation_input_tokens = 0,
     ou_cache_read_input_tokens = 0, ou_output_tokens = 0, ou_cache_creation_split = SplitAbsent,
     ou_speed = SpeedAbsent, ou_inference_geo = GeoAbsent\<rparr>"

definition fresh_tokens :: "ObservedUsage \<Rightarrow> u64" where
  "fresh_tokens u = saturating_add (saturating_add (ou_input_tokens u) (ou_cache_creation_input_tokens u))
     (ou_output_tokens u)"

section \<open>Frames\<close>

record UsageFields =
  uf_input_tokens :: "u64 option"
  uf_cache_creation_input_tokens :: "u64 option"
  uf_cache_read_input_tokens :: "u64 option"
  uf_output_tokens :: "u64 option"
  uf_cache_creation :: "json option"
  uf_speed :: "json option"
  uf_inference_geo :: "json option"

record FrameMessage =
  fm_usage :: "UsageFields option"

record StreamFrame =
  sf_frame_type :: "string option"
  sf_message :: "FrameMessage option"
  sf_usage :: "UsageFields option"

definition parse_cache_split :: "json \<Rightarrow> CacheWriteSplit" where
  "parse_cache_split value =
     (case value of
        JObject members \<Rightarrow>
          let count = (\<lambda>key. case map_of members key of None \<Rightarrow> Some 0 | Some JNull \<Rightarrow> Some 0 | Some v \<Rightarrow> as_u64 v)
          in (case (count ''ephemeral_5m_input_tokens'', count ''ephemeral_1h_input_tokens'') of
                (Some five_minute, Some one_hour) \<Rightarrow> Split five_minute one_hour
              | _ \<Rightarrow> SplitMalformed)
      | _ \<Rightarrow> SplitMalformed)"

section \<open>The accumulator\<close>

definition MAX_LINE_BYTES :: nat where "MAX_LINE_BYTES = 64 * 1024"

record UsageAccumulator =
  ua_line :: string
  ua_resyncing :: bool
  ua_usage :: ObservedUsage
  ua_saw_usage :: bool
  ua_saw_message_start :: bool
  ua_saw_message_stop :: bool

definition UsageAccumulator_new :: UsageAccumulator where
  "UsageAccumulator_new = \<lparr>ua_line = [], ua_resyncing = False, ua_usage = ObservedUsage_default,
     ua_saw_usage = False, ua_saw_message_start = False, ua_saw_message_stop = False\<rparr>"

definition or_kept :: "'a option \<Rightarrow> 'a \<Rightarrow> 'a" where
  "or_kept reported stored = (case reported of Some v \<Rightarrow> v | None \<Rightarrow> stored)"

text \<open>Every present counter replaces the stored one.\<close>
definition apply_usage :: "UsageAccumulator \<Rightarrow> UsageFields \<Rightarrow> UsageAccumulator" where
  "apply_usage acc reports =
     (let usage = ua_usage acc;
          saw_any = (uf_input_tokens reports \<noteq> None \<or> uf_cache_creation_input_tokens reports \<noteq> None
            \<or> uf_cache_read_input_tokens reports \<noteq> None \<or> uf_output_tokens reports \<noteq> None)
      in acc\<lparr>ua_usage := usage\<lparr>
             ou_input_tokens := or_kept (uf_input_tokens reports) (ou_input_tokens usage),
             ou_cache_creation_input_tokens :=
               or_kept (uf_cache_creation_input_tokens reports) (ou_cache_creation_input_tokens usage),
             ou_cache_read_input_tokens :=
               or_kept (uf_cache_read_input_tokens reports) (ou_cache_read_input_tokens usage),
             ou_output_tokens := or_kept (uf_output_tokens reports) (ou_output_tokens usage),
             ou_cache_creation_split :=
               or_kept (map_option parse_cache_split (uf_cache_creation reports)) (ou_cache_creation_split usage),
             ou_speed := (if uf_speed reports \<noteq> None then SpeedReport_from_json (uf_speed reports) else ou_speed usage),
             ou_inference_geo := (if uf_inference_geo reports \<noteq> None
               then GeoReport_from_json (uf_inference_geo reports) else ou_inference_geo usage)\<rparr>,
           ua_saw_usage := ua_saw_usage acc \<or> saw_any\<rparr>)"

text \<open>The usage a frame carries: nested under its message, else at the top level.\<close>
definition frame_usage :: "StreamFrame \<Rightarrow> UsageFields option" where
  "frame_usage frame =
     (case Option.bind (sf_message frame) fm_usage of Some u \<Rightarrow> Some u | None \<Rightarrow> sf_usage frame)"

definition apply_frame :: "UsageAccumulator \<Rightarrow> StreamFrame \<Rightarrow> UsageAccumulator" where
  "apply_frame acc frame =
     (let acc = (if sf_frame_type frame = Some ''message_start'' then acc\<lparr>ua_saw_message_start := True\<rparr>
                 else if sf_frame_type frame = Some ''message_stop'' then acc\<lparr>ua_saw_message_stop := True\<rparr>
                 else acc)
      in case frame_usage frame of Some usage \<Rightarrow> apply_usage acc usage | None \<Rightarrow> acc)"

definition is_ascii_whitespace :: "char \<Rightarrow> bool" where
  "is_ascii_whitespace c \<longleftrightarrow> c \<in> {CHR '' '', CHR 0x09, CHR 0x0A, CHR 0x0C, CHR 0x0D}"

definition trim_ascii :: "string \<Rightarrow> string" where
  "trim_ascii bytes = rev (dropWhile is_ascii_whitespace (rev (dropWhile is_ascii_whitespace bytes)))"

type_synonym decoder = "string \<Rightarrow> StreamFrame option"

text \<open>The frame of a line: only a \<open>data:\<close> field with a payload that decodes.\<close>
definition line_frame :: "decoder \<Rightarrow> string \<Rightarrow> StreamFrame option" where
  "line_frame decode line =
     Option.bind (strip_prefix ''data:'' line) (\<lambda>rest.
       let payload = trim_ascii rest
       in if payload = [] \<or> payload = ''[DONE]'' then None else decode payload)"

definition consume_line :: "decoder \<Rightarrow> UsageAccumulator \<Rightarrow> string \<Rightarrow> UsageAccumulator" where
  "consume_line decode acc line =
     (case line_frame decode line of Some frame \<Rightarrow> apply_frame acc frame | None \<Rightarrow> acc)"

definition feed_byte :: "decoder \<Rightarrow> UsageAccumulator \<Rightarrow> char \<Rightarrow> UsageAccumulator" where
  "feed_byte decode acc byte =
     (if byte = CHR 0x0A then
        if ua_resyncing acc then acc\<lparr>ua_resyncing := False, ua_line := []\<rparr>
        else consume_line decode (acc\<lparr>ua_line := []\<rparr>) (ua_line acc)
      else if ua_resyncing acc then acc
      else if MAX_LINE_BYTES \<le> length (ua_line acc) then acc\<lparr>ua_line := [], ua_resyncing := True\<rparr>
      else acc\<lparr>ua_line := ua_line acc @ [byte]\<rparr>)"

definition feed :: "decoder \<Rightarrow> UsageAccumulator \<Rightarrow> string \<Rightarrow> UsageAccumulator" where
  "feed decode acc chunk = foldl (feed_byte decode) acc chunk"

definition feed_whole_body :: "decoder \<Rightarrow> UsageAccumulator \<Rightarrow> string \<Rightarrow> UsageAccumulator" where
  "feed_whole_body decode acc body = (case decode body of Some frame \<Rightarrow> apply_frame acc frame | None \<Rightarrow> acc)"

definition observed :: "UsageAccumulator \<Rightarrow> ObservedUsage option" where
  "observed acc = (if ua_saw_usage acc then Some (ua_usage acc) else None)"

definition completed_cleanly :: "UsageAccumulator \<Rightarrow> bool" where
  "completed_cleanly acc = ua_saw_message_stop acc"

section \<open>What a stream reports\<close>

text \<open>The newline-terminated lines of a stream and what follows the last of them.\<close>
definition line_step :: "string list \<times> string \<Rightarrow> char \<Rightarrow> string list \<times> string" where
  "line_step = (\<lambda>(ls, cur) c. if c = CHR 0x0A then (ls @ [cur], []) else (ls, cur @ [c]))"

definition stream_lines :: "string \<Rightarrow> string list \<times> string" where
  "stream_lines s = foldl line_step ([], []) s"

definition stream_frames :: "decoder \<Rightarrow> string \<Rightarrow> StreamFrame list" where
  "stream_frames decode s =
     List.map_filter (line_frame decode) (filter (\<lambda>l. length l \<le> MAX_LINE_BYTES) (fst (stream_lines s)))"

text \<open>The values a counter was reported with, in order.\<close>
definition reported :: "(UsageFields \<Rightarrow> 'a option) \<Rightarrow> StreamFrame list \<Rightarrow> 'a list" where
  "reported field frames = List.map_filter (\<lambda>fr. Option.bind (frame_usage fr) field) frames"

definition last_or :: "'a \<Rightarrow> 'a list \<Rightarrow> 'a" where
  "last_or d xs = (if xs = [] then d else last xs)"

lemma stream_lines_snoc: "stream_lines (s @ [c]) = line_step (stream_lines s) c"
  by (simp add: stream_lines_def)

lemma map_filter_snoc:
  "List.map_filter g (xs @ [x]) = List.map_filter g xs @ (case g x of Some y \<Rightarrow> [y] | None \<Rightarrow> [])"
  by (simp add: map_filter_def split: option.splits)

lemma last_or_snoc: "last_or d (xs @ (case x of Some y \<Rightarrow> [y] | None \<Rightarrow> [])) = or_kept x (last_or d xs)"
  by (simp add: last_or_def or_kept_def split: option.splits)

lemma apply_frame_buffer:
  "apply_frame (acc\<lparr>ua_line := l\<rparr>) fr = (apply_frame acc fr)\<lparr>ua_line := l\<rparr>"
  "apply_frame (acc\<lparr>ua_resyncing := r\<rparr>) fr = (apply_frame acc fr)\<lparr>ua_resyncing := r\<rparr>"
  by (simp_all add: apply_frame_def apply_usage_def Let_def split: option.splits)

text \<open>The buffer holds the unfinished line, unless it has grown too long to be kept.\<close>
lemma feed_spec:
  "feed decode UsageAccumulator_new s =
     (foldl apply_frame UsageAccumulator_new (stream_frames decode s))
       \<lparr>ua_line := (if length (snd (stream_lines s)) \<le> MAX_LINE_BYTES then snd (stream_lines s) else []),
        ua_resyncing := MAX_LINE_BYTES < length (snd (stream_lines s))\<rparr>"
proof (induction s rule: rev_induct)
  case Nil
  then show ?case
    by (simp add: feed_def stream_frames_def stream_lines_def map_filter_def UsageAccumulator_new_def)
next
  case (snoc c s)
  obtain ls cur where ls: "stream_lines s = (ls, cur)" by fastforce
  have feed: "feed decode UsageAccumulator_new (s @ [c]) = feed_byte decode (feed decode UsageAccumulator_new s) c"
    by (simp add: feed_def)
  show ?case
  proof (cases "c = CHR 0x0A")
    case True
    then have "stream_lines (s @ [c]) = (ls @ [cur], [])" by (simp add: stream_lines_snoc ls line_step_def)
    with True show ?thesis
      unfolding feed snoc.IH
      by (auto simp: feed_byte_def ls stream_frames_def consume_line_def apply_frame_buffer
          map_filter_snoc split: option.splits)
  next
    case False
    then have "stream_lines (s @ [c]) = (ls, cur @ [c])" by (simp add: stream_lines_snoc ls line_step_def)
    with False show ?thesis
      unfolding feed snoc.IH by (auto simp: feed_byte_def ls stream_frames_def)
  qed
qed

lemma feed_chunks: "foldl (feed decode) acc chunks = feed decode acc (concat chunks)"
  by (induction chunks arbitrary: acc) (simp_all add: feed_def)

lemma frames_spec:
  fixes frames defines "acc \<equiv> foldl apply_frame UsageAccumulator_new frames"
  shows "ou_input_tokens (ua_usage acc) = last_or 0 (reported uf_input_tokens frames)
    \<and> ou_cache_creation_input_tokens (ua_usage acc) = last_or 0 (reported uf_cache_creation_input_tokens frames)
    \<and> ou_cache_read_input_tokens (ua_usage acc) = last_or 0 (reported uf_cache_read_input_tokens frames)
    \<and> ou_output_tokens (ua_usage acc) = last_or 0 (reported uf_output_tokens frames)
    \<and> (ua_saw_usage acc \<longleftrightarrow> reported uf_input_tokens frames \<noteq> [] \<or> reported uf_cache_creation_input_tokens frames \<noteq> []
         \<or> reported uf_cache_read_input_tokens frames \<noteq> [] \<or> reported uf_output_tokens frames \<noteq> [])
    \<and> (ua_saw_message_stop acc \<longleftrightarrow> (\<exists>fr \<in> set frames. sf_frame_type fr = Some ''message_stop''))"
  unfolding acc_def
proof (induction frames rule: rev_induct)
  case Nil
  then show ?case by (simp add: reported_def last_or_def UsageAccumulator_new_def ObservedUsage_default_def map_filter_def)
next
  case (snoc fr frames)
  show ?case
  proof (cases "frame_usage fr")
    case None
    with snoc show ?thesis by (auto simp: reported_def map_filter_snoc apply_frame_def Let_def)
  next
    case (Some u)
    with snoc show ?thesis
      by (auto simp: reported_def map_filter_snoc apply_frame_def apply_usage_def Let_def last_or_snoc
          split: option.splits)
  qed
qed

text \<open>
  C38. The accounting of a relayed stream is exact, whatever the network does to it. However the bytes
  are cut into chunks, the accumulator reads the frames of the complete lines of at most 64 KiB, in
  order, and nothing else. A counter has the last value reported for it, never a sum; usage is
  unknown exactly when no frame reported a counter, which is distinct from a reported zero; the response is
  complete exactly when a stop frame was read; and the buffer never exceeds its bound.
\<close>
theorem stream_accounting_exact:
  fixes chunks decode
  defines "acc \<equiv> foldl (feed decode) UsageAccumulator_new chunks"
    and "frames \<equiv> stream_frames decode (concat chunks)"
  shows "observed acc =
      (if reported uf_input_tokens frames = [] \<and> reported uf_cache_creation_input_tokens frames = []
          \<and> reported uf_cache_read_input_tokens frames = [] \<and> reported uf_output_tokens frames = []
       then None else Some (ua_usage acc))
    \<and> ou_input_tokens (ua_usage acc) = last_or 0 (reported uf_input_tokens frames)
    \<and> ou_cache_creation_input_tokens (ua_usage acc) = last_or 0 (reported uf_cache_creation_input_tokens frames)
    \<and> ou_cache_read_input_tokens (ua_usage acc) = last_or 0 (reported uf_cache_read_input_tokens frames)
    \<and> ou_output_tokens (ua_usage acc) = last_or 0 (reported uf_output_tokens frames)
    \<and> (completed_cleanly acc \<longleftrightarrow> (\<exists>fr \<in> set frames. sf_frame_type fr = Some ''message_stop''))
    \<and> length (ua_line acc) \<le> MAX_LINE_BYTES"
  using frames_spec [of frames]
  unfolding acc_def feed_chunks feed_spec frames_def [symmetric]
  by (simp add: observed_def completed_cleanly_def)

end
