(* ===== verification/Gateway_Pricing.thy ===== *)
theory Gateway_Pricing
  imports Completion_Reserve Gateway_Usage "HOL-Library.AList"
begin

text \<open>
  The pinned price table of the gateway (\<open>crates/gateway/src/pricing.rs\<close>): model rows, operator overrides, the
  resolution of a model id, and the exact cost of a request in pico-dollars. Prices are values of
  the floating-point carrier; the pico-dollar arithmetic is 128-bit and wraps as in a release build. The table is
  the association list of its entries, with distinct ids.
\<close>

section \<open>Rows\<close>

record 'f ModelPricing =
  mp_input :: 'f
  mp_cache_creation :: 'f
  mp_cache_read :: 'f
  mp_output :: 'f

definition one_hour_cache_creation_usd_per_mtok :: "'f floats \<Rightarrow> 'f ModelPricing \<Rightarrow> 'f" where
  "one_hour_cache_creation_usd_per_mtok f p =
     (if f_less f (mp_input p) (mp_cache_creation p) then f_mul f (mp_input p) (f_literal f 2 1) else mp_input p)"

definition worst_case_input_usd_per_mtok :: "'f floats \<Rightarrow> 'f ModelPricing \<Rightarrow> 'f" where
  "worst_case_input_usd_per_mtok f p =
     f_max f (f_max f (f_max f (mp_input p) (mp_cache_creation p)) (one_hour_cache_creation_usd_per_mtok f p))
       (mp_cache_read p)"

definition price :: "'f floats \<Rightarrow> int \<times> int \<Rightarrow> int \<times> int \<Rightarrow> int \<times> int \<Rightarrow> int \<times> int \<Rightarrow> 'f ModelPricing" where
  "price f i cc cr out = \<lparr>mp_input = f_literal f (fst i) (snd i), mp_cache_creation = f_literal f (fst cc) (snd cc),
     mp_cache_read = f_literal f (fst cr) (snd cr), mp_output = f_literal f (fst out) (snd out)\<rparr>"

definition openai :: "'f floats \<Rightarrow> int \<times> int \<Rightarrow> int \<times> int \<Rightarrow> int \<times> int \<Rightarrow> 'f ModelPricing" where
  "openai f i cached_input out = price f i i cached_input out"

definition FAST_MODE_MODELS :: "string list" where
  "FAST_MODE_MODELS = [''claude-opus-5-5'', ''claude-opus-5'', ''claude-opus-4-8'']"

definition US_GEO_MODELS :: "string list" where
  "US_GEO_MODELS = [''claude-fable-5-1'', ''claude-fable-5'', ''claude-opus-5-5'', ''claude-opus-5'', ''claude-opus-4-8'',
     ''claude-opus-4-7'', ''claude-opus-4-6'', ''claude-sonnet-5-5'', ''claude-sonnet-5'', ''claude-sonnet-4-6'',
     ''claude-haiku-5-5'']"

definition LONG_PROMPT_TOKENS :: u64 where "LONG_PROMPT_TOKENS = 100000"

definition PINNED :: "'f floats \<Rightarrow> (string \<times> 'f ModelPricing) list" where
  "PINNED f =
    [(''claude-fable-5-1'', price f (10, 1) (125, 10) (25, 100) (50, 1)),
     (''claude-fable-5'', price f (10, 1) (125, 10) (1, 1) (50, 1)),
     (''claude-opus-5-5'', price f (4, 1) (5, 1) (2, 10) (20, 1)),
     (''claude-opus-5'', price f (5, 1) (625, 100) (5, 10) (25, 1)),
     (''claude-opus-4-8'', price f (5, 1) (625, 100) (5, 10) (25, 1)),
     (''claude-opus-4-7'', price f (5, 1) (625, 100) (5, 10) (25, 1)),
     (''claude-opus-4-6'', price f (5, 1) (625, 100) (5, 10) (25, 1)),
     (''claude-opus-4-5'', price f (5, 1) (625, 100) (5, 10) (25, 1)),
     (''claude-sonnet-5-5'', price f (2, 1) (25, 10) (1, 10) (10, 1)),
     (''claude-sonnet-5'', price f (2, 1) (25, 10) (2, 10) (10, 1)),
     (''claude-sonnet-4-6'', price f (3, 1) (375, 100) (3, 10) (15, 1)),
     (''claude-haiku-5-5'', price f (5, 10) (625, 1000) (5, 100) (25, 10)),
     (''claude-opus-4-1'', price f (15, 1) (1875, 100) (15, 10) (75, 1)),
     (''claude-opus-4'', price f (15, 1) (1875, 100) (15, 10) (75, 1)),
     (''claude-sonnet-4-5'', price f (3, 1) (375, 100) (3, 10) (15, 1)),
     (''claude-sonnet-4'', price f (3, 1) (375, 100) (3, 10) (15, 1)),
     (''claude-haiku-4-5'', price f (1, 1) (125, 100) (1, 10) (5, 1)),
     (''claude-3-5-haiku'', price f (8, 10) (1, 1) (8, 100) (4, 1)),
     (''gpt-6.1-sol'', openai f (2, 1) (1, 10) (10, 1)),
     (''gpt-6.1-terra'', openai f (1, 1) (5, 100) (5, 1)),
     (''gpt-6-sol'', openai f (2, 1) (2, 10) (10, 1)),
     (''gpt-6-astra'', openai f (10, 1) (1, 1) (50, 1)),
     (''gpt-6-luna'', openai f (1, 10) (1, 100) (5, 10)),
     (''gpt-5.3-codex'', openai f (175, 100) (175, 1000) (14, 1))]"

definition SHORT_PROMPT_TIERS :: "'f floats \<Rightarrow> (string \<times> 'f ModelPricing) list" where
  "SHORT_PROMPT_TIERS f = [(''claude-haiku-5-5'', price f (1, 10) (125, 1000) (1, 100) (5, 10))]"

section \<open>The table\<close>

record 'f PricingTable =
  pt_entries :: "(string \<times> 'f ModelPricing) list"

definition pinned :: "'f floats \<Rightarrow> 'f PricingTable" where
  "pinned f = \<lparr>pt_entries = PINNED f\<rparr>"

definition with_overrides :: "'f floats \<Rightarrow> (string \<times> 'f ModelPricing) list \<Rightarrow> 'f PricingTable" where
  "with_overrides f overrides = \<lparr>pt_entries = fold (\<lambda>(k, v). AList.update k v) overrides (pt_entries (pinned f))\<rparr>"

text \<open>\<open>==\<close> on rows, field by field.\<close>
definition same_row :: "'f floats \<Rightarrow> 'f ModelPricing \<Rightarrow> 'f ModelPricing \<Rightarrow> bool" where
  "same_row f a b \<longleftrightarrow> f_eq f (mp_input a) (mp_input b) \<and> f_eq f (mp_cache_creation a) (mp_cache_creation b)
     \<and> f_eq f (mp_cache_read a) (mp_cache_read b) \<and> f_eq f (mp_output a) (mp_output b)"

definition is_pinned_row :: "'f floats \<Rightarrow> string \<Rightarrow> 'f ModelPricing \<Rightarrow> bool" where
  "is_pinned_row f model pricing \<longleftrightarrow> list_ex (\<lambda>(m, p). m = model \<and> same_row f p pricing) (PINNED f)"

definition override_count :: "'f floats \<Rightarrow> 'f PricingTable \<Rightarrow> nat" where
  "override_count f table = length (filter (\<lambda>(model, pricing). \<not> is_pinned_row f model pricing) (pt_entries table))"

definition is_dated_snapshot_suffix :: "string \<Rightarrow> bool" where
  "is_dated_snapshot_suffix rest =
     (case strip_prefix ''-'' rest of
        Some d \<Rightarrow> length d = 8 \<and> list_all (\<lambda>b. CHR ''0'' \<le> b \<and> b \<le> CHR ''9'') d
      | None \<Rightarrow> False)"

text \<open>\<open>max_by_key\<close> on the length of the key: the last of the longest.\<close>
fun longest_key :: "(string \<times> 'a) list \<Rightarrow> (string \<times> 'a) option" where
  "longest_key [] = None"
| "longest_key (x # xs) =
     (case longest_key xs of None \<Rightarrow> Some x | Some y \<Rightarrow> if length (fst y) < length (fst x) then Some x else Some y)"

definition pt_resolve :: "'f PricingTable \<Rightarrow> string \<Rightarrow> (string \<times> 'f ModelPricing) option" where
  "pt_resolve table model =
     (case map_of (pt_entries table) model of
        Some exact \<Rightarrow> Some (model, exact)
      | None \<Rightarrow>
          longest_key (filter
            (\<lambda>(key, _). case strip_prefix key model of Some rest \<Rightarrow> is_dated_snapshot_suffix rest | None \<Rightarrow> False)
            (pt_entries table)))"

definition pt_lookup :: "'f PricingTable \<Rightarrow> string \<Rightarrow> 'f ModelPricing option" where
  "pt_lookup table model = map_option snd (pt_resolve table model)"

section \<open>The cost of a request\<close>

datatype RequestPriceError = Unpriced | Unmeasurable

definition fast_of :: "string \<Rightarrow> SpeedReport \<Rightarrow> RequestPriceError + bool" where
  "fast_of key speed =
     (case speed of
        SpeedAbsent \<Rightarrow> Inr False
      | SpeedStandard \<Rightarrow> Inr False
      | SpeedFast \<Rightarrow> if key \<in> set FAST_MODE_MODELS then Inr True else Inl Unmeasurable
      | SpeedUnrecognised \<Rightarrow> Inl Unmeasurable)"

definition us_geo_of :: "string \<Rightarrow> GeoReport \<Rightarrow> RequestPriceError + bool" where
  "us_geo_of key geo =
     (case geo of
        GeoAbsent \<Rightarrow> Inr False
      | GeoGlobal \<Rightarrow> Inr False
      | GeoUs \<Rightarrow> if key \<in> set US_GEO_MODELS then Inr True else Inl Unmeasurable
      | GeoOther \<Rightarrow> if key \<in> set US_GEO_MODELS then Inl Unmeasurable else Inr False)"

definition prompt_tokens :: "ObservedUsage \<Rightarrow> u64" where
  "prompt_tokens usage = saturating_add (saturating_add (ou_input_tokens usage) (ou_cache_creation_input_tokens usage))
     (ou_cache_read_input_tokens usage)"

text \<open>The row in force: the short-prompt row of a pinned entry when the prompt is short.\<close>
definition row_in_force :: "'f floats \<Rightarrow> string \<Rightarrow> 'f ModelPricing \<Rightarrow> ObservedUsage \<Rightarrow> 'f ModelPricing" where
  "row_in_force f key row usage =
     (if prompt_tokens usage \<le> LONG_PROMPT_TOKENS
      then (case find (\<lambda>(m, _). m = key) (SHORT_PROMPT_TIERS f) of
              Some (_, short) \<Rightarrow> if is_pinned_row f key row then short else row
            | None \<Rightarrow> row)
      else row)"

text \<open>Pico-dollars per token: the price scaled by \<open>PRICE_SCALE\<close>.\<close>
definition per_token :: "'f floats \<Rightarrow> 'f \<Rightarrow> int" where
  "per_token f usd_per_mtok = f_as_u128 f (f_round f (f_mul f usd_per_mtok (f_literal f 1000000 1)))"

definition u128_wrap :: "int \<Rightarrow> int" where "u128_wrap x = x mod 2 ^ 128"

definition u128_saturate :: "int \<Rightarrow> int" where "u128_saturate x = min x (2 ^ 128 - 1)"

definition div_ceil :: "int \<Rightarrow> int \<Rightarrow> int" where "div_ceil a b = - ((- a) div b)"

definition base_cost_pico :: "'f floats \<Rightarrow> 'f ModelPricing \<Rightarrow> ObservedUsage \<Rightarrow> u64 \<Rightarrow> u64 \<Rightarrow> int" where
  "base_cost_pico f row usage write_5m write_1h =
     u128_wrap (uint (ou_input_tokens usage) * per_token f (mp_input row)
       + uint write_5m * per_token f (mp_cache_creation row)
       + uint write_1h * per_token f (one_hour_cache_creation_usd_per_mtok f row)
       + uint (ou_cache_read_input_tokens usage) * per_token f (mp_cache_read row)
       + uint (ou_output_tokens usage) * per_token f (mp_output row))"

definition request_cost_pico ::
    "'f floats \<Rightarrow> 'f PricingTable \<Rightarrow> string \<Rightarrow> ObservedUsage \<Rightarrow> RequestPriceError + int" where
  "request_cost_pico f table model usage =
     rbind (ok_or Unpriced (pt_resolve table model)) (\<lambda>(key, row).
     rbind (ok_or Unmeasurable (split_resolve (ou_cache_creation_split usage) (ou_cache_creation_input_tokens usage)))
       (\<lambda>(write_5m, write_1h).
     rbind (fast_of key (ou_speed usage)) (\<lambda>fast.
     rbind (us_geo_of key (ou_inference_geo usage)) (\<lambda>us_geo.
       let pico = base_cost_pico f (row_in_force f key row usage) usage write_5m write_1h;
           pico = (if fast then u128_saturate (pico * 2) else pico);
           pico = (if us_geo then div_ceil (u128_saturate (pico * 11)) 10 else pico)
       in Inr pico))))"

definition worst_case_multiplier :: "'f floats \<Rightarrow> 'f PricingTable \<Rightarrow> string \<Rightarrow> bool \<Rightarrow> 'f" where
  "worst_case_multiplier f table model fast_requested =
     (case pt_resolve table model of
        None \<Rightarrow> f_literal f 1 1
      | Some (key, _) \<Rightarrow>
          let factor = f_literal f 1 1;
              factor = (if fast_requested \<and> key \<in> set FAST_MODE_MODELS then f_mul f factor (f_literal f 2 1) else factor)
          in if key \<in> set US_GEO_MODELS then f_mul f factor (f_literal f 11 10) else factor)"

section \<open>Which price a model gets\<close>

definition dated :: "string \<Rightarrow> bool" where
  "dated d \<longleftrightarrow> length d = 8 \<and> (\<forall>b \<in> set d. CHR ''0'' \<le> b \<and> b \<le> CHR ''9'')"

lemma dated_suffix_iff: "is_dated_snapshot_suffix r \<longleftrightarrow> (\<exists>d. r = CHR ''-'' # d \<and> dated d)"
proof -
  have "strip_prefix ''-'' r = (case r of c # d \<Rightarrow> if c = CHR ''-'' then Some d else None | [] \<Rightarrow> None)"
    by (cases r) simp_all
  then show ?thesis by (auto simp: is_dated_snapshot_suffix_def dated_def list_all_iff split: list.splits if_splits)
qed

lemma dated_match_iff:
  "(case strip_prefix key model of Some rest \<Rightarrow> is_dated_snapshot_suffix rest | None \<Rightarrow> False)
     \<longleftrightarrow> (\<exists>d. model = key @ CHR ''-'' # d \<and> dated d)"
proof (cases "strip_prefix key model")
  case None
  then have "model \<noteq> key @ r" for r using strip_prefix_eq_Some [of key model r] by simp
  with None show ?thesis by simp
next
  case (Some r)
  then have "model = key @ r" by (simp add: strip_prefix_eq_Some)
  with Some show ?thesis by (simp add: dated_suffix_iff)
qed

lemma longest_key_None: "longest_key xs = None \<longleftrightarrow> xs = []"
  by (cases xs) (auto split: option.splits)

lemma longest_key_mem: "longest_key xs = Some x \<Longrightarrow> x \<in> set xs"
  by (induction xs arbitrary: x) (auto split: option.splits if_splits)

lemma longest_key_unique:
  assumes "x \<in> set xs" "\<And>y. y \<in> set xs \<Longrightarrow> y = x"
  shows "longest_key xs = Some x"
proof (cases "longest_key xs")
  case None
  with assms(1) show ?thesis by (simp add: longest_key_None)
next
  case (Some y)
  with assms(2) [OF longest_key_mem] show ?thesis by simp
qed

lemma pt_resolve_iff:
  assumes "distinct (map fst (pt_entries table))"
  shows "pt_resolve table model = Some (key, row) \<longleftrightarrow> map_of (pt_entries table) key = Some row
    \<and> (key = model \<or> map_of (pt_entries table) model = None \<and> (\<exists>d. model = key @ CHR ''-'' # d \<and> dated d))"
proof (cases "map_of (pt_entries table) model")
  case (Some exact)
  then show ?thesis by (auto simp: pt_resolve_def)
next
  case None
  let ?dated = "\<lambda>(key, _). \<exists>d. model = key @ CHR ''-'' # d \<and> dated d"
  let ?matches = "filter ?dated (pt_entries table)"
  have res: "pt_resolve table model = longest_key ?matches"
    using None by (simp add: pt_resolve_def dated_match_iff)
  have unique: "x = y" if "x \<in> set ?matches" "y \<in> set ?matches" for x y
  proof -
    from that have "?dated x" "?dated y" by simp_all
    then have "\<exists>d. model = fst x @ CHR ''-'' # d \<and> dated d" "\<exists>e. model = fst y @ CHR ''-'' # e \<and> dated e"
      by (simp_all add: case_prod_unfold)
    then obtain d e where "model = fst x @ CHR ''-'' # d" "dated d" "model = fst y @ CHR ''-'' # e" "dated e" by blast
    then have "fst x @ CHR ''-'' # d = fst y @ CHR ''-'' # e" "length d = length e" by (auto simp: dated_def)
    then have "fst x = fst y" by (auto simp: append_eq_append_conv)
    with that show ?thesis using assms by (auto simp: distinct_map dest: inj_onD)
  qed
  have "longest_key ?matches = Some (key, row) \<longleftrightarrow> (key, row) \<in> set ?matches"
    using longest_key_mem longest_key_unique unique by blast
  then show ?thesis using None assms by (auto simp: res)
qed

lemma fold_update_map_of:
  "map_of (fold (\<lambda>(k, v). AList.update k v) ovr m) = map_of m ++ map_of (rev ovr)"
  by (induction ovr arbitrary: m) (auto simp: update_conv' map_add_def fun_eq_iff split: option.splits)

lemma fold_update_distinct:
  "distinct (map fst m) \<Longrightarrow> distinct (map fst (fold (\<lambda>(k, v). AList.update k v) ovr m))"
  by (induction ovr arbitrary: m) (auto simp: distinct_update)

lemma pinned_distinct: "distinct (map fst (PINNED f))"
  by (simp add: PINNED_def)

text \<open>
  C39. A model is priced by its own entry or not at all. In the pinned table with any overrides, with
  distinct ids, a model id resolves to a row exactly when the row is the entry of that very id, or
  the id has no entry and is an entry's id followed by a dash and eight digits; an id that merely shares
  a prefix with an entry has no price. An override always wins over the pinned row of its id, and
  every other pinned row stays.
\<close>
theorem model_priced_by_own_entry:
  fixes f :: "'f floats"
  assumes "distinct (map fst overrides)"
  defines "entries \<equiv> map_of (PINNED f) ++ map_of overrides"
  shows "pt_resolve (with_overrides f overrides) model = Some (key, row) \<longleftrightarrow>
     entries key = Some row
     \<and> (key = model \<or> entries model = None \<and> (\<exists>d. model = key @ CHR ''-'' # d \<and> dated d))"
proof -
  have "map_of (rev overrides) = map_of overrides"
    using assms(1) by (subst map_of_inject_set) (simp_all flip: rev_map)
  then have "map_of (pt_entries (with_overrides f overrides)) = entries"
    by (simp add: with_overrides_def pinned_def fold_update_map_of entries_def)
  moreover have "distinct (map fst (pt_entries (with_overrides f overrides)))"
    by (simp add: with_overrides_def pinned_def fold_update_distinct pinned_distinct)
  ultimately show ?thesis by (simp add: pt_resolve_iff)
qed

theorem model_priced_by_own_entry_witness:
  "pt_resolve (with_overrides rat_floats [(''my-model'', openai rat_floats (1, 1) (1, 10) (2, 1))]) ''my-model-20260101''
     = Some (''my-model'', openai rat_floats (1, 1) (1, 10) (2, 1))"
proof -
  have "map_of (PINNED rat_floats) ''my-model-20260101'' = None" by (simp add: PINNED_def)
  moreover have "dated ''20260101''" by (simp add: dated_def)
  ultimately show ?thesis
    using model_priced_by_own_entry [of "[(''my-model'', openai rat_floats (1, 1) (1, 10) (2, 1))]" rat_floats
      "''my-model-20260101''" "''my-model''" "openai rat_floats (1, 1) (1, 10) (2, 1)"]
    by (auto simp: map_add_def)
qed

end
