(* ===== verification/Gateway_Cost.thy ===== *)
theory Gateway_Cost
  imports Gateway_Pricing
begin

text \<open>
  Worst-case reservation before a request and settlement after it (\<open>crates/gateway/src/cost.rs\<close>), and the
  screen of request bodies whose input cannot be bounded. A body length is a 64-bit \<open>usize\<close>; parsing a body
  as JSON belongs to \<open>serde_json\<close> and is the parameter \<open>parse\<close>.
\<close>

section \<open>Reservation\<close>

datatype EnforcementGap =
    UnsupportedResourceKind ResourceKind
  | UnboundedRequest
  | UnpricedModel string
  | UnmeasurableUsage string
  | UnboundedInput string

definition input_token_upper_bound :: "'f floats \<Rightarrow> u64 \<Rightarrow> u64" where
  "input_token_upper_bound f body_bytes =
     f_as_u64 f (f_ceil f (f_div f (f_of_int f (uint body_bytes)) (f_literal f 3 1)))"

definition pico_to_cents_ceil :: "int \<Rightarrow> int" where
  "pico_to_cents_ceil pico = min (div_ceil pico 10000000000) i64_max"

definition usd_to_cents_ceil :: "'f floats \<Rightarrow> 'f \<Rightarrow> int" where
  "usd_to_cents_ceil f usd =
     (if \<not> f_is_finite f usd \<or> f_less_eq f usd (f_literal f 0 1) then 0
      else f_as_i64 f (f_ceil f (f_mul f usd (f_literal f 100 1))))"

definition positive_max_tokens :: "u64 option \<Rightarrow> u64 option" where
  "positive_max_tokens max_tokens = (case max_tokens of Some m \<Rightarrow> if 0 < m then Some m else None | None \<Rightarrow> None)"

definition worst_case_usd_reservation ::
    "'f floats \<Rightarrow> u64 \<Rightarrow> u64 option \<Rightarrow> string \<Rightarrow> bool \<Rightarrow> 'f PricingTable \<Rightarrow> EnforcementGap + 'f ResourceAmount" where
  "worst_case_usd_reservation f input_upper max_tokens model fast_requested pricing =
     rbind (ok_or UnboundedRequest (positive_max_tokens max_tokens)) (\<lambda>max_tokens.
     rbind (ok_or (UnpricedModel model) (pt_lookup pricing model)) (\<lambda>model_pricing.
       let usd = f_add f
             (f_div f (f_mul f (f_of_int f (uint input_upper)) (worst_case_input_usd_per_mtok f model_pricing))
                (f_literal f 1000000 1))
             (f_div f (f_mul f (f_of_int f (uint max_tokens)) (mp_output model_pricing)) (f_literal f 1000000 1));
           usd = f_mul f usd (worst_case_multiplier f pricing model fast_requested)
       in Inr (RA_UsdCents (usd_to_cents_ceil f usd))))"

definition worst_case_reservation ::
    "'f floats \<Rightarrow> ResourceKind \<Rightarrow> u64 \<Rightarrow> u64 option \<Rightarrow> string \<Rightarrow> bool \<Rightarrow> 'f PricingTable
      \<Rightarrow> EnforcementGap + 'f ResourceAmount" where
  "worst_case_reservation f kind body_bytes max_tokens model fast_requested pricing =
     rbind (ok_or UnboundedRequest (positive_max_tokens max_tokens)) (\<lambda>max_tokens.
       let input_upper = input_token_upper_bound f body_bytes
       in case kind of
            Kind_Tokens \<Rightarrow> Inr (RA_Tokens (saturating_add input_upper max_tokens))
          | Kind_Usd \<Rightarrow> worst_case_usd_reservation f input_upper (Some max_tokens) model fast_requested pricing
          | Kind_QuotaPercent \<Rightarrow> Inl (UnsupportedResourceKind kind))"

section \<open>Settlement\<close>

definition settled_cost ::
    "'f floats \<Rightarrow> ResourceKind \<Rightarrow> ObservedUsage \<Rightarrow> string \<Rightarrow> 'f PricingTable \<Rightarrow> EnforcementGap + 'f ResourceAmount" where
  "settled_cost f kind usage model pricing =
     (case kind of
        Kind_Tokens \<Rightarrow> Inr (RA_Tokens (fresh_tokens usage))
      | Kind_Usd \<Rightarrow>
          (case request_cost_pico f pricing model usage of
             Inr pico \<Rightarrow> Inr (RA_UsdCents (pico_to_cents_ceil pico))
           | Inl Unpriced \<Rightarrow> Inl (UnpricedModel model)
           | Inl Unmeasurable \<Rightarrow> Inl (UnmeasurableUsage model))
      | Kind_QuotaPercent \<Rightarrow> Inl (UnsupportedResourceKind kind))"

definition bound_violated :: "u64 \<Rightarrow> u64 \<Rightarrow> bool" where
  "bound_violated max_tokens observed_output_tokens \<longleftrightarrow> max_tokens < observed_output_tokens"

definition IMAGE_MAX_TOKENS :: u64 where "IMAGE_MAX_TOKENS = 8000"

definition TOOL_PROMPT_TOKENS :: u64 where "TOOL_PROMPT_TOKENS = 1000"

definition hard_input_upper_bound :: "u64 \<Rightarrow> u64 \<Rightarrow> u64" where
  "hard_input_upper_bound bytes image_count =
     saturating_add
       (saturating_add bytes (word_of_int (min (uint image_count * uint IMAGE_MAX_TOKENS) u64_max)))
       TOOL_PROMPT_TOKENS"

record SettleFlags =
  sf_truncated_settle :: bool
  sf_input_bound_violated :: bool

definition settle_amount_for ::
    "'f floats \<Rightarrow> ObservedUsage option \<Rightarrow> bool \<Rightarrow> bool \<Rightarrow> 'f ResourceAmount \<Rightarrow> u64 \<Rightarrow> u64 \<Rightarrow> ResourceKind \<Rightarrow> string
      \<Rightarrow> 'f PricingTable \<Rightarrow> 'f ResourceAmount \<times> bool \<times> SettleFlags" where
  "settle_amount_for f obs clean saw_message_start reserved max_tokens input_bound kind model pricing =
     (case obs of
        None \<Rightarrow> (reserved, False, \<lparr>sf_truncated_settle = False, sf_input_bound_violated = False\<rparr>)
      | Some usage \<Rightarrow>
          let violated = input_bound < prompt_tokens usage
          in if \<not> clean \<and> \<not> saw_message_start
             then (reserved, False, \<lparr>sf_truncated_settle = False, sf_input_bound_violated = violated\<rparr>)
             else
               let (priced, usage_known) =
                     (if clean then (usage, True)
                      else (usage\<lparr>ou_output_tokens := max (ou_output_tokens usage) max_tokens\<rparr>, False));
                   flags = \<lparr>sf_truncated_settle = \<not> clean, sf_input_bound_violated = violated\<rparr>
               in case settled_cost f kind priced model pricing of
                    Inr amount \<Rightarrow> (amount, usage_known, flags)
                  | Inl _ \<Rightarrow> (reserved, False, flags))"

section \<open>Screening a body\<close>

definition type_of :: "json \<Rightarrow> string option" where
  "type_of v = Option.bind (json_get v ''type'') as_str"

definition is_base64_pdf :: "json \<Rightarrow> bool" where
  "is_base64_pdf source \<longleftrightarrow> type_of source = Some ''base64''
     \<and> Option.bind (json_get source ''media_type'') as_str = Some ''application/pdf''"

definition unbounded_member :: "string \<Rightarrow> json \<Rightarrow> bool" where
  "unbounded_member key child \<longleftrightarrow> key = ''source''
     \<and> (case type_of child of Some t \<Rightarrow> t = ''url'' \<or> t = ''file'' \<or> is_base64_pdf child | None \<Rightarrow> False)"

lemma member_size: "(k, v) \<in> set m \<Longrightarrow> size v < Suc (size_list (size_prod (\<lambda>_. 0) size) m)"
  by (induction m) auto

function has_unbounded_source :: "json \<Rightarrow> bool" where
  "has_unbounded_source (JObject m) \<longleftrightarrow> type_of (JObject m) = Some ''container_upload''
     \<or> list_ex (\<lambda>kv. unbounded_member (fst kv) (snd kv) \<or> has_unbounded_source (snd kv)) m"
| "has_unbounded_source (JArray xs) \<longleftrightarrow> list_ex has_unbounded_source xs"
| "has_unbounded_source JNull \<longleftrightarrow> False"
| "has_unbounded_source (JBool b) \<longleftrightarrow> False"
| "has_unbounded_source (JNumber n) \<longleftrightarrow> False"
| "has_unbounded_source (JString s) \<longleftrightarrow> False"
  by pat_completeness auto
termination
  by (relation "measure size") (auto dest: member_size simp: size_list_estimation' less_Suc_eq_le)

function image_count :: "json \<Rightarrow> nat" where
  "image_count (JObject m) = (if type_of (JObject m) = Some ''image'' then 1 else 0) + sum_list (map (\<lambda>kv. image_count (snd kv)) m)"
| "image_count (JArray xs) = sum_list (map image_count xs)"
| "image_count JNull = 0"
| "image_count (JBool b) = 0"
| "image_count (JNumber n) = 0"
| "image_count (JString s) = 0"
  by pat_completeness auto
termination
  by (relation "measure size") (auto dest: member_size simp: size_list_estimation' less_Suc_eq_le)

type_synonym json_parser = "string \<Rightarrow> json option"

definition image_block_count :: "json_parser \<Rightarrow> string \<Rightarrow> nat" where
  "image_block_count parse body = (case parse body of Some v \<Rightarrow> image_count v | None \<Rightarrow> 0)"

definition server_tool :: "json \<Rightarrow> bool" where
  "server_tool tool = (case type_of tool of
     Some t \<Rightarrow> list_ex (\<lambda>p. starts_with p t) [''web_search_'', ''web_fetch_'', ''code_execution_'']
   | None \<Rightarrow> False)"

definition screen_unbounded_inputs :: "json_parser \<Rightarrow> string \<Rightarrow> EnforcementGap option" where
  "screen_unbounded_inputs parse body =
     Option.bind (parse body) (\<lambda>value.
       if (case Option.bind (json_get value ''tools'') as_array of Some tools \<Rightarrow> list_ex server_tool tools | None \<Rightarrow> False)
       then Some (UnboundedInput ''a server tool'')
       else if (case Option.bind (json_get value ''mcp_servers'') as_array of Some servers \<Rightarrow> servers \<noteq> [] | None \<Rightarrow> False)
       then Some (UnboundedInput ''an MCP server'')
       else if (case json_get value ''container'' of Some c \<Rightarrow> c \<noteq> JNull | None \<Rightarrow> False)
       then Some (UnboundedInput ''a container'')
       else if has_unbounded_source value
       then Some (UnboundedInput ''a url, file or base64 PDF content source'')
       else None)"

definition requests_fast_speed :: "json_parser \<Rightarrow> string \<Rightarrow> bool" where
  "requests_fast_speed parse body =
     (case Option.bind (parse body) (\<lambda>v. json_get v ''speed'') of
        Some speed \<Rightarrow> speed \<noteq> JNull \<and> as_str speed \<noteq> Some ''standard''
      | None \<Rightarrow> False)"

section \<open>Exact prices\<close>

text \<open>A non-negative price of a whole number of pico-dollars per token, below a million dollars.\<close>
definition whole_pico :: "rat \<Rightarrow> bool" where
  "whole_pico p \<longleftrightarrow> (\<exists>n :: int. 0 \<le> n \<and> n < 2 ^ 60 \<and> p * 1000000 = of_int n)"

definition whole_pico_row :: "rat ModelPricing \<Rightarrow> bool" where
  "whole_pico_row r \<longleftrightarrow> whole_pico (mp_input r) \<and> whole_pico (mp_cache_creation r) \<and> whole_pico (mp_cache_read r)
     \<and> whole_pico (mp_output r)"

lemma per_token_whole: "p * 1000000 = of_int n \<Longrightarrow> 0 \<le> n \<Longrightarrow> n < 2 ^ 61 \<Longrightarrow> per_token rat_floats p = n"
  by (simp add: per_token_def rat_floats_def clamp_def)

lemma whole_pico_nonneg: "whole_pico p \<Longrightarrow> 0 \<le> p"
  by (auto simp: whole_pico_def)

lemma one_hour_le: "whole_pico_row r \<Longrightarrow> one_hour_cache_creation_usd_per_mtok rat_floats r * 1000000 = of_int n \<Longrightarrow> 0 \<le> n \<and> n < 2 ^ 61"
proof -
  assume w: "whole_pico_row r" and n: "one_hour_cache_creation_usd_per_mtok rat_floats r * 1000000 = of_int n"
  from w obtain m where m: "0 \<le> m" "m < 2 ^ 60" "mp_input r * 1000000 = of_int m"
    by (auto simp: whole_pico_row_def whole_pico_def)
  have "one_hour_cache_creation_usd_per_mtok rat_floats r * 1000000 = of_int m
      \<or> one_hour_cache_creation_usd_per_mtok rat_floats r * 1000000 = of_int (2 * m)"
    using m(3) by (auto simp: one_hour_cache_creation_usd_per_mtok_def rat_floats_def)
  then have "n = m \<or> n = 2 * m" using n by (metis of_int_eq_iff)
  with m show ?thesis by auto
qed

lemma one_hour_whole:
  assumes "whole_pico_row r"
  shows "\<exists>n. 0 \<le> n \<and> n < 2 ^ 61 \<and> one_hour_cache_creation_usd_per_mtok rat_floats r * 1000000 = of_int n"
proof -
  from assms obtain m where m: "mp_input r * 1000000 = of_int m"
    by (auto simp: whole_pico_row_def whole_pico_def)
  then have "\<exists>n. one_hour_cache_creation_usd_per_mtok rat_floats r * 1000000 = of_int n"
    by (auto simp: one_hour_cache_creation_usd_per_mtok_def rat_floats_def intro: exI [of _ "2 * m"])
  with one_hour_le [OF assms] show ?thesis by blast
qed

text \<open>The exact price of a usage, in dollars per million.\<close>
definition exact_cost :: "rat ModelPricing \<Rightarrow> ObservedUsage \<Rightarrow> u64 \<Rightarrow> u64 \<Rightarrow> rat" where
  "exact_cost r u w5 w1 = of_int (uint (ou_input_tokens u)) * mp_input r + of_int (uint w5) * mp_cache_creation r
     + of_int (uint w1) * one_hour_cache_creation_usd_per_mtok rat_floats r
     + of_int (uint (ou_cache_read_input_tokens u)) * mp_cache_read r + of_int (uint (ou_output_tokens u)) * mp_output r"

lemma token_cost_bound:
  assumes "0 \<le> n" "n < 2 ^ 61"
  shows "0 \<le> uint (t :: u64) * n \<and> uint t * n \<le> 2 ^ 64 * 2 ^ 61"
proof
  show "0 \<le> uint t * n" using assms by simp
  show "uint t * n \<le> 2 ^ 64 * 2 ^ 61"
    by (rule mult_mono) (use uint_u64_less [of t] assms in simp_all)
qed

lemma base_cost_exact:
  assumes "whole_pico_row r"
  shows "of_int (base_cost_pico rat_floats r u w5 w1) = exact_cost r u w5 w1 * 1000000"
proof -
  from assms obtain a b c d where abcd: "mp_input r * 1000000 = of_int a" "mp_cache_creation r * 1000000 = of_int b"
    "mp_cache_read r * 1000000 = of_int c" "mp_output r * 1000000 = of_int d"
    "0 \<le> a" "a < 2 ^ 60" "0 \<le> b" "b < 2 ^ 60" "0 \<le> c" "c < 2 ^ 60" "0 \<le> d" "d < 2 ^ 60"
    unfolding whole_pico_row_def whole_pico_def by blast
  obtain e where e: "one_hour_cache_creation_usd_per_mtok rat_floats r * 1000000 = of_int e" "0 \<le> e" "e < 2 ^ 61"
    using one_hour_whole [OF assms] by blast
  let ?sum = "uint (ou_input_tokens u) * a + uint w5 * b + uint w1 * e
      + uint (ou_cache_read_input_tokens u) * c + uint (ou_output_tokens u) * d"
  have pt: "per_token rat_floats (mp_input r) = a" "per_token rat_floats (mp_cache_creation r) = b"
    "per_token rat_floats (mp_cache_read r) = c" "per_token rat_floats (mp_output r) = d"
    "per_token rat_floats (one_hour_cache_creation_usd_per_mtok rat_floats r) = e"
    using abcd e by (simp_all add: per_token_whole)
  have "0 \<le> ?sum \<and> ?sum < 2 ^ 128"
    using token_cost_bound [of a "ou_input_tokens u"] token_cost_bound [of b w5] token_cost_bound [of e w1]
      token_cost_bound [of c "ou_cache_read_input_tokens u"] token_cost_bound [of d "ou_output_tokens u"] abcd e
    by simp
  then have "base_cost_pico rat_floats r u w5 w1 = ?sum"
    by (simp add: base_cost_pico_def pt u128_wrap_def)
  then show ?thesis
    unfolding exact_cost_def by (simp add: algebra_simps abcd(1-4) [symmetric] e(1) [symmetric])
qed

section \<open>The reservation covers the settlement\<close>

lemma rat_uint_nonneg [simp]: "0 \<le> (unsigned (t :: u64) :: rat)"
proof -
  have "(0 :: rat) \<le> of_int (uint t)" unfolding of_int_0_le_iff by (rule uint_ge_0)
  then show ?thesis by simp
qed

lemma worst_case_input_ge:
  "mp_input r \<le> worst_case_input_usd_per_mtok rat_floats r"
  "mp_cache_creation r \<le> worst_case_input_usd_per_mtok rat_floats r"
  "one_hour_cache_creation_usd_per_mtok rat_floats r \<le> worst_case_input_usd_per_mtok rat_floats r"
  "mp_cache_read r \<le> worst_case_input_usd_per_mtok rat_floats r"
  by (simp_all add: worst_case_input_usd_per_mtok_def rat_floats_def le_max_iff_disj)

text \<open>Every input tier at the dearest rate, and the output at its own.\<close>
definition bound_cost :: "rat ModelPricing \<Rightarrow> int \<Rightarrow> int \<Rightarrow> rat" where
  "bound_cost r input_tokens output_tokens =
     of_int input_tokens * worst_case_input_usd_per_mtok rat_floats r + of_int output_tokens * mp_output r"

lemma exact_cost_le_bound:
  "exact_cost r u w5 w1 \<le> bound_cost r (uint (ou_input_tokens u) + uint w5 + uint w1 + uint (ou_cache_read_input_tokens u))
     (uint (ou_output_tokens u))"
  unfolding exact_cost_def bound_cost_def of_int_add distrib_right
  by (intro add_mono mult_left_mono worst_case_input_ge order_refl) simp_all

lemma whole_row_nonneg:
  assumes "whole_pico_row r"
  shows "0 \<le> worst_case_input_usd_per_mtok rat_floats r" "0 \<le> mp_output r" "0 \<le> exact_cost r u w5 w1"
proof -
  have nonneg: "0 \<le> mp_input r" "0 \<le> mp_cache_creation r" "0 \<le> mp_cache_read r" "0 \<le> mp_output r"
    using assms by (auto simp: whole_pico_row_def whole_pico_nonneg)
  then have one_hour: "0 \<le> one_hour_cache_creation_usd_per_mtok rat_floats r"
    by (simp add: one_hour_cache_creation_usd_per_mtok_def rat_floats_def)
  from nonneg show "0 \<le> mp_output r" by simp
  from nonneg(1) worst_case_input_ge(1) [of r] show "0 \<le> worst_case_input_usd_per_mtok rat_floats r" by (rule order_trans)
  from nonneg one_hour show "0 \<le> exact_cost r u w5 w1" by (simp add: exact_cost_def)
qed

lemma bound_cost_mono:
  assumes "whole_pico_row r" "i \<le> i'" "out \<le> out'"
  shows "bound_cost r i out \<le> bound_cost r i' out'"
  unfolding bound_cost_def
  using assms whole_row_nonneg [OF assms(1)] by (intro add_mono mult_right_mono) simp_all

text \<open>The short-prompt row is nowhere dearer than the pinned row it replaces.\<close>
lemma row_in_force_cheaper:
  assumes "whole_pico_row row"
  shows "whole_pico_row (row_in_force rat_floats key row u)
    \<and> worst_case_input_usd_per_mtok rat_floats (row_in_force rat_floats key row u) \<le> worst_case_input_usd_per_mtok rat_floats row
    \<and> mp_output (row_in_force rat_floats key row u) \<le> mp_output row"
proof (cases "row_in_force rat_floats key row u = row")
  case False
  let ?short = "price rat_floats (1, 10) (125, 1000) (1, 100) (5, 10)"
  from False have short: "row_in_force rat_floats key row u = ?short" and key: "key = ''claude-haiku-5-5''"
    and "is_pinned_row rat_floats key row"
    by (auto simp: row_in_force_def SHORT_PROMPT_TIERS_def split: if_splits)
  then have row: "mp_input row = 5 / 10" "mp_cache_creation row = 625 / 1000" "mp_cache_read row = 5 / 100" "mp_output row = 25 / 10"
    by (auto simp: is_pinned_row_def PINNED_def same_row_def price_def openai_def rat_floats_def)
  have "whole_pico_row ?short"
    by (simp add: whole_pico_row_def whole_pico_def price_def rat_floats_def
        exI [of _ "100000 :: int"] exI [of _ "125000 :: int"] exI [of _ "10000 :: int"] exI [of _ "500000 :: int"])
  then show ?thesis
    unfolding short
    by (simp add: worst_case_input_usd_per_mtok_def one_hour_cache_creation_usd_per_mtok_def row price_def rat_floats_def)
qed (simp add: assms)

lemma split_resolve_sum: "split_resolve s written = Some (w5, w1) \<Longrightarrow> uint w5 + uint w1 = uint written"
proof (cases s)
  case (Split a b)
  assume "split_resolve s written = Some (w5, w1)"
  then obtain sum rest where "checked_add a b = Some sum" "checked_sub written sum = Some rest"
    "w5 = a" "w1 = saturating_add b rest"
    by (auto simp: Split split: bind_splits)
  moreover from this have "uint sum = uint a + uint b"
    by (auto simp: checked_add_def u64_max_def uint_word_ariths mod_pos_pos_trivial split: if_splits)
  ultimately show ?thesis
    using uint_u64_bounds(2) [of written] uint_ge_0 [of a]
    by (auto simp: u64_simps min_absorb1 simp del: uint_ge_0 unsigned_greater_eq)
qed auto

lemma prompt_tokens_exact:
  assumes "prompt_tokens u \<le> b" "uint b < u64_max"
  shows "uint (ou_input_tokens u) + uint (ou_cache_creation_input_tokens u) + uint (ou_cache_read_input_tokens u) \<le> uint b"
  using assms uint_u64_bounds(1) [of "ou_cache_read_input_tokens u"]
  by (auto simp: prompt_tokens_def word_le_def u64_simps min_def simp del: uint_ge_0 unsigned_greater_eq split: if_splits)

definition charged_multiplier :: "bool \<Rightarrow> bool \<Rightarrow> rat" where
  "charged_multiplier fast us_geo = (if fast then 2 else 1) * (if us_geo then 11 / 10 else 1)"

lemma charged_multiplier_le:
  assumes "pt_resolve table model = Some (key, row)" "fast_of key speed = Inr fast" "us_geo_of key geo = Inr us_geo"
    "speed = SpeedFast \<Longrightarrow> fast_requested"
  shows "charged_multiplier fast us_geo \<le> worst_case_multiplier rat_floats table model fast_requested"
    "0 < worst_case_multiplier rat_floats table model fast_requested"
  using assms
  by (auto simp: charged_multiplier_def worst_case_multiplier_def fast_of_def us_geo_of_def rat_floats_def
      split: SpeedReport.splits GeoReport.splits if_splits)

lemma div_ceil_eq: "0 < b \<Longrightarrow> div_ceil a b = \<lceil>of_int a / (of_int b :: rat)\<rceil>"
proof -
  have "(- a) div b = \<lfloor>of_int (- a) / (of_int b :: rat)\<rfloor>" by (simp only: floor_divide_of_int_eq)
  then show ?thesis by (simp add: div_ceil_def ceiling_def)
qed

lemma div_ceil_le: "0 < b \<Longrightarrow> of_int a \<le> x * (of_int b :: rat) \<Longrightarrow> div_ceil a b \<le> \<lceil>x\<rceil>"
  by (simp add: div_ceil_eq ceiling_mono divide_le_eq)

text \<open>A charge that was rounded up to whole pico-dollars rounds to the same cents.\<close>
lemma div_ceil_ceiling_le:
  assumes "a \<le> \<lceil>x * of_int b\<rceil>" "0 < b"
  shows "div_ceil a b \<le> \<lceil>x :: rat\<rceil>"
proof -
  have "x * of_int b \<le> of_int (\<lceil>x\<rceil> * b)" using assms(2) by (simp add: mult_right_mono)
  then have "\<lceil>x * of_int b\<rceil> \<le> \<lceil>x\<rceil> * b" by (rule ceiling_le)
  with assms have "a \<le> \<lceil>x\<rceil> * b" by simp
  then have "of_int a \<le> of_int \<lceil>x\<rceil> * (of_int b :: rat)" by (metis of_int_le_iff of_int_mult)
  then show ?thesis using div_ceil_le [of b a "of_int \<lceil>x\<rceil>"] assms(2) by simp
qed

lemma pt_resolve_mem: "pt_resolve table model = Some (key, row) \<Longrightarrow> (key, row) \<in> set (pt_entries table)"
  by (auto simp: pt_resolve_def dest!: longest_key_mem map_of_SomeD split: option.splits)

lemma charged_pico:
  fixes fast us_geo
  assumes "of_int base = c * (1000000 :: rat)" "0 \<le> c"
  defines "pico \<equiv> (let pico = (if fast then u128_saturate (base * 2) else base)
       in (if us_geo then div_ceil (u128_saturate (pico * 11)) 10 else pico))"
  shows "0 \<le> pico \<and> pico \<le> \<lceil>c * charged_multiplier fast us_geo * 1000000\<rceil>"
proof -
  define p where "p = (if fast then u128_saturate (base * 2) else base)"
  have "0 \<le> base" using assms(1,2) by (metis of_int_0_le_iff mult_nonneg_nonneg zero_le_numeral)
  then have p: "0 \<le> p" "p \<le> base * (if fast then 2 else 1)" by (auto simp: p_def u128_saturate_def)
  then have "of_int p \<le> (of_int (base * (if fast then 2 else 1)) :: rat)" by (simp only: of_int_le_iff)
  then have p_le: "of_int p \<le> c * (if fast then 2 else 1) * (1000000 :: rat)" by (simp add: assms(1) split: if_splits)
  show ?thesis
  proof (cases us_geo)
    case False
    then show ?thesis using p p_le by (auto simp: pico_def charged_multiplier_def le_ceiling_iff simp flip: p_def)
  next
    case True
    have sat: "0 \<le> u128_saturate (p * 11)" "u128_saturate (p * 11) \<le> p * 11" using p by (auto simp: u128_saturate_def)
    then have "of_int (u128_saturate (p * 11)) \<le> (of_int (p * 11) :: rat)" by (simp only: of_int_le_iff)
    with p_le have "of_int (u128_saturate (p * 11)) \<le> c * charged_multiplier fast us_geo * 1000000 * (of_int 10 :: rat)"
      by (simp add: charged_multiplier_def True)
    from div_ceil_le [OF _ this] sat show ?thesis
      by (simp add: pico_def True div_ceil_def flip: p_def)
  qed
qed

lemma request_cost_bound:
  assumes cost: "request_cost_pico rat_floats table model u = Inr pico"
    and rows: "\<forall>(m, r) \<in> set (pt_entries table). whole_pico_row r"
    and input: "prompt_tokens u \<le> input_bound" "uint input_bound < u64_max"
    and out: "ou_output_tokens u \<le> max_tokens" and fast: "ou_speed u = SpeedFast \<Longrightarrow> fast_requested"
  obtains row where "pt_lookup table model = Some row" "whole_pico_row row" "0 \<le> pico"
    "pico \<le> \<lceil>bound_cost row (uint input_bound) (uint max_tokens)
       * worst_case_multiplier rat_floats table model fast_requested * 1000000\<rceil>"
proof -
  from cost obtain key row w5 w1 fast_on us_geo where
    res: "pt_resolve table model = Some (key, row)"
      "split_resolve (ou_cache_creation_split u) (ou_cache_creation_input_tokens u) = Some (w5, w1)"
      "fast_of key (ou_speed u) = Inr fast_on" "us_geo_of key (ou_inference_geo u) = Inr us_geo"
    and pico: "pico = (let pico = base_cost_pico rat_floats (row_in_force rat_floats key row u) u w5 w1;
           pico = (if fast_on then u128_saturate (pico * 2) else pico)
       in (if us_geo then div_ceil (u128_saturate (pico * 11)) 10 else pico))"
    by (auto simp: request_cost_pico_def rbind_eq_Inr ok_or_eq_Inr Let_def)
  let ?r = "row_in_force rat_floats key row u" and ?base = "exact_cost (row_in_force rat_floats key row u) u w5 w1"
  let ?M = "worst_case_multiplier rat_floats table model fast_requested"
  let ?B = "bound_cost row (uint input_bound) (uint max_tokens)"
  have row: "whole_pico_row row" using rows pt_resolve_mem [OF res(1)] by auto
  note in_force = row_in_force_cheaper [OF row, of key u]
  have "?base \<le> bound_cost ?r (uint input_bound) (uint max_tokens)"
    using prompt_tokens_exact [OF input] split_resolve_sum [OF res(2)] out in_force
    by (intro order_trans [OF exact_cost_le_bound] bound_cost_mono) (simp_all add: word_le_def)
  also have "\<dots> \<le> ?B"
    unfolding bound_cost_def using in_force by (intro add_mono mult_left_mono) simp_all
  finally have base: "?base \<le> ?B" .
  note mult = charged_multiplier_le [OF res(1,3,4) fast]
  have "0 \<le> ?base" using whole_row_nonneg in_force by blast
  then have "?base * charged_multiplier fast_on us_geo \<le> ?B * ?M"
    using base mult by (intro mult_mono) (auto simp: charged_multiplier_def)
  moreover have "0 \<le> pico \<and> pico \<le> \<lceil>?base * charged_multiplier fast_on us_geo * 1000000\<rceil>"
    using charged_pico [OF base_cost_exact \<open>0 \<le> ?base\<close>, of fast_on us_geo] in_force by (simp only: pico Let_def)
  ultimately have "pico \<le> \<lceil>?B * ?M * 1000000\<rceil>" "0 \<le> pico"
    by (auto elim!: order_trans intro!: ceiling_mono)
  moreover have "pt_lookup table model = Some row" using res(1) by (simp add: pt_lookup_def)
  ultimately show ?thesis using that row by blast
qed

lemma positive_max_tokens_Some: "positive_max_tokens (Some m) = Some x \<longleftrightarrow> x = m \<and> 0 < m"
  by (auto simp: positive_max_tokens_def)

lemma rat_ops:
  "f_add rat_floats = (+)" "f_mul rat_floats = (*)" "f_div rat_floats = (/)" "f_of_int rat_floats = of_int"
  "f_literal rat_floats n d = of_int n / of_int d" "f_max rat_floats = max" "f_less rat_floats = (<)"
  "f_less_eq rat_floats = (\<le>)" "f_is_finite rat_floats x" "f_ceil rat_floats x = of_int \<lceil>x\<rceil>"
  "f_as_i64 rat_floats x = clamp_i64 \<lfloor>x\<rfloor>"
  by (simp_all add: rat_floats_def)

lemma usd_reservation_eq:
  assumes "worst_case_usd_reservation rat_floats input_bound (Some max_tokens) model fast_requested pricing = Inr reserved"
    "pt_lookup pricing model = Some row"
  shows "reserved = RA_UsdCents (usd_to_cents_ceil rat_floats
     (bound_cost row (uint input_bound) (uint max_tokens) / 1000000
        * worst_case_multiplier rat_floats pricing model fast_requested))"
  using assms
  by (auto simp: worst_case_usd_reservation_def rbind_eq_Inr ok_or_eq_Inr Let_def bound_cost_def add_divide_distrib
      rat_ops positive_max_tokens_Some)

lemma usd_to_cents_ge:
  assumes "pico \<le> \<lceil>usd * 1000000000000\<rceil>" "0 \<le> pico"
  shows "0 \<le> pico_to_cents_ceil pico \<and> pico_to_cents_ceil pico \<le> usd_to_cents_ceil rat_floats (usd :: rat)"
proof (cases "usd \<le> 0")
  case True
  then have "\<lceil>usd * 1000000000000\<rceil> \<le> 0" by (simp add: ceiling_le_zero)
  with assms have "pico = 0" by linarith
  with True show ?thesis by (simp add: pico_to_cents_ceil_def usd_to_cents_ceil_def rat_floats_def div_ceil_def i64_max_def)
next
  case False
  have "div_ceil pico 10000000000 \<le> \<lceil>usd * 100\<rceil>"
    using assms(1) by (intro div_ceil_ceiling_le) (simp_all add: mult.commute)
  moreover have "0 \<le> div_ceil pico 10000000000" using assms(2) by (simp add: div_ceil_def)
  ultimately show ?thesis using False
    by (auto simp: pico_to_cents_ceil_def usd_to_cents_ceil_def rat_ops clamp_i64_def clamp_def i64_max_def i64_min_def
        intro: min.coboundedI1)
qed

lemma settle_usd_cases:
  assumes "settle_amount_for f obs clean saw_message_start reserved max_tokens input_bound Kind_Usd model pricing
      = (amount, usage_known, flags)"
  shows "amount = reserved \<or> (\<exists>u u' pico. obs = Some u \<and> (sf_input_bound_violated flags \<longleftrightarrow> input_bound < prompt_tokens u)
      \<and> (u' = u \<or> u' = u\<lparr>ou_output_tokens := max (ou_output_tokens u) max_tokens\<rparr>)
      \<and> request_cost_pico f pricing model u' = Inr pico \<and> amount = RA_UsdCents (pico_to_cents_ceil pico))"
proof (cases obs)
  case (Some u)
  define priced where "priced = (if clean then u else u\<lparr>ou_output_tokens := max (ou_output_tokens u) max_tokens\<rparr>)"
  show ?thesis
  proof (cases "(clean \<or> saw_message_start) \<and> (\<exists>pico. request_cost_pico f pricing model priced = Inr pico)")
    case True
    then obtain pico where pico: "request_cost_pico f pricing model priced = Inr pico" by blast
    with True assms have "amount = RA_UsdCents (pico_to_cents_ceil pico)"
      "sf_input_bound_violated flags \<longleftrightarrow> input_bound < prompt_tokens u"
      by (auto simp: settle_amount_for_def settled_cost_def Some Let_def priced_def split: if_splits)
    moreover have "priced = u \<or> priced = u\<lparr>ou_output_tokens := max (ou_output_tokens u) max_tokens\<rparr>"
      by (simp add: priced_def)
    ultimately show ?thesis using Some pico by blast
  next
    case False
    with assms show ?thesis
      by (auto simp: settle_amount_for_def settled_cost_def Some Let_def priced_def
          split: if_splits sum.splits RequestPriceError.splits)
  qed
qed (use assms in \<open>simp add: settle_amount_for_def\<close>)

lemma settlement_covered:
  assumes "worst_case_usd_reservation rat_floats input_bound (Some max_tokens) model fast_requested pricing = Inr reserved"
    and "settle_amount_for rat_floats obs clean saw_message_start reserved max_tokens input_bound Kind_Usd model pricing
      = (amount, usage_known, flags)"
    and "\<forall>(m, r) \<in> set (pt_entries pricing). whole_pico_row r"
    and "\<not> sf_input_bound_violated flags" "uint input_bound < u64_max"
    and "\<And>u. obs = Some u \<Longrightarrow> \<not> bound_violated max_tokens (ou_output_tokens u) \<and> (ou_speed u = SpeedFast \<longrightarrow> fast_requested)"
  shows "\<exists>cents reserved_cents. amount = RA_UsdCents cents \<and> reserved = RA_UsdCents reserved_cents
    \<and> 0 \<le> cents \<and> cents \<le> reserved_cents"
proof -
  from assms(1) obtain row where row: "pt_lookup pricing model = Some row"
    by (auto simp: worst_case_usd_reservation_def rbind_eq_Inr ok_or_eq_Inr)
  then have "whole_pico_row row" using assms(3) pt_resolve_mem [of pricing model] by (auto simp: pt_lookup_def)
  let ?usd = "bound_cost row (uint input_bound) (uint max_tokens) / 1000000
        * worst_case_multiplier rat_floats pricing model fast_requested"
  note reserved = usd_reservation_eq [OF assms(1) row]
  have reserved_nonneg: "0 \<le> usd_to_cents_ceil rat_floats ?usd"
    using usd_to_cents_ge [of 0 ?usd] by (cases "?usd \<le> 0") (auto simp: usd_to_cents_ceil_def rat_floats_def clamp_i64_def clamp_def i64_max_def i64_min_def)
  from settle_usd_cases [OF assms(2)]
  consider "amount = reserved" | u u' pico where "obs = Some u" "sf_input_bound_violated flags \<longleftrightarrow> input_bound < prompt_tokens u"
      "u' = u \<or> u' = u\<lparr>ou_output_tokens := max (ou_output_tokens u) max_tokens\<rparr>"
      "request_cost_pico rat_floats pricing model u' = Inr pico" "amount = RA_UsdCents (pico_to_cents_ceil pico)"
    by blast
  then show ?thesis
  proof cases
    case 1
    with reserved reserved_nonneg show ?thesis by blast
  next
    case (2 u u' pico)
    have u': "prompt_tokens u' \<le> input_bound" "ou_output_tokens u' \<le> max_tokens" "ou_speed u' = SpeedFast \<Longrightarrow> fast_requested"
      using 2(1-3) assms(4) assms(6) [of u] by (auto simp: prompt_tokens_def bound_violated_def not_less)
    obtain row' where "pt_lookup pricing model = Some row'" "0 \<le> pico"
      "pico \<le> \<lceil>bound_cost row' (uint input_bound) (uint max_tokens)
         * worst_case_multiplier rat_floats pricing model fast_requested * 1000000\<rceil>"
      using request_cost_bound [OF 2(4) assms(3) u'(1) assms(5) u'(2,3)] by blast
    with row have "pico \<le> \<lceil>?usd * 1000000000000\<rceil>" "0 \<le> pico" by (simp_all add: mult.commute mult.left_commute)
    from usd_to_cents_ge [OF this] reserved 2(5) show ?thesis by blast
  qed
qed

lemma bound_flag_exact:
  "settle_amount_for f obs clean saw_message_start reserved max_tokens input_bound Kind_Usd model pricing = (amount, known, flags)
    \<Longrightarrow> sf_input_bound_violated flags \<Longrightarrow> \<exists>u. obs = Some u \<and> input_bound < prompt_tokens u"
  by (auto simp: settle_amount_for_def settled_cost_def Let_def
      split: option.splits if_splits sum.splits RequestPriceError.splits)

text \<open>
  C37. A gateway reservation covers what the request settles at. In exact arithmetic, with prices of whole
  pico-dollars per token: when a request was reserved at its worst case, and the provider reported no more
  prompt tokens than the bound, no more output than requested and fast mode only when it was asked for, the
  settled amount is a non-negative amount of cents not above the reservation - whether the stream completed,
  was cut off after its first usage or never reported any, whatever cache tiers, prompt-length tier,
  speed or geography were charged.
\<close>
theorem gateway_settlement_within_reservation:
  assumes "worst_case_usd_reservation rat_floats input_bound (Some max_tokens) model fast_requested pricing = Inr reserved"
    and "settle_amount_for rat_floats obs clean saw_message_start reserved max_tokens input_bound Kind_Usd model pricing
      = (amount, usage_known, flags)"
    and "\<forall>(m, r) \<in> set (pt_entries pricing). whole_pico_row r"
    and "\<not> sf_input_bound_violated flags" "uint input_bound < u64_max"
    and "\<And>u. obs = Some u \<Longrightarrow> \<not> bound_violated max_tokens (ou_output_tokens u) \<and> (ou_speed u = SpeedFast \<longrightarrow> fast_requested)"
  shows "\<exists>cents reserved_cents. amount = RA_UsdCents cents \<and> reserved = RA_UsdCents reserved_cents
    \<and> 0 \<le> cents \<and> cents \<le> reserved_cents"
  using assms by (rule settlement_covered)

lemma whole_picoI: "p * 1000000 = of_int n \<Longrightarrow> 0 \<le> n \<Longrightarrow> n < 2 ^ 60 \<Longrightarrow> whole_pico p"
  by (auto simp: whole_pico_def)

lemma whole_pico_literal:
  assumes "0 < d" "d dvd 1000" "0 \<le> n" "n \<le> 10000"
  shows "whole_pico (f_literal rat_floats n d)"
proof -
  from assms(2) obtain k where k: "1000 = d * k" by (elim dvdE)
  with assms(1) have "0 < k" by (metis zero_less_mult_pos zero_less_numeral)
  moreover have "k \<le> 1000" using k assms(1) \<open>0 < k\<close> mult_right_mono [of 1 d k] by simp
  moreover have "of_int d * of_int k = (1000 :: rat)" by (metis k of_int_mult of_int_numeral)
  then have "of_int n / of_int d * (1000000 :: rat) = of_int (n * k * 1000)"
    using assms(1) by (simp add: field_simps)
  moreover have "n * k * 1000 \<le> 10000 * 1000 * 1000" using assms \<open>0 < k\<close> \<open>k \<le> 1000\<close> by (intro mult_mono) auto
  ultimately show ?thesis using assms(3) by (intro whole_picoI [of _ "n * k * 1000"]) (auto simp: rat_ops)
qed

text \<open>Every pinned price is a whole number of pico-dollars per token.\<close>
lemma pinned_whole_pico: "\<forall>(m, r) \<in> set (PINNED rat_floats). whole_pico_row r"
  by (simp add: PINNED_def price_def openai_def whole_pico_row_def whole_pico_literal)

theorem gateway_settlement_within_reservation_witness:
  defines "usage \<equiv> \<lparr>ou_input_tokens = 40000, ou_cache_creation_input_tokens = 30000, ou_cache_read_input_tokens = 10000,
     ou_output_tokens = 50000, ou_cache_creation_split = SplitAbsent, ou_speed = SpeedStandard, ou_inference_geo = GeoUs\<rparr>"
  shows "worst_case_usd_reservation rat_floats 100000 (Some 50000) ''claude-sonnet-5-20260101'' False (pinned rat_floats)
      = Inr (RA_UsdCents 99)
    \<and> (\<exists>cents. fst (settle_amount_for rat_floats (Some usage) True True (RA_UsdCents 99) 50000 100000 Kind_Usd
        ''claude-sonnet-5-20260101'' (pinned rat_floats)) = RA_UsdCents cents \<and> 0 \<le> cents \<and> cents \<le> 99)"
proof -
  let ?model = "''claude-sonnet-5-20260101''"
  let ?settled = "settle_amount_for rat_floats (Some usage) True True (RA_UsdCents 99) 50000 100000 Kind_Usd ?model (pinned rat_floats)"
  have row: "pt_resolve (pinned rat_floats) ?model = Some (''claude-sonnet-5'', price rat_floats (2, 1) (25, 10) (2, 10) (10, 1))"
    by (subst pt_resolve_iff) (simp_all add: pinned_def pinned_distinct PINNED_def dated_def)
  have reserved: "worst_case_usd_reservation rat_floats 100000 (Some 50000) ?model False (pinned rat_floats) = Inr (RA_UsdCents 99)"
    by (simp add: worst_case_usd_reservation_def positive_max_tokens_def pt_lookup_def row worst_case_multiplier_def
        US_GEO_MODELS_def FAST_MODE_MODELS_def price_def worst_case_input_usd_per_mtok_def
        one_hour_cache_creation_usd_per_mtok_def usd_to_cents_ceil_def rat_ops clamp_i64_def clamp_def i64_max_def i64_min_def)
  obtain amount known flags where settled: "?settled = (amount, known, flags)" by (cases ?settled)
  moreover have "\<not> sf_input_bound_violated flags"
    using settled by (auto simp: settle_amount_for_def usage_def prompt_tokens_def saturating_add_def u64_max_def Let_def split: sum.splits)
  ultimately show ?thesis
    using gateway_settlement_within_reservation [OF reserved settled] pinned_whole_pico reserved
    by (simp add: pinned_def usage_def bound_violated_def u64_max_def)
qed

end
