(* ===== verification/Rust_Text.thy ===== *)
theory Rust_Text
  imports Prelude
begin

text \<open>
  Text functions of the Rust standard library that the daemon uses, on the UTF-8 bytes of a string.
\<close>

section \<open>Trimming\<close>

text \<open>The encodings of the characters with the \<open>White_Space\<close> property, which \<open>str::trim\<close> removes.\<close>
definition whitespace :: "string list" where
  "whitespace =
     [[CHR 0x09], [CHR 0x0A], [CHR 0x0B], [CHR 0x0C], [CHR 0x0D], [CHR 0x20],
      [CHR 0xC2, CHR 0x85], [CHR 0xC2, CHR 0xA0], [CHR 0xE1, CHR 0x9A, CHR 0x80],
      [CHR 0xE2, CHR 0x80, CHR 0x80], [CHR 0xE2, CHR 0x80, CHR 0x81], [CHR 0xE2, CHR 0x80, CHR 0x82], [CHR 0xE2, CHR 0x80, CHR 0x83],
      [CHR 0xE2, CHR 0x80, CHR 0x84], [CHR 0xE2, CHR 0x80, CHR 0x85], [CHR 0xE2, CHR 0x80, CHR 0x86], [CHR 0xE2, CHR 0x80, CHR 0x87],
      [CHR 0xE2, CHR 0x80, CHR 0x88], [CHR 0xE2, CHR 0x80, CHR 0x89], [CHR 0xE2, CHR 0x80, CHR 0x8A], [CHR 0xE2, CHR 0x80, CHR 0xA8],
      [CHR 0xE2, CHR 0x80, CHR 0xA9], [CHR 0xE2, CHR 0x80, CHR 0xAF], [CHR 0xE2, CHR 0x81, CHR 0x9F], [CHR 0xE3, CHR 0x80, CHR 0x80]]"

lemma whitespace_nonempty: "w \<in> set whitespace \<Longrightarrow> w \<noteq> []"
  by (auto simp: whitespace_def)

function trim_start :: "string \<Rightarrow> string" where
  "trim_start s = (case find (\<lambda>w. starts_with w s) whitespace of Some w \<Rightarrow> trim_start (drop (length w) s) | None \<Rightarrow> s)"
  by auto
termination
proof (relation "measure length")
  fix s w assume "find (\<lambda>w. starts_with w s) whitespace = Some w"
  then have "w \<in> set whitespace" "starts_with w s" by (auto dest: find_Some_mem)
  then have "w \<noteq> []" "length w \<le> length s" using whitespace_nonempty by (auto simp: starts_with_iff)
  then show "(drop (length w) s, s) \<in> measure length" by (cases s) auto
qed simp

declare trim_start.simps [simp del]

text \<open>\<open>s.trim().is_empty()\<close>.\<close>
definition blank :: "string \<Rightarrow> bool" where "blank s \<longleftrightarrow> trim_start s = []"

end
