(* ===== verification/Budget_Core.thy ===== *)
theory Budget_Core
  imports Pool_Machine Gateway_Cost Rust_Text
begin

text \<open>
  The shared monthly budget of the daemon, common part (\<open>crates/daemon/src/shared_budget.rs\<close>, the types of
  \<open>shared_budget_file.rs\<close> and of \<open>crates/protocol/src/shared_budget.rs\<close>): the configuration in force,
  telemetry, errors, identities and lanes, keys, periods. A handler runs several ledger transactions and
  may fail between them, so it is a function from the daemon's state to a result \<^emph>\<open>and\<close> a state.

  What a handler observes of its surroundings is the record \<open>Runtime\<close>: the answers to the successive
  consultations of the budget file and of the clock, fresh UUIDs, the marker file, the run state of the
  gateway, and the third-party crates of the ledger model. A string is its UTF-8 bytes.
\<close>

section \<open>Configuration\<close>

record SoftLimits =
  sl_per_session_usd_cents :: "u64 option"
  sl_per_agent_usd_cents :: "u64 option"

datatype Enforcement = Enforce_Hooks | Enforce_Gateway

record 'f SharedBudgetConfig =
  cfg_monthly_cap_usd_cents :: u64
  cfg_time_zone :: string
  cfg_turn_hold_usd_cents :: u64
  cfg_soft_limits :: SoftLimits
  cfg_subagent_unmeasured_charge_usd_cents :: "u64 option"
  cfg_pricing_overrides :: "(string \<times> 'f ModelPricing) list"
  cfg_enforcement :: Enforcement

datatype 'f SharedBudgetFileState = File_Absent | File_Valid "'f SharedBudgetConfig" | File_Invalid string

text \<open>\<open>PricingOverrides::table\<close>.\<close>
definition overrides_table :: "'f floats \<Rightarrow> (string \<times> 'f ModelPricing) list \<Rightarrow> 'f PricingTable" where
  "overrides_table f overrides = (if overrides = [] then pinned f else with_overrides f overrides)"

definition gateway_enforced :: "'f SharedBudgetFileState \<Rightarrow> bool" where
  "gateway_enforced state = (case state of File_Valid cfg \<Rightarrow> cfg_enforcement cfg = Enforce_Gateway | _ \<Rightarrow> False)"

section \<open>The run state of the gateway\<close>

datatype GatewayRun = Run_Stopped | Run_PassThrough | Run_GovernorHeld

definition RUN_MASK :: u64 where "RUN_MASK = 3"

fun run_bits :: "GatewayRun \<Rightarrow> u64" where
  "run_bits Run_Stopped = 0"
| "run_bits Run_PassThrough = 1"
| "run_bits Run_GovernorHeld = 2"

text \<open>The packed word after \<open>update_gateway_run\<close> and what it returned: \<open>compare_exchange\<close> makes each
  update one atomic step.\<close>
definition update_gateway_run :: "(u64 \<Rightarrow> u64 option) \<Rightarrow> u64 \<Rightarrow> (u64 + u64) \<times> u64" where
  "update_gateway_run f cur = (case f cur of None \<Rightarrow> (Inl cur, cur) | Some nxt \<Rightarrow> (Inr cur, nxt))"

definition set_gateway_run :: "GatewayRun \<Rightarrow> u64 \<Rightarrow> u64" where
  "set_gateway_run run cur = snd (update_gateway_run (\<lambda>cur. Some (or (and cur (not RUN_MASK)) (run_bits run))) cur)"

definition begin_gateway_run :: "GatewayRun \<Rightarrow> u64 \<Rightarrow> u64 \<times> u64" where
  "begin_gateway_run run cur =
     (let (res, nxt) = update_gateway_run (\<lambda>cur. Some (or (push_bit 2 (drop_bit 2 cur + 1)) (run_bits run))) cur;
          prev = (case res of Inr p \<Rightarrow> p | Inl _ \<Rightarrow> 0)
      in (drop_bit 2 prev + 1, nxt))"

definition end_gateway_run :: "u64 \<Rightarrow> u64 \<Rightarrow> bool \<times> u64" where
  "end_gateway_run generation cur =
     (let (res, nxt) = update_gateway_run
            (\<lambda>cur. if drop_bit 2 cur = generation then Some (and cur (not RUN_MASK)) else None) cur
      in (case res of Inr _ \<Rightarrow> True | Inl _ \<Rightarrow> False, nxt))"

definition gateway_run :: "u64 \<Rightarrow> GatewayRun" where
  "gateway_run cur = (let bits = and cur RUN_MASK
     in if bits = 1 then Run_PassThrough else if bits = 2 then Run_GovernorHeld else Run_Stopped)"

section \<open>Answers of a handler\<close>

datatype SharedBudgetDenyReason = Deny_ConfigInvalid | Deny_ClockAnomaly | Deny_CapExhausted | Deny_GatewayUnavailable

datatype SharedBudgetRefusal =
    Refuse_EmptySessionId
  | Refuse_ReservedSessionScope
  | Refuse_InvalidAgentId
  | Refuse_UnsupportedProvider
  | Refuse_InvalidAmount
  | Refuse_AmountTooLarge
  | Refuse_InvalidIdempotencyKey
  | Refuse_InvalidEventTime
  | Refuse_KeyConflict
  | Refuse_PoolUnitMismatch
  | Refuse_GatewayMetered
  | Refuse_NoSettledLane
  | Refuse_EventBeforeRetention

datatype SharedBudgetCheckState = Check_Admitted | Check_Available | Check_Exhausted

datatype SoftLimitScope = PerSession | PerAgent

record SoftLimitWarning =
  sw_scope :: SoftLimitScope
  sw_session_id :: string
  sw_agent_id :: "string option"
  sw_used_plus_reserved_usd_cents :: u64
  sw_threshold_usd_cents :: u64

record AllowedAnswer =
  al_reservation_id :: uuid
  al_pool_id :: string
  al_hold_usd_cents :: u64
  al_hold_reused :: bool
  al_executor_kind :: ExecutorKind
  al_remaining_usd_cents :: int
  al_period_end :: string
  al_warnings :: "SoftLimitWarning list"
  al_warnings_unavailable :: bool

record ChargedAnswer =
  ch_reservation_id :: uuid
  ch_pool_id :: string
  ch_amount_usd_cents :: u64
  ch_already_charged :: bool
  ch_executor_kind :: ExecutorKind
  ch_remaining_usd_cents :: int
  ch_overrun_usd_cents :: u64
  ch_capacity_known :: bool
  ch_event_time_clamped :: bool

record TranscriptAnswer =
  tc_reservation_id :: "uuid option"
  tc_pool_id :: "string option"
  tc_amount_charged_usd_cents :: u64
  tc_cumulative_usd_cents :: u64
  tc_already_charged :: bool
  tc_executor_kind :: ExecutorKind
  tc_remaining_usd_cents :: int
  tc_overrun_usd_cents :: u64
  tc_usage_known :: bool
  tc_unmeasured :: bool
  tc_unpriced :: bool
  tc_transcript_unverified :: bool
  tc_binding_mismatch :: bool
  tc_event_time_clamped :: bool

record TailAnswer =
  ta_reservation_id :: "uuid option"
  ta_pool_id :: "string option"
  ta_amount_charged_usd_cents :: u64
  ta_already_charged :: bool
  ta_remaining_usd_cents :: int
  ta_overrun_usd_cents :: u64
  ta_unmeasured :: bool
  ta_unpriced :: bool
  ta_transcript_unverified :: bool
  ta_binding_mismatch :: bool

text \<open>The answers of the modelled handlers; the report of \<open>Status\<close> is not one of them.\<close>
datatype SharedBudgetOutcome =
    Out_NotConfigured
  | Out_Allowed AllowedAnswer
  | Out_GatewayMetered int string
  | Out_Denied SharedBudgetDenyReason "int option" "string option" "string option"
  | Out_Refused SharedBudgetRefusal
  | Out_Checked SharedBudgetCheckState int string
  | Out_Charged ChargedAnswer
  | Out_TranscriptCharged TranscriptAnswer
  | Out_TailSettled TailAnswer
  | Out_TranscriptReadiness bool
  | Out_CodexTurnSettled string

text \<open>\<open>Panicked\<close> stands for a failed \<open>expect\<close>.\<close>
datatype SharedBudgetError =
    Err_Ledger LedgerError
  | Err_Internal string
  | Err_GrantCleanupFailed uuid LedgerError LedgerError
  | Err_Panicked

section \<open>State and effects of a handler\<close>

record Telemetry =
  te_unpriced_models :: "string set"
  te_binding_mismatches :: u64
  te_unverified :: u64
  te_unmeasured_settlements :: u64
  te_unmeasured_charges :: u64
  te_id_less_records :: u64
  te_foreign_lines :: u64
  te_sweep_deferred_files :: u64
  te_future_timestamps :: u64
  te_unadmitted_turns :: u64
  te_codex_recovery_errors :: u64
  te_codex_recovery_last_error :: "string option"
  te_unrouted_sessions :: "string set"
  te_orphans_booked :: u64

record Daemon =
  d_ledger :: LedgerStore
  d_telemetry :: Telemetry

type_synonym 'a daemon = "Daemon \<Rightarrow> (SharedBudgetError + 'a) \<times> Daemon"

definition ok :: "'a \<Rightarrow> 'a daemon" where "ok a d = (Inr a, d)"

definition err :: "SharedBudgetError \<Rightarrow> 'a daemon" where "err e d = (Inl e, d)"

text \<open>\<open>let a = m?; k a\<close>.\<close>
definition dbind :: "'a daemon \<Rightarrow> ('a \<Rightarrow> 'b daemon) \<Rightarrow> 'b daemon" where
  "dbind m k d = (case m d of (Inl e, d') \<Rightarrow> (Inl e, d') | (Inr a, d') \<Rightarrow> k a d')"

text \<open>\<open>match m { Ok(a) => .., Err(e) => .. }\<close>.\<close>
definition attempt :: "'a daemon \<Rightarrow> (SharedBudgetError + 'a) daemon" where
  "attempt m d = (case m d of (r, d') \<Rightarrow> (Inr r, d'))"

text \<open>A writing ledger method, one transaction; a reading one; \<open>ensure_pool\<close>, which reads after its commit.\<close>
definition tx :: "(LedgerStore \<Rightarrow> LedgerError + 'a \<times> LedgerStore) \<Rightarrow> 'a daemon" where
  "tx f d = (case f (d_ledger d) of
     Inl e \<Rightarrow> (Inl (Err_Ledger e), d)
   | Inr (a, s) \<Rightarrow> (Inr a, d\<lparr>d_ledger := s\<rparr>))"

definition look :: "(LedgerStore \<Rightarrow> LedgerError + 'a) \<Rightarrow> 'a daemon" where
  "look f d = (case f (d_ledger d) of Inl e \<Rightarrow> (Inl (Err_Ledger e), d) | Inr a \<Rightarrow> (Inr a, d))"

definition call :: "(LedgerStore \<Rightarrow> (LedgerError + 'a) \<times> LedgerStore) \<Rightarrow> 'a daemon" where
  "call f d = (case f (d_ledger d) of
     (Inl e, s) \<Rightarrow> (Inl (Err_Ledger e), d\<lparr>d_ledger := s\<rparr>)
   | (Inr a, s) \<Rightarrow> (Inr a, d\<lparr>d_ledger := s\<rparr>))"

text \<open>A value that an \<open>expect\<close> or an internal check may refuse.\<close>
definition expect :: "SharedBudgetError \<Rightarrow> 'a option \<Rightarrow> 'a daemon" where
  "expect e v = (case v of Some a \<Rightarrow> ok a | None \<Rightarrow> err e)"

definition telemetry :: "(Telemetry \<Rightarrow> Telemetry) \<Rightarrow> unit daemon" where
  "telemetry f d = (Inr (), d\<lparr>d_telemetry := f (d_telemetry d)\<rparr>)"

section \<open>Surroundings\<close>

record 'f Runtime =
  rt_effective :: "nat \<Rightarrow> 'f SharedBudgetFileState"
  rt_now :: "nat \<Rightarrow> instant"
  rt_fresh :: "nat \<Rightarrow> uuid"
  rt_codex_enrolled :: bool
  rt_gateway_word :: u64
  rt_ext :: externals
  rt_calendar :: calendar
  rt_floats :: "'f floats"
  rt_event_year :: "string \<Rightarrow> int"
  rt_json_array :: "string list \<Rightarrow> string option"
  rt_sha256_hex :: "string \<Rightarrow> string"
  rt_error_text :: "SharedBudgetError \<Rightarrow> string"

definition rfc :: "'f Runtime \<Rightarrow> instant \<Rightarrow> string daemon" where
  "rfc rt t = expect Err_Panicked (time_format (rt_ext rt) t)"

definition i64_of_u64 :: "u64 \<Rightarrow> int" where "i64_of_u64 v = min (uint v) i64_max"

section \<open>Text\<close>

text \<open>\<open>{}\<close> of an unsigned integer.\<close>
definition show_u64 :: "int \<Rightarrow> string" where "show_u64 n = decimal n"

section \<open>Identities, lanes and keys\<close>

definition HOLD_TTL_SECS :: u64 where "HOLD_TTL_SECS = 3600"
definition POOL_PREFIX :: string where "POOL_PREFIX = ''metered:local-budget/monthly-''"
definition OWNER_POOL_PREFIX :: string where "OWNER_POOL_PREFIX = ''metered:local-budget/''"
definition RESERVED_SESSION_PREFIX :: string where "RESERVED_SESSION_PREFIX = ''execution-owner-v1:''"
definition PROVIDER_LANE_PREFIX :: string where "PROVIDER_LANE_PREFIX = ''shared-budget-provider-v1:''"
definition CLAUDE_PROVIDER :: string where "CLAUDE_PROVIDER = ''claude-code''"
definition CODEX_PROVIDER :: string where "CODEX_PROVIDER = ''codex''"
definition MAX_PROMPT_ID_BYTES :: nat where "MAX_PROMPT_ID_BYTES = 256"
definition MAX_UNPRICED_MODELS :: nat where "MAX_UNPRICED_MODELS = 32"
definition MAX_MODEL_DISPLAY_LEN :: nat where "MAX_MODEL_DISPLAY_LEN = 96"
definition MAX_UNROUTED_SESSIONS :: nat where "MAX_UNROUTED_SESSIONS = 1024"

text \<open>\<open>PrincipalId(LOCAL_BUDGET_OWNER)\<close>.\<close>
definition budget_principal :: PrincipalId where "budget_principal = LOCAL_BUDGET_OWNER"

definition lp :: "string \<Rightarrow> string" where "lp s = show_u64 (int (length s)) @ '':'' @ s"

definition hold_key :: "string \<Rightarrow> string option \<Rightarrow> string \<Rightarrow> string \<Rightarrow> string" where
  "hold_key session_id agent_id tag pid =
     ''hold:'' @ lp session_id @ ''|'' @ (case agent_id of None \<Rightarrow> ''-'' | Some a \<Rightarrow> lp a) @ ''|'' @ tag @ lp pid"

definition usable_prompt :: "string option \<Rightarrow> string option" where
  "usable_prompt prompt_id = (case prompt_id of
     Some p \<Rightarrow> if \<not> blank p \<and> length p \<le> MAX_PROMPT_ID_BYTES then Some p else None | None \<Rightarrow> None)"

definition is_claude_provider :: "string option \<Rightarrow> bool" where
  "is_claude_provider provider \<longleftrightarrow> provider = None \<or> provider = Some CLAUDE_PROVIDER"

definition budget_lane :: "'f Runtime \<Rightarrow> string \<Rightarrow> string option \<Rightarrow> SharedBudgetRefusal + string" where
  "budget_lane rt session_id provider =
     (case provider of
        None \<Rightarrow> Inr session_id
      | Some p \<Rightarrow>
          if p = CLAUDE_PROVIDER then Inr session_id
          else if p = CODEX_PROVIDER then
            rbind (ok_or Refuse_UnsupportedProvider (rt_json_array rt [CODEX_PROVIDER, session_id]))
              (\<lambda>tuple. Inr (PROVIDER_LANE_PREFIX @ tuple))
          else Inl Refuse_UnsupportedProvider)"

definition validate_agent :: "string option \<Rightarrow> SharedBudgetRefusal + unit" where
  "validate_agent agent_id = (case agent_id of Some a \<Rightarrow> if blank a then Inl Refuse_InvalidAgentId else Inr () | None \<Rightarrow> Inr ())"

definition validate_lane_key :: "string \<Rightarrow> SharedBudgetRefusal + unit" where
  "validate_lane_key lane = (if blank lane then Inl Refuse_EmptySessionId else Inr ())"

definition validate_identity :: "string \<Rightarrow> string option \<Rightarrow> SharedBudgetRefusal + ExecutorKind" where
  "validate_identity session_id agent_id =
     (if blank session_id then Inl Refuse_EmptySessionId
      else if starts_with RESERVED_SESSION_PREFIX (trim_start session_id)
           \<or> starts_with PROVIDER_LANE_PREFIX (trim_start session_id)
      then Inl Refuse_ReservedSessionScope
      else case agent_id of
        Some a \<Rightarrow> if blank a then Inl Refuse_InvalidAgentId else Inr Agent
      | None \<Rightarrow> Inr AgentAbsent)"

definition client_lane :: "'f Runtime \<Rightarrow> string \<Rightarrow> string option \<Rightarrow> SharedBudgetRefusal + string" where
  "client_lane rt session_id provider =
     rbind (validate_identity session_id None) (\<lambda>_. budget_lane rt session_id provider)"

definition refused :: "SharedBudgetRefusal \<Rightarrow> SharedBudgetOutcome" where "refused reason = Out_Refused reason"

definition admission_lane ::
    "'f Runtime \<Rightarrow> string \<Rightarrow> string option \<Rightarrow> string option \<Rightarrow> bool \<Rightarrow> SharedBudgetOutcome + ExecutorKind \<times> string" where
  "admission_lane rt session_id agent_id provider codex_enrolled =
     (case validate_identity session_id agent_id of
        Inl reason \<Rightarrow> Inl (refused reason)
      | Inr kind \<Rightarrow>
          (case budget_lane rt session_id provider of
             Inl reason \<Rightarrow> Inl (refused reason)
           | Inr lane \<Rightarrow>
               if provider = Some CODEX_PROVIDER \<and> \<not> codex_enrolled then Inl Out_NotConfigured
               else Inr (kind, lane)))"

definition opaque_id :: "'f Runtime \<Rightarrow> string \<Rightarrow> string" where
  "opaque_id rt session_id = take 8 (rt_sha256_hex rt session_id)"

definition is_ascii_alphanumeric :: "char \<Rightarrow> bool" where
  "is_ascii_alphanumeric c \<longleftrightarrow> is_ascii_lowercase c \<or> is_ascii_digit c \<or> (CHR ''A'' \<le> c \<and> c \<le> CHR ''Z'')"

definition display_model :: "string \<Rightarrow> string" where
  "display_model raw =
     (let cleaned = take MAX_MODEL_DISPLAY_LEN (filter (\<lambda>c. is_ascii_alphanumeric c \<or> c \<in> set ''._:-/<>'') raw)
      in if cleaned = [] then ''<unprintable>'' else cleaned)"

definition note_unpriced :: "string list \<Rightarrow> unit daemon" where
  "note_unpriced models = telemetry (\<lambda>t. t\<lparr>te_unpriced_models :=
     fold (\<lambda>m ms. if card ms < MAX_UNPRICED_MODELS then insert (display_model m) ms else ms)
       models (te_unpriced_models t)\<rparr>)"

section \<open>Periods\<close>

definition source :: "'f SharedBudgetConfig \<Rightarrow> CapacitySource" where
  "source cfg = LocalConfigured (cfg_monthly_cap_usd_cents cfg)"

record Period =
  pe_start :: instant
  pe_end :: instant
  pe_pool_id :: PoolId

definition period_at :: "'f Runtime \<Rightarrow> 'f SharedBudgetConfig \<Rightarrow> instant \<Rightarrow> Period daemon" where
  "period_at rt cfg moment =
     (let (start, stop) = calendar_month_bounds (rt_calendar rt) moment (cfg_time_zone cfg);
          monthly = monthly_pool_alias (rt_calendar rt) start (cfg_time_zone cfg)
      in case MeteredPoolKey_new budget_principal monthly of
           Inl _ \<Rightarrow> err (Err_Internal ''monthly pool alias is not a valid slug'')
         | Inr key \<Rightarrow> ok \<lparr>pe_start = start, pe_end = stop, pe_pool_id = MeteredPoolKey_pool_id key\<rparr>)"

definition denied ::
    "'f Runtime \<Rightarrow> SharedBudgetDenyReason \<Rightarrow> int option \<Rightarrow> instant option \<Rightarrow> string option \<Rightarrow> SharedBudgetOutcome daemon" where
  "denied rt reason remaining period_end detail =
     (case period_end of
        None \<Rightarrow> ok (Out_Denied reason remaining None detail)
      | Some t \<Rightarrow> dbind (rfc rt t) (\<lambda>text. ok (Out_Denied reason remaining (Some text) detail)))"

definition configured :: "'f SharedBudgetFileState \<Rightarrow> SharedBudgetOutcome + 'f SharedBudgetConfig" where
  "configured state =
     (case state of
        File_Absent \<Rightarrow> Inl Out_NotConfigured
      | File_Invalid reason \<Rightarrow> Inl (Out_Denied Deny_ConfigInvalid None None (Some reason))
      | File_Valid cfg \<Rightarrow> Inr cfg)"

definition later_pool :: "Period \<Rightarrow> PoolId option daemon" where
  "later_pool current = look (\<lambda>s. Inr (find (\<lambda>p. pe_pool_id current < p) (rev (shared_pool_ids_with_prefix s POOL_PREFIX))))"

definition anomaly :: "'f Runtime \<Rightarrow> PoolId \<Rightarrow> Period \<Rightarrow> SharedBudgetOutcome daemon" where
  "anomaly rt later current = denied rt Deny_ClockAnomaly None (Some (pe_end current))
     (Some (''pool '' @ later @ '' is of a later period than the current '' @ pe_pool_id current))"

definition ensure_period_pool ::
    "'f Runtime \<Rightarrow> PoolId \<Rightarrow> 'f SharedBudgetConfig \<Rightarrow> instant \<Rightarrow> unit daemon" where
  "ensure_period_pool rt pool_id cfg now =
     dbind (call (\<lambda>s. ensure_pool (rt_ext rt) s pool_id UsdCents (cfg_monthly_cap_usd_cents cfg) now)) (\<lambda>_. ok ())"

definition attribution_for :: "string option \<Rightarrow> ChargeSource \<Rightarrow> ExecutorAttribution" where
  "attribution_for agent_id charge_source =
     (case agent_id of Some a \<Rightarrow> agent_attribution a (Some charge_source) | None \<Rightarrow> main_executor (Some charge_source))"

definition remaining_of :: "'f Runtime \<Rightarrow> PoolId \<Rightarrow> 'f SharedBudgetConfig \<Rightarrow> instant \<Rightarrow> int daemon" where
  "remaining_of rt pool_id cfg now =
     dbind (look (\<lambda>s. pool_admission_for (rt_ext rt) s pool_id now (source cfg))) (\<lambda>a.
       ok (case a of Some a \<Rightarrow> pa_remaining (sa_admission a)
           | None \<Rightarrow> i64_of_u64 (cfg_monthly_cap_usd_cents cfg)))"

section \<open>Soft limits\<close>

definition executor_load :: "SharedPoolExecutorUsage \<Rightarrow> u64" where
  "executor_load e = saturating_add (eu_used e) (eu_reserved e)"

definition session_warnings ::
    "SharedPoolExecutorReport \<Rightarrow> u64 \<Rightarrow> (string \<times> string option \<times> ExecutorKind) option \<Rightarrow> SoftLimitWarning list" where
  "session_warnings report threshold focus =
     List.map_filter (\<lambda>session.
         if (case focus of Some (s, _, _) \<Rightarrow> s \<noteq> session | None \<Rightarrow> False) then None
         else let load = fold (\<lambda>e acc. saturating_add acc (executor_load e))
                    (filter (\<lambda>e. eu_session_id e = session) (er_executors report)) 0
           in if threshold \<le> load
              then Some \<lparr>sw_scope = PerSession, sw_session_id = session, sw_agent_id = None,
                sw_used_plus_reserved_usd_cents = load, sw_threshold_usd_cents = threshold\<rparr>
              else None)
       (remdups_adj (sort (map eu_session_id (er_executors report))))"

definition agent_warnings ::
    "SharedPoolExecutorReport \<Rightarrow> u64 \<Rightarrow> (string \<times> string option \<times> ExecutorKind) option \<Rightarrow> SoftLimitWarning list" where
  "agent_warnings report threshold focus =
     List.map_filter (\<lambda>e.
         if eu_executor_kind e \<noteq> Agent \<or> eu_agent_id e = None then None
         else if (case focus of
               Some (session, agent, kind) \<Rightarrow> eu_session_id e \<noteq> session \<or> eu_agent_id e \<noteq> agent \<or> eu_executor_kind e \<noteq> kind
             | None \<Rightarrow> False) then None
         else if threshold \<le> executor_load e
              then Some \<lparr>sw_scope = PerAgent, sw_session_id = eu_session_id e, sw_agent_id = eu_agent_id e,
                sw_used_plus_reserved_usd_cents = executor_load e, sw_threshold_usd_cents = threshold\<rparr>
              else None)
       (er_executors report)"

definition soft_warnings ::
    "SharedPoolExecutorReport \<Rightarrow> SoftLimits \<Rightarrow> (string \<times> string option \<times> ExecutorKind) option \<Rightarrow> SoftLimitWarning list" where
  "soft_warnings report soft focus =
     (case sl_per_session_usd_cents soft of Some t \<Rightarrow> session_warnings report t focus | None \<Rightarrow> [])
     @ (case sl_per_agent_usd_cents soft of Some t \<Rightarrow> agent_warnings report t focus | None \<Rightarrow> [])"

end
