(* ===== verification/Budget_Gateway.thy ===== *)
theory Budget_Gateway
  imports Budget_Core
begin

text \<open>
  Requests of a governor-held gateway against the monthly cap (\<open>gateway_reserve\<close>, \<open>gateway_settle\<close>,
  \<open>gateway_release\<close>, \<open>gateway_renew\<close> and \<open>gateway_orphans_at_start\<close> of
  \<open>crates/daemon/src/shared_budget.rs\<close>): the composition of the gateway's pricing with the shared-pool ledger.
\<close>

section \<open>Keys\<close>

definition MAX_GATEWAY_FIELD_BYTES :: nat where "MAX_GATEWAY_FIELD_BYTES = 256"

definition GATEWAY_KEY_PREFIX :: string where "GATEWAY_KEY_PREFIX = ''gw:''"

definition is_ascii_graphic :: "char \<Rightarrow> bool" where
  "is_ascii_graphic c \<longleftrightarrow> CHR ''!'' \<le> c \<and> c \<le> CHR ''~''"

definition key_part_is_valid :: "string \<Rightarrow> bool" where
  "key_part_is_valid part \<longleftrightarrow> part \<noteq> [] \<and> list_all is_ascii_graphic part"

definition gateway_boot_prefix :: "string \<Rightarrow> string option" where
  "gateway_boot_prefix boot_id =
     (if key_part_is_valid boot_id \<and> CHR '':'' \<notin> set boot_id then Some (GATEWAY_KEY_PREFIX @ boot_id @ '':'') else None)"

definition gateway_key :: "string \<Rightarrow> string \<Rightarrow> string option" where
  "gateway_key boot_id request_id =
     Option.bind (gateway_boot_prefix boot_id) (\<lambda>prefix.
       if key_part_is_valid request_id then Some (prefix @ request_id) else None)"

definition gateway_key_is_valid :: "string \<Rightarrow> bool" where
  "gateway_key_is_valid key \<longleftrightarrow> length key \<le> MAX_GATEWAY_FIELD_BYTES
     \<and> (case Option.bind (strip_prefix GATEWAY_KEY_PREFIX key) (split_once CHR '':'') of
          Some (boot_id, request_id) \<Rightarrow> key_part_is_valid boot_id \<and> key_part_is_valid request_id
        | None \<Rightarrow> False)"

section \<open>Reserving\<close>

record GatewayReserveRequest =
  gr_session_id :: string
  gr_model :: string
  gr_body_bytes :: u64
  gr_max_tokens :: "u64 option"
  gr_image_count :: u64
  gr_fast_requested :: bool
  gr_key :: string
  gr_ttl_secs :: u64

record GatewayHold =
  gh_reservation_id :: uuid
  gh_pool_id :: string
  gh_reserved_usd_cents :: u64
  gh_input_bound_tokens :: u64
  gh_model :: string
  gh_max_tokens :: u64
  gh_remaining_usd_cents :: int
  gh_replayed :: bool

datatype GatewayRefusal =
    GR_NotConfigured
  | GR_ConfigInvalid string
  | GR_NotGatewayEnforced
  | GR_ClockAnomaly string
  | GR_Identity SharedBudgetRefusal
  | GR_SessionIdTooLong
  | GR_InvalidKey
  | GR_Unenforceable EnforcementGap
  | GR_CapExhausted int
  | GR_KeyConflict
  | GR_KeyNotActive
  | GR_PoolUnitMismatch

datatype GatewayReserveOutcome = GRO_Granted GatewayHold | GRO_Refused GatewayRefusal

definition gateway_refused :: "GatewayRefusal \<Rightarrow> GatewayReserveOutcome daemon" where
  "gateway_refused refusal = ok (GRO_Refused refusal)"

text \<open>The worst case in cents, or the refusal.\<close>
definition gateway_worst_case ::
    "'f Runtime \<Rightarrow> 'f SharedBudgetConfig \<Rightarrow> GatewayReserveRequest \<Rightarrow> u64 \<Rightarrow> (EnforcementGap + u64) daemon" where
  "gateway_worst_case rt cfg req input_bound_tokens =
     (case worst_case_usd_reservation (rt_floats rt) input_bound_tokens (gr_max_tokens req) (gr_model req)
          (gr_fast_requested req) (overrides_table (rt_floats rt) (cfg_pricing_overrides cfg)) of
        Inr (RA_UsdCents cents) \<Rightarrow>
          if 0 \<le> cents then ok (Inr (word_of_int cents))
          else err (Err_Internal ''a worst-case reservation is negative'')
      | Inr _ \<Rightarrow> err (Err_Internal ''a USD reservation priced in another kind'')
      | Inl gap \<Rightarrow> ok (Inl gap))"

definition gateway_metered_request ::
    "'f SharedBudgetConfig \<Rightarrow> GatewayReserveRequest \<Rightarrow> PoolId \<Rightarrow> u64 \<Rightarrow> instant \<Rightarrow> MeteredReserveRequest" where
  "gateway_metered_request cfg req pool_id worst now =
     \<lparr>mr_base = \<lparr>rq_pool_id = pool_id, rq_principal_id = budget_principal, rq_session_id = gr_session_id req,
        rq_amount = worst, rq_unit = UsdCents, rq_idempotency_key = gr_key req, rq_now = now,
        rq_ttl_secs = gr_ttl_secs req, rq_attribution = unattributed (Some Gateway)\<rparr>,
      mr_session_cap = None, mr_capacity_source = source cfg\<rparr>"

text \<open>The hold a reserve outcome stands for, and whether it is a replay.\<close>
definition gateway_reserved ::
    "GatewayReserveRequest \<Rightarrow> u64 \<Rightarrow> SharedBudgetError + MeteredReserveOutcome
      \<Rightarrow> (GatewayRefusal + SharedPoolReservation \<times> bool) daemon" where
  "gateway_reserved req worst outcome =
     (case outcome of
        Inr (Metered_Granted hold) \<Rightarrow> ok (Inr (hold, False))
      | Inr (Metered_AlreadyGranted hold) \<Rightarrow>
          if spr_state hold \<noteq> Active then ok (Inl GR_KeyNotActive)
          else if spr_amount hold \<noteq> worst \<or> spr_session_id hold \<noteq> gr_session_id req then ok (Inl GR_KeyConflict)
          else ok (Inr (hold, True))
      | Inr (Metered_Insufficient admission _) \<Rightarrow> ok (Inl (GR_CapExhausted (pa_remaining admission)))
      | Inr Metered_NoPool \<Rightarrow> err (Err_Internal ''pool missing right after creation'')
      | Inr (Metered_SnapshotUnusable _) \<Rightarrow>
          err (Err_Internal ''a locally configured cap consulted a provider snapshot or session cap'')
      | Inr (Metered_SessionCapExceeded _ _ _) \<Rightarrow>
          err (Err_Internal ''a locally configured cap consulted a provider snapshot or session cap'')
      | Inl (Err_Ledger (QuotaUnitMismatch _ _)) \<Rightarrow> ok (Inl GR_PoolUnitMismatch)
      | Inl (Err_Ledger SharedPoolKeyConflict) \<Rightarrow> ok (Inl GR_KeyConflict)
      | Inl e \<Rightarrow> err e)"

definition gateway_reserve :: "'f Runtime \<Rightarrow> GatewayReserveRequest \<Rightarrow> GatewayReserveOutcome daemon" where
  "gateway_reserve rt req =
     (case rt_effective rt 0 of
        File_Absent \<Rightarrow> gateway_refused GR_NotConfigured
      | File_Invalid reason \<Rightarrow> gateway_refused (GR_ConfigInvalid reason)
      | File_Valid cfg \<Rightarrow>
          if cfg_enforcement cfg \<noteq> Enforce_Gateway then gateway_refused GR_NotGatewayEnforced
          else (case validate_identity (gr_session_id req) None of
            Inl refusal \<Rightarrow> gateway_refused (GR_Identity refusal)
          | Inr _ \<Rightarrow>
              if MAX_GATEWAY_FIELD_BYTES < length (gr_session_id req) then gateway_refused GR_SessionIdTooLong
              else if \<not> gateway_key_is_valid (gr_key req) then gateway_refused GR_InvalidKey
              else let now = rt_now rt 0 in
                dbind (period_at rt cfg now) (\<lambda>period.
                dbind (later_pool period) (\<lambda>later.
                case later of
                  Some pool \<Rightarrow> gateway_refused (GR_ClockAnomaly pool)
                | None \<Rightarrow>
                    let input_bound_tokens = hard_input_upper_bound (gr_body_bytes req) (gr_image_count req) in
                    dbind (gateway_worst_case rt cfg req input_bound_tokens) (\<lambda>worst.
                    case worst of
                      Inl gap \<Rightarrow> gateway_refused (GR_Unenforceable gap)
                    | Inr worst \<Rightarrow>
                        dbind (ensure_period_pool rt (pe_pool_id period) cfg now) (\<lambda>_.
                        dbind (tx (\<lambda>s. expire_stale_shared_pool_reservations (rt_ext rt) s now)) (\<lambda>_.
                        dbind (attempt (tx (\<lambda>s. reserve_shared_metered (rt_ext rt) s
                          (gateway_metered_request cfg req (pe_pool_id period) worst now) (rt_fresh rt 0)))) (\<lambda>outcome.
                        dbind (gateway_reserved req worst outcome) (\<lambda>reserved.
                        case reserved of
                          Inl refusal \<Rightarrow> gateway_refused refusal
                        | Inr (hold, replayed) \<Rightarrow>
                            dbind (remaining_of rt (spr_pool_id hold) cfg now) (\<lambda>remaining.
                            ok (GRO_Granted \<lparr>gh_reservation_id = spr_id hold, gh_pool_id = spr_pool_id hold,
                              gh_reserved_usd_cents = spr_amount hold, gh_input_bound_tokens = input_bound_tokens,
                              gh_model = gr_model req,
                              gh_max_tokens = (case gr_max_tokens req of Some m \<Rightarrow> m | None \<Rightarrow> 0),
                              gh_remaining_usd_cents = remaining, gh_replayed = replayed\<rparr>)))))))))))"

section \<open>The row of a hold\<close>

datatype GatewayRow = Row_Missing | Row_Foreign | Row_Hold SharedPoolReservation

definition gateway_row :: "'f Runtime \<Rightarrow> uuid \<Rightarrow> GatewayRow daemon" where
  "gateway_row rt rid =
     dbind (look (\<lambda>s. get_shared_reservation_tx (rt_ext rt) s rid)) (\<lambda>row.
       ok (case row of
             None \<Rightarrow> Row_Missing
           | Some row \<Rightarrow>
               if spr_charge_source row = Some Gateway \<and> spr_principal_id row = budget_principal
                  \<and> starts_with POOL_PREFIX (spr_pool_id row)
               then Row_Hold row else Row_Foreign))"

section \<open>Settling, releasing, renewing\<close>

record GatewaySettleRequest =
  gs_reservation_id :: uuid
  gs_observed :: "ObservedUsage option"
  gs_completed_cleanly :: bool
  gs_saw_message_start :: bool
  gs_model :: string
  gs_max_tokens :: u64
  gs_input_bound_tokens :: u64

datatype GatewaySettleOutcome =
    GSO_Settled u64 u64 bool SettleFlags "u64 option"
  | GSO_AlreadyFinal
  | GSO_NotFound
  | GSO_NotGatewayHold

definition gateway_priced ::
    "'f Runtime \<Rightarrow> GatewaySettleRequest \<Rightarrow> u64 \<Rightarrow> 'f ResourceAmount \<times> bool \<times> SettleFlags" where
  "gateway_priced rt req reserved =
     (case rt_effective rt 0 of
        File_Valid cfg \<Rightarrow>
          settle_amount_for (rt_floats rt) (gs_observed req) (gs_completed_cleanly req) (gs_saw_message_start req)
            (RA_UsdCents (i64_of_u64 reserved)) (gs_max_tokens req) (gs_input_bound_tokens req) Kind_Usd (gs_model req)
            (overrides_table (rt_floats rt) (cfg_pricing_overrides cfg))
      | _ \<Rightarrow> (RA_UsdCents (i64_of_u64 reserved), False, \<lparr>sf_truncated_settle = False, sf_input_bound_violated = False\<rparr>))"

definition gateway_settle :: "'f Runtime \<Rightarrow> GatewaySettleRequest \<Rightarrow> GatewaySettleOutcome daemon" where
  "gateway_settle rt req =
     dbind (gateway_row rt (gs_reservation_id req)) (\<lambda>row.
     case row of
       Row_Missing \<Rightarrow> ok GSO_NotFound
     | Row_Foreign \<Rightarrow> ok GSO_NotGatewayHold
     | Row_Hold row \<Rightarrow>
         let reserved = spr_amount row;
             (priced, usage_known, flags) = gateway_priced rt req reserved;
             priced = (case priced of RA_UsdCents cents \<Rightarrow> if 0 \<le> cents then word_of_int cents else reserved
               | _ \<Rightarrow> reserved)
         in dbind (tx (\<lambda>s. settle_shared_marked (rt_ext rt) s (gs_reservation_id req) priced usage_known (rt_now rt 0)))
              (\<lambda>outcome. ok (case outcome of
                 Settle_Settled reservation _ overrun \<Rightarrow>
                   GSO_Settled (case spr_settled_amount reservation of Some v \<Rightarrow> v | None \<Rightarrow> reserved) reserved
                     (spr_usage_known reservation = Some True) flags overrun
               | Settle_AlreadyFinal _ \<Rightarrow> GSO_AlreadyFinal
               | Settle_NotFound \<Rightarrow> GSO_NotFound)))"

datatype GatewayReleaseOutcome = GLO_Released | GLO_AlreadyFinal | GLO_NotFound | GLO_NotGatewayHold

definition gateway_release :: "'f Runtime \<Rightarrow> uuid \<Rightarrow> GatewayReleaseOutcome daemon" where
  "gateway_release rt rid =
     dbind (gateway_row rt rid) (\<lambda>row.
     case row of
       Row_Missing \<Rightarrow> ok GLO_NotFound
     | Row_Foreign \<Rightarrow> ok GLO_NotGatewayHold
     | Row_Hold _ \<Rightarrow>
         dbind (tx (\<lambda>s. release_shared (rt_ext rt) s rid (rt_now rt 0))) (\<lambda>outcome.
           ok (case outcome of
                 Release_Released _ \<Rightarrow> GLO_Released
               | Release_AlreadyFinal _ \<Rightarrow> GLO_AlreadyFinal
               | Release_NotFound \<Rightarrow> GLO_NotFound)))"

datatype GatewayRenewOutcome = GNO_Renewed | GNO_Refused | GNO_NotFound | GNO_NotGatewayHold

definition gateway_renew :: "'f Runtime \<Rightarrow> uuid \<Rightarrow> u64 \<Rightarrow> GatewayRenewOutcome daemon" where
  "gateway_renew rt rid ttl_secs =
     dbind (gateway_row rt rid) (\<lambda>row.
     case row of
       Row_Missing \<Rightarrow> ok GNO_NotFound
     | Row_Foreign \<Rightarrow> ok GNO_NotGatewayHold
     | Row_Hold row \<Rightarrow>
         dbind (tx (\<lambda>s. renew_shared (rt_ext rt) s rid budget_principal (spr_session_id row) (rt_now rt 0) ttl_secs))
           (\<lambda>outcome. ok (case outcome of
                 Renew_Renewed _ \<Rightarrow> GNO_Renewed
               | Renew_Refused _ \<Rightarrow> GNO_Refused
               | Renew_NotFound \<Rightarrow> GNO_NotFound)))"

definition gateway_orphans_at_start :: "'f Runtime \<Rightarrow> string \<Rightarrow> SharedPoolReservation list daemon" where
  "gateway_orphans_at_start rt boot_id =
     dbind (expect (Err_Internal (''a gateway boot id is empty or contains '' @ [CHR 0x27, CHR '':'', CHR 0x27])) (gateway_boot_prefix boot_id)) (\<lambda>prefix.
     dbind (tx (\<lambda>s. settle_orphaned_gateway_holds (rt_ext rt) s prefix (rt_now rt 0))) (\<lambda>booked.
     dbind (telemetry (\<lambda>t. t\<lparr>te_orphans_booked := te_orphans_booked t + word_of_nat (length booked)\<rparr>)) (\<lambda>_.
     ok booked)))"

end
