(* ===== verification/Budget_Admit.thy ===== *)
theory Budget_Admit
  imports Budget_Core
begin

text \<open>
  Admission of a turn against the monthly budget (\<open>admit\<close>, \<open>check\<close> and \<open>heartbeat\<close> of
  \<open>crates/daemon/src/shared_budget.rs\<close>): one hold per lane, renewed by a re-prompt, replays of a prompt
  refused, and the read-only answers of the gateway mode.
\<close>

section \<open>The common gate\<close>

record 'f GateContext =
  gc_kind :: ExecutorKind
  gc_lane :: string
  gc_cfg :: "'f SharedBudgetConfig"
  gc_now :: instant
  gc_period :: Period

definition gate_context ::
    "'f Runtime \<Rightarrow> string \<Rightarrow> string option \<Rightarrow> string option \<Rightarrow> (SharedBudgetOutcome + 'f GateContext) daemon" where
  "gate_context rt session_id agent_id provider =
     (let state = rt_effective rt 0
      in if state = File_Absent then ok (Inl Out_NotConfigured)
      else case admission_lane rt session_id agent_id provider (rt_codex_enrolled rt) of
        Inl outcome \<Rightarrow> ok (Inl outcome)
      | Inr (kind, lane) \<Rightarrow>
          (case configured state of
             Inl outcome \<Rightarrow> ok (Inl outcome)
           | Inr cfg \<Rightarrow>
               let now = rt_now rt 0 in
               dbind (period_at rt cfg now) (\<lambda>period.
               dbind (later_pool period) (\<lambda>later.
               case later of
                 Some pool \<Rightarrow> dbind (anomaly rt pool period) (\<lambda>outcome. ok (Inl outcome))
               | None \<Rightarrow> ok (Inr \<lparr>gc_kind = kind, gc_lane = lane, gc_cfg = cfg, gc_now = now, gc_period = period\<rparr>)))))"

section \<open>Answering a grant\<close>

definition allowed ::
    "'f Runtime \<Rightarrow> 'f SharedBudgetConfig \<Rightarrow> Period \<Rightarrow> SharedPoolReservation \<Rightarrow> bool \<Rightarrow> instant \<Rightarrow> SharedBudgetOutcome daemon" where
  "allowed rt cfg period hold reused now =
     dbind (expect (Err_Internal ''a granted hold has no executor kind'') (spr_executor_kind hold)) (\<lambda>executor_kind.
     dbind (attempt (remaining_of rt (spr_pool_id hold) cfg now)) (\<lambda>remaining.
     case remaining of
       Inl (Err_Ledger read) \<Rightarrow>
         if \<not> reused then
           dbind (attempt (tx (\<lambda>s. release_and_forget_unstarted_shared (rt_ext rt) s (spr_id hold) now))) (\<lambda>released.
           case released of
             Inr _ \<Rightarrow> err (Err_Ledger read)
           | Inl (Err_Ledger cleanup) \<Rightarrow> err (Err_GrantCleanupFailed (spr_id hold) read cleanup)
           | Inl e \<Rightarrow> err e)
         else err (Err_Ledger read)
     | Inl e \<Rightarrow> err e
     | Inr remaining \<Rightarrow>
         dbind (if cfg_soft_limits cfg = \<lparr>sl_per_session_usd_cents = None, sl_per_agent_usd_cents = None\<rparr> then ok ([], False)
                else dbind (attempt (look (\<lambda>s. shared_pool_executor_usage s (spr_pool_id hold)))) (\<lambda>report.
                  ok (case report of
                        Inr report \<Rightarrow> (soft_warnings report (cfg_soft_limits cfg)
                          (Some (spr_session_id hold, spr_agent_id hold, executor_kind)), False)
                      | Inl _ \<Rightarrow> ([], True))))
           (\<lambda>(warnings, warnings_unavailable).
         dbind (rfc rt (pe_end period)) (\<lambda>period_end.
         ok (Out_Allowed \<lparr>al_reservation_id = spr_id hold, al_pool_id = spr_pool_id hold, al_hold_usd_cents = spr_amount hold,
           al_hold_reused = reused, al_executor_kind = executor_kind, al_remaining_usd_cents = remaining,
           al_period_end = period_end, al_warnings = warnings, al_warnings_unavailable = warnings_unavailable\<rparr>)))))"

section \<open>Admission\<close>

text \<open>Under gateway enforcement a Claude prompt reserves nothing; the answer is read-only.\<close>
definition admit_gateway ::
    "'f Runtime \<Rightarrow> 'f GateContext \<Rightarrow> string option \<Rightarrow> SharedBudgetOutcome daemon" where
  "admit_gateway rt gc agent_id =
     (let cfg = gc_cfg gc; period = gc_period gc; now = gc_now gc in
      dbind (remaining_of rt (pe_pool_id period) cfg now) (\<lambda>remaining.
      if gateway_run (rt_gateway_word rt) \<noteq> Run_GovernorHeld
      then denied rt Deny_GatewayUnavailable (Some remaining) (Some (pe_end period))
        (Some ''enforcement=gateway needs a running governor_held gateway'')
      else
        dbind (look (\<lambda>s. active_shared_hold_for_lane (rt_ext rt) s (pe_pool_id period) budget_principal (gc_lane gc)
          agent_id (gc_kind gc) now)) (\<lambda>hold.
        if hold = None \<and> remaining < i64_of_u64 (cfg_turn_hold_usd_cents cfg)
        then denied rt Deny_CapExhausted (Some remaining) (Some (pe_end period)) None
        else dbind (rfc rt (pe_end period)) (\<lambda>period_end. ok (Out_GatewayMetered remaining period_end)))))"

text \<open>The renewal of the live hold of a lane: an answer, or \<open>None\<close> to reserve afresh.\<close>
definition admit_renewal ::
    "'f Runtime \<Rightarrow> 'f GateContext \<Rightarrow> string option \<Rightarrow> SharedPoolReservation \<Rightarrow> SharedBudgetOutcome option daemon" where
  "admit_renewal rt gc renewing existing =
     (let cfg = gc_cfg gc; period = gc_period gc; now = gc_now gc; lane = gc_lane gc in
      dbind (case renewing of
               Some p \<Rightarrow> dbind (look (\<lambda>s. hold_for_prompt (rt_ext rt) s budget_principal lane p)) (\<lambda>h. ok (h \<noteq> Some (spr_id existing)))
             | None \<Rightarrow> ok False) (\<lambda>new_turn.
      dbind (if new_turn then
               dbind (remaining_of rt (pe_pool_id period) cfg now) (\<lambda>remaining.
               if clamp_i64 (remaining + i64_of_u64 (spr_amount existing)) < i64_of_u64 (cfg_turn_hold_usd_cents cfg)
               then dbind (denied rt Deny_CapExhausted (Some remaining) (Some (pe_end period)) None) (\<lambda>out. ok (Some out))
               else ok None)
             else ok None) (\<lambda>denial.
      case denial of
        Some out \<Rightarrow> ok (Some out)
      | None \<Rightarrow>
          dbind (tx (\<lambda>s. renew_shared_for_prompt (rt_ext rt) s (spr_id existing) budget_principal lane now HOLD_TTL_SECS renewing))
            (\<lambda>outcome. case outcome of
               Renew_Renewed renewed \<Rightarrow> dbind (allowed rt cfg period renewed True now) (\<lambda>out. ok (Some out))
             | _ \<Rightarrow> ok None))))"

definition turn_request ::
    "'f GateContext \<Rightarrow> string option \<Rightarrow> string \<Rightarrow> MeteredReserveRequest" where
  "turn_request gc agent_id key =
     \<lparr>mr_base = \<lparr>rq_pool_id = pe_pool_id (gc_period gc), rq_principal_id = budget_principal, rq_session_id = gc_lane gc,
        rq_amount = cfg_turn_hold_usd_cents (gc_cfg gc), rq_unit = UsdCents, rq_idempotency_key = key, rq_now = gc_now gc,
        rq_ttl_secs = HOLD_TTL_SECS, rq_attribution = attribution_for agent_id TurnHold\<rparr>,
      mr_session_cap = None, mr_capacity_source = source (gc_cfg gc)\<rparr>"

text \<open>One attempt to reserve; \<open>retry\<close> is what follows when the key names a hold that is no longer live.\<close>
definition admit_attempt ::
    "'f Runtime \<Rightarrow> 'f GateContext \<Rightarrow> string option \<Rightarrow> string option \<Rightarrow> uuid \<Rightarrow> string \<Rightarrow> SharedBudgetOutcome daemon
      \<Rightarrow> SharedBudgetOutcome daemon" where
  "admit_attempt rt gc agent_id main_prompt rid key retry =
     (let cfg = gc_cfg gc; period = gc_period gc; now = gc_now gc in
      dbind (attempt (tx (\<lambda>s. reserve_shared_metered_for_prompt (rt_ext rt) s (turn_request gc agent_id key) main_prompt rid)))
        (\<lambda>outcome. case outcome of
           Inl (Err_Ledger (QuotaUnitMismatch _ _)) \<Rightarrow> ok (refused Refuse_PoolUnitMismatch)
         | Inl (Err_Ledger SharedPoolKeyConflict) \<Rightarrow> ok (refused Refuse_KeyConflict)
         | Inl e \<Rightarrow> err e
         | Inr (Metered_Granted hold) \<Rightarrow> allowed rt cfg period hold False now
         | Inr (Metered_AlreadyGranted hold) \<Rightarrow>
             if spr_state hold = Active \<and> now < spr_expires_at hold \<and> spr_session_id hold = gc_lane gc
                \<and> spr_agent_id hold = agent_id
             then allowed rt cfg period hold True now else retry
         | Inr (Metered_Insufficient admission _) \<Rightarrow>
             denied rt Deny_CapExhausted (Some (pa_remaining admission)) (Some (pe_end period)) None
         | Inr Metered_NoPool \<Rightarrow> err (Err_Internal ''pool missing right after creation'')
         | Inr _ \<Rightarrow> err (Err_Internal ''a locally configured cap consulted a provider snapshot or session cap'')))"

definition main_lane_prompt :: "string option \<Rightarrow> string option \<Rightarrow> string option" where
  "main_lane_prompt prompt_id agent_id = (case prompt_id of
     Some p \<Rightarrow> if \<not> blank p \<and> agent_id = None then Some p else None | None \<Rightarrow> None)"

text \<open>The two attempts of the reserve loop.\<close>
definition admit_reserve ::
    "'f Runtime \<Rightarrow> 'f GateContext \<Rightarrow> string option \<Rightarrow> string option \<Rightarrow> SharedBudgetOutcome daemon" where
  "admit_reserve rt gc agent_id prompt_id =
     (let nonce_key = (\<lambda>u. hold_key (gc_lane gc) agent_id ''n'' (uuid_to_string (rt_ext rt) u));
          key = (case prompt_id of
              Some p \<Rightarrow> if \<not> blank p then hold_key (gc_lane gc) agent_id ''p'' p else nonce_key (rt_fresh rt 0)
            | None \<Rightarrow> nonce_key (rt_fresh rt 0));
          main_prompt = main_lane_prompt prompt_id agent_id
      in admit_attempt rt gc agent_id main_prompt (rt_fresh rt 1) key
           (admit_attempt rt gc agent_id main_prompt (rt_fresh rt 3) (nonce_key (rt_fresh rt 2))
              (err (Err_Internal ''a fresh idempotency key named an existing hold''))))"

definition admit_hooks ::
    "'f Runtime \<Rightarrow> 'f GateContext \<Rightarrow> string option \<Rightarrow> string option \<Rightarrow> SharedBudgetOutcome daemon" where
  "admit_hooks rt gc agent_id prompt_id =
     (let cfg = gc_cfg gc; period = gc_period gc; now = gc_now gc; lane = gc_lane gc;
          main_prompt = main_lane_prompt prompt_id agent_id in
      dbind (ensure_period_pool rt (pe_pool_id period) cfg now) (\<lambda>_.
      dbind (tx (\<lambda>s. expire_stale_shared_pool_reservations (rt_ext rt) s now)) (\<lambda>_.
      dbind (look (\<lambda>s. active_shared_hold_for_lane (rt_ext rt) s (pe_pool_id period) budget_principal lane agent_id
        (gc_kind gc) now)) (\<lambda>live_hold.
      dbind (case main_prompt of
               Some p \<Rightarrow> dbind (look (\<lambda>s. hold_for_prompt (rt_ext rt) s budget_principal lane p)) (\<lambda>accepted.
                 ok (case accepted of Some a \<Rightarrow> map_option spr_id live_hold \<noteq> Some a | None \<Rightarrow> False))
             | None \<Rightarrow> ok False) (\<lambda>replay.
      if replay then ok (refused Refuse_KeyConflict)
      else dbind (case live_hold of Some existing \<Rightarrow> admit_renewal rt gc main_prompt existing | None \<Rightarrow> ok None) (\<lambda>renewed.
        case renewed of Some out \<Rightarrow> ok out | None \<Rightarrow> admit_reserve rt gc agent_id prompt_id))))))"

definition admit ::
    "'f Runtime \<Rightarrow> string \<Rightarrow> string option \<Rightarrow> string option \<Rightarrow> string option \<Rightarrow> SharedBudgetOutcome daemon" where
  "admit rt session_id agent_id prompt_id provider =
     (let prompt_id = usable_prompt prompt_id in
      dbind (gate_context rt session_id agent_id provider) (\<lambda>gate.
      case gate of
        Inl outcome \<Rightarrow> ok outcome
      | Inr gc \<Rightarrow>
          if cfg_enforcement (gc_cfg gc) = Enforce_Gateway \<and> is_claude_provider provider
          then admit_gateway rt gc agent_id
          else admit_hooks rt gc agent_id prompt_id))"

section \<open>Check and heartbeat\<close>

definition check ::
    "'f Runtime \<Rightarrow> string \<Rightarrow> string option \<Rightarrow> string option \<Rightarrow> SharedBudgetOutcome daemon" where
  "check rt session_id agent_id provider =
     dbind (gate_context rt session_id agent_id provider) (\<lambda>gate.
     case gate of
       Inl outcome \<Rightarrow> ok outcome
     | Inr gc \<Rightarrow>
         let cfg = gc_cfg gc; period = gc_period gc; now = gc_now gc in
         dbind (remaining_of rt (pe_pool_id period) cfg now) (\<lambda>remaining.
         if cfg_enforcement cfg = Enforce_Gateway \<and> is_claude_provider provider then
           if gateway_run (rt_gateway_word rt) \<noteq> Run_GovernorHeld
           then denied rt Deny_GatewayUnavailable (Some remaining) (Some (pe_end period))
             (Some ''enforcement=gateway needs a running governor_held gateway'')
           else dbind (rfc rt (pe_end period)) (\<lambda>period_end. ok (Out_Checked Check_Available remaining period_end))
         else
           dbind (look (\<lambda>s. active_shared_hold_for_lane (rt_ext rt) s (pe_pool_id period) budget_principal (gc_lane gc)
             agent_id (gc_kind gc) now)) (\<lambda>lane_hold.
           let state = (if lane_hold \<noteq> None then Check_Admitted
                 else if remaining < i64_of_u64 (cfg_turn_hold_usd_cents cfg) then Check_Exhausted
                 else Check_Available)
           in dbind (rfc rt (pe_end period)) (\<lambda>period_end. ok (Out_Checked state remaining period_end)))))"

fun heartbeat_renewals ::
    "'f Runtime \<Rightarrow> Period \<Rightarrow> string \<Rightarrow> instant \<Rightarrow> SharedPoolReservation list \<Rightarrow> nat \<Rightarrow> nat daemon" where
  "heartbeat_renewals rt period session_id now [] renewed = ok renewed"
| "heartbeat_renewals rt period session_id now (hold # holds) renewed =
     (if spr_pool_id hold \<noteq> pe_pool_id period then heartbeat_renewals rt period session_id now holds renewed
      else dbind (tx (\<lambda>s. renew_shared (rt_ext rt) s (spr_id hold) budget_principal session_id now HOLD_TTL_SECS)) (\<lambda>outcome.
        heartbeat_renewals rt period session_id now holds
          (case outcome of Renew_Renewed _ \<Rightarrow> Suc renewed | _ \<Rightarrow> renewed)))"

definition heartbeat :: "'f Runtime \<Rightarrow> string \<Rightarrow> nat daemon" where
  "heartbeat rt session_id =
     (case rt_effective rt 0 of
        File_Valid cfg \<Rightarrow>
          (case validate_lane_key session_id of
             Inl _ \<Rightarrow> ok 0
           | Inr _ \<Rightarrow>
               let now = rt_now rt 0 in
               dbind (period_at rt cfg now) (\<lambda>period.
               dbind (look (\<lambda>s. active_shared_holds_for_session (rt_ext rt) s budget_principal session_id OWNER_POOL_PREFIX now))
                 (\<lambda>holds. heartbeat_renewals rt period session_id now holds 0)))
      | _ \<Rightarrow> ok 0)"

end
