(* ===== verification/Budget_Charge.thy ===== *)
theory Budget_Charge
  imports Budget_Core
begin

text \<open>
  Spend booked after the fact (\<open>charge\<close>, \<open>charge_on_lane\<close> and \<open>book_charge\<close> of
  \<open>crates/daemon/src/shared_budget.rs\<close>): which period a charge lands in, what is refused, and its replay.
  The year of an event time, in the offset it was written with, is \<open>rt_event_year\<close> of its text.
\<close>

section \<open>Plausible amounts\<close>

definition PLAUSIBLE_TURN_FLOOR_USD_CENTS :: u64 where "PLAUSIBLE_TURN_FLOOR_USD_CENTS = 100000"

definition saturating_mul :: "u64 \<Rightarrow> u64 \<Rightarrow> u64" where
  "saturating_mul a b = (if uint a * uint b \<le> u64_max then a * b else word_of_int u64_max)"

definition settlement_ceiling_usd_cents :: "u64 \<Rightarrow> u64" where
  "settlement_ceiling_usd_cents monthly_cap_usd_cents = max (saturating_mul monthly_cap_usd_cents 10) PLAUSIBLE_TURN_FLOOR_USD_CENTS"

definition exceeds_settlement_ceiling :: "u64 \<Rightarrow> u64 \<Rightarrow> bool" where
  "exceeds_settlement_ceiling cents ceil \<longleftrightarrow> ceil < cents"

text \<open>The log line is not modelled.\<close>
definition implausible_measurement :: "'f SharedBudgetFileState \<Rightarrow> u64 option \<Rightarrow> bool" where
  "implausible_measurement state cents =
     (case (state, cents) of
        (File_Valid cfg, Some cents) \<Rightarrow>
          exceeds_settlement_ceiling cents (settlement_ceiling_usd_cents (cfg_monthly_cap_usd_cents cfg))
      | _ \<Rightarrow> False)"

section \<open>Booking\<close>

definition event_year_ok :: "int \<Rightarrow> bool" where "event_year_ok y \<longleftrightarrow> 2000 \<le> y \<and> y \<le> 2200"

record BookedCharge =
  bc_session_id :: string
  bc_agent_id :: "string option"
  bc_amount_usd_cents :: u64
  bc_key :: string
  bc_charge_source :: ChargeSource
  bc_event_time :: "string option"
  bc_usage_known :: bool
  bc_watermark :: "SettleWatermark option"

text \<open>The event time of a charge: none, unusable, or the instant it names.\<close>
definition charge_event :: "'f Runtime \<Rightarrow> string option \<Rightarrow> SharedBudgetRefusal + instant option" where
  "charge_event rt event_time =
     (case event_time of
        None \<Rightarrow> Inr None
      | Some raw \<Rightarrow>
          (case time_parse (rt_ext rt) raw of
             Some t \<Rightarrow> if event_year_ok (rt_event_year rt raw) then Inr (Some t) else Inl Refuse_InvalidEventTime
           | None \<Rightarrow> Inl Refuse_InvalidEventTime))"

text \<open>The pool a charge belongs to, and whether its event time was clamped.\<close>
definition charge_pool ::
    "'f Runtime \<Rightarrow> 'f SharedBudgetConfig \<Rightarrow> string \<Rightarrow> Period \<Rightarrow> SharedPoolReservation option \<Rightarrow> instant option
      \<Rightarrow> (SharedBudgetRefusal + PoolId \<times> bool) daemon" where
  "charge_pool rt cfg session_id current existing event =
     (case (existing, event) of
        (Some found, _) \<Rightarrow> ok (Inr (spr_pool_id found, False))
      | (None, Some t) \<Rightarrow>
          dbind (period_at rt cfg t) (\<lambda>target.
          if pe_pool_id current < pe_pool_id target then ok (Inr (pe_pool_id current, True))
          else dbind (look (\<lambda>s. Inr (shared_retention_horizon s OWNER_POOL_PREFIX))) (\<lambda>pruned_through.
            if (case pruned_through of Some h \<Rightarrow> pe_pool_id target \<le> h | None \<Rightarrow> False)
            then ok (Inl Refuse_EventBeforeRetention)
            else ok (Inr (pe_pool_id target, False))))
      | (None, None) \<Rightarrow>
          dbind (look (\<lambda>s. latest_shared_hold_pool_for_session (rt_ext rt) s budget_principal session_id OWNER_POOL_PREFIX))
            (\<lambda>pool. ok (Inr (case pool of Some p \<Rightarrow> p | None \<Rightarrow> pe_pool_id current, False))))"

definition charge_request ::
    "'f SharedBudgetConfig \<Rightarrow> BookedCharge \<Rightarrow> PoolId \<Rightarrow> instant \<Rightarrow> SharedPoolChargeRequest" where
  "charge_request cfg charge pool_id now =
     \<lparr>cr_pool_id = pool_id, cr_principal_id = budget_principal, cr_session_id = bc_session_id charge,
      cr_amount = bc_amount_usd_cents charge, cr_unit = UsdCents, cr_idempotency_key = bc_key charge, cr_now = now,
      cr_attribution = (if bc_agent_id charge = None \<and> bc_charge_source charge = SubagentTranscript
        then unattributed (Some (bc_charge_source charge))
        else attribution_for (bc_agent_id charge) (bc_charge_source charge)),
      cr_capacity_source = source cfg, cr_usage_known = bc_usage_known charge\<rparr>"

text \<open>The answer to an outcome of the ledger.\<close>
definition charge_answer ::
    "'f Runtime \<Rightarrow> 'f SharedBudgetConfig \<Rightarrow> PoolId \<Rightarrow> instant \<Rightarrow> bool \<Rightarrow> u64 \<Rightarrow> SharedPoolChargeOutcome
      \<Rightarrow> SharedBudgetOutcome daemon" where
  "charge_answer rt cfg pool_id now clamped amount outcome =
     (let executor_kind_of = (\<lambda>r. expect (Err_Internal ''a charge row has no executor kind'') (spr_executor_kind r)) in
      case outcome of
        Charged reservation admission overrun capacity_known \<Rightarrow>
          dbind (executor_kind_of reservation) (\<lambda>kind.
          ok (Out_Charged \<lparr>ch_reservation_id = spr_id reservation, ch_pool_id = pool_id, ch_amount_usd_cents = amount,
            ch_already_charged = False, ch_executor_kind = kind, ch_remaining_usd_cents = pa_remaining admission,
            ch_overrun_usd_cents = overrun, ch_capacity_known = capacity_known, ch_event_time_clamped = clamped\<rparr>))
      | AlreadyCharged reservation \<Rightarrow>
          dbind (look (\<lambda>s. pool_admission_for (rt_ext rt) s pool_id now (source cfg))) (\<lambda>admission.
          dbind (executor_kind_of reservation) (\<lambda>kind.
          ok (Out_Charged \<lparr>ch_reservation_id = spr_id reservation, ch_pool_id = pool_id, ch_amount_usd_cents = amount,
            ch_already_charged = True, ch_executor_kind = kind,
            ch_remaining_usd_cents = (case admission of Some a \<Rightarrow> pa_remaining (sa_admission a) | None \<Rightarrow> 0),
            ch_overrun_usd_cents = (case admission of Some a \<Rightarrow> pa_overrun (sa_admission a) | None \<Rightarrow> 0),
            ch_capacity_known = (case admission of Some a \<Rightarrow> sa_capacity_known a | None \<Rightarrow> False),
            ch_event_time_clamped = False\<rparr>)))
      | KeyConflict _ \<Rightarrow> ok (refused Refuse_KeyConflict)
      | Charge_NoPool \<Rightarrow> err (Err_Internal ''pool missing right after creation''))"

text \<open>The booking proper: the pool exists, its total stays far inside \<open>i64\<close>, the ledger books the charge once.\<close>
definition book_in_pool ::
    "'f Runtime \<Rightarrow> 'f SharedBudgetConfig \<Rightarrow> BookedCharge \<Rightarrow> uuid \<Rightarrow> instant \<Rightarrow> SharedPoolReservation option \<Rightarrow> PoolId \<Rightarrow> bool
      \<Rightarrow> SharedBudgetOutcome daemon" where
  "book_in_pool rt cfg charge rid now existing pool_id clamped =
     (let amount = bc_amount_usd_cents charge in
      dbind (ensure_period_pool rt pool_id cfg now) (\<lambda>_.
      dbind (if existing = None then
               dbind (look (\<lambda>s. pool_admission_for (rt_ext rt) s pool_id now (source cfg))) (\<lambda>admission.
               let held = (case admission of
                     Some a \<Rightarrow> saturating_add (pa_settled (sa_admission a)) (pa_active (sa_admission a)) | None \<Rightarrow> 0)
               in ok (i64_max div 2 < uint (saturating_add held amount)))
             else ok False) (\<lambda>too_large.
      if too_large then ok (refused Refuse_AmountTooLarge)
      else
        dbind (attempt (tx (\<lambda>s. charge_shared_with_watermark (rt_ext rt) s (charge_request cfg charge pool_id now)
          (bc_watermark charge) rid))) (\<lambda>outcome.
        case outcome of
          Inl (Err_Ledger (QuotaUnitMismatch _ _)) \<Rightarrow> ok (refused Refuse_PoolUnitMismatch)
        | Inl e \<Rightarrow> err e
        | Inr outcome \<Rightarrow> charge_answer rt cfg pool_id now clamped amount outcome))))"

definition book_charge ::
    "'f Runtime \<Rightarrow> 'f SharedBudgetFileState \<Rightarrow> BookedCharge \<Rightarrow> uuid \<Rightarrow> instant \<Rightarrow> SharedBudgetOutcome daemon" where
  "book_charge rt state charge rid now =
     (let session_id = bc_session_id charge; amount = bc_amount_usd_cents charge in
      case rbind (validate_lane_key session_id) (\<lambda>_. validate_agent (bc_agent_id charge)) of
        Inl reason \<Rightarrow> ok (refused reason)
      | Inr _ \<Rightarrow>
          if amount = 0 \<or> i64_max < uint amount then ok (refused Refuse_InvalidAmount)
          else (case charge_event rt (bc_event_time charge) of
            Inl reason \<Rightarrow> ok (refused reason)
          | Inr event \<Rightarrow>
              (case configured state of
                 Inl outcome \<Rightarrow> ok outcome
               | Inr cfg \<Rightarrow>
                   if saturating_mul (cfg_monthly_cap_usd_cents cfg) 10 < amount then ok (refused Refuse_AmountTooLarge)
                   else
                     dbind (period_at rt cfg now) (\<lambda>current.
                     dbind (look (\<lambda>s. find_shared_reservation_by_key (rt_ext rt) s budget_principal (bc_key charge) OWNER_POOL_PREFIX))
                       (\<lambda>existing.
                     dbind (charge_pool rt cfg session_id current existing event) (\<lambda>target.
                     case target of
                       Inl reason \<Rightarrow> ok (refused reason)
                     | Inr (pool_id, clamped) \<Rightarrow>
                         book_in_pool rt cfg charge rid now existing pool_id clamped))))))"

section \<open>Charges of a client\<close>

definition charge_on_lane ::
    "'f Runtime \<Rightarrow> 'f SharedBudgetFileState \<Rightarrow> string \<Rightarrow> string option \<Rightarrow> u64 \<Rightarrow> string \<Rightarrow> ChargeSource \<Rightarrow> string option
      \<Rightarrow> SharedBudgetOutcome daemon" where
  "charge_on_lane rt state session_id agent_id amount_usd_cents idempotency_key charge_source event_time =
     (if state = File_Absent then ok Out_NotConfigured
      else case rbind (validate_lane_key session_id) (\<lambda>_. validate_agent agent_id) of
        Inl reason \<Rightarrow> ok (refused reason)
      | Inr _ \<Rightarrow>
          if amount_usd_cents = 0 \<or> i64_max < uint amount_usd_cents then ok (refused Refuse_InvalidAmount)
          else if blank idempotency_key then ok (refused Refuse_InvalidIdempotencyKey)
          else book_charge rt state
            \<lparr>bc_session_id = session_id, bc_agent_id = agent_id, bc_amount_usd_cents = amount_usd_cents,
             bc_key = ''charge:'' @ lp session_id @ ''|'' @ lp idempotency_key, bc_charge_source = charge_source,
             bc_event_time = event_time, bc_usage_known = True, bc_watermark = None\<rparr> (rt_fresh rt 0) (rt_now rt 0))"

definition charge ::
    "'f Runtime \<Rightarrow> string \<Rightarrow> string option \<Rightarrow> u64 \<Rightarrow> string \<Rightarrow> ChargeSource \<Rightarrow> string option \<Rightarrow> string option
      \<Rightarrow> SharedBudgetOutcome daemon" where
  "charge rt session_id agent_id amount_usd_cents idempotency_key charge_source event_time provider =
     (let state = rt_effective rt 0 in
      if state = File_Absent then ok Out_NotConfigured
      else case admission_lane rt session_id agent_id provider False of
        Inl outcome \<Rightarrow> ok outcome
      | Inr (_, lane) \<Rightarrow>
          if is_claude_provider provider \<and> gateway_enforced state then ok (refused Refuse_GatewayMetered)
          else charge_on_lane rt (rt_effective rt 1) lane agent_id amount_usd_cents idempotency_key charge_source event_time)"

end
