(* ===== verification/Budget_Effects.thy ===== *)
theory Budget_Effects
  imports Budget_Gateway Budget_Admit Budget_Charge
begin

text \<open>
  What a handler of the shared budget does to the ledger, whatever it answers. An effect is a relation
  between the store before and after; the rules for the combinators of a handler hold for every
  reflexive and transitive relation (the locale \<open>store_relation\<close>). Two relations are used: equality,
  for what only reads, and a run of ledger operations of a given kind.
\<close>

section \<open>Effects\<close>

definition effect :: "(LedgerStore \<Rightarrow> LedgerStore \<Rightarrow> bool) \<Rightarrow> 'a daemon \<Rightarrow> bool" where
  "effect R m \<longleftrightarrow> (\<forall>d. R (d_ledger d) (d_ledger (snd (m d))))"

lemma effectD: "effect R m \<Longrightarrow> m d = (r, d') \<Longrightarrow> R (d_ledger d) (d_ledger d')"
  by (metis effect_def snd_conv)

lemma dbindE:
  assumes "dbind m k d = (Inr b, d')"
  obtains a d1 where "m d = (Inr a, d1)" "k a d1 = (Inr b, d')"
  using assms by (auto simp: dbind_def split: prod.splits sum.splits)

lemma reads_ledger: "effect (=) m \<Longrightarrow> m d = (r, d') \<Longrightarrow> d_ledger d' = d_ledger d"
  by (auto dest: effectD)

lemma effect_mono: "effect R m \<Longrightarrow> (\<And>s t. R s t \<Longrightarrow> Q s t) \<Longrightarrow> effect Q m"
  by (simp add: effect_def)

lemma effect_cases:
  "(b \<Longrightarrow> effect R m) \<Longrightarrow> (\<not> b \<Longrightarrow> effect R n) \<Longrightarrow> effect R (if b then m else n)"
  "(v = None \<Longrightarrow> effect R m) \<Longrightarrow> (\<And>a. v = Some a \<Longrightarrow> effect R (k a)) \<Longrightarrow> effect R (case v of None \<Rightarrow> m | Some a \<Rightarrow> k a)"
  "(\<And>a. z = Inl a \<Longrightarrow> effect R (f a)) \<Longrightarrow> (\<And>b. z = Inr b \<Longrightarrow> effect R (g b)) \<Longrightarrow> effect R (case z of Inl a \<Rightarrow> f a | Inr b \<Rightarrow> g b)"
  "(\<And>a b. y = (a, b) \<Longrightarrow> effect R (h a b)) \<Longrightarrow> effect R (case y of (a, b) \<Rightarrow> h a b)"
  by (auto split: option.splits sum.splits prod.splits)

locale store_relation =
  fixes R :: "LedgerStore \<Rightarrow> LedgerStore \<Rightarrow> bool"
  assumes refl: "R s s" and trans: "R s t \<Longrightarrow> R t u \<Longrightarrow> R s u"
begin

lemma effect_reads: "effect (=) m \<Longrightarrow> effect R m"
  by (auto simp: effect_def refl)

lemma effect_pure:
  "effect R (ok a)" "effect R (err e)" "effect R (look q)" "effect R (telemetry f)" "effect R (expect e v)"
  by (auto simp: effect_def ok_def err_def look_def telemetry_def expect_def refl split: sum.splits option.splits)

lemma effect_dbind_result:
  assumes "effect R m" "\<And>a d d'. m d = (Inr a, d') \<Longrightarrow> effect R (k a)"
  shows "effect R (dbind m k)"
  unfolding effect_def
proof
  fix d
  obtain r d1 where m: "m d = (r, d1)" by fastforce
  from effectD [OF assms(1) m] show "R (d_ledger d) (d_ledger (snd (dbind m k d)))"
    using assms(2) m by (cases r) (auto simp: dbind_def effect_def intro: trans)
qed

lemma effect_dbind: "effect R m \<Longrightarrow> (\<And>a. effect R (k a)) \<Longrightarrow> effect R (dbind m k)"
  by (rule effect_dbind_result)

lemma effect_attempt: "effect R m \<Longrightarrow> effect R (attempt m)"
  by (simp add: effect_def attempt_def case_prod_beta)

lemma effect_tx: "(\<And>s. R s (committed s (f s))) \<Longrightarrow> effect R (tx f)"
  by (auto simp: effect_def tx_def committed_def refl split: sum.splits prod.splits)
     (metis (no_types, lifting) old.prod.case sum.simps(6))

lemma effect_call: "(\<And>s. R s (snd (f s))) \<Longrightarrow> effect R (call f)"
  by (auto simp: effect_def call_def split: sum.splits prod.splits) (metis snd_conv)+

lemmas effect_rules = effect_pure effect_dbind effect_attempt effect_cases

end

interpretation same_store: store_relation "(=)"
  by unfold_locales auto

section \<open>What only reads\<close>

lemma reads_answers:
  "effect (=) (rfc rt t)" "effect (=) (denied rt reason remaining period_end detail)"
  "effect (=) (anomaly rt pool period)" "effect (=) (period_at rt cfg moment)" "effect (=) (later_pool period)"
  "effect (=) (remaining_of rt pool_id cfg now)"
  by (auto simp: rfc_def denied_def anomaly_def period_at_def later_pool_def remaining_of_def Let_def
      split: sum.splits prod.splits option.splits intro!: same_store.effect_rules)

lemma gate_context_reads: "effect (=) (gate_context rt session_id agent_id provider)"
  by (auto simp: gate_context_def Let_def intro!: same_store.effect_rules reads_answers)

lemma admit_gateway_reads: "effect (=) (admit_gateway rt gc agent_id)"
  by (auto simp: admit_gateway_def Let_def intro!: same_store.effect_rules reads_answers)

lemma check_reads: "effect (=) (check rt session_id agent_id provider)"
  by (auto simp: check_def Let_def intro!: same_store.effect_rules reads_answers gate_context_reads)

lemma gateway_row_reads: "effect (=) (gateway_row rt rid)"
  by (auto simp: gateway_row_def intro!: same_store.effect_rules)

lemma charge_pool_reads: "effect (=) (charge_pool rt cfg session_id current existing event)"
  by (auto simp: charge_pool_def split: option.splits intro!: same_store.effect_rules reads_answers)

lemma charge_answer_reads: "effect (=) (charge_answer rt cfg pool_id now clamped amount outcome)"
  by (auto simp: charge_answer_def Let_def split: SharedPoolChargeOutcome.splits intro!: same_store.effect_rules)

lemma gateway_pricing_reads:
  "effect (=) (gateway_worst_case rt cfg req bound)" "effect (=) (gateway_reserved req worst outcome)"
  "effect (=) (gateway_refused refusal)"
  by (auto simp: gateway_worst_case_def gateway_reserved_def gateway_refused_def
      split: sum.splits ResourceAmount.splits MeteredReserveOutcome.splits SharedBudgetError.splits LedgerError.splits
      intro!: same_store.effect_rules)

section \<open>Runs of ledger operations\<close>

definition ledger_run ::
    "externals \<Rightarrow> calendar \<Rightarrow> (LedgerStore \<Rightarrow> ledger_op \<Rightarrow> bool) \<Rightarrow> LedgerStore \<Rightarrow> LedgerStore \<Rightarrow> bool" where
  "ledger_run x cal P s t \<longleftrightarrow> (\<exists>ops. t = run_ops x cal s ops \<and> along (apply_op x cal) P s ops)"

lemma run_ops_append: "run_ops x cal s (xs @ ys) = run_ops x cal (run_ops x cal s xs) ys"
  by (induction xs arbitrary: s) simp_all

lemma along_append: "along (apply_op x cal) P s (xs @ ys)
    \<longleftrightarrow> along (apply_op x cal) P s xs \<and> along (apply_op x cal) P (run_ops x cal s xs) ys"
  by (induction xs arbitrary: s) simp_all

interpretation runs: store_relation "ledger_run x cal P" for x cal P
proof
  show "ledger_run x cal P s s" for s unfolding ledger_run_def by (rule exI [of _ "[]"]) simp
  show "ledger_run x cal P s u" if "ledger_run x cal P s t" "ledger_run x cal P t u" for s t u
    using that unfolding ledger_run_def by (metis run_ops_append along_append)
qed

lemma ledger_run_step: "P s op \<Longrightarrow> ledger_run x cal P s (apply_op x cal s op)"
  unfolding ledger_run_def by (rule exI [of _ "[op]"]) simp

lemma ledger_run_mono:
  assumes "ledger_run x cal P s t" "\<And>s op. P s op \<Longrightarrow> Q s op"
  shows "ledger_run x cal Q s t"
proof -
  have "along (apply_op x cal) P s ops \<Longrightarrow> along (apply_op x cal) Q s ops" for s ops
    using assms(2) by (induction ops arbitrary: s) auto
  with assms(1) show ?thesis unfolding ledger_run_def by blast
qed

text \<open>What every permitted operation keeps, a run keeps.\<close>
lemma ledger_run_invariant:
  assumes "ledger_run x cal P s t" "I s" "\<And>s op. I s \<Longrightarrow> P s op \<Longrightarrow> I (apply_op x cal s op)"
  shows "I t"
proof -
  have "I s \<Longrightarrow> along (apply_op x cal) P s ops \<Longrightarrow> I (run_ops x cal s ops)" for s ops
    using assms(3) by (induction ops arbitrary: s) auto
  with assms(1,2) show ?thesis unfolding ledger_run_def by blast
qed

text \<open>A transaction of the ledger is one operation.\<close>
lemma effect_op:
  assumes "\<And>s. committed s (f s) = apply_op x cal s op" "\<And>s. P s op"
  shows "effect (ledger_run x cal P) (tx f)"
  using assms by (intro runs.effect_tx) (simp add: ledger_run_step)

section \<open>Operations within a cap\<close>

text \<open>Operations that reserve only against a local cap of at most \<open>C\<close> and book nothing beyond a reservation.\<close>
definition capped_op :: "int \<Rightarrow> LedgerStore \<Rightarrow> ledger_op \<Rightarrow> bool" where
  "capped_op C s op = (case op of
     Op_EnsurePool _ _ _ _ \<Rightarrow> True
   | Op_ReserveMetered req _ _ \<Rightarrow>
       (case mr_capacity_source req of LocalConfigured c \<Rightarrow> uint c \<le> C | ProviderSnapshot \<Rightarrow> False)
   | Op_Release _ _ \<Rightarrow> True
   | Op_ReleaseAndForget _ _ \<Rightarrow> True
   | Op_Renew _ _ _ _ _ _ \<Rightarrow> True
   | Op_ExpireStale _ \<Rightarrow> True
   | Op_SettleOrphans _ _ \<Rightarrow> True
   | _ \<Rightarrow> False)"

text \<open>A configuration's cap; a file that is not valid grants nothing.\<close>
definition cap_within :: "int \<Rightarrow> 'f SharedBudgetFileState \<Rightarrow> bool" where
  "cap_within C state = (case state of File_Valid cfg \<Rightarrow> uint (cfg_monthly_cap_usd_cents cfg) \<le> C | _ \<Rightarrow> True)"

abbreviation capped :: "'f Runtime \<Rightarrow> int \<Rightarrow> 'a daemon \<Rightarrow> bool" where
  "capped rt C \<equiv> effect (ledger_run (rt_ext rt) (rt_calendar rt) (capped_op C))"

lemma capped_reads: "effect (=) m \<Longrightarrow> capped rt C m"
  by (rule runs.effect_reads)

lemma ensure_period_pool_capped: "capped rt C (ensure_period_pool rt pool_id cfg now)"
proof -
  have "ledger_run (rt_ext rt) (rt_calendar rt) (capped_op C) s
      (snd (ensure_pool (rt_ext rt) s pool_id UsdCents (cfg_monthly_cap_usd_cents cfg) now))" for s
    using ledger_run_step [of "capped_op C" s "Op_EnsurePool pool_id UsdCents (cfg_monthly_cap_usd_cents cfg) now"]
    by (simp add: capped_op_def apply_op_def)
  then show ?thesis unfolding ensure_period_pool_def by (intro runs.effect_rules runs.effect_call)
qed

lemma capped_transactions:
  "capped rt C (tx (\<lambda>s. expire_stale_shared_pool_reservations (rt_ext rt) s now))"
  "capped rt C (tx (\<lambda>s. settle_orphaned_gateway_holds (rt_ext rt) s prefix now))"
  "capped rt C (tx (\<lambda>s. release_shared (rt_ext rt) s rid now))"
  "capped rt C (tx (\<lambda>s. release_and_forget_unstarted_shared (rt_ext rt) s rid now))"
  "capped rt C (tx (\<lambda>s. renew_shared_for_prompt (rt_ext rt) s rid pr se now ttl prompt))"
  "capped rt C (tx (\<lambda>s. renew_shared (rt_ext rt) s rid pr se now ttl))"
  by (rule effect_op [where op = "Op_ExpireStale now"] effect_op [where op = "Op_SettleOrphans prefix now"]
      effect_op [where op = "Op_Release rid now"] effect_op [where op = "Op_ReleaseAndForget rid now"]
      effect_op [where op = "Op_Renew rid pr se now ttl prompt"] effect_op [where op = "Op_Renew rid pr se now ttl None"];
      simp add: apply_op_def capped_op_def renew_shared_def)+

lemma capped_reserve:
  assumes "mr_capacity_source req = LocalConfigured c" "uint c \<le> C"
  shows "capped rt C (tx (\<lambda>s. reserve_shared_metered_for_prompt (rt_ext rt) s req prompt rid))"
    "capped rt C (tx (\<lambda>s. reserve_shared_metered (rt_ext rt) s req rid))"
  using assms
  by (rule_tac effect_op [where op = "Op_ReserveMetered req prompt rid"] effect_op [where op = "Op_ReserveMetered req None rid"];
      simp add: apply_op_def capped_op_def reserve_shared_metered_for_prompt_def)+

lemmas capped_rules = runs.effect_rules ensure_period_pool_capped capped_transactions
  reads_answers [THEN capped_reads]

section \<open>Handlers within the cap\<close>

lemma allowed_capped: "capped rt C (allowed rt cfg period hold reused now)"
  by (auto simp: allowed_def split: sum.splits SharedBudgetError.splits intro!: capped_rules)

lemma admit_renewal_capped: "capped rt C (admit_renewal rt gc renewing existing)"
  by (auto simp: admit_renewal_def Let_def split: SharedPoolRenewOutcome.splits intro!: capped_rules allowed_capped)

lemma admit_attempt_capped:
  assumes "uint (cfg_monthly_cap_usd_cents (gc_cfg gc)) \<le> C" "capped rt C retry"
  shows "capped rt C (admit_attempt rt gc agent_id main_prompt rid key retry)"
  using assms capped_reserve(1) [of "turn_request gc agent_id key" "cfg_monthly_cap_usd_cents (gc_cfg gc)" C rt main_prompt rid]
  by (auto simp: admit_attempt_def Let_def turn_request_def source_def
      split: MeteredReserveOutcome.splits SharedBudgetError.splits LedgerError.splits intro!: capped_rules allowed_capped)

lemma admit_hooks_capped:
  assumes "uint (cfg_monthly_cap_usd_cents (gc_cfg gc)) \<le> C"
  shows "capped rt C (admit_hooks rt gc agent_id prompt_id)"
  using assms
  by (auto simp: admit_hooks_def admit_reserve_def Let_def intro!: capped_rules admit_renewal_capped admit_attempt_capped)

lemma gate_context_config:
  "gate_context rt session_id agent_id provider d = (Inr (Inr gc), d') \<Longrightarrow> rt_effective rt 0 = File_Valid (gc_cfg gc)"
  by (auto simp: gate_context_def configured_def ok_def err_def dbind_def Let_def
      split: if_splits sum.splits prod.splits SharedBudgetFileState.splits option.splits)

lemma admit_capped:
  assumes "cap_within C (rt_effective rt 0)"
  shows "capped rt C (admit rt session_id agent_id prompt_id provider)"
  unfolding admit_def Let_def
proof (rule runs.effect_dbind_result [OF capped_reads [OF gate_context_reads]])
  fix gate d d' assume gate: "gate_context rt session_id agent_id provider d = (Inr gate, d')"
  show "capped rt C (case gate of Inl outcome \<Rightarrow> ok outcome | Inr gc \<Rightarrow>
      if cfg_enforcement (gc_cfg gc) = Enforce_Gateway \<and> is_claude_provider provider
      then admit_gateway rt gc agent_id else admit_hooks rt gc agent_id (usable_prompt prompt_id))"
    using gate assms
    by (auto simp: cap_within_def dest: gate_context_config intro!: capped_rules admit_hooks_capped capped_reads [OF admit_gateway_reads])
qed

lemma heartbeat_renewals_capped: "capped rt C (heartbeat_renewals rt period session_id now holds renewed)"
  by (induction holds arbitrary: renewed) (auto intro!: capped_rules)

lemma heartbeat_capped: "capped rt C (heartbeat rt session_id)"
  by (auto simp: heartbeat_def Let_def split: SharedBudgetFileState.splits sum.splits
      intro!: capped_rules heartbeat_renewals_capped)

lemma gateway_reserve_capped:
  assumes "cap_within C (rt_effective rt 0)"
  shows "capped rt C (gateway_reserve rt req)"
proof -
  have reserve: "capped rt C (tx (\<lambda>s. reserve_shared_metered (rt_ext rt) s (gateway_metered_request cfg req pool_id worst now) rid))"
    if "uint (cfg_monthly_cap_usd_cents cfg) \<le> C" for cfg pool_id worst now rid
    using that by (intro capped_reserve(2)) (simp_all add: gateway_metered_request_def source_def)
  show ?thesis
    using assms
    by (auto simp: gateway_reserve_def cap_within_def Let_def split: SharedBudgetFileState.splits
        intro!: capped_rules reserve gateway_pricing_reads [THEN capped_reads])
qed

lemma gateway_upkeep_capped:
  "capped rt C (gateway_release rt rid)" "capped rt C (gateway_renew rt rid ttl)"
  "capped rt C (gateway_orphans_at_start rt boot_id)"
  by (auto simp: gateway_release_def gateway_renew_def gateway_orphans_at_start_def split: GatewayRow.splits
      intro!: capped_rules gateway_row_reads [THEN capped_reads])

end
