(* ===== verification/Demo_Budget.thy ===== *)
theory Demo_Budget
  imports Budget_Core
begin

text \<open>
  A concrete daemon for the witnesses of the shared budget: a valid configuration with gateway enforcement,
  an empty ledger, and a runtime whose clock, ids and external crates are simple functions.
\<close>

definition demo_cfg :: "rat SharedBudgetConfig" where
  "demo_cfg = \<lparr>cfg_monthly_cap_usd_cents = 1000, cfg_time_zone = ''UTC'', cfg_turn_hold_usd_cents = 50,
     cfg_soft_limits = \<lparr>sl_per_session_usd_cents = None, sl_per_agent_usd_cents = None\<rparr>,
     cfg_subagent_unmeasured_charge_usd_cents = None, cfg_pricing_overrides = [], cfg_enforcement = Enforce_Gateway\<rparr>"

definition demo_telemetry :: Telemetry where
  "demo_telemetry = \<lparr>te_unpriced_models = {}, te_binding_mismatches = 0, te_unverified = 0, te_unmeasured_settlements = 0,
     te_unmeasured_charges = 0, te_id_less_records = 0, te_foreign_lines = 0, te_sweep_deferred_files = 0,
     te_future_timestamps = 0, te_unadmitted_turns = 0, te_codex_recovery_errors = 0, te_codex_recovery_last_error = None,
     te_unrouted_sessions = {}, te_orphans_booked = 0\<rparr>"

definition demo_daemon :: Daemon where
  "demo_daemon = \<lparr>d_ledger = empty_store, d_telemetry = demo_telemetry\<rparr>"

definition demo_runtime :: "instant \<Rightarrow> rat Runtime" where
  "demo_runtime now = \<lparr>rt_effective = (\<lambda>_. File_Valid demo_cfg), rt_now = (\<lambda>_. now), rt_fresh = (\<lambda>n. of_nat n + 7),
     rt_codex_enrolled = False, rt_gateway_word = 2, rt_ext = demo_externals, rt_calendar = demo_calendar,
     rt_floats = rat_floats, rt_event_year = (\<lambda>_. 2026), rt_json_array = (\<lambda>_. None), rt_sha256_hex = id,
     rt_error_text = (\<lambda>_. [])\<rparr>"

end
