(* ===== verification/Gateway_World.thy ===== *)
theory Gateway_World
  imports Budget_Effects Demo_Budget
begin

text \<open>
  The daemon under gateway enforcement, end to end: requests are reserved at their worst case, settled from
  what the provider reported, released, renewed or swept, interleaved with admissions, checks and heartbeats.
  The gateway's pricing, the daemon's handlers and the ledger together keep the monthly cap hard.
\<close>

section \<open>Stores within the cap\<close>

text \<open>No hold of the gateway has lapsed unbooked.\<close>
definition none_lapsed :: "LedgerStore \<Rightarrow> bool" where
  "none_lapsed s \<longleftrightarrow> list_all (\<lambda>r. gateway_hold r \<longrightarrow> r_state r \<noteq> ''expired'') (reservations s)"

definition covered :: "externals \<Rightarrow> int \<Rightarrow> LedgerStore \<Rightarrow> bool" where
  "covered x C s \<longleftrightarrow> sound x s \<and> none_lapsed s \<and> (\<forall>p. committed_total s p \<le> C)"

text \<open>A settlement of a gateway hold, not above it.\<close>
definition held_settle :: "externals \<Rightarrow> LedgerStore \<Rightarrow> ledger_op \<Rightarrow> bool" where
  "held_settle x s op = (case op of
     Op_Settle rid (Some v) _ _ _ _ \<Rightarrow>
       (case find (\<lambda>r. r_id r = uuid_to_string x rid) (reservations s) of
          Some row \<Rightarrow> gateway_hold row \<and> uint v \<le> r_amount row
        | None \<Rightarrow> False)
   | _ \<Rightarrow> False)"

definition world_op :: "externals \<Rightarrow> int \<Rightarrow> LedgerStore \<Rightarrow> ledger_op \<Rightarrow> bool" where
  "world_op x C s op \<longleftrightarrow> capped_op C s op \<or> held_settle x s op"

lemma settled_from_open:
  assumes "settle_shared_core x s rid actual uk t a wm = Inr (Settle_Settled u rf ov, s')"
    "find (\<lambda>r. r_id r = uuid_to_string x rid) (reservations s) = Some row"
  shows "r_state row = ''active'' \<or> r_state row = ''expired''"
  using assms(1) by (cases rule: settle_core_cases) (use assms(2) in auto)

lemma world_op_books_nothing:
  assumes "none_lapsed s" "world_op x C s op"
  shows "unreserved x p s op = 0" "gated_within x p C s op" "\<And>req. op \<noteq> Op_Prune req"
proof -
  have "unreserved x p s op = 0" if "held_settle x s op"
    using that assms(1)
    by (auto simp: held_settle_def unreserved_def none_lapsed_def list_all_iff dest: find_Some_mem dest!: settled_from_open
        split: ledger_op.splits option.splits sum.splits prod.splits SharedPoolSettleOutcome.splits)
  moreover have "unreserved x p s op = 0" if "capped_op C s op"
    using that by (auto simp: capped_op_def unreserved_def split: ledger_op.splits)
  ultimately show "unreserved x p s op = 0" using assms(2) by (auto simp: world_op_def)
  show "gated_within x p C s op" "\<And>req. op \<noteq> Op_Prune req"
    using assms(2)
    by (auto simp: world_op_def capped_op_def held_settle_def gated_within_def split: ledger_op.splits CapacitySource.splits)
qed

lemma none_lapsed_update:
  assumes "none_lapsed s" "reservations s' = update_where p f (reservations s)"
    "\<And>r. r_state (f r) \<noteq> ''expired'' \<or> gateway_hold (f r) = gateway_hold r \<and> r_state (f r) = r_state r"
  shows "none_lapsed s'"
  using assms(1) assms(3) unfolding none_lapsed_def assms(2)
  by (fastforce simp: list_all_iff update_where_def)

lemma none_lapsed_swept:
  assumes "none_lapsed s" "\<And>r. P r \<Longrightarrow> gateway_hold r \<Longrightarrow> g r"
  shows "none_lapsed (s\<lparr>reservations := swept P g n (reservations s)\<rparr>)"
  using assms by (auto simp: none_lapsed_def list_all_iff swept_def resolve_row_def book_row_def expired_row_def gateway_hold_def)

lemma none_lapsed_committed:
  assumes "none_lapsed s" "\<And>out s'. r = Inr (out, s') \<Longrightarrow> none_lapsed s'"
  shows "none_lapsed (committed s r)"
  using assms by (auto simp: committed_def split: sum.splits)

lemma settle_none_lapsed:
  assumes "none_lapsed s" "settle_shared_core x s rid actual uk t a wm = Inr (out, s')"
  shows "none_lapsed s'"
  using assms(2)
proof (cases rule: settle_core_cases)
  case (settled row res updated now_str supplied wt ids v)
  then show ?thesis by (intro none_lapsed_update [OF assms(1)]) (auto simp: settle_row_def split: prod.splits)
qed (use assms in simp)

lemma renew_none_lapsed:
  assumes "none_lapsed s" "renew_shared_for_prompt x s rid pr se t ttl prompt = Inr (out, s')"
  shows "none_lapsed s'"
  using assms(2)
proof (cases rule: renew_cases)
  case (renewed row res u e e_str)
  then show ?thesis
    by (intro none_lapsed_update [OF assms(1)]) (auto simp: renew_rows_def gateway_hold_def)
qed (use assms in simp)

lemma release_none_lapsed:
  assumes "none_lapsed s"
    "release_shared x s rid t = Inr (out, s') \<or> release_and_forget_unstarted_shared x s rid t = Inr (out, s')"
  shows "none_lapsed s'"
  using assms(2)
proof (cases rule: release_cases)
  case (released row u)
  with assms(2) obtain n where "reservations s' = release_rows x rid n (reservations s)"
    by (auto simp: release_shared_def release_and_forget_unstarted_shared_def Let_def elim!: rbindE
        split: option.splits if_splits)
  then show ?thesis by (intro none_lapsed_update [OF assms(1)]) (auto simp: release_rows_def)
qed (use assms in simp)

lemma reserve_none_lapsed:
  assumes "none_lapsed s" "reserve_shared_metered_for_prompt x s req prompt rid = Inr (out, s')"
  shows "none_lapsed s'"
proof (rule reserve_metered_effect [OF assms(2)])
  fix core s1
  assume core: "reserve_shared_core x s (mr_base req)
      (Some \<lparr>mg_session_cap = mr_session_cap req, mg_capacity_source = mr_capacity_source req\<rparr>) rid = Inr (core, s1)"
    and same: "reservations s' = reservations s1"
  from core have "none_lapsed s1"
  proof (cases rule: reserve_core_cases)
    case (1 r)
    with core show ?thesis
      using assms(1) by (auto elim!: reserve_core_granted simp: insert_reservation_eq_Inr none_lapsed_def hold_row_def)
  qed (use assms in simp)
  with same show ?thesis by (simp add: none_lapsed_def)
qed

lemma world_op_none_lapsed:
  assumes "sound x s" "none_lapsed s" "world_op x C s op"
  shows "none_lapsed (apply_op x cal s op)"
proof (cases op)
  case (Op_EnsurePool p u c t)
  then show ?thesis
    using assms(2) ensure_pool_sound [OF assms(1) surjective_pairing] by (simp add: apply_op_def none_lapsed_def)
next
  case (Op_ExpireStale t)
  have "none_lapsed s'" if "expire_stale_shared_pool_reservations x s t = Inr (out, s')" for out s'
    by (rule expiry_rows [OF soundD(1) [OF assms(1)] that]) (simp add: none_lapsed_swept [OF assms(2)])
  then show ?thesis by (simp add: Op_ExpireStale apply_op_def none_lapsed_committed [OF assms(2)])
next
  case (Op_SettleOrphans keep t)
  have "none_lapsed s'" if "settle_orphaned_gateway_holds x s keep t = Inr (out, s')" for out s'
    using soundD(1) [OF assms(1)] that
    by (cases rule: orphan_cases) (simp_all add: none_lapsed_swept [OF assms(2)] assms(2))
  then show ?thesis by (simp add: Op_SettleOrphans apply_op_def none_lapsed_committed [OF assms(2)])
qed (use assms(3) in \<open>auto simp: apply_op_def world_op_def capped_op_def held_settle_def
      intro!: none_lapsed_committed [OF assms(2)] dest: settle_none_lapsed [OF assms(2)] renew_none_lapsed [OF assms(2)]
        release_none_lapsed [OF assms(2) disjI1] release_none_lapsed [OF assms(2) disjI2] reserve_none_lapsed [OF assms(2)]\<close>)

lemma world_op_covered:
  assumes "externals_ok x" "covered x C s" "world_op x C s op"
  shows "covered x C (apply_op x cal s op)"
proof -
  have s: "sound x s" "none_lapsed s" using assms(2) by (simp_all add: covered_def)
  have "committed_total (apply_op x cal s op) p \<le> C" for p
    using apply_op_bound [OF s(1) world_op_books_nothing(2) [OF s(2) assms(3)], of cal p]
      world_op_books_nothing(1) [OF s(2) assms(3), of p] assms(2) by (simp add: covered_def)
  then show ?thesis
    using apply_op_sound [OF assms(1) s(1)] world_op_none_lapsed [OF s assms(3)] by (simp add: covered_def)
qed

section \<open>Holds and their rows\<close>

text \<open>The hold's row is in the table, whatever became of it.\<close>
definition recorded :: "externals \<Rightarrow> LedgerStore \<Rightarrow> GatewayHold \<Rightarrow> bool" where
  "recorded x s h \<longleftrightarrow> list_ex (\<lambda>r. r_id r = uuid_to_string x (gh_reservation_id h)
     \<and> r_amount r = uint (gh_reserved_usd_cents h) \<and> \<not> r_is_charge r) (reservations s)"

lemma recorded_in_place: "recorded x s h \<Longrightarrow> in_place (reservations s) (reservations s') \<Longrightarrow> recorded x s' h"
proof -
  assume "recorded x s h" "in_place (reservations s) (reservations s')"
  then obtain r r' where "r \<in> set (reservations s)" "evolves r r'" "r' \<in> set (reservations s')"
    "r_id r = uuid_to_string x (gh_reservation_id h)" "r_amount r = uint (gh_reserved_usd_cents h)" "\<not> r_is_charge r"
    by (auto simp: recorded_def list_ex_iff dest!: in_place_row)
  then show ?thesis by (auto simp: recorded_def list_ex_iff evolves_def same_hold_def)
qed

lemma world_run_keeps:
  assumes "externals_ok x" "ledger_run x cal (world_op x C) s t" "covered x C s" "\<forall>h \<in> H. recorded x s h"
  shows "covered x C t \<and> (\<forall>h \<in> H. recorded x t h)"
proof (rule ledger_run_invariant [OF assms(2), where I = "\<lambda>s. covered x C s \<and> (\<forall>h \<in> H. recorded x s h)"])
  fix s op assume s: "covered x C s \<and> (\<forall>h \<in> H. recorded x s h)" and op: "world_op x C s op"
  then have "in_place (reservations s) (reservations (apply_op x cal s op))"
    using apply_op_in_place [OF assms(1), of s op cal] world_op_books_nothing(3) by (auto simp: covered_def)
  then show "covered x C (apply_op x cal s op) \<and> (\<forall>h \<in> H. recorded x (apply_op x cal s op) h)"
    using s world_op_covered [OF assms(1) _ op] by (blast intro: recorded_in_place)
qed (use assms in simp)

lemma same_row:
  assumes "store_ok s" "r \<in> set (reservations s)" "r' \<in> set (reservations s)" "r_id r = r_id r'"
  shows "r = r'"
  using assms by (auto simp: store_ok_def distinct_map dest: inj_onD)

lemma admission_never_replays [simp]: "admission_decision x s req metered pool \<noteq> Inr (Inl (Core_AlreadyGranted hold))"
  by (auto simp: admission_decision_def Let_def elim!: rbindE split: option.splits if_splits sum.splits prod.splits)

lemma reserve_metered_recorded:
  assumes "sound x s'" "reserve_shared_metered x s req rid = Inr (out, s')"
    "out = Metered_Granted hold \<or> out = Metered_AlreadyGranted hold"
  shows "\<exists>r \<in> set (reservations s'). r_id r = uuid_to_string x (spr_id hold) \<and> r_amount r = uint (spr_amount hold) \<and> \<not> r_is_charge r"
proof -
  let ?gate = "Some \<lparr>mg_session_cap = mr_session_cap req, mg_capacity_source = mr_capacity_source req\<rparr>"
  from assms(2,3) consider (granted) "reserve_shared_core x s (mr_base req) ?gate rid = Inr (Core_Granted hold, s')"
    | (already) "reserve_shared_core x s (mr_base req) ?gate rid = Inr (Core_AlreadyGranted hold, s')"
    by (auto simp: reserve_shared_metered_def elim!: rbindE split: CoreReserveOutcome.splits)
  then show ?thesis
  proof cases
    case granted
    then show ?thesis
      by (rule reserve_core_granted) (auto simp: insert_reservation_eq_Inr hold_row_def granted_reservation_def)
  next
    case already
    then obtain row row' where row: "find_by_key s' (rq_pool_id (mr_base req)) (rq_principal_id (mr_base req))
          (rq_idempotency_key (mr_base req)) = Some row" "row_to_reservation x row = Inr hold"
      "find (\<lambda>r. r_id r = uuid_to_string x (spr_id hold)) (reservations s') = Some row'" "\<not> r_is_charge row'"
      by (auto simp: reserve_shared_core_def is_charge_row_tx_def ok_or_eq_Inr elim!: rbindE
          split: option.splits if_splits sum.splits)
    then have mem: "row \<in> set (reservations s')" "row' \<in> set (reservations s')" "r_id row' = uuid_to_string x (spr_id hold)"
      by (auto simp: find_by_key_def dest!: find_Some_mem)
    then have ok: "row_ok row" "row_intact x row"
      using soundD(3,4) [OF assms(1)] by (simp_all add: list_all_iff)
    then have "r_id row = uuid_to_string x (spr_id hold)"
      using row_to_reservation_fields(3) [OF row(2)] by (auto simp: row_intact_def row(2))
    then have "row = row'" using same_row [OF soundD(1) [OF assms(1)] mem(1,2)] mem(3) by simp
    moreover have "r_amount row = uint (spr_amount hold)"
      using row_to_reservation_fields(1) [OF row(2)] row_ok_bounds(1) [OF ok(1)]
      by (auto simp: get_u64_eq_Inr uint_word_of_int i64_max_def)
    ultimately show ?thesis using mem row(4) by auto
  qed
qed

section \<open>Granting\<close>

text \<open>The hold was granted at the worst case of its own parameters.\<close>
definition priced_hold :: "rat SharedBudgetConfig \<Rightarrow> GatewayReserveRequest \<Rightarrow> GatewayHold \<Rightarrow> bool" where
  "priced_hold cfg req h \<longleftrightarrow>
     (case worst_case_usd_reservation rat_floats (gh_input_bound_tokens h) (Some (gh_max_tokens h)) (gh_model h)
         (gr_fast_requested req) (overrides_table rat_floats (cfg_pricing_overrides cfg)) of
        Inr (RA_UsdCents cents) \<Rightarrow> 0 \<le> cents \<and> cents = uint (gh_reserved_usd_cents h)
      | _ \<Rightarrow> False)"

lemma worst_case_cents_range:
  "worst_case_usd_reservation rat_floats bound max_tokens model fast table = Inr (RA_UsdCents cents) \<Longrightarrow> cents \<le> i64_max \<and> max_tokens \<noteq> None"
  by (auto simp: worst_case_usd_reservation_def positive_max_tokens_def rbind_eq_Inr ok_or_eq_Inr Let_def usd_to_cents_ceil_def
      rat_ops clamp_i64_def clamp_def i64_max_def i64_min_def split: if_splits option.splits)

definition under :: "externals \<Rightarrow> calendar \<Rightarrow> rat SharedBudgetConfig \<Rightarrow> rat Runtime \<Rightarrow> bool" where
  "under x cal cfg rt \<longleftrightarrow> rt_ext rt = x \<and> rt_calendar rt = cal \<and> rt_floats rt = rat_floats
     \<and> rt_effective rt 0 = File_Valid cfg"

lemma reserved_amount:
  assumes "reserve_shared_metered x s req rid = Inr (Metered_Granted hold, s')"
  shows "spr_amount hold = rq_amount (mr_base req)"
  using assms
  by (auto simp: reserve_shared_metered_def granted_reservation_def elim!: rbindE reserve_core_granted split: CoreReserveOutcome.splits)

lemma gateway_reserve_steps:
  assumes "rt_effective rt 0 = File_Valid cfg" "gateway_reserve rt req d = (Inr (GRO_Granted h), d')"
  obtains pool worst hold d0 d1 out s where
    "gateway_worst_case rt cfg req (hard_input_upper_bound (gr_body_bytes req) (gr_image_count req)) d0 = (Inr (Inr worst), d1)"
    "reserve_shared_metered (rt_ext rt) s (gateway_metered_request cfg req pool worst (rt_now rt 0)) (rt_fresh rt 0)
      = Inr (out, d_ledger d')"
    "out = Metered_Granted hold \<or> out = Metered_AlreadyGranted hold \<and> spr_amount hold = worst"
    "gh_reservation_id h = spr_id hold" "gh_reserved_usd_cents h = spr_amount hold"
    "gh_input_bound_tokens h = hard_input_upper_bound (gr_body_bytes req) (gr_image_count req)"
    "gh_model h = gr_model req" "gh_max_tokens h = (case gr_max_tokens req of Some m \<Rightarrow> m | None \<Rightarrow> 0)"
proof -
  from assms obtain period :: Period and d0 d1 d2 d3 d4 worst outcome hold replayed remaining where
    worst: "gateway_worst_case rt cfg req (hard_input_upper_bound (gr_body_bytes req) (gr_image_count req)) d0 = (Inr (Inr worst), d1)"
    and reserve: "attempt (tx (\<lambda>s. reserve_shared_metered (rt_ext rt) s
      (gateway_metered_request cfg req (pe_pool_id period) worst (rt_now rt 0)) (rt_fresh rt 0))) d2 = (Inr outcome, d3)"
    and hold: "gateway_reserved req worst outcome d3 = (Inr (Inr (hold, replayed)), d4)"
    and rem: "remaining_of rt (spr_pool_id hold) cfg (rt_now rt 0) d4 = (Inr remaining, d')"
    and h: "gh_reservation_id h = spr_id hold" "gh_reserved_usd_cents h = spr_amount hold"
      "gh_input_bound_tokens h = hard_input_upper_bound (gr_body_bytes req) (gr_image_count req)"
      "gh_model h = gr_model req" "gh_max_tokens h = (case gr_max_tokens req of Some m \<Rightarrow> m | None \<Rightarrow> 0)"
    by (auto simp: gateway_reserve_def gateway_refused_def ok_def Let_def elim!: dbindE
        split: if_splits sum.splits option.splits)
  from hold obtain out where out: "outcome = Inr out" "d4 = d3"
    "out = Metered_Granted hold \<or> out = Metered_AlreadyGranted hold \<and> spr_amount hold = worst"
    by (auto simp: gateway_reserved_def ok_def err_def
        split: sum.splits if_splits MeteredReserveOutcome.splits SharedBudgetError.splits LedgerError.splits)
  have "d_ledger d' = d_ledger d3" using reads_ledger [OF reads_answers(6) rem] out(2) by simp
  with reserve out(1) have "reserve_shared_metered (rt_ext rt) (d_ledger d2)
      (gateway_metered_request cfg req (pe_pool_id period) worst (rt_now rt 0)) (rt_fresh rt 0) = Inr (out, d_ledger d')"
    by (auto simp: attempt_def tx_def split: sum.splits prod.splits)
  from that [OF worst this out(3) h] show thesis .
qed

lemma gateway_reserve_granted:
  assumes "under x cal cfg rt" "gateway_reserve rt req d = (Inr (GRO_Granted h), d')" "sound x (d_ledger d')"
  shows "priced_hold cfg req h \<and> recorded x (d_ledger d') h"
proof -
  have rt: "rt_ext rt = x" "rt_floats rt = rat_floats" "rt_effective rt 0 = File_Valid cfg"
    using assms(1) by (simp_all add: under_def)
  show ?thesis
  proof (rule gateway_reserve_steps [OF rt(3) assms(2)])
    fix pool worst hold d0 d1 out s
    assume worst: "gateway_worst_case rt cfg req (hard_input_upper_bound (gr_body_bytes req) (gr_image_count req)) d0 = (Inr (Inr worst), d1)"
      and reserve: "reserve_shared_metered (rt_ext rt) s (gateway_metered_request cfg req pool worst (rt_now rt 0)) (rt_fresh rt 0)
        = Inr (out, d_ledger d')"
      and out: "out = Metered_Granted hold \<or> out = Metered_AlreadyGranted hold \<and> spr_amount hold = worst"
      and h: "gh_reservation_id h = spr_id hold" "gh_reserved_usd_cents h = spr_amount hold"
        "gh_input_bound_tokens h = hard_input_upper_bound (gr_body_bytes req) (gr_image_count req)"
        "gh_model h = gr_model req" "gh_max_tokens h = (case gr_max_tokens req of Some m \<Rightarrow> m | None \<Rightarrow> 0)"
    have "spr_amount hold = worst"
      using out reserve by (auto dest: reserved_amount simp: gateway_metered_request_def)
    moreover from worst obtain cents where "worst_case_usd_reservation rat_floats (gh_input_bound_tokens h) (gr_max_tokens req)
        (gh_model h) (gr_fast_requested req) (overrides_table rat_floats (cfg_pricing_overrides cfg)) = Inr (RA_UsdCents cents)"
      "0 \<le> cents" "worst = word_of_int cents"
      by (auto simp: gateway_worst_case_def ok_def err_def rt h split: sum.splits ResourceAmount.splits if_splits)
    ultimately have "priced_hold cfg req h"
      using worst_case_cents_range by (fastforce simp: priced_hold_def h uint_word_of_int i64_max_def)
    moreover have "recorded x (d_ledger d') h"
      using reserve_metered_recorded [OF assms(3) reserve [unfolded rt]] out
      by (auto simp: recorded_def list_ex_iff h)
    ultimately show ?thesis ..
  qed
qed

section \<open>Settling\<close>

definition settle_request ::
    "GatewayHold \<Rightarrow> ObservedUsage option \<Rightarrow> bool \<Rightarrow> bool \<Rightarrow> GatewaySettleRequest" where
  "settle_request h obs clean saw_message_start =
     \<lparr>gs_reservation_id = gh_reservation_id h, gs_observed = obs, gs_completed_cleanly = clean,
      gs_saw_message_start = saw_message_start, gs_model = gh_model h, gs_max_tokens = gh_max_tokens h,
      gs_input_bound_tokens = gh_input_bound_tokens h\<rparr>"

text \<open>The provider keeps to the request: no more prompt than the body can hold, no more output than asked for,
  fast mode only when asked for.\<close>
definition honest :: "GatewayReserveRequest \<Rightarrow> GatewayHold \<Rightarrow> ObservedUsage option \<Rightarrow> bool" where
  "honest req h obs \<longleftrightarrow> uint (gh_input_bound_tokens h) < u64_max
     \<and> (case obs of None \<Rightarrow> True | Some u \<Rightarrow> prompt_tokens u \<le> gh_input_bound_tokens h
        \<and> \<not> bound_violated (gh_max_tokens h) (ou_output_tokens u) \<and> (ou_speed u = SpeedFast \<longrightarrow> gr_fast_requested req))"

definition whole_pico_table :: "rat SharedBudgetConfig \<Rightarrow> bool" where
  "whole_pico_table cfg \<longleftrightarrow>
     list_all (\<lambda>(_, r). whole_pico_row r) (pt_entries (overrides_table rat_floats (cfg_pricing_overrides cfg)))"

lemma gateway_priced_within:
  assumes "under x cal cfg rt" "whole_pico_table cfg" "priced_hold cfg req h" "honest req h obs"
    "gateway_priced rt (settle_request h obs clean saw) (gh_reserved_usd_cents h) = (amount, known, flags)"
  shows "\<exists>cents. amount = RA_UsdCents cents \<and> 0 \<le> cents \<and> cents \<le> uint (gh_reserved_usd_cents h)"
proof -
  let ?table = "overrides_table rat_floats (cfg_pricing_overrides cfg)"
  let ?reserved = "uint (gh_reserved_usd_cents h)"
  have worst: "worst_case_usd_reservation rat_floats (gh_input_bound_tokens h) (Some (gh_max_tokens h)) (gh_model h)
      (gr_fast_requested req) ?table = Inr (RA_UsdCents ?reserved)"
    using assms(3) by (auto simp: priced_hold_def split: sum.splits ResourceAmount.splits)
  have "i64_of_u64 (gh_reserved_usd_cents h) = ?reserved"
    using worst_case_cents_range [OF worst] by (simp add: i64_of_u64_def)
  then have settle: "settle_amount_for rat_floats obs clean saw (RA_UsdCents ?reserved) (gh_max_tokens h)
      (gh_input_bound_tokens h) Kind_Usd (gh_model h) ?table = (amount, known, flags)"
    using assms(1,5) by (simp add: gateway_priced_def settle_request_def under_def)
  have "\<not> sf_input_bound_violated flags"
    using bound_flag_exact [OF settle] assms(4) by (auto simp: honest_def word_le_def word_less_alt)
  then show ?thesis
    using settlement_covered [OF worst settle] assms(2,4)
    by (cases obs) (auto simp: whole_pico_table_def list_all_iff honest_def)
qed

lemma hold_row_found:
  assumes "sound x s" "recorded x s h" "get_shared_reservation_tx x s (gh_reservation_id h) = Inr (Some res)"
  obtains r where "find (\<lambda>r. r_id r = uuid_to_string x (gh_reservation_id h)) (reservations s) = Some r"
    "r_amount r = uint (gh_reserved_usd_cents h)" "spr_amount res = gh_reserved_usd_cents h"
    "spr_charge_source res = Some Gateway \<Longrightarrow> gateway_hold r"
  using assms(3)
proof (cases rule: get_shared_reservation_cases)
  case (some r res')
  then have res: "row_to_reservation x r = Inr res" by simp
  obtain r0 where r0: "r0 \<in> set (reservations s)" "r_id r0 = uuid_to_string x (gh_reservation_id h)"
    "r_amount r0 = uint (gh_reserved_usd_cents h)" "\<not> r_is_charge r0"
    using assms(2) by (auto simp: recorded_def list_ex_iff)
  have r: "r = r0"
    using same_row [OF soundD(1) [OF assms(1)] _ r0(1)] find_Some_mem [OF some(3)] r0(2) by simp
  have "r_charge_source r = Some ''gateway''" if "spr_charge_source res = Some Gateway"
    using row_to_reservation_fields(12) [OF res] that
    by (cases "r_charge_source r") (auto simp: res_simps charge_source.parse_iff ChargeSource_as_str_def)
  then have "gateway_hold r" if "spr_charge_source res = Some Gateway"
    using that r r0(4) by (simp add: gateway_hold_def)
  then show ?thesis
    using that [OF some(3)] row_to_reservation_fields(1) [OF res] r r0(3) by (simp add: get_u64_eq_Inr)
qed simp

lemma gateway_settle_runs:
  assumes "under x cal cfg rt" "whole_pico_table cfg" "priced_hold cfg req h" "honest req h obs"
    "sound x (d_ledger d)" "recorded x (d_ledger d) h"
    "gateway_settle rt (settle_request h obs clean saw) d = (r, d')"
  shows "ledger_run x cal (world_op x C) (d_ledger d) (d_ledger d')"
proof -
  let ?s = "d_ledger d" and ?rid = "gh_reservation_id h"
  let ?tx = "\<lambda>v known. settle_shared_core x ?s ?rid (Some v) known (rt_now rt 0) attribution_default None"
  have x: "rt_ext rt = x" using assms(1) by (simp add: under_def)
  have rid: "gs_reservation_id (settle_request h obs clean saw) = ?rid" by (simp add: settle_request_def)
  consider (kept) "d_ledger d' = ?s"
    | (settles) row v known where "get_shared_reservation_tx x ?s ?rid = Inr (Some row)" "spr_charge_source row = Some Gateway"
      "spr_amount row = gh_reserved_usd_cents h \<Longrightarrow> uint v \<le> uint (gh_reserved_usd_cents h)"
      "d_ledger d' = committed ?s (?tx v known)"
  proof (cases "\<exists>row. get_shared_reservation_tx x ?s ?rid = Inr (Some row) \<and> spr_charge_source row = Some Gateway
      \<and> spr_principal_id row = budget_principal \<and> starts_with POOL_PREFIX (spr_pool_id row)")
    case False
    then show ?thesis
      using assms(7) kept by (auto simp: gateway_settle_def gateway_row_def dbind_def look_def ok_def x rid split: sum.splits option.splits)
  next
    case True
    then obtain row where row: "get_shared_reservation_tx x ?s ?rid = Inr (Some row)" "spr_charge_source row = Some Gateway"
      "spr_principal_id row = budget_principal" "starts_with POOL_PREFIX (spr_pool_id row)" by blast
    obtain amount known flags where priced: "gateway_priced rt (settle_request h obs clean saw) (spr_amount row) = (amount, known, flags)"
      by (metis prod_cases3)
    define v where "v = (case amount of RA_UsdCents cents \<Rightarrow> if 0 \<le> cents then word_of_int cents else spr_amount row | _ \<Rightarrow> spr_amount row)"
    have "d_ledger d' = committed ?s (?tx v known)"
      using assms(7)
      by (auto simp: gateway_settle_def gateway_row_def dbind_def look_def ok_def x rid row priced Let_def v_def [symmetric]
          tx_def settle_shared_marked_def committed_def split: sum.splits prod.splits)
    moreover have "uint v \<le> uint (gh_reserved_usd_cents h)" if "spr_amount row = gh_reserved_usd_cents h"
      using gateway_priced_within [OF assms(1-4) priced [unfolded that]] uint_u64_bounds(2) [of "gh_reserved_usd_cents h"]
      by (auto simp: v_def uint_word_of_int u64_max_def)
    ultimately show ?thesis using settles row(1,2) by blast
  qed
  then show ?thesis
  proof cases
    case kept
    then show ?thesis by (simp add: runs.refl)
  next
    case (settles row v known)
    have "held_settle x ?s (Op_Settle ?rid (Some v) known (rt_now rt 0) attribution_default None)"
      by (rule hold_row_found [OF assms(5,6) settles(1)]) (simp add: held_settle_def settles(2,3))
    then show ?thesis
      using ledger_run_step [of "world_op x C" ?s "Op_Settle ?rid (Some v) known (rt_now rt 0) attribution_default None" x cal]
      by (simp add: world_op_def apply_op_def settles(4))
  qed
qed

section \<open>The world\<close>

text \<open>What else the daemon serves between requests of the gateway.\<close>
inductive serves :: "rat Runtime \<Rightarrow> Daemon \<Rightarrow> Daemon \<Rightarrow> bool" for rt where
  "admit rt session_id agent_id prompt_id provider d = (r, d') \<Longrightarrow> serves rt d d'"
| "check rt session_id agent_id provider d = (r, d') \<Longrightarrow> serves rt d d'"
| "heartbeat rt session_id d = (n, d') \<Longrightarrow> serves rt d d'"
| "gateway_release rt rid d = (rl, d') \<Longrightarrow> serves rt d d'"
| "gateway_renew rt rid ttl_secs d = (rn, d') \<Longrightarrow> serves rt d d'"
| "gateway_orphans_at_start rt boot_id d = (ro, d') \<Longrightarrow> serves rt d d'"

lemma serves_runs:
  assumes "serves rt d d'" "cap_within C (rt_effective rt 0)"
  shows "ledger_run (rt_ext rt) (rt_calendar rt) (capped_op C) (d_ledger d) (d_ledger d')"
  using assms(1)
  by cases (auto dest: effectD [OF admit_capped [OF assms(2)]] effectD [OF capped_reads [OF check_reads]]
      effectD [OF heartbeat_capped] effectD [OF gateway_upkeep_capped(1)] effectD [OF gateway_upkeep_capped(2)]
      effectD [OF gateway_upkeep_capped(3)])

text \<open>Daemon states, with the holds granted so far, from an empty ledger. Every request is answered in a
  runtime of its own: any clock, any fresh ids, any run state of the gateway.\<close>
inductive gateway_world ::
    "externals \<Rightarrow> calendar \<Rightarrow> rat SharedBudgetConfig \<Rightarrow> Daemon \<Rightarrow> (GatewayHold \<times> GatewayReserveRequest) list \<Rightarrow> bool"
  for x cal cfg where
  start: "d_ledger d = empty_store \<Longrightarrow> gateway_world x cal cfg d []"
| granted: "gateway_world x cal cfg d G \<Longrightarrow> under x cal cfg rt \<Longrightarrow> gateway_reserve rt req d = (Inr (GRO_Granted h), d')
    \<Longrightarrow> gateway_world x cal cfg d' ((h, req) # G)"
| refused: "gateway_world x cal cfg d G \<Longrightarrow> under x cal cfg rt \<Longrightarrow> gateway_reserve rt req d = (r, d')
    \<Longrightarrow> gateway_world x cal cfg d' G"
| settled: "gateway_world x cal cfg d G \<Longrightarrow> under x cal cfg rt \<Longrightarrow> (h, req) \<in> set G \<Longrightarrow> honest req h obs
    \<Longrightarrow> gateway_settle rt (settle_request h obs clean saw_message_start) d = (r, d') \<Longrightarrow> gateway_world x cal cfg d' G"
| served: "gateway_world x cal cfg d G \<Longrightarrow> under x cal cfg rt \<Longrightarrow> serves rt d d' \<Longrightarrow> gateway_world x cal cfg d' G"

definition world_ok ::
    "externals \<Rightarrow> rat SharedBudgetConfig \<Rightarrow> Daemon \<Rightarrow> (GatewayHold \<times> GatewayReserveRequest) list \<Rightarrow> bool" where
  "world_ok x cfg d G \<longleftrightarrow> covered x (uint (cfg_monthly_cap_usd_cents cfg)) (d_ledger d)
     \<and> (\<forall>(h, req) \<in> set G. priced_hold cfg req h \<and> recorded x (d_ledger d) h)"

lemma world_ok_run:
  assumes "externals_ok x" "world_ok x cfg d G"
    "ledger_run x cal (world_op x (uint (cfg_monthly_cap_usd_cents cfg))) (d_ledger d) (d_ledger d')"
  shows "world_ok x cfg d' G"
proof -
  have "covered x (uint (cfg_monthly_cap_usd_cents cfg)) (d_ledger d)" "\<forall>h \<in> fst ` set G. recorded x (d_ledger d) h"
    using assms(2) by (auto simp: world_ok_def)
  from world_run_keeps [OF assms(1,3) this] assms(2) show ?thesis by (fastforce simp: world_ok_def)
qed

lemma capped_run_world: "ledger_run x cal (capped_op C) s t \<Longrightarrow> ledger_run x cal (world_op x C) s t"
  by (erule ledger_run_mono) (simp add: world_op_def)

lemma gateway_world_ok:
  assumes "externals_ok x" "whole_pico_table cfg" "gateway_world x cal cfg d G"
  shows "world_ok x cfg d G"
  using assms(3)
proof induction
  case (start d)
  have "committed_total empty_store p = 0" for p
    by (simp add: committed_total_def settled_total_def active_total_def empty_store_def)
  then show ?case
    using start empty_store_sound by (simp add: world_ok_def covered_def none_lapsed_def empty_store_def)
next
  case (granted d G rt req h d')
  have "cap_within (uint (cfg_monthly_cap_usd_cents cfg)) (rt_effective rt 0)"
    using granted(2) by (simp add: under_def cap_within_def)
  from effectD [OF gateway_reserve_capped [OF this] granted(3)] granted(2)
  have "world_ok x cfg d' G"
    using world_ok_run [OF assms(1) granted(4) capped_run_world] by (simp add: under_def)
  moreover from this gateway_reserve_granted [OF granted(2,3)] have "priced_hold cfg req h \<and> recorded x (d_ledger d') h"
    by (simp add: world_ok_def covered_def)
  ultimately show ?case by (auto simp: world_ok_def)
next
  case (refused d G rt req r d')
  have "cap_within (uint (cfg_monthly_cap_usd_cents cfg)) (rt_effective rt 0)"
    using refused(2) by (simp add: under_def cap_within_def)
  from effectD [OF gateway_reserve_capped [OF this] refused(3)] refused(2) show ?case
    using world_ok_run [OF assms(1) refused(4) capped_run_world] by (simp add: under_def)
next
  case (settled d G rt h req obs clean saw r d')
  then have "priced_hold cfg req h" "sound x (d_ledger d)" "recorded x (d_ledger d) h"
    by (auto simp: world_ok_def covered_def)
  from gateway_settle_runs [OF settled(2) assms(2) this(1) settled(4) this(2,3) settled(5)] show ?case
    by (rule world_ok_run [OF assms(1) settled(6)])
next
  case (served d G rt d')
  have "cap_within (uint (cfg_monthly_cap_usd_cents cfg)) (rt_effective rt 0)"
    using served(2) by (simp add: under_def cap_within_def)
  from serves_runs [OF served(3) this] served(2) show ?case
    using world_ok_run [OF assms(1) served(4) capped_run_world] by (simp add: under_def)
qed

text \<open>
  C1. The gateway keeps the monthly cap hard. Start from an empty ledger and let the daemon serve any
  sequence of gateway requests (reserved at their worst case, settled from what the provider reported, released,
  renewed, left to expire, or orphaned by a restart), interleaved with any admissions, checks and
  heartbeats, whatever the clock does. As long as providers keep to the requests they were sent and prices
  are whole pico-dollars per token, what is settled or held in a month's pool never exceeds the cap.
\<close>
theorem gateway_hard_cap:
  assumes "externals_ok x" "whole_pico_table cfg" "gateway_world x cal cfg d G"
  shows "committed_total (d_ledger d) pool \<le> uint (cfg_monthly_cap_usd_cents cfg)"
  using gateway_world_ok [OF assms] by (simp add: world_ok_def covered_def)

definition demo_api_request :: GatewayReserveRequest where
  "demo_api_request = \<lparr>gr_session_id = ''s'', gr_model = ''claude-sonnet-5'', gr_body_bytes = 4000, gr_max_tokens = Some 2000,
     gr_image_count = 0, gr_fast_requested = False, gr_key = ''gw:b:1'', gr_ttl_secs = 60\<rparr>"

definition demo_api_hold :: GatewayHold where
  "demo_api_hold = \<lparr>gh_reservation_id = 7, gh_pool_id = ''metered:local-budget/monthly-2026-09'',
     gh_reserved_usd_cents = 5, gh_input_bound_tokens = 5000, gh_model = ''claude-sonnet-5'', gh_max_tokens = 2000,
     gh_remaining_usd_cents = 995, gh_replayed = False\<rparr>"

definition demo_usage :: ObservedUsage where
  "demo_usage = \<lparr>ou_input_tokens = 900, ou_cache_creation_input_tokens = 100, ou_cache_read_input_tokens = 0,
     ou_output_tokens = 1500, ou_cache_creation_split = SplitAbsent, ou_speed = SpeedStandard, ou_inference_geo = GeoAbsent\<rparr>"

text \<open>The daemon once the request is reserved.\<close>
definition demo_api_daemon :: Daemon where
  "demo_api_daemon = \<lparr>d_ledger = empty_store\<lparr>
     quota_pools := [\<lparr>pr_pool_id = ''metered:local-budget/monthly-2026-09'', pr_unit_json = ''u'', pr_capacity = 1000,
       pr_schema_version = ''shared-pool-reservation-v1'', pr_created_at = ''101'', pr_updated_at = ''101''\<rparr>],
     reservations := [\<lparr>r_id = ''111'', r_pool_id = ''metered:local-budget/monthly-2026-09'',
       r_principal_id = ''local-budget'', r_session_id = ''s'', r_amount = 5, r_state = ''active'', r_settled_amount = None,
       r_usage_known = None, r_idempotency_key = ''gw:b:1'', r_created_at = ''101'',
       r_expires_at = ''101000000001101011100010000111111011'', r_settled_at = None, r_released_at = None,
       r_schema_version = ''shared-pool-reservation-v1'', r_agent_id = None, r_executor_kind = Some ''unattributed'',
       r_charge_source = Some ''gateway'', r_is_charge = False, r_watermark_ts = None, r_watermark_message_ids = None\<rparr>]\<rparr>,
     d_telemetry = demo_telemetry\<rparr>"

lemma demo_api_granted:
  "gateway_reserve (demo_runtime 5) demo_api_request demo_daemon = (Inr (GRO_Granted demo_api_hold), demo_api_daemon)"
  by code_simp

lemma demo_api_settled:
  "committed_total (d_ledger (snd (gateway_settle (demo_runtime 9)
     (settle_request demo_api_hold (Some demo_usage) True True) demo_api_daemon))) (gh_pool_id demo_api_hold) = 2"
  by code_simp

theorem gateway_hard_cap_witness:
  "\<exists>d. gateway_world demo_externals demo_calendar demo_cfg d [(demo_api_hold, demo_api_request)]
     \<and> committed_total (d_ledger d) (gh_pool_id demo_api_hold) = 2
     \<and> committed_total (d_ledger d) (gh_pool_id demo_api_hold) \<le> uint (cfg_monthly_cap_usd_cents demo_cfg)"
proof -
  let ?world = "gateway_world demo_externals demo_calendar demo_cfg"
  have under: "under demo_externals demo_calendar demo_cfg (demo_runtime t)" for t
    by (simp add: under_def demo_runtime_def)
  have "?world demo_daemon []" by (rule gateway_world.start) (simp add: demo_daemon_def)
  from gateway_world.granted [OF this under demo_api_granted]
  have held: "?world demo_api_daemon [(demo_api_hold, demo_api_request)]" .
  have "honest demo_api_request demo_api_hold (Some demo_usage)" by code_simp
  from gateway_world.settled [OF held under _ this surjective_pairing, of 9 True True]
  have world: "?world (snd (gateway_settle (demo_runtime 9)
      (settle_request demo_api_hold (Some demo_usage) True True) demo_api_daemon)) [(demo_api_hold, demo_api_request)]" by simp
  have "whole_pico_table demo_cfg"
    using pinned_whole_pico by (simp add: whole_pico_table_def demo_cfg_def overrides_table_def pinned_def list_all_iff)
  with world gateway_hard_cap [OF demo_externals_ok _ world] demo_api_settled show ?thesis by blast
qed

end
