(* ===== verification/Transcript_Scan.thy ===== *)
theory Transcript_Scan
  imports Prelude
begin

text \<open>
  The backward scan of a transcript (\<open>scan_lines_backward\<close> of \<open>crates/daemon/src/usage.rs\<close>): a file is read
  from its end in chunks, lines cut by a chunk boundary are put together again, and a visitor sees each
  complete line, newest first, until it stops the scan, the file ends, or the byte cap is spent. A file
  is its bytes, or \<open>None\<close> when opening or reading it fails; the visitor is a function of its own state.
\<close>

section \<open>The scan\<close>

datatype UsageUnavailable =
    NoTranscriptPath
  | Unreadable
  | ScanCapReached
  | NoUsageInWindow
  | TurnIncomplete
  | Inconsistent

datatype 'b ScanEnd = Scan_Visitor 'b | Scan_StartOfFile | Scan_CapReached

definition CHUNK_BYTES :: nat where "CHUNK_BYTES = 256 * 1024"

text \<open>\<open>ControlFlow<B>\<close> as the break value, if any, beside the visitor's state.\<close>
type_synonym ('a, 'b) visitor = "'a \<Rightarrow> string \<Rightarrow> 'a \<times> 'b option"

text \<open>\<open>block.split(|b| *b == b'\n')\<close>: the pieces between newlines, at least one.\<close>
fun split_nl :: "string \<Rightarrow> string list" where
  "split_nl [] = [[]]"
| "split_nl (c # s) = (if c = CHR 0x0A then [] # split_nl s else (c # hd (split_nl s)) # tl (split_nl s))"

text \<open>The loop over the lines of one block.\<close>
fun visit_lines :: "('a, 'b) visitor \<Rightarrow> 'a \<Rightarrow> string list \<Rightarrow> 'a \<times> 'b option" where
  "visit_lines visit acc [] = (acc, None)"
| "visit_lines visit acc (l # ls) =
     (case visit acc l of (acc', Some b) \<Rightarrow> (acc', Some b) | (acc', None) \<Rightarrow> visit_lines visit acc' ls)"

function scan_loop ::
    "nat \<Rightarrow> ('a, 'b) visitor \<Rightarrow> string \<Rightarrow> nat \<Rightarrow> nat \<Rightarrow> string \<Rightarrow> 'a \<Rightarrow> 'a \<times> 'b ScanEnd" where
  "scan_loop cap visit bytes pos scanned partial_head acc =
     (if pos = 0 then (acc, Scan_StartOfFile)
      else let remaining_budget = cap - scanned
        in if remaining_budget = 0 then (acc, Scan_CapReached)
        else let want = min (min CHUNK_BYTES pos) remaining_budget;
                 start = pos - want;
                 block = take want (drop start bytes) @ partial_head;
                 pieces = split_nl block;
                 (partial_head, lines) = (if 0 < start then (hd pieces, tl pieces) else ([], pieces))
          in case visit_lines visit acc (rev lines) of
               (acc', Some b) \<Rightarrow> (acc', Scan_Visitor b)
             | (acc', None) \<Rightarrow> scan_loop cap visit bytes start (scanned + want) partial_head acc')"
  by auto
termination by (relation "measure (\<lambda>(_, _, _, pos, _). pos)") (auto simp: CHUNK_BYTES_def min_def split: if_splits)

declare scan_loop.simps [simp del]

definition scan_lines_backward ::
    "string option \<Rightarrow> nat \<Rightarrow> ('a, 'b) visitor \<Rightarrow> 'a \<Rightarrow> UsageUnavailable + 'a \<times> 'b ScanEnd" where
  "scan_lines_backward contents cap_bytes visit acc =
     (case contents of
        None \<Rightarrow> Inl Unreadable
      | Some bytes \<Rightarrow> Inr (scan_loop cap_bytes visit bytes (length bytes) 0 [] acc))"

section \<open>The scan sees exactly the lines\<close>

lemma split_nl_nonempty [simp]: "split_nl s \<noteq> []"
  by (cases s) auto

lemma split_nl_no_newline: "CHR 0x0A \<notin> set (hd (split_nl s))"
  by (induction s) auto

lemma split_nl_single: "CHR 0x0A \<notin> set s \<Longrightarrow> split_nl s = [s]"
  by (induction s) auto

text \<open>A line cut in two is found again when its first part is read before its second.\<close>
lemma split_nl_append: "split_nl (a @ b) = split_nl (a @ hd (split_nl b)) @ tl (split_nl b)"
proof (induction a)
  case Nil
  then show ?case by (simp add: split_nl_single [OF split_nl_no_newline])
next
  case (Cons c a)
  then show ?case by (simp add: hd_append tl_append split: list.splits)
qed

lemma visit_lines_append:
  "visit_lines visit acc (xs @ ys) =
     (case visit_lines visit acc xs of (acc', Some b) \<Rightarrow> (acc', Some b) | (acc', None) \<Rightarrow> visit_lines visit acc' ys)"
  by (induction xs arbitrary: acc) (auto split: prod.splits option.splits)

text \<open>The pieces between \<open>lo\<close> and \<open>pos\<close>, the last one completed from what follows \<open>pos\<close>.\<close>
definition pieces_between :: "string \<Rightarrow> nat \<Rightarrow> nat \<Rightarrow> string list" where
  "pieces_between bytes lo pos = split_nl (take (pos - lo) (drop lo bytes) @ hd (split_nl (drop pos bytes)))"

definition complete_pieces :: "string \<Rightarrow> nat \<Rightarrow> nat \<Rightarrow> string list" where
  "complete_pieces bytes lo pos = (if lo = 0 then pieces_between bytes lo pos else tl (pieces_between bytes lo pos))"

lemma take_drop_join: "lo \<le> mid \<Longrightarrow> mid \<le> pos \<Longrightarrow>
    take (pos - lo) (drop lo bytes) = take (mid - lo) (drop lo bytes) @ take (pos - mid) (drop mid bytes)"
  using take_add [of "mid - lo" "pos - mid" "drop lo bytes"] by simp

lemma head_of_join: "mid \<le> pos \<Longrightarrow> hd (pieces_between bytes mid pos) = hd (split_nl (drop mid bytes))"
proof -
  assume "mid \<le> pos"
  then have "drop mid bytes = take (pos - mid) (drop mid bytes) @ drop pos bytes"
    using append_take_drop_id [of "pos - mid" "drop mid bytes"] by simp
  then have "split_nl (drop mid bytes) = pieces_between bytes mid pos @ tl (split_nl (drop pos bytes))"
    unfolding pieces_between_def by (metis split_nl_append)
  then show ?thesis by (simp add: pieces_between_def)
qed

text \<open>Reading on from \<open>mid\<close>: what is left, then what the block from \<open>mid\<close> completes.\<close>
lemma pieces_between_split:
  assumes "lo \<le> mid" "mid \<le> pos"
  shows "pieces_between bytes lo pos = pieces_between bytes lo mid @ tl (pieces_between bytes mid pos)"
proof -
  have "pieces_between bytes lo pos =
      split_nl (take (mid - lo) (drop lo bytes) @ take (pos - mid) (drop mid bytes) @ hd (split_nl (drop pos bytes)))"
    unfolding pieces_between_def by (simp add: take_drop_join [OF assms])
  also have "\<dots> = split_nl (take (mid - lo) (drop lo bytes) @ hd (pieces_between bytes mid pos)) @ tl (pieces_between bytes mid pos)"
    unfolding pieces_between_def by (rule split_nl_append)
  also have "\<dots> = pieces_between bytes lo mid @ tl (pieces_between bytes mid pos)"
    unfolding head_of_join [OF assms(2)] by (simp add: pieces_between_def [of bytes lo mid])
  finally show ?thesis .
qed

lemma pieces_between_nonempty [simp]: "pieces_between bytes lo pos \<noteq> []"
  by (simp add: pieces_between_def)

lemma complete_pieces_split:
  assumes "lo \<le> mid" "mid \<le> pos" "0 < mid"
  shows "complete_pieces bytes lo pos = complete_pieces bytes lo mid @ complete_pieces bytes mid pos"
proof -
  obtain p ps where "pieces_between bytes lo mid = p # ps" using pieces_between_nonempty by (metis list.exhaust)
  then show ?thesis
    using assms(3) unfolding complete_pieces_def pieces_between_split [OF assms(1,2)] by simp
qed

lemma complete_pieces_same: "0 < pos \<Longrightarrow> complete_pieces bytes pos pos = []"
  by (simp add: complete_pieces_def pieces_between_def split_nl_single [OF split_nl_no_newline])

definition scanned_end :: "'a \<times> 'b option \<Rightarrow> bool \<Rightarrow> 'a \<times> 'b ScanEnd" where
  "scanned_end r capped = (case r of (acc, Some b) \<Rightarrow> (acc, Scan_Visitor b)
     | (acc, None) \<Rightarrow> (acc, if capped then Scan_CapReached else Scan_StartOfFile))"

lemma scan_loop_exact:
  assumes "0 < pos" "pos \<le> length bytes" "length bytes - cap \<le> pos"
  shows "scan_loop cap visit bytes pos (length bytes - pos) (hd (split_nl (drop pos bytes))) acc
    = scanned_end (visit_lines visit acc (rev (complete_pieces bytes (length bytes - cap) pos))) (cap < length bytes)"
  using assms
proof (induction pos arbitrary: acc rule: less_induct)
  case (less pos)
  let ?lo = "length bytes - cap"
  define want where "want = min (min CHUNK_BYTES pos) (cap - (length bytes - pos))"
  define start where "start = pos - want"
  show ?case
  proof (cases "cap - (length bytes - pos) = 0")
    case True
    with less.prems have "pos = ?lo" "cap < length bytes" by auto
    with True less.prems show ?thesis
      by (subst scan_loop.simps) (simp add: complete_pieces_same scanned_end_def)
  next
    case False
    with less.prems have "0 < want" "want \<le> pos" by (auto simp: want_def CHUNK_BYTES_def)
    then have start: "start < pos" "pos - start = want" "start \<le> pos" "?lo \<le> start" "length bytes - pos + want = length bytes - start"
      using less.prems False by (auto simp: start_def want_def)
    have block: "split_nl (take want (drop start bytes) @ hd (split_nl (drop pos bytes))) = pieces_between bytes start pos"
      by (simp add: pieces_between_def start(2))
    have step: "scan_loop cap visit bytes pos (length bytes - pos) (hd (split_nl (drop pos bytes))) acc =
        (case visit_lines visit acc (rev (complete_pieces bytes start pos)) of
           (acc', Some b) \<Rightarrow> (acc', Scan_Visitor b)
         | (acc', None) \<Rightarrow> scan_loop cap visit bytes start (length bytes - start)
             (if 0 < start then hd (pieces_between bytes start pos) else []) acc')"
      using False less.prems(1)
      unfolding scan_loop.simps [of cap visit bytes pos] Let_def want_def [symmetric] start_def [symmetric] block
      by (auto simp: complete_pieces_def start(5) split: prod.splits option.splits)
    show ?thesis
    proof (cases "start = 0")
      case True
      then show ?thesis
        using start(4) less.prems
        by (auto simp: step scanned_end_def scan_loop.simps [where pos = 0] split: prod.splits option.splits)
    next
      case False
      then have "complete_pieces bytes ?lo pos = complete_pieces bytes ?lo start @ complete_pieces bytes start pos"
        using start by (intro complete_pieces_split) simp_all
      then show ?thesis
        using less.IH [OF start(1)] False start less.prems head_of_join [OF start(3), of bytes]
        by (auto simp: step visit_lines_append scanned_end_def split: prod.splits option.splits)
    qed
  qed
qed

lemma scan_exact:
  "scan_lines_backward (Some bytes) cap visit acc = Inr
     (scanned_end (visit_lines visit acc
        (if bytes = [] then []
         else if length bytes \<le> cap then rev (split_nl bytes)
         else rev (tl (split_nl (drop (length bytes - cap) bytes)))))
      (cap < length bytes))"
proof (cases "bytes = []")
  case True
  then show ?thesis by (simp add: scan_lines_backward_def scan_loop.simps scanned_end_def)
next
  case False
  have "complete_pieces bytes (length bytes - cap) (length bytes)
      = (if length bytes \<le> cap then split_nl bytes else tl (split_nl (drop (length bytes - cap) bytes)))"
    by (simp add: complete_pieces_def pieces_between_def)
  then show ?thesis
    using scan_loop_exact [where pos = "length bytes" and bytes = bytes and cap = cap and visit = visit and acc = acc] False by (simp add: scan_lines_backward_def)
qed

text \<open>
  C40. The backward scan sees exactly the lines of the file. Whatever falls on a chunk boundary, the visitor is
  shown the lines newest first, each once and whole, and the scan ends at the start of the file; when the byte cap is
  smaller than the file it is shown the lines that lie completely within the last \<open>cap\<close> bytes, never a fragment,
  and the end is reported as the cap, unless the visitor stopped the scan before.
\<close>
theorem backward_scan_exact:
  "scan_lines_backward (Some bytes) cap visit acc = Inr
     (scanned_end (visit_lines visit acc
        (if bytes = [] then []
         else if length bytes \<le> cap then rev (split_nl bytes)
         else rev (tl (split_nl (drop (length bytes - cap) bytes)))))
      (cap < length bytes))"
  by (rule scan_exact)

end
