(* ===== verification/Transcript_Pricing.thy ===== *)
theory Transcript_Pricing
  imports Transcript_Scan Rust_Text Gateway_Cost
begin

text \<open>
  Priced, session-bound reads of a transcript (\<open>crates/daemon/src/usage/priced.rs\<close>): which lines of a file
  count for a window, how the repeated lines of one message are merged, and what a window costs. Decoding a line
  (\<open>serde_json\<close>) and parsing a timestamp (\<open>time\<close>) are the parameters \<open>decode\<close> and \<open>parse\<close>; a parsed timestamp
  is its instant with the year it is written in. Counters that count lines of a file are natural numbers.
\<close>

section \<open>Lines\<close>

text \<open>A field that may have an unexpected type.\<close>
datatype 'a Lenient = LValue 'a | LOther

definition into_value :: "'a Lenient \<Rightarrow> 'a option" where
  "into_value l = (case l of LValue v \<Rightarrow> Some v | LOther \<Rightarrow> None)"

record PricedUsage =
  pu_input_tokens :: "u64 Lenient option"
  pu_cache_creation_input_tokens :: "u64 Lenient option"
  pu_cache_read_input_tokens :: "u64 Lenient option"
  pu_output_tokens :: "u64 Lenient option"
  pu_cache_creation :: "json option"
  pu_speed :: "json option"
  pu_inference_geo :: "json option"

record PricedMessage =
  pm_id :: "string Lenient option"
  pm_model :: "string Lenient option"
  pm_usage :: "PricedUsage Lenient option"

record PricedLine =
  pl_kind :: "string Lenient option"
  pl_timestamp :: "string Lenient option"
  pl_session :: "string Lenient option"
  pl_sidechain :: "bool Lenient option"
  pl_agent :: "string Lenient option"
  pl_message :: "PricedMessage option"

type_synonym stamp = "instant \<times> int"
type_synonym line_decoder = "string \<Rightarrow> PricedLine option"
type_synonym stamp_parser = "string \<Rightarrow> stamp option"

definition usage_count :: "u64 Lenient option \<Rightarrow> u64 option" where
  "usage_count v = (case v of None \<Rightarrow> Some 0 | Some l \<Rightarrow> into_value l)"

definition usage_split :: "json option \<Rightarrow> CacheWriteSplit" where
  "usage_split v =
     (case v of
        None \<Rightarrow> SplitAbsent
      | Some JNull \<Rightarrow> SplitAbsent
      | Some value \<Rightarrow> parse_cache_split value)"

text \<open>\<open>PricedUsage::observed\<close>.\<close>
definition observed_usage :: "PricedUsage \<Rightarrow> ObservedUsage option" where
  "observed_usage u =
     Option.bind (usage_count (pu_input_tokens u)) (\<lambda>i.
     Option.bind (usage_count (pu_cache_creation_input_tokens u)) (\<lambda>cc.
     Option.bind (usage_count (pu_cache_read_input_tokens u)) (\<lambda>cr.
     Option.bind (usage_count (pu_output_tokens u)) (\<lambda>out.
     Some \<lparr>ou_input_tokens = i, ou_cache_creation_input_tokens = cc, ou_cache_read_input_tokens = cr,
       ou_output_tokens = out, ou_cache_creation_split = usage_split (pu_cache_creation u),
       ou_speed = SpeedReport_from_json (pu_speed u), ou_inference_geo = GeoReport_from_json (pu_inference_geo u)\<rparr>))))"

definition is_zero :: "ObservedUsage \<Rightarrow> bool" where
  "is_zero u \<longleftrightarrow> ou_input_tokens u = 0 \<and> ou_cache_creation_input_tokens u = 0
     \<and> ou_cache_read_input_tokens u = 0 \<and> ou_output_tokens u = 0"

fun merge_split :: "CacheWriteSplit \<Rightarrow> CacheWriteSplit \<Rightarrow> CacheWriteSplit" where
  "merge_split SplitMalformed b = SplitMalformed"
| "merge_split a SplitMalformed = SplitMalformed"
| "merge_split SplitAbsent b = b"
| "merge_split a SplitAbsent = a"
| "merge_split (Split a5 a1) (Split b5 b1) = Split (max a5 b5) (max a1 b1)"

definition merge_max :: "ObservedUsage \<Rightarrow> ObservedUsage \<Rightarrow> ObservedUsage" where
  "merge_max a b =
     \<lparr>ou_input_tokens = max (ou_input_tokens a) (ou_input_tokens b),
      ou_cache_creation_input_tokens = max (ou_cache_creation_input_tokens a) (ou_cache_creation_input_tokens b),
      ou_cache_read_input_tokens = max (ou_cache_read_input_tokens a) (ou_cache_read_input_tokens b),
      ou_output_tokens = max (ou_output_tokens a) (ou_output_tokens b),
      ou_cache_creation_split = merge_split (ou_cache_creation_split a) (ou_cache_creation_split b),
      ou_speed = (if ou_speed b = SpeedAbsent then ou_speed a else ou_speed b),
      ou_inference_geo = (if ou_inference_geo b = GeoAbsent then ou_inference_geo a else ou_inference_geo b)\<rparr>"

section \<open>Windows\<close>

definition BUDGET_SCAN_CAP_BYTES :: nat where "BUDGET_SCAN_CAP_BYTES = 32 * 1024 * 1024"

definition MISSING_MODEL :: string where "MISSING_MODEL = ''<missing>''"

definition REORDER_SLACK :: int where "REORDER_SLACK = 10 * 60 * ns_per_sec"

definition FUTURE_SKEW :: int where "FUTURE_SKEW = 5 * 60 * ns_per_sec"

text \<open>\<open>ParentWindow after counted_ids horizon\<close>.\<close>
datatype ReadMode = ParentWindow instant "string set" instant | WholeFile "string option"

definition is_parent :: "ReadMode \<Rightarrow> bool" where
  "is_parent mode = (case mode of ParentWindow _ _ _ \<Rightarrow> True | WholeFile _ \<Rightarrow> False)"

record Tiers =
  ti_input :: u64
  ti_cache_creation :: u64
  ti_cache_read :: u64
  ti_output :: u64

record PricedWindow =
  pw_cents :: u64
  pw_records :: nat
  pw_last_event_time :: "stamp option"
  pw_message_ids :: "string list"
  pw_foreign_lines :: nat
  pw_id_less_records :: nat

datatype PricedObservation =
    Priced PricedWindow
  | UnpricedModels "string list"
  | SessionMismatch
  | FutureTimestamp "u64 option" "stamp option" "string list"
  | SessionUnverified
  | MalformedUsage
  | Unavailable UsageUnavailable

record Accumulator =
  ac_by_id :: "(string \<times> ObservedUsage \<times> string) list"
  ac_unkeyed :: "(string \<times> ObservedUsage) list"
  ac_records :: nat
  ac_id_less_records :: nat
  ac_foreign :: nat
  ac_unverified :: bool
  ac_untimed :: bool
  ac_malformed :: bool
  ac_future :: bool
  ac_last_event_time :: "stamp option"

definition Accumulator_default :: Accumulator where
  "Accumulator_default = \<lparr>ac_by_id = [], ac_unkeyed = [], ac_records = 0, ac_id_less_records = 0, ac_foreign = 0,
     ac_unverified = False, ac_untimed = False, ac_malformed = False, ac_future = False, ac_last_event_time = None\<rparr>"

definition later_stamp :: "stamp option \<Rightarrow> stamp \<Rightarrow> stamp" where
  "later_stamp t ts = (case t of None \<Rightarrow> ts | Some t \<Rightarrow> if fst t \<le> fst ts then ts else t)"

text \<open>The tail of \<open>visit_line\<close>: a usage record of the session is counted.\<close>
definition count_record ::
    "Accumulator \<Rightarrow> PricedMessage \<Rightarrow> ObservedUsage option \<Rightarrow> string option \<Rightarrow> Accumulator" where
  "count_record acc message usage message_id =
     (case usage of
        None \<Rightarrow> acc\<lparr>ac_malformed := True\<rparr>
      | Some tiers \<Rightarrow>
          let model = (case Option.bind (pm_model message) into_value of
                Some m \<Rightarrow> if \<not> blank m then m else MISSING_MODEL | None \<Rightarrow> MISSING_MODEL);
              acc = (case message_id of
                Some mid \<Rightarrow> acc\<lparr>ac_by_id := AList.update mid
                  (case map_of (ac_by_id acc) mid of Some (t, _) \<Rightarrow> (merge_max t tiers, model) | None \<Rightarrow> (tiers, model))
                  (ac_by_id acc)\<rparr>
              | None \<Rightarrow> acc\<lparr>ac_unkeyed := ac_unkeyed acc @ [(model, tiers)], ac_id_less_records := Suc (ac_id_less_records acc)\<rparr>)
          in acc\<lparr>ac_records := Suc (ac_records acc)\<rparr>)"

text \<open>The checks of a usage record whose session is, or may be, the expected one.\<close>
definition bind_record ::
    "ReadMode \<Rightarrow> Accumulator \<Rightarrow> PricedLine \<Rightarrow> stamp option \<Rightarrow> PricedMessage \<Rightarrow> ObservedUsage option \<Rightarrow> string option
      \<Rightarrow> Accumulator" where
  "bind_record mode acc entry timestamp message usage message_id =
     (if (case mode of
            WholeFile (Some expected) \<Rightarrow>
              (case Option.bind (pl_agent entry) into_value of Some a \<Rightarrow> a \<noteq> expected | None \<Rightarrow> False)
          | _ \<Rightarrow> False)
      then acc\<lparr>ac_foreign := Suc (ac_foreign acc)\<rparr>
      else if (case (mode, timestamp) of (ParentWindow _ _ horizon, Some ts) \<Rightarrow> horizon < fst ts | _ \<Rightarrow> False)
      then acc\<lparr>ac_future := True\<rparr>
      else
        let acc = (if is_parent mode \<and> timestamp = None then acc\<lparr>ac_untimed := True\<rparr> else acc);
            acc = (case timestamp of
              Some ts \<Rightarrow> acc\<lparr>ac_last_event_time := Some (later_stamp (ac_last_event_time acc) ts)\<rparr> | None \<Rightarrow> acc)
        in count_record acc message usage message_id)"

text \<open>A line after the watermark.\<close>
definition visit_record ::
    "ReadMode \<Rightarrow> string \<Rightarrow> Accumulator \<Rightarrow> PricedLine \<Rightarrow> stamp option \<Rightarrow> Accumulator" where
  "visit_record mode expected_session acc entry timestamp =
     (if Option.bind (pl_kind entry) into_value \<noteq> Some ''assistant'' then acc
      else if Option.bind (pl_sidechain entry) into_value = Some True \<and> is_parent mode then acc
      else case pl_message entry of
        None \<Rightarrow> acc
      | Some message \<Rightarrow>
          (case pm_usage message of
             None \<Rightarrow> acc
           | Some usage \<Rightarrow>
               let usage = Option.bind (into_value usage) observed_usage;
                   message_id = Option.bind (pm_id message) into_value
               in if (case (mode, message_id) of (ParentWindow _ counted_ids _, Some mid) \<Rightarrow> mid \<in> counted_ids | _ \<Rightarrow> False)
                  then acc
                  else (case Option.bind (pl_session entry) into_value of
                    Some s \<Rightarrow> if s = expected_session then bind_record mode acc entry timestamp message usage message_id
                      else acc\<lparr>ac_foreign := Suc (ac_foreign acc)\<rparr>
                  | None \<Rightarrow> bind_record mode (acc\<lparr>ac_unverified := True\<rparr>) entry timestamp message usage message_id)))"

definition visit_line ::
    "line_decoder \<Rightarrow> stamp_parser \<Rightarrow> ReadMode \<Rightarrow> string \<Rightarrow> (Accumulator, unit) visitor" where
  "visit_line decode parse mode expected_session acc line =
     (if line = [] then (acc, None)
      else case decode line of
        None \<Rightarrow> (acc, None)
      | Some entry \<Rightarrow>
          let timestamp = Option.bind (Option.bind (pl_timestamp entry) into_value) parse
          in (case (mode, timestamp) of
                (ParentWindow after _ _, Some ts) \<Rightarrow>
                  if fst ts \<le> after
                  then (acc, if fst ts < after - REORDER_SLACK then Some () else None)
                  else (visit_record mode expected_session acc entry timestamp, None)
              | _ \<Rightarrow> (visit_record mode expected_session acc entry timestamp, None)))"

section \<open>Pricing a window\<close>

datatype WindowPriceError = Window_Unpriced "string list" | Window_Unmeasurable

definition PICO_PER_CENT :: int where "PICO_PER_CENT = 10000000000"

text \<open>The loop of \<open>records_cost_cents\<close>: the models without a price, whether some usage cannot be measured, the sum.\<close>
fun sum_records ::
    "'f floats \<Rightarrow> 'f PricingTable \<Rightarrow> (string \<times> ObservedUsage) list \<Rightarrow> string list \<times> bool \<times> int \<Rightarrow> string list \<times> bool \<times> int" where
  "sum_records f table [] st = st"
| "sum_records f table ((model, usage) # rest) (unpriced, unmeasurable, pico) =
     (if is_zero usage then sum_records f table rest (unpriced, unmeasurable, pico)
      else case request_cost_pico f table model usage of
        Inr p \<Rightarrow> sum_records f table rest (unpriced, unmeasurable, u128_saturate (pico + p))
      | Inl Unpriced \<Rightarrow> sum_records f table rest (model # unpriced, unmeasurable, pico)
      | Inl Unmeasurable \<Rightarrow> sum_records f table rest (unpriced, True, pico))"

definition records_cost_cents ::
    "'f floats \<Rightarrow> (string \<times> ObservedUsage) list \<Rightarrow> 'f PricingTable \<Rightarrow> WindowPriceError + u64" where
  "records_cost_cents f records table =
     (case sum_records f table records ([], False, 0) of
        (unpriced, unmeasurable, pico) \<Rightarrow>
          if unpriced \<noteq> [] then Inl (Window_Unpriced (sort (remdups unpriced)))
          else if unmeasurable then Inl Window_Unmeasurable
          else Inr (word_of_int (min (div_ceil pico PICO_PER_CENT) u64_max)))"

definition window_cost_cents ::
    "'f floats \<Rightarrow> (string \<times> Tiers) list \<Rightarrow> 'f PricingTable \<Rightarrow> string list + u64" where
  "window_cost_cents f per_model table =
     (case records_cost_cents f
        (map (\<lambda>(model, t). (model, ObservedUsage_default\<lparr>ou_input_tokens := ti_input t,
           ou_cache_creation_input_tokens := ti_cache_creation t, ou_cache_read_input_tokens := ti_cache_read t,
           ou_output_tokens := ti_output t, ou_cache_creation_split := Split (ti_cache_creation t) 0\<rparr>)) per_model) table of
        Inr cents \<Rightarrow> Inr cents
      | Inl (Window_Unpriced models) \<Rightarrow> Inl models
      | Inl Window_Unmeasurable \<Rightarrow> Inl [])"

definition all_records :: "Accumulator \<Rightarrow> (string \<times> ObservedUsage) list" where
  "all_records acc = ac_unkeyed acc @ map (\<lambda>(_, usage, model). (model, usage)) (ac_by_id acc)"

definition finish :: "'f floats \<Rightarrow> Accumulator \<Rightarrow> 'f PricingTable \<Rightarrow> PricedObservation" where
  "finish f acc table =
     (if ac_unverified acc then SessionUnverified
      else if ac_malformed acc then MalformedUsage
      else if ac_untimed acc then Unavailable Inconsistent
      else let distinct_turns = length (ac_by_id acc) + ac_id_less_records acc;
               message_ids = sort (map fst (ac_by_id acc))
        in if ac_future acc
           then FutureTimestamp
             (if 0 < distinct_turns then (case records_cost_cents f (all_records acc) table of Inr c \<Rightarrow> Some c | Inl _ \<Rightarrow> None) else None)
             (ac_last_event_time acc) message_ids
           else if distinct_turns = 0
           then (if 0 < ac_foreign acc then SessionMismatch else Unavailable NoUsageInWindow)
           else case records_cost_cents f (all_records acc) table of
             Inr cents \<Rightarrow> Priced \<lparr>pw_cents = cents, pw_records = distinct_turns, pw_last_event_time = ac_last_event_time acc,
               pw_message_ids = message_ids, pw_foreign_lines = ac_foreign acc, pw_id_less_records = ac_id_less_records acc\<rparr>
           | Inl (Window_Unpriced models) \<Rightarrow> UnpricedModels models
           | Inl Window_Unmeasurable \<Rightarrow> MalformedUsage)"

definition observe_priced ::
    "'f floats \<Rightarrow> line_decoder \<Rightarrow> stamp_parser \<Rightarrow> string option \<Rightarrow> ReadMode \<Rightarrow> string \<Rightarrow> 'f PricingTable \<Rightarrow> nat
      \<Rightarrow> PricedObservation" where
  "observe_priced f decode parse contents mode expected_session table cap_bytes =
     (case scan_lines_backward contents cap_bytes (visit_line decode parse mode expected_session) Accumulator_default of
        Inl unavailable \<Rightarrow> Unavailable unavailable
      | Inr (_, Scan_CapReached) \<Rightarrow> Unavailable ScanCapReached
      | Inr (acc, Scan_Visitor _) \<Rightarrow> finish f acc table
      | Inr (acc, Scan_StartOfFile) \<Rightarrow> finish f acc table)"

section \<open>Successive windows\<close>

text \<open>A scan whose window can be priced: nothing unverified, malformed, untimed or from the future.\<close>
definition quiet :: "Accumulator \<Rightarrow> bool" where
  "quiet acc \<longleftrightarrow> \<not> ac_unverified acc \<and> \<not> ac_malformed acc \<and> \<not> ac_untimed acc \<and> \<not> ac_future acc"

definition last_within :: "instant \<Rightarrow> Accumulator \<Rightarrow> bool" where
  "last_within t acc = (case ac_last_event_time acc of None \<Rightarrow> True | Some ts \<Rightarrow> fst ts \<le> t)"

text \<open>Two scans that differ only in the lines of other sessions they passed over.\<close>
definition same_own :: "Accumulator \<Rightarrow> Accumulator \<Rightarrow> bool" where
  "same_own acc acc' \<longleftrightarrow> acc' = acc\<lparr>ac_foreign := ac_foreign acc'\<rparr>"

lemma same_own_refl [simp]: "same_own acc acc"
  by (simp add: same_own_def)

lemma same_own_trans: "same_own a b \<Longrightarrow> same_own b c \<Longrightarrow> same_own a c"
  unfolding same_own_def by (cases a, cases b, cases c) simp

lemma same_own_foreign [simp]: "same_own acc (acc\<lparr>ac_foreign := n\<rparr>)"
  by (simp add: same_own_def)

text \<open>What a scan has flagged or dated stays so.\<close>
lemma count_record_keeps:
  assumes "quiet (count_record acc message usage mid)" "last_within t (count_record acc message usage mid)"
  shows "quiet acc \<and> last_within t acc"
  using assms
  by (auto simp: count_record_def quiet_def last_within_def Let_def split: option.splits prod.splits if_splits)

lemma later_stamp_le: "fst (later_stamp l ts) \<le> t \<longleftrightarrow> fst ts \<le> t \<and> (case l of None \<Rightarrow> True | Some u \<Rightarrow> fst u \<le> t)"
  by (auto simp: later_stamp_def split: option.splits)

lemma bind_record_parent:
  assumes "quiet (bind_record (ParentWindow a ids h) acc entry timestamp message usage mid)"
    "last_within t (bind_record (ParentWindow a ids h) acc entry timestamp message usage mid)"
  shows "quiet acc \<and> last_within t acc \<and> (\<exists>ts. timestamp = Some ts \<and> fst ts \<le> t)"
proof (cases timestamp)
  case None
  then show ?thesis
    using assms count_record_keeps [of "acc\<lparr>ac_untimed := True\<rparr>"] by (auto simp: bind_record_def is_parent_def quiet_def)
next
  case (Some ts)
  let ?acc = "acc\<lparr>ac_last_event_time := Some (later_stamp (ac_last_event_time acc) ts)\<rparr>"
  have "\<not> h < fst ts" using assms(1) by (auto simp: bind_record_def Some quiet_def)
  then have "quiet ?acc \<and> last_within t ?acc"
    using assms count_record_keeps [of ?acc message usage mid t] by (auto simp: bind_record_def Some is_parent_def)
  then show ?thesis by (auto simp: Some quiet_def last_within_def later_stamp_le)
qed

lemma quiet_simps [simp]:
  "quiet (acc\<lparr>ac_foreign := n\<rparr>) = quiet acc" "last_within t (acc\<lparr>ac_foreign := n\<rparr>) = last_within t acc"
  "\<not> quiet (acc\<lparr>ac_unverified := True\<rparr>)"
  by (simp_all add: quiet_def last_within_def)

text \<open>A usage record is dated within the window, or it is one no window of this session prices.\<close>
lemma visit_record_parent:
  assumes "quiet (visit_record (ParentWindow a ids h) session acc entry stamp)"
    "last_within t (visit_record (ParentWindow a ids h) session acc entry stamp)" "ids \<subseteq> ids'"
  shows "quiet acc \<and> last_within t acc \<and> ((\<exists>ts. stamp = Some ts \<and> fst ts \<le> t)
     \<or> same_own acc2 (visit_record (ParentWindow t' ids' h') session acc2 entry stamp))"
proof -
  let ?kind = "Option.bind (pl_kind entry) into_value = Some ''assistant''"
  let ?side = "Option.bind (pl_sidechain entry) into_value = Some True"
  show ?thesis
  proof (cases "?kind \<and> \<not> ?side \<and> (\<exists>m u. pl_message entry = Some m \<and> pm_usage m = Some u)")
    case False
    then show ?thesis using assms(1,2) by (auto simp: visit_record_def is_parent_def split: if_splits option.splits)
  next
    case True
    then obtain m u where mu: "?kind" "\<not> ?side" "pl_message entry = Some m" "pm_usage m = Some u" by blast
    let ?mid = "Option.bind (pm_id m) into_value" and ?usage = "Option.bind (into_value u) observed_usage"
    have step: "visit_record (ParentWindow a ids h) session acc entry stamp =
        (if (case ?mid of Some i \<Rightarrow> i \<in> ids | None \<Rightarrow> False) then acc
         else case Option.bind (pl_session entry) into_value of
           Some s \<Rightarrow> if s = session then bind_record (ParentWindow a ids h) acc entry stamp m ?usage ?mid
             else acc\<lparr>ac_foreign := Suc (ac_foreign acc)\<rparr>
         | None \<Rightarrow> bind_record (ParentWindow a ids h) (acc\<lparr>ac_unverified := True\<rparr>) entry stamp m ?usage ?mid)" for a ids h acc
      using mu by (simp add: visit_record_def is_parent_def Let_def split: option.splits)
    define counted where "counted ids = (case ?mid of Some i \<Rightarrow> i \<in> ids | None \<Rightarrow> False)" for ids
    note step = step [unfolded counted_def [symmetric]]
    have more: "counted ids \<Longrightarrow> counted ids'" using assms(3) by (auto simp: counted_def split: option.splits)
    show ?thesis
    proof (cases "counted ids")
      case True
      then show ?thesis using assms(1,2) more by (simp add: step)
    next
      case fresh: False
      show ?thesis
      proof (cases "Option.bind (pl_session entry) into_value")
        case None
        then show ?thesis
          using assms(1,2) fresh bind_record_parent [of a ids h "acc\<lparr>ac_unverified := True\<rparr>" entry stamp m ?usage ?mid t]
          by (simp add: step)
      next
        case (Some s)
        show ?thesis
        proof (cases "s = session")
          case True
          then show ?thesis
            using assms(1,2) fresh Some bind_record_parent [of a ids h acc entry stamp m ?usage ?mid t] by (simp add: step)
        next
          case False
          then show ?thesis using assms(1,2) fresh Some by (simp add: step)
        qed
      qed
    qed
  qed
qed

text \<open>A line read again after the newest line its window counted: not priced a second time, and no later stop.\<close>
lemma line_not_counted_twice:
  assumes first: "visit_line decode parse (ParentWindow a ids h) session acc line = (acc', r)"
    and "quiet acc'" "last_within t acc'" "a \<le> t" "ids \<subseteq> ids'"
    and again: "visit_line decode parse (ParentWindow t ids' h') session acc2 line = (acc2', r2)"
  shows "quiet acc \<and> last_within t acc \<and> same_own acc2 acc2' \<and> (r = Some () \<longrightarrow> r2 = Some ())"
proof (cases "decode line")
  case None
  then show ?thesis using assms by (auto simp: visit_line_def split: if_splits)
next
  case (Some entry)
  define stamp where "stamp = Option.bind (Option.bind (pl_timestamp entry) into_value) parse"
  have step: "visit_line decode parse (ParentWindow a ids h) session acc line =
      (if line = [] then (acc, None) else case stamp of
         None \<Rightarrow> (visit_record (ParentWindow a ids h) session acc entry stamp, None)
       | Some ts \<Rightarrow> if fst ts \<le> a then (acc, if fst ts < a - REORDER_SLACK then Some () else None)
           else (visit_record (ParentWindow a ids h) session acc entry stamp, None))" for a ids h acc
    by (simp add: visit_line_def Some stamp_def Let_def split: option.splits)
  show ?thesis
  proof (cases "line = [] \<or> (\<exists>ts. stamp = Some ts \<and> fst ts \<le> a)")
    case True
    then show ?thesis
      using assms by (auto simp: step split: if_splits)
  next
    case False
    then have acc': "acc' = visit_record (ParentWindow a ids h) session acc entry stamp" "r = None"
      using first by (auto simp: step split: option.splits if_splits)
    note own = visit_record_parent [OF assms(2,3) [unfolded acc'(1)] assms(5), of acc2 t h']
    show ?thesis
    proof (cases "\<exists>ts. stamp = Some ts \<and> fst ts \<le> t")
      case True
      then have "same_own acc2 acc2'" using again False by (auto simp: step)
      then show ?thesis using own acc'(2) by simp
    next
      case late: False
      then have "acc2' = visit_record (ParentWindow t ids' h') session acc2 entry stamp"
        using again False by (auto simp: step split: option.splits if_splits)
      then show ?thesis using own late acc'(2) by auto
    qed
  qed
qed

lemma scan_not_counted_twice:
  assumes "visit_lines (visit_line decode parse (ParentWindow a ids h) session) acc ls = (acc1, r1)"
    "quiet acc1" "last_within t acc1" "a \<le> t" "ids \<subseteq> ids'"
    "visit_lines (visit_line decode parse (ParentWindow t ids' h') session) acc2 ls = (acc2', r2)"
  shows "same_own acc2 acc2' \<and> quiet acc \<and> last_within t acc"
  using assms
proof (induction ls arbitrary: acc acc2 acc2' r2)
  case (Cons l ls)
  obtain acc' r where first: "visit_line decode parse (ParentWindow a ids h) session acc l = (acc', r)" by fastforce
  obtain acc2'' r' where again: "visit_line decode parse (ParentWindow t ids' h') session acc2 l = (acc2'', r')" by fastforce
  obtain acc3 r3 where rest: "visit_lines (visit_line decode parse (ParentWindow t ids' h') session) acc2'' ls = (acc3, r3)" by fastforce
  have "quiet acc' \<and> last_within t acc' \<and> (r = None \<longrightarrow> same_own acc2'' acc3)"
    using Cons.prems(1) first Cons.IH [OF _ Cons.prems(2-5) rest, of acc'] Cons.prems(2,3) by (cases r) auto
  then show ?case
    using line_not_counted_twice [OF first _ _ Cons.prems(4,5) again] Cons.prems(6) again rest
    by (cases r; cases r') (auto intro: same_own_trans)
qed simp

text \<open>Whatever is counted is later than the watermark.\<close>
definition dated_after :: "instant \<Rightarrow> Accumulator \<Rightarrow> bool" where
  "dated_after a acc = (case ac_last_event_time acc of None \<Rightarrow> True | Some ts \<Rightarrow> a < fst ts)"

lemma count_record_last: "ac_last_event_time (count_record acc message usage mid) = ac_last_event_time acc"
  by (auto simp: count_record_def Let_def split: option.splits)

lemma bind_record_dated:
  assumes "dated_after a acc" "\<And>ts. stamp = Some ts \<Longrightarrow> a < fst ts"
  shows "dated_after a (bind_record mode acc entry stamp message usage mid)"
  using assms
  by (auto simp: bind_record_def dated_after_def count_record_last later_stamp_def Let_def split: option.splits if_splits)

lemma visit_record_dated:
  assumes "dated_after a acc" "\<And>ts. stamp = Some ts \<Longrightarrow> a < fst ts"
  shows "dated_after a (visit_record mode session acc entry stamp)"
proof -
  have "dated_after a (acc\<lparr>ac_unverified := True\<rparr>)" "dated_after a (acc\<lparr>ac_foreign := n\<rparr>)" for n
    using assms(1) by (simp_all add: dated_after_def)
  then show ?thesis
    using assms by (simp add: visit_record_def Let_def bind_record_dated split: option.splits)
qed

lemma visit_lines_dated:
  assumes "visit_lines (visit_line decode parse (ParentWindow a ids h) session) acc ls = (acc', r)" "dated_after a acc"
  shows "dated_after a acc'"
  using assms
proof (induction ls arbitrary: acc)
  case (Cons l ls)
  obtain acc1 r1 where first: "visit_line decode parse (ParentWindow a ids h) session acc l = (acc1, r1)" by fastforce
  then have "dated_after a acc1"
    using Cons.prems(2)
    by (auto simp: visit_line_def Let_def not_le split: if_splits option.splits intro!: visit_record_dated)
  then show ?case using Cons first by (auto split: option.splits)
qed simp

text \<open>Nothing is counted under an id of an earlier window.\<close>
definition fresh_ids :: "string set \<Rightarrow> Accumulator \<Rightarrow> bool" where
  "fresh_ids ids acc \<longleftrightarrow> fst ` set (ac_by_id acc) \<inter> ids = {}"

lemma count_record_fresh:
  assumes "fresh_ids ids acc" "\<And>i. mid = Some i \<Longrightarrow> i \<notin> ids"
  shows "fresh_ids ids (count_record acc message usage mid)"
  using assms by (auto simp: count_record_def fresh_ids_def Let_def dom_update split: option.splits)

lemma visit_record_fresh:
  assumes "fresh_ids ids acc"
  shows "fresh_ids ids (visit_record (ParentWindow a ids h) session acc entry stamp)"
proof -
  have more [simp]: "fresh_ids ids (acc\<lparr>ac_unverified := b\<rparr>) = fresh_ids ids acc" "fresh_ids ids (acc\<lparr>ac_foreign := n\<rparr>) = fresh_ids ids acc"
    "fresh_ids ids (acc\<lparr>ac_future := b\<rparr>) = fresh_ids ids acc" "fresh_ids ids (acc\<lparr>ac_untimed := b\<rparr>) = fresh_ids ids acc"
    "fresh_ids ids (acc\<lparr>ac_last_event_time := t\<rparr>) = fresh_ids ids acc" for acc b n t
    by (simp_all add: fresh_ids_def)
  have bind: "fresh_ids ids (bind_record (ParentWindow a ids h) acc entry stamp message usage mid)"
    if "fresh_ids ids acc" "\<And>i. mid = Some i \<Longrightarrow> i \<notin> ids" for acc message usage mid
    using that by (auto simp: bind_record_def Let_def intro!: count_record_fresh split: option.splits)
  show ?thesis
    using assms by (auto simp: visit_record_def Let_def intro!: bind split: option.splits)
qed

lemma visit_lines_fresh:
  assumes "visit_lines (visit_line decode parse (ParentWindow a ids h) session) acc ls = (acc', r)" "fresh_ids ids acc"
  shows "fresh_ids ids acc'"
  using assms
proof (induction ls arbitrary: acc)
  case (Cons l ls)
  obtain acc1 r1 where first: "visit_line decode parse (ParentWindow a ids h) session acc l = (acc1, r1)" by fastforce
  then have "fresh_ids ids acc1"
    using Cons.prems(2)
    by (auto simp: visit_line_def Let_def split: if_splits option.splits intro!: visit_record_fresh)
  then show ?case using Cons first by (auto split: option.splits)
qed simp

section \<open>A turn is priced once\<close>

text \<open>An observation without the count of other sessions' lines.\<close>
definition own_part :: "PricedObservation \<Rightarrow> PricedObservation" where
  "own_part obs = (case obs of
     Priced w \<Rightarrow> Priced (w\<lparr>pw_foreign_lines := 0\<rparr>)
   | SessionMismatch \<Rightarrow> Unavailable NoUsageInWindow
   | _ \<Rightarrow> obs)"

lemma finish_own_part: "same_own acc acc' \<Longrightarrow> own_part (finish f acc' table) = own_part (finish f acc table)"
proof -
  assume "same_own acc acc'"
  then obtain n where "acc' = acc\<lparr>ac_foreign := n\<rparr>" unfolding same_own_def by blast
  then show ?thesis
    by (simp add: finish_def all_records_def own_part_def Let_def split: sum.splits WindowPriceError.splits)
qed

lemma finish_priced:
  assumes "finish f acc table = Priced w"
  shows "quiet acc" "ac_last_event_time acc = pw_last_event_time w"
  using assms
  by (auto simp: finish_def quiet_def Let_def split: if_splits sum.splits WindowPriceError.splits)

lemma observe_whole:
  assumes "length bytes \<le> cap"
    "visit_lines (visit_line decode parse mode session) Accumulator_default (rev (split_nl bytes)) = (acc, r)"
  shows "observe_priced f decode parse (Some bytes) mode session table cap = finish f acc table"
proof -
  have "visit_lines (visit_line decode parse mode session) Accumulator_default [[]] = (Accumulator_default, None)"
    by (simp add: visit_line_def)
  then show ?thesis
    using assms by (auto simp: observe_priced_def scan_exact scanned_end_def split: option.splits if_splits)
qed

lemma observed_ids_fresh:
  assumes "length bytes \<le> cap"
    "observe_priced f decode parse (Some bytes) (ParentWindow a ids h) session table cap = Priced w"
  shows "set (pw_message_ids w) \<inter> ids = {}"
proof -
  obtain acc r where run: "visit_lines (visit_line decode parse (ParentWindow a ids h) session) Accumulator_default
      (rev (split_nl bytes)) = (acc, r)" by fastforce
  then have "fresh_ids ids acc" by (rule visit_lines_fresh) (simp add: fresh_ids_def Accumulator_default_def)
  moreover have "finish f acc table = Priced w" using observe_whole [OF assms(1) run, of f table] assms(2) by simp
  then have "pw_message_ids w = sort (map fst (ac_by_id acc))"
    by (auto simp: finish_def Let_def split: if_splits sum.splits WindowPriceError.splits)
  ultimately show ?thesis by (simp add: fresh_ids_def)
qed

lemma split_nl_line_end: "split_nl (a @ CHR 0x0A # b) = split_nl a @ split_nl b"
  by (induction a) (auto simp: neq_Nil_conv hd_append tl_append split: list.splits)

text \<open>
  C4. What one window priced no later window prices. When a read of a session's transcript priced a window, its
  newest record becomes the next watermark and its message ids join the counted ones. Reading the transcript again
  later, grown by any new lines after a complete last line and still within the byte cap, prices exactly the new
  lines: the answer is the one a transcript holding only the new lines would give, up to the count of other
  sessions' lines. Records out of order, stopped scans, repeated lines and lines of other sessions do not change
  this. And a message of an earlier window is not priced again even when the new lines carry more of its blocks: none of the message ids
  the second window prices is among those counted before. What is left is a record without a message id, which a
  host that writes it again in a new line has counted again.
\<close>
theorem windows_never_overlap:
  assumes "observe_priced f decode parse (Some old) (ParentWindow after counted_ids horizon) session table cap = Priced w"
    and "pw_last_event_time w = Some (newest, year)"
    and "old = before @ [CHR 0x0A]" "length (old @ new) \<le> cap"
    and "counted_ids \<union> set (pw_message_ids w) \<subseteq> counted_ids'"
  shows "own_part (observe_priced f decode parse (Some (old @ new)) (ParentWindow newest counted_ids' horizon') session table' cap)
      = own_part (observe_priced f decode parse (Some new) (ParentWindow newest counted_ids' horizon') session table' cap)
    \<and> (\<forall>w'. observe_priced f decode parse (Some (old @ new)) (ParentWindow newest counted_ids' horizon') session table' cap = Priced w'
        \<longrightarrow> set (pw_message_ids w') \<inter> (counted_ids \<union> set (pw_message_ids w)) = {})"
proof -
  let ?first = "visit_line decode parse (ParentWindow after counted_ids horizon) session"
  let ?again = "visit_line decode parse (ParentWindow newest counted_ids' horizon') session"
  have lines: "rev (split_nl old) = [] # rev (split_nl before)" "rev (split_nl (old @ new)) = rev (split_nl new) @ rev (split_nl before)"
    using assms(3) by (simp_all add: split_nl_line_end)
  obtain acc1 r1 where first: "visit_lines ?first Accumulator_default (rev (split_nl before)) = (acc1, r1)" by fastforce
  have "visit_lines ?first Accumulator_default (rev (split_nl old)) = (acc1, r1)"
    unfolding lines(1) using first by (simp add: visit_line_def [of _ _ _ _ _ "[]"])
  from observe_whole [OF _ this, of cap f table] assms(1,4)
  have "finish f acc1 table = Priced w" by simp
  from finish_priced [OF this] have acc1: "quiet acc1" "ac_last_event_time acc1 = Some (newest, year)"
    using assms(2) by simp_all
  have "after \<le> newest"
    using visit_lines_dated [OF first] acc1(2) by (simp add: dated_after_def Accumulator_default_def)
  moreover have "last_within newest acc1" by (simp add: last_within_def acc1)
  ultimately have twice: "same_own acc2 acc2'" if "visit_lines ?again acc2 (rev (split_nl before)) = (acc2', r2)" for acc2 acc2' r2
    using scan_not_counted_twice [OF first acc1(1) _ _ _ that] assms(5) by simp
  obtain acc2 r2 where new: "visit_lines ?again Accumulator_default (rev (split_nl new)) = (acc2, r2)" by fastforce
  obtain acc3 r3 where all: "visit_lines ?again Accumulator_default (rev (split_nl (old @ new))) = (acc3, r3)" by fastforce
  have "same_own acc2 acc3"
    using all new twice unfolding lines(2) visit_lines_append by (cases r2) auto
  then have "own_part (observe_priced f decode parse (Some (old @ new)) (ParentWindow newest counted_ids' horizon') session table' cap)
      = own_part (observe_priced f decode parse (Some new) (ParentWindow newest counted_ids' horizon') session table' cap)"
    using observe_whole [OF _ new, of cap f table'] observe_whole [OF assms(4) all, of f table'] assms(4)
    by (simp add: finish_own_part)
  with observed_ids_fresh [OF assms(4)] assms(5) show ?thesis by blast
qed

definition demo_line :: "string \<Rightarrow> string \<Rightarrow> u64 \<Rightarrow> PricedLine" where
  "demo_line stamp mid input =
     \<lparr>pl_kind = Some (LValue ''assistant''), pl_timestamp = Some (LValue stamp), pl_session = Some (LValue ''s''),
      pl_sidechain = None, pl_agent = None,
      pl_message = Some \<lparr>pm_id = Some (LValue mid), pm_model = Some (LValue ''m''),
        pm_usage = Some (LValue \<lparr>pu_input_tokens = Some (LValue input), pu_cache_creation_input_tokens = None,
          pu_cache_read_input_tokens = None, pu_output_tokens = Some (LValue 2000), pu_cache_creation = None,
          pu_speed = None, pu_inference_geo = None\<rparr>)\<rparr>\<rparr>"

definition demo_decode :: line_decoder where
  "demo_decode line = (if line = ''a'' then Some (demo_line ''1'' ''x'' 3000) else if line = ''b'' then Some (demo_line ''2'' ''y'' 500)
     else None)"

definition demo_stamp :: stamp_parser where
  "demo_stamp text = (if text = ''1'' then Some (1, 2026) else if text = ''2'' then Some (2, 2026) else None)"

definition demo_prices :: "rat PricingTable" where
  "demo_prices = \<lparr>pt_entries = [(''m'', price rat_floats (2, 1) (25, 10) (2, 10) (10, 1))]\<rparr>"

definition demo_window :: PricedWindow where
  "demo_window = \<lparr>pw_cents = 3, pw_records = 1, pw_last_event_time = Some (1, 2026), pw_message_ids = [''x''],
     pw_foreign_lines = 0, pw_id_less_records = 0\<rparr>"

theorem windows_never_overlap_witness:
  "observe_priced rat_floats demo_decode demo_stamp (Some [CHR ''a'', CHR 0x0A]) (ParentWindow 0 {} 9) ''s'' demo_prices 100
     = Priced demo_window
   \<and> own_part (observe_priced rat_floats demo_decode demo_stamp (Some [CHR ''a'', CHR 0x0A, CHR ''b'']) (ParentWindow 1 {''x''} 9) ''s''
         demo_prices 100)
     = own_part (observe_priced rat_floats demo_decode demo_stamp (Some ''b'') (ParentWindow 1 {''x''} 9) ''s'' demo_prices 100)"
proof -
  have "observe_priced rat_floats demo_decode demo_stamp (Some [CHR ''a'', CHR 0x0A]) (ParentWindow 0 {} 9) ''s'' demo_prices 100
     = finish rat_floats (fst (visit_lines (visit_line demo_decode demo_stamp (ParentWindow 0 {} 9) ''s'') Accumulator_default
         (rev (split_nl [CHR ''a'', CHR 0x0A])))) demo_prices"
    by (rule observe_whole [OF _ surjective_pairing]) simp
  also have "\<dots> = Priced demo_window" by code_simp
  finally have first: "observe_priced rat_floats demo_decode demo_stamp (Some [CHR ''a'', CHR 0x0A]) (ParentWindow 0 {} 9) ''s''
     demo_prices 100 = Priced demo_window" .
  from first windows_never_overlap [OF first, of 1 2026 "''a''" "''b''" "{''x''}" 9 demo_prices] show ?thesis
    by (simp add: demo_window_def)
qed

end
