(* ===== verification/Budget_Settle.thy ===== *)
theory Budget_Settle
  imports Budget_Charge Transcript_Pricing
begin

text \<open>
  Settling a turn from its transcript (\<open>settle_turn\<close>, \<open>settle_tail\<close> and \<open>transcript_ready\<close> of
  \<open>crates/daemon/src/shared_budget.rs\<close>): which hold of a lane a \<open>Stop\<close> or a \<open>SessionEnd\<close> acts on, the window of
  records it prices, what is booked when the window cannot be measured, and the watermark that moves with it. The
  files, the decoding of their lines and the parsing of timestamps are the record \<open>Transcripts\<close>.
\<close>

record Transcripts =
  tr_read :: "string \<Rightarrow> string option"
  tr_decode :: line_decoder
  tr_parse :: stamp_parser

section \<open>The window of a lane\<close>

definition MAX_WATERMARK_IDS :: nat where "MAX_WATERMARK_IDS = WATERMARK_ID_CAP"

definition list_max :: "instant list \<Rightarrow> instant option" where
  "list_max ts = (if ts = [] then None else Some (Max (set ts)))"

definition list_min :: "instant list \<Rightarrow> instant option" where
  "list_min ts = (if ts = [] then None else Some (Min (set ts)))"

definition lane_holds :: "'f Runtime \<Rightarrow> string \<Rightarrow> SharedPoolReservation list daemon" where
  "lane_holds rt session_id =
     look (\<lambda>s. shared_lane_holds (rt_ext rt) s budget_principal session_id None AgentAbsent OWNER_POOL_PREFIX)"

definition lane_mark :: "'f Runtime \<Rightarrow> string \<Rightarrow> SettleWatermark option daemon" where
  "lane_mark rt session_id =
     look (\<lambda>s. shared_lane_watermark (rt_ext rt) s budget_principal session_id None AgentAbsent OWNER_POOL_PREFIX)"

definition lane_window ::
    "'f Runtime \<Rightarrow> string \<Rightarrow> SharedPoolReservation list \<Rightarrow> (instant \<times> string list) option daemon" where
  "lane_window rt session_id holds =
     dbind (lane_mark rt session_id) (\<lambda>mark.
     let ids = (case mark of Some m \<Rightarrow> wm_message_ids m | None \<Rightarrow> [])
     in case Option.bind mark wm_at of
          Some t \<Rightarrow> ok (Some (t, ids))
        | None \<Rightarrow>
            ok (map_option (\<lambda>t. (t, ids))
              (case list_max (List.map_filter spr_settled_at (filter (\<lambda>h. spr_state h = Settled) holds)) of
                 Some t \<Rightarrow> Some t
               | None \<Rightarrow> list_min (map spr_created_at holds))))"

text \<open>The ids in order of first appearance, and the newest of them up to the cap.\<close>
fun first_seen :: "string list \<Rightarrow> string list \<Rightarrow> string list" where
  "first_seen out [] = out"
| "first_seen out (i # rest) = first_seen (if i \<in> set out then out else out @ [i]) rest"

definition merged_ids :: "string list \<Rightarrow> string list \<Rightarrow> string list" where
  "merged_ids previous counted =
     (let out = first_seen [] (previous @ counted)
      in if MAX_WATERMARK_IDS < length out then drop (length out - MAX_WATERMARK_IDS) out else out)"

text \<open>Up to the cap no id is lost, so the next window knows everything the earlier ones counted.\<close>
lemma set_first_seen: "set (first_seen out ids) = set out \<union> set ids"
  by (induction out ids rule: first_seen.induct) auto

lemma merged_ids_cover:
  "length (first_seen [] (previous @ counted)) \<le> MAX_WATERMARK_IDS \<Longrightarrow>
     set previous \<union> set counted \<subseteq> set (merged_ids previous counted)"
  by (simp add: merged_ids_def Let_def set_first_seen)

definition pending_hold :: "SharedPoolReservation list \<Rightarrow> SharedPoolReservation option" where
  "pending_hold holds =
     (case keep_best (\<lambda>h b. spr_created_at b \<le> spr_created_at h) None
         (filter (\<lambda>h. spr_charge_source h \<noteq> Some Gateway \<and> spr_charge_source h \<noteq> Some SubagentTranscript) holds) of
        None \<Rightarrow> None
      | Some h \<Rightarrow>
          if spr_state h = Active \<or> spr_state h = Expired \<and> spr_settled_amount h = None then Some h else None)"

section \<open>Measuring a window\<close>

record SettledAnswer =
  se_reservation_id :: uuid
  se_pool_id :: string
  se_hold_usd_cents :: u64
  se_settled_usd_cents :: u64
  se_usage_known :: bool
  se_overrun_usd_cents :: u64
  se_unmeasured_reason :: "string option"

datatype TurnSettlement =
    Turn_NotConfigured
  | Turn_NotApplicable
  | Turn_NoHold
  | Turn_Settled SettledAnswer
  | Turn_AlreadySettled

datatype SettleWindowOutcome = Window_Settled TurnSettlement | Window_NotBooked "string option"

definition IMPLAUSIBLE_USAGE_REASON :: string where "IMPLAUSIBLE_USAGE_REASON = ''usage_implausible''"

definition in_event_years :: "stamp option \<Rightarrow> instant option" where
  "in_event_years st = (case st of Some (t, y) \<Rightarrow> if event_year_ok y then Some t else None | None \<Rightarrow> None)"

definition unavailable_reason :: "UsageUnavailable \<Rightarrow> string" where
  "unavailable_reason why = (case why of
     NoTranscriptPath \<Rightarrow> ''no_transcript_path''
   | Unreadable \<Rightarrow> ''transcript_unreadable''
   | ScanCapReached \<Rightarrow> ''scan_cap_reached''
   | NoUsageInWindow \<Rightarrow> ''no_usage_in_window''
   | TurnIncomplete \<Rightarrow> ''transcript_inconsistent''
   | Inconsistent \<Rightarrow> ''transcript_inconsistent'')"

definition observe_window ::
    "'f Runtime \<Rightarrow> Transcripts \<Rightarrow> 'f SharedBudgetConfig \<Rightarrow> string \<Rightarrow> instant \<Rightarrow> string list \<Rightarrow> instant \<Rightarrow> string
      \<Rightarrow> PricedObservation" where
  "observe_window rt tr cfg session_id after previous_ids now path =
     observe_priced (rt_floats rt) (tr_decode tr) (tr_parse tr) (tr_read tr path)
       (ParentWindow after (set previous_ids) (now + FUTURE_SKEW)) session_id
       (overrides_table (rt_floats rt) (cfg_pricing_overrides cfg)) BUDGET_SCAN_CAP_BYTES"

text \<open>What an observation settles: the measured amount, why there is none, the mark that moves with it.\<close>
definition window_measurement ::
    "string list \<Rightarrow> bool \<Rightarrow> u64 \<Rightarrow> PricedObservation
      \<Rightarrow> (u64 option \<times> string option \<times> SettleWatermark option) daemon" where
  "window_measurement previous_ids book_flat hold_amount observation =
     (case observation of
        Priced window \<Rightarrow>
          dbind (telemetry (\<lambda>t. t\<lparr>te_id_less_records := te_id_less_records t + of_nat (pw_id_less_records window),
            te_foreign_lines := te_foreign_lines t + of_nat (pw_foreign_lines window)\<rparr>)) (\<lambda>_.
          ok (Some (pw_cents window), None,
            Some \<lparr>wm_at = in_event_years (pw_last_event_time window),
              wm_message_ids = merged_ids previous_ids (pw_message_ids window)\<rparr>))
      | SessionMismatch \<Rightarrow>
          dbind (telemetry (\<lambda>t. t\<lparr>te_binding_mismatches := te_binding_mismatches t + 1\<rparr>)) (\<lambda>_.
          ok (None, Some ''binding_mismatch'', None))
      | FutureTimestamp priced_cents newest_in_bound message_ids \<Rightarrow>
          dbind (telemetry (\<lambda>t. t\<lparr>te_future_timestamps := te_future_timestamps t + 1\<rparr>)) (\<lambda>_.
          ok (case priced_cents of Some c \<Rightarrow> if \<not> book_flat \<or> hold_amount < c then Some c else None | None \<Rightarrow> None,
            Some ''future_timestamp'',
            map_option (\<lambda>_. \<lparr>wm_at = in_event_years newest_in_bound,
              wm_message_ids = merged_ids previous_ids message_ids\<rparr>) priced_cents))
      | SessionUnverified \<Rightarrow>
          dbind (telemetry (\<lambda>t. t\<lparr>te_unverified := te_unverified t + 1\<rparr>)) (\<lambda>_.
          ok (None, Some ''transcript_unverified'', None))
      | MalformedUsage \<Rightarrow> ok (None, Some ''usage_malformed'', None)
      | UnpricedModels models \<Rightarrow>
          dbind (note_unpriced models) (\<lambda>_. ok (None, Some ''unpriced_model'', None))
      | Unavailable why \<Rightarrow> ok (None, Some (unavailable_reason why), None))"

definition settled_answer :: "string option \<Rightarrow> SharedPoolSettleOutcome \<Rightarrow> TurnSettlement" where
  "settled_answer reason outcome =
     (case outcome of
        Settle_Settled reservation _ overrun \<Rightarrow>
          Turn_Settled \<lparr>se_reservation_id = spr_id reservation, se_pool_id = spr_pool_id reservation,
            se_hold_usd_cents = spr_amount reservation,
            se_settled_usd_cents = (case spr_settled_amount reservation of Some c \<Rightarrow> c | None \<Rightarrow> spr_amount reservation),
            se_usage_known = (case spr_usage_known reservation of Some k \<Rightarrow> k | None \<Rightarrow> False),
            se_overrun_usd_cents = (case overrun of Some v \<Rightarrow> v | None \<Rightarrow> 0),
            se_unmeasured_reason = reason\<rparr>
      | _ \<Rightarrow> Turn_AlreadySettled)"

text \<open>The window's price is not trusted beyond the settlement ceiling; its mark still moves.\<close>
definition plausible ::
    "'f SharedBudgetFileState \<Rightarrow> u64 option \<times> string option \<times> SettleWatermark option
      \<Rightarrow> u64 option \<times> string option \<times> SettleWatermark option" where
  "plausible state m =
     (case m of (actual, reason, watermark) \<Rightarrow>
        if implausible_measurement state actual then (None, Some IMPLAUSIBLE_USAGE_REASON, watermark) else m)"

text \<open>An invalid file: the pricing it would supply is not trusted.\<close>
definition window_source ::
    "'f Runtime \<Rightarrow> Transcripts \<Rightarrow> 'f SharedBudgetFileState \<Rightarrow> string \<Rightarrow> SharedPoolReservation \<Rightarrow> string option \<Rightarrow> bool \<Rightarrow> instant
      \<Rightarrow> instant \<Rightarrow> string list \<Rightarrow> (u64 option \<times> string option \<times> SettleWatermark option) daemon" where
  "window_source rt tr state session_id target transcript_path book_flat now after previous_ids =
     (case state of
        File_Valid cfg \<Rightarrow>
          window_measurement previous_ids book_flat (spr_amount target)
            (case transcript_path of
               None \<Rightarrow> Unavailable NoTranscriptPath
             | Some path \<Rightarrow> observe_window rt tr cfg session_id after previous_ids now path)
      | _ \<Rightarrow> ok (None, Some ''config_invalid'', None))"

definition book_window ::
    "'f Runtime \<Rightarrow> 'f SharedBudgetFileState \<Rightarrow> SharedPoolReservation \<Rightarrow> bool \<Rightarrow> instant
      \<Rightarrow> u64 option \<times> string option \<times> SettleWatermark option \<Rightarrow> SettleWindowOutcome daemon" where
  "book_window rt state target book_flat now measured =
     (case plausible state measured of (actual, reason, watermark) \<Rightarrow>
        if actual = None \<and> \<not> book_flat then ok (Window_NotBooked reason)
        else
          dbind (if reason \<noteq> None
                 then telemetry (\<lambda>t. t\<lparr>te_unmeasured_settlements := te_unmeasured_settlements t + 1\<rparr>)
                 else ok ()) (\<lambda>_.
          dbind (tx (\<lambda>s. settle_shared_with_watermark (rt_ext rt) s (spr_id target) actual now
            (main_executor (Some TurnHold)) watermark)) (\<lambda>outcome.
          ok (Window_Settled (settled_answer reason outcome)))))"

definition settle_hold_from_window ::
    "'f Runtime \<Rightarrow> Transcripts \<Rightarrow> 'f SharedBudgetFileState \<Rightarrow> string \<Rightarrow> SharedPoolReservation list \<Rightarrow> SharedPoolReservation
      \<Rightarrow> string option \<Rightarrow> bool \<Rightarrow> instant \<Rightarrow> SettleWindowOutcome daemon" where
  "settle_hold_from_window rt tr state session_id holds target transcript_path book_flat now =
     dbind (lane_window rt session_id holds) (\<lambda>window.
     let (after, previous_ids) = (case window of Some w \<Rightarrow> w | None \<Rightarrow> (spr_created_at target, []))
     in if state = File_Absent then ok (Window_Settled Turn_NotConfigured)
        else dbind (window_source rt tr state session_id target transcript_path book_flat now after previous_ids)
          (book_window rt state target book_flat now))"

section \<open>Turns metered by the gateway\<close>

definition session_is_routed :: "'f Runtime \<Rightarrow> 'f SharedBudgetConfig \<Rightarrow> string \<Rightarrow> instant \<Rightarrow> bool daemon" where
  "session_is_routed rt cfg session_id now =
     dbind (period_at rt cfg now) (\<lambda>period.
     look (\<lambda>s. Inr (has_gateway_row_for_session s (pe_pool_id period) budget_principal session_id)))"

text \<open>\<open>{}\<close> of a signed integer.\<close>
definition show_int :: "int \<Rightarrow> string" where "show_int n = (if n < 0 then CHR ''-'' # show_u64 (- n) else show_u64 n)"

text \<open>The charge and its mark; a pool in another unit is passed over.\<close>
definition marked_charge ::
    "'f Runtime \<Rightarrow> SharedPoolChargeRequest \<Rightarrow> SettleWatermark option \<Rightarrow> uuid \<Rightarrow> unit daemon" where
  "marked_charge rt req watermark rid =
     dbind (attempt (tx (\<lambda>s. charge_shared_with_watermark (rt_ext rt) s req watermark rid))) (\<lambda>outcome.
     case outcome of
       Inl (Err_Ledger (QuotaUnitMismatch _ _)) \<Rightarrow> ok ()
     | Inl e \<Rightarrow> err e
     | Inr _ \<Rightarrow> ok ())"

definition mark_request ::
    "'f SharedBudgetConfig \<Rightarrow> PoolId \<Rightarrow> string \<Rightarrow> string \<Rightarrow> instant \<Rightarrow> ExecutorAttribution \<Rightarrow> SharedPoolChargeRequest" where
  "mark_request cfg pool_id session_id key now attribution =
     \<lparr>cr_pool_id = pool_id, cr_principal_id = budget_principal, cr_session_id = session_id, cr_amount = 0,
      cr_unit = UsdCents, cr_idempotency_key = key, cr_now = now, cr_attribution = attribution,
      cr_capacity_source = source cfg, cr_usage_known = True\<rparr>"

text \<open>\<open>n\<close> is the first of the two consultations of the clock.\<close>
definition advance_gateway_mark :: "'f Runtime \<Rightarrow> nat \<Rightarrow> 'f SharedBudgetConfig \<Rightarrow> string \<Rightarrow> unit daemon" where
  "advance_gateway_mark rt n cfg session_id =
     (if starts_with PROVIDER_LANE_PREFIX session_id then ok ()
      else dbind (session_is_routed rt cfg session_id (rt_now rt n)) (\<lambda>routed.
        if \<not> routed
        then telemetry (\<lambda>t. if card (te_unrouted_sessions t) < MAX_UNROUTED_SESSIONS
          then t\<lparr>te_unrouted_sessions := insert (opaque_id rt session_id) (te_unrouted_sessions t)\<rparr> else t)
        else let now = rt_now rt (n + 1) in
          dbind (period_at rt cfg now) (\<lambda>period.
          marked_charge rt
            (mark_request cfg (pe_pool_id period) session_id (''gateway-mark:'' @ lp session_id @ ''|'' @ show_int now) now
              (attribution_for None TurnHold))
            (Some \<lparr>wm_at = Some now, wm_message_ids = []\<rparr>) (rt_fresh rt 0))))"

section \<open>The \<open>Stop\<close> of a turn\<close>

definition stop_replayed ::
    "'f Runtime \<Rightarrow> string \<Rightarrow> SharedPoolReservation list \<Rightarrow> string option \<Rightarrow> bool daemon" where
  "stop_replayed rt session_id holds prompt_id =
     (case prompt_id of
        Some p \<Rightarrow>
          if blank p then ok False
          else dbind (look (\<lambda>s. hold_for_prompt (rt_ext rt) s budget_principal session_id p)) (\<lambda>mapped.
            ok (case mapped of
              Some accepted \<Rightarrow> (case pending_hold holds of None \<Rightarrow> True | Some t \<Rightarrow> spr_id t \<noteq> accepted)
            | None \<Rightarrow>
                list_ex (\<lambda>h. spr_state h = Settled \<and> spr_idempotency_key h = hold_key session_id None ''p'' p) holds))
      | None \<Rightarrow> ok False)"

definition settle_turn ::
    "'f Runtime \<Rightarrow> Transcripts \<Rightarrow> string \<Rightarrow> string option \<Rightarrow> string option \<Rightarrow> TurnSettlement daemon" where
  "settle_turn rt tr session_id transcript_path prompt_id =
     (let state = rt_effective rt 0 in
      if state = File_Absent then ok Turn_NotConfigured
      else case validate_lane_key session_id of
        Inl _ \<Rightarrow> ok Turn_NotApplicable
      | Inr _ \<Rightarrow>
          dbind (lane_holds rt session_id) (\<lambda>holds.
          dbind (stop_replayed rt session_id holds (usable_prompt prompt_id)) (\<lambda>replay.
          if replay then ok Turn_AlreadySettled
          else
            dbind (case pending_hold holds of
                None \<Rightarrow> ok Turn_NoHold
              | Some target \<Rightarrow>
                  dbind (settle_hold_from_window rt tr state session_id holds target transcript_path True (rt_now rt 0))
                    (\<lambda>outcome. ok (case outcome of Window_Settled settlement \<Rightarrow> settlement | Window_NotBooked _ \<Rightarrow> Turn_NoHold)))
              (\<lambda>settlement.
            dbind (case state of
                File_Valid cfg \<Rightarrow>
                  if cfg_enforcement cfg = Enforce_Gateway
                  then advance_gateway_mark rt (case pending_hold holds of None \<Rightarrow> 0 | Some _ \<Rightarrow> 1) cfg session_id else ok ()
              | _ \<Rightarrow> ok ()) (\<lambda>_.
            ok settlement)))))"

section \<open>The end of a session\<close>

record TailFlags =
  tf_unmeasured :: bool
  tf_unpriced :: bool
  tf_unverified :: bool
  tf_mismatch :: bool

definition TailFlags_default :: TailFlags where
  "TailFlags_default = \<lparr>tf_unmeasured = False, tf_unpriced = False, tf_unverified = False, tf_mismatch = False\<rparr>"

definition tail_flags_for :: "string option \<Rightarrow> TailFlags" where
  "tail_flags_for reason =
     (case reason of
        None \<Rightarrow> TailFlags_default
      | Some r \<Rightarrow>
          if r = ''binding_mismatch'' then TailFlags_default\<lparr>tf_mismatch := True, tf_unmeasured := True\<rparr>
          else if r = ''transcript_unverified'' then TailFlags_default\<lparr>tf_unverified := True, tf_unmeasured := True\<rparr>
          else if r = ''unpriced_model'' then TailFlags_default\<lparr>tf_unpriced := True, tf_unmeasured := True\<rparr>
          else TailFlags_default\<lparr>tf_unmeasured := True\<rparr>)"

definition tail_posture ::
    "'f SharedBudgetConfig \<Rightarrow> SourcedAdmission option \<Rightarrow> TailFlags \<Rightarrow> (uuid \<times> string) option \<Rightarrow> u64 \<Rightarrow> bool
      \<Rightarrow> SharedBudgetOutcome" where
  "tail_posture cfg admission tail row charged already =
     Out_TailSettled \<lparr>ta_reservation_id = map_option fst row, ta_pool_id = map_option snd row,
       ta_amount_charged_usd_cents = charged, ta_already_charged = already,
       ta_remaining_usd_cents = (case admission of Some a \<Rightarrow> pa_remaining (sa_admission a)
         | None \<Rightarrow> i64_of_u64 (cfg_monthly_cap_usd_cents cfg)),
       ta_overrun_usd_cents = (case admission of Some a \<Rightarrow> pa_overrun (sa_admission a) | None \<Rightarrow> 0),
       ta_unmeasured = tf_unmeasured tail, ta_unpriced = tf_unpriced tail, ta_transcript_unverified = tf_unverified tail,
       ta_binding_mismatch = tf_mismatch tail\<rparr>"

definition is_absolute :: "string \<Rightarrow> bool" where "is_absolute path = starts_with ''/'' path"

text \<open>The hold the session leaves behind: the answer when it was settled or left alone.\<close>
definition tail_hold ::
    "'f Runtime \<Rightarrow> Transcripts \<Rightarrow> 'f SharedBudgetFileState \<Rightarrow> 'f SharedBudgetConfig \<Rightarrow> string \<Rightarrow> string \<Rightarrow> Period \<Rightarrow> instant
      \<Rightarrow> SourcedAdmission option \<Rightarrow> SharedPoolReservation list \<Rightarrow> SharedBudgetOutcome option daemon" where
  "tail_hold rt tr state cfg session_id transcript_path period now admission holds =
     (case pending_hold holds of
        None \<Rightarrow> ok None
      | Some target \<Rightarrow>
          dbind (settle_hold_from_window rt tr state session_id holds target
            (if blank transcript_path then None else Some transcript_path)
            (spr_state target = Active \<and> now < spr_expires_at target) (rt_now rt 1)) (\<lambda>outcome.
          case outcome of
            Window_Settled (Turn_Settled answer) \<Rightarrow>
              dbind (look (\<lambda>s. pool_admission_for (rt_ext rt) s (pe_pool_id period) now (source cfg))) (\<lambda>admission.
              ok (Some (tail_posture cfg admission (tail_flags_for (se_unmeasured_reason answer))
                (Some (se_reservation_id answer, se_pool_id answer)) (se_settled_usd_cents answer) False)))
          | Window_NotBooked reason \<Rightarrow> ok (Some (tail_posture cfg admission (tail_flags_for reason) None 0 False))
          | Window_Settled _ \<Rightarrow> ok None))"

text \<open>The records after the last settlement, booked with their mark in one transaction.\<close>
definition tail_charge ::
    "'f Runtime \<Rightarrow> 'f SharedBudgetFileState \<Rightarrow> 'f SharedBudgetConfig \<Rightarrow> string \<Rightarrow> SourcedAdmission option \<Rightarrow> instant
      \<Rightarrow> string list \<Rightarrow> PricedWindow \<Rightarrow> instant \<Rightarrow> SharedBudgetOutcome daemon" where
  "tail_charge rt state cfg session_id admission after previous_ids window booked_at =
     (case in_event_years (pw_last_event_time window) of
        None \<Rightarrow> ok (tail_posture cfg admission TailFlags_default None 0 False)
      | Some newest \<Rightarrow>
          if pw_cents window = 0 then ok (tail_posture cfg admission TailFlags_default None 0 False)
          else
            dbind (telemetry (\<lambda>t. t\<lparr>te_id_less_records := te_id_less_records t + of_nat (pw_id_less_records window),
              te_foreign_lines := te_foreign_lines t + of_nat (pw_foreign_lines window)\<rparr>)) (\<lambda>_.
            dbind (rfc rt after) (\<lambda>after_text.
            dbind (rfc rt newest) (\<lambda>last_text.
            dbind (book_charge rt state
              \<lparr>bc_session_id = session_id, bc_agent_id = None, bc_amount_usd_cents = pw_cents window,
               bc_key = ''tail:'' @ lp session_id @ ''|'' @ after_text @ ''|'' @ last_text,
               bc_charge_source = TurnHold, bc_event_time = Some last_text, bc_usage_known = True,
               bc_watermark = Some \<lparr>wm_at = Some newest, wm_message_ids = merged_ids previous_ids (pw_message_ids window)\<rparr>\<rparr>
              (rt_fresh rt 0) booked_at) (\<lambda>outcome.
            ok (case outcome of
              Out_Charged c \<Rightarrow>
                Out_TailSettled \<lparr>ta_reservation_id = Some (ch_reservation_id c), ta_pool_id = Some (ch_pool_id c),
                  ta_amount_charged_usd_cents = (if ch_already_charged c then 0 else ch_amount_usd_cents c),
                  ta_already_charged = ch_already_charged c, ta_remaining_usd_cents = ch_remaining_usd_cents c,
                  ta_overrun_usd_cents = ch_overrun_usd_cents c, ta_unmeasured = False, ta_unpriced = False,
                  ta_transcript_unverified = False, ta_binding_mismatch = False\<rparr>
            | other \<Rightarrow> other))))))"

text \<open>What a window that was not priced says about the tail.\<close>
definition tail_flags :: "PricedObservation \<Rightarrow> TailFlags daemon" where
  "tail_flags observation =
     (case observation of
        Unavailable NoUsageInWindow \<Rightarrow> ok TailFlags_default
      | SessionMismatch \<Rightarrow>
          dbind (telemetry (\<lambda>t. t\<lparr>te_binding_mismatches := te_binding_mismatches t + 1\<rparr>))
            (\<lambda>_. ok (TailFlags_default\<lparr>tf_mismatch := True\<rparr>))
      | SessionUnverified \<Rightarrow>
          dbind (telemetry (\<lambda>t. t\<lparr>te_unverified := te_unverified t + 1\<rparr>))
            (\<lambda>_. ok (TailFlags_default\<lparr>tf_unverified := True, tf_unmeasured := True\<rparr>))
      | UnpricedModels models \<Rightarrow>
          dbind (note_unpriced models) (\<lambda>_. ok (TailFlags_default\<lparr>tf_unpriced := True, tf_unmeasured := True\<rparr>))
      | FutureTimestamp _ _ _ \<Rightarrow>
          dbind (telemetry (\<lambda>t. t\<lparr>te_future_timestamps := te_future_timestamps t + 1\<rparr>))
            (\<lambda>_. ok (TailFlags_default\<lparr>tf_unmeasured := True\<rparr>))
      | _ \<Rightarrow> ok (TailFlags_default\<lparr>tf_unmeasured := True\<rparr>))"

text \<open>\<open>n\<close> counts the consultations of the clock so far.\<close>
definition tail_window ::
    "'f Runtime \<Rightarrow> Transcripts \<Rightarrow> 'f SharedBudgetFileState \<Rightarrow> 'f SharedBudgetConfig \<Rightarrow> string \<Rightarrow> string \<Rightarrow> instant
      \<Rightarrow> SourcedAdmission option \<Rightarrow> SharedPoolReservation list \<Rightarrow> nat \<Rightarrow> SharedBudgetOutcome daemon" where
  "tail_window rt tr state cfg session_id transcript_path now admission holds n =
     dbind (lane_mark rt session_id) (\<lambda>mark.
     let has_mark = Option.bind mark wm_at \<noteq> None;
         has_settled_hold = list_ex (\<lambda>h. spr_state h = Settled) holds
     in if \<not> has_mark \<and> \<not> has_settled_hold then ok (refused Refuse_NoSettledLane)
        else
          dbind (lane_window rt session_id holds) (\<lambda>window.
          dbind (expect (Err_Internal ''a settled lane has no hold'') window) (\<lambda>(after, previous_ids).
          if \<not> is_absolute transcript_path
          then ok (tail_posture cfg admission (TailFlags_default\<lparr>tf_unmeasured := True\<rparr>) None 0 False)
          else
            let observation = observe_window rt tr cfg session_id after previous_ids now transcript_path
            in case observation of
                 Priced w \<Rightarrow> tail_charge rt state cfg session_id admission after previous_ids w (rt_now rt n)
               | _ \<Rightarrow>
                   dbind (tail_flags observation) (\<lambda>flags. ok (tail_posture cfg admission flags None 0 False)))))"

definition settle_tail_on_lane ::
    "'f Runtime \<Rightarrow> Transcripts \<Rightarrow> 'f SharedBudgetFileState \<Rightarrow> string \<Rightarrow> string \<Rightarrow> SharedBudgetOutcome daemon" where
  "settle_tail_on_lane rt tr state session_id transcript_path =
     (if state = File_Absent then ok Out_NotConfigured
      else case validate_lane_key session_id of
        Inl reason \<Rightarrow> ok (refused reason)
      | Inr _ \<Rightarrow>
          (case configured state of
             Inl outcome \<Rightarrow> ok outcome
           | Inr cfg \<Rightarrow>
               let now = rt_now rt 0 in
               dbind (period_at rt cfg now) (\<lambda>period.
               dbind (look (\<lambda>s. pool_admission_for (rt_ext rt) s (pe_pool_id period) now (source cfg))) (\<lambda>admission.
               dbind (lane_holds rt session_id) (\<lambda>holds.
               dbind (tail_hold rt tr state cfg session_id transcript_path period now admission holds) (\<lambda>answer.
               case answer of
                 Some outcome \<Rightarrow> ok outcome
               | None \<Rightarrow>
                   let n = (case pending_hold holds of None \<Rightarrow> 1 | Some _ \<Rightarrow> 2) in
                   if cfg_enforcement cfg = Enforce_Gateway
                   then dbind (advance_gateway_mark rt n cfg session_id) (\<lambda>_. ok (refused Refuse_GatewayMetered))
                   else tail_window rt tr state cfg session_id transcript_path now admission holds n))))))"

definition settle_tail ::
    "'f Runtime \<Rightarrow> Transcripts \<Rightarrow> string \<Rightarrow> string \<Rightarrow> string option \<Rightarrow> SharedBudgetOutcome daemon" where
  "settle_tail rt tr session_id transcript_path provider =
     (if rt_effective rt 0 = File_Absent then ok Out_NotConfigured
      else case admission_lane rt session_id None provider False of
        Inl outcome \<Rightarrow> ok outcome
      | Inr (_, lane) \<Rightarrow> settle_tail_on_lane rt tr (rt_effective rt 1) lane transcript_path)"

section \<open>Waiting for a transcript\<close>

definition readiness :: "PricedObservation \<Rightarrow> SharedBudgetOutcome" where
  "readiness observation =
     Out_TranscriptReadiness (observation \<noteq> Unavailable Unreadable \<and> observation \<noteq> Unavailable NoUsageInWindow)"

fun path_parts :: "string \<Rightarrow> string list" where
  "path_parts [] = [[]]"
| "path_parts (c # cs) =
     (if c = CHR ''/'' then [] # path_parts cs
      else case path_parts cs of [] \<Rightarrow> [[c]] | p # ps \<Rightarrow> (c # p) # ps)"

text \<open>\<open>Path::file_name\<close> on Unix.\<close>
definition path_file_name :: "string \<Rightarrow> string option" where
  "path_file_name path =
     (let parts = filter (\<lambda>p. p \<noteq> [] \<and> p \<noteq> ''.'') (path_parts path)
      in if parts = [] \<or> last parts = ''..'' then None else Some (last parts))"

definition strip_suffix :: "string \<Rightarrow> string \<Rightarrow> string option" where
  "strip_suffix suffix s = map_option rev (strip_prefix (rev suffix) (rev s))"

text \<open>The agent id in the name of a subagent's file.\<close>
definition agent_of_name :: "string \<Rightarrow> string option" where
  "agent_of_name name =
     Option.bind (strip_prefix ''agent-'' name) (\<lambda>rest.
     Option.bind (strip_suffix ''.jsonl'' rest) (\<lambda>aid.
     if aid \<noteq> [] \<and> list_all (\<lambda>c. is_ascii_alphanumeric c \<or> c = CHR ''-'' \<or> c = CHR ''_'') aid then Some aid else None))"

definition subagent_file_agent_id :: "string \<Rightarrow> string option" where
  "subagent_file_agent_id path = Option.bind (path_file_name path) agent_of_name"

definition observe_file ::
    "'f Runtime \<Rightarrow> Transcripts \<Rightarrow> 'f SharedBudgetConfig \<Rightarrow> string \<Rightarrow> string option \<Rightarrow> string \<Rightarrow> PricedObservation" where
  "observe_file rt tr cfg session_id agent_id path =
     observe_priced (rt_floats rt) (tr_decode tr) (tr_parse tr) (tr_read tr path) (WholeFile agent_id) session_id
       (overrides_table (rt_floats rt) (cfg_pricing_overrides cfg)) BUDGET_SCAN_CAP_BYTES"

definition transcript_ready_on_lane ::
    "'f Runtime \<Rightarrow> Transcripts \<Rightarrow> 'f SharedBudgetFileState \<Rightarrow> string \<Rightarrow> string \<Rightarrow> SharedBudgetOutcome daemon" where
  "transcript_ready_on_lane rt tr state session_id transcript_path =
     (case state of
        File_Absent \<Rightarrow> ok Out_NotConfigured
      | File_Invalid _ \<Rightarrow> ok (Out_TranscriptReadiness True)
      | File_Valid cfg \<Rightarrow>
          (case validate_lane_key session_id of
             Inl reason \<Rightarrow> ok (refused reason)
           | Inr _ \<Rightarrow>
               (case subagent_file_agent_id transcript_path of
                  Some agent_id \<Rightarrow>
                    if cfg_enforcement cfg = Enforce_Gateway \<or> \<not> is_absolute transcript_path
                    then ok (Out_TranscriptReadiness True)
                    else ok (readiness (observe_file rt tr cfg session_id (Some agent_id) transcript_path))
                | None \<Rightarrow>
                    dbind (lane_holds rt session_id) (\<lambda>holds.
                    case pending_hold holds of
                      None \<Rightarrow> ok (Out_TranscriptReadiness True)
                    | Some target \<Rightarrow>
                        dbind (lane_window rt session_id holds) (\<lambda>window.
                        let (after, previous_ids) = (case window of Some w \<Rightarrow> w | None \<Rightarrow> (spr_created_at target, []))
                        in ok (readiness (observe_window rt tr cfg session_id after previous_ids (rt_now rt 0) transcript_path)))))))"

definition transcript_ready ::
    "'f Runtime \<Rightarrow> Transcripts \<Rightarrow> string \<Rightarrow> string \<Rightarrow> string option \<Rightarrow> SharedBudgetOutcome daemon" where
  "transcript_ready rt tr session_id transcript_path provider =
     (case rt_effective rt 0 of
        File_Absent \<Rightarrow> ok Out_NotConfigured
      | File_Invalid _ \<Rightarrow> ok (Out_TranscriptReadiness True)
      | File_Valid _ \<Rightarrow>
          (case admission_lane rt session_id None provider False of
             Inl outcome \<Rightarrow> ok outcome
           | Inr (_, lane) \<Rightarrow> transcript_ready_on_lane rt tr (rt_effective rt 1) lane transcript_path))"

end
