(* ===== verification/Budget_Once.thy ===== *)
theory Budget_Once
  imports Budget_Effects Demo_Budget
begin

text \<open>
  A charge is booked once. The ledger looks for the key of a charge within one pool; the daemon first finds
  the pool an earlier attempt landed in, so a retry books nothing, whichever month it arrives in and whatever
  the budget file says by then.
\<close>

section \<open>Rows that carry a key\<close>

definition keyed :: "string \<Rightarrow> LedgerStore \<Rightarrow> bool" where
  "keyed key s \<longleftrightarrow> list_ex (\<lambda>r. r_principal_id r = budget_principal \<and> r_idempotency_key r = key
     \<and> starts_with OWNER_POOL_PREFIX (r_pool_id r)) (reservations s)"

lemma row_key_fields: "row_key r = (r_pool_id r, r_principal_id r, r_idempotency_key r)"
  by (simp add: row_key_def)

lemma find_by_key_mem: "r \<in> set (reservations s) \<Longrightarrow> row_key r = (p, pr, k) \<Longrightarrow> find_by_key s p pr k \<noteq> None"
  by (auto simp: find_by_key_def find_None_iff)

lemma keyed_in_place:
  assumes "keyed key s" "in_place (reservations s) (reservations s')"
  shows "keyed key s'"
proof -
  from assms(1) obtain r where r: "r \<in> set (reservations s)" "r_principal_id r = budget_principal" "r_idempotency_key r = key"
    "starts_with OWNER_POOL_PREFIX (r_pool_id r)" by (auto simp: keyed_def list_ex_iff)
  from in_place_row [OF assms(2) r(1)] obtain r' where "r' \<in> set (reservations s')" "row_key r' = row_key r"
    by (auto simp: evolves_def same_hold_def)
  with r show ?thesis by (auto simp: keyed_def list_ex_iff row_key_fields)
qed

text \<open>Totals stay, and so does the row of a key in a pool.\<close>
definition no_booking :: "PoolId \<Rightarrow> string \<Rightarrow> LedgerStore \<Rightarrow> LedgerStore \<Rightarrow> bool" where
  "no_booking pool key s t \<longleftrightarrow> (find_by_key s pool budget_principal key \<noteq> None \<longrightarrow>
     find_by_key t pool budget_principal key \<noteq> None \<and> (\<forall>p. committed_total t p = committed_total s p))"

interpretation no_booking: store_relation "no_booking pool key" for pool key
  by unfold_locales (auto simp: no_booking_def)

lemma ensure_pool_rows: "reservations (snd (ensure_pool x s p u c t)) = reservations s"
  by (cases "ensure_pool x s p u c t") (auto elim: ensure_pool_cases)

lemma no_booking_ensure: "effect (no_booking pool key) (ensure_period_pool rt pool_id cfg now)"
proof -
  have "no_booking pool key s (snd (ensure_pool (rt_ext rt) s pool_id UsdCents (cfg_monthly_cap_usd_cents cfg) now))" for s
    using ensure_pool_rows [of "rt_ext rt" s pool_id UsdCents "cfg_monthly_cap_usd_cents cfg" now]
    by (auto simp: no_booking_def find_by_key_def intro: committed_total_cong)
  then show ?thesis unfolding ensure_period_pool_def by (intro no_booking.effect_rules no_booking.effect_call)
qed

lemma find_update_where:
  assumes "\<And>r. row_key (f r) = row_key r"
  shows "(find (\<lambda>r. row_key r = k) (update_where p f rows) = None) = (find (\<lambda>r. row_key r = k) rows = None)"
proof -
  have "map row_key (update_where p f rows) = map row_key rows" using assms by (simp add: update_where_def)
  then show ?thesis by (simp add: find_key_None)
qed

lemma charge_of_known_key:
  assumes "find_by_key s (cr_pool_id req) (cr_principal_id req) (cr_idempotency_key req) \<noteq> None"
  shows "find_by_key (committed s (charge_shared_with_watermark x s req wm rid)) (cr_pool_id req) (cr_principal_id req)
      (cr_idempotency_key req) \<noteq> None
    \<and> (\<forall>p. committed_total (committed s (charge_shared_with_watermark x s req wm rid)) p = committed_total s p)"
proof (cases "charge_shared_with_watermark x s req wm rid")
  case (Inl e)
  then show ?thesis using assms by (simp add: committed_def)
next
  case (Inr r)
  obtain out s' where run: "charge_shared_with_watermark x s req wm rid = Inr (out, s')" using Inr by (cases r) simp
  have out: "\<nexists>u a v k. out = Charged u a v k"
    using run assms by (cases rule: charge_cases) auto
  have "find_by_key s' (cr_pool_id req) (cr_principal_id req) (cr_idempotency_key req) \<noteq> None"
    using run
  proof (cases rule: charge_cases)
    case (adopted existing wt ids)
    have "row_key (r\<lparr>r_watermark_ts := wt, r_watermark_message_ids := ids\<rparr>) = row_key r" for r
      by (simp add: row_key_def)
    with adopted assms show ?thesis by (simp add: find_by_key_def adopt_watermark_def find_update_where)
  qed (use assms in simp_all)
  moreover have "committed_total s' p = committed_total s p" for p
    using charge_totals [OF run, of p] out by (simp add: committed_total_def)
  ultimately show ?thesis by (simp add: run committed_def)
qed

lemma book_in_known_pool:
  "effect (no_booking pool_id (bc_key booked)) (book_in_pool rt cfg booked rid now existing pool_id clamped)"
proof -
  have "effect (no_booking pool_id (bc_key booked)) (tx (\<lambda>s. charge_shared_with_watermark (rt_ext rt) s
      (charge_request cfg booked pool_id now) (bc_watermark booked) rid))"
    using charge_of_known_key [where req = "charge_request cfg booked pool_id now"]
    by (intro no_booking.effect_tx) (simp add: no_booking_def charge_request_def)
  then show ?thesis
    by (auto simp: book_in_pool_def Let_def split: sum.splits SharedBudgetError.splits LedgerError.splits
        intro!: no_booking.effect_rules no_booking_ensure charge_answer_reads [THEN no_booking.effect_reads])
qed

section \<open>A known key books nothing\<close>

lemma known_key_found:
  assumes "sound x s" "keyed key s"
  obtains found where "find_shared_reservation_by_key x s budget_principal key OWNER_POOL_PREFIX = Inr (Some found)"
    "find_by_key s (spr_pool_id found) budget_principal key \<noteq> None"
proof -
  let ?hit = "\<lambda>row res. row \<in> set (reservations s) \<and> row_to_reservation x row = Inr res \<and> r_principal_id row = budget_principal
      \<and> r_idempotency_key row = key \<and> starts_with OWNER_POOL_PREFIX (r_pool_id row)"
  obtain found where found: "find_shared_reservation_by_key x s budget_principal key OWNER_POOL_PREFIX = Inr found"
    "found = None \<Longrightarrow> \<not> (\<exists>row res. ?hit row res)" "\<And>first. found = Some first \<Longrightarrow> \<exists>row. ?hit row first"
    using key_lookup_across_periods [OF soundD(3) [OF assms(1)], of budget_principal key OWNER_POOL_PREFIX]
    unfolding Let_def by (elim exE conjE) (auto split: option.split_asm)
  from assms(2) obtain r where r: "r \<in> set (reservations s)" "r_principal_id r = budget_principal" "r_idempotency_key r = key"
    "starts_with OWNER_POOL_PREFIX (r_pool_id r)" by (auto simp: keyed_def list_ex_iff)
  with soundD(3) [OF assms(1)] have "row_intact x r" by (simp add: list_all_iff)
  then obtain res where "row_to_reservation x r = Inr res" by (auto simp: row_intact_def split: sum.splits)
  with r have "?hit r res" by simp
  with found(2) obtain first where first: "found = Some first" by blast
  with found(3) obtain row where row: "?hit row first" by blast
  then have "find_by_key s (spr_pool_id first) budget_principal key \<noteq> None"
    using row_to_reservation_fields(4) [of x row first] by (auto simp: find_by_key_def find_None_iff row_key_fields)
  with that found(1) first show ?thesis by simp
qed

lemma ok_run [simp]: "ok a d = (Inr a, d)" "err e d = (Inl e, d)"
  by (simp_all add: ok_def err_def)

lemma dbind_run: "m d = (Inr a, d1) \<Longrightarrow> dbind m k d = k a d1" "m d = (Inl e, d1) \<Longrightarrow> dbind m k d = (Inl e, d1)"
  by (simp_all add: dbind_def)

lemma look_run: "f (d_ledger d) = Inr a \<Longrightarrow> look f d = (Inr a, d)"
  by (simp add: look_def)

lemma book_charge_known:
  assumes "find_shared_reservation_by_key (rt_ext rt) (d_ledger d) budget_principal (bc_key booked) OWNER_POOL_PREFIX = Inr (Some found)"
  shows "d_ledger (snd (book_charge rt state booked rid now d)) = d_ledger d
    \<or> (\<exists>cfg d1. d_ledger d1 = d_ledger d \<and> book_charge rt state booked rid now d
        = book_in_pool rt cfg booked rid now (Some found) (spr_pool_id found) False d1)"
proof -
  have tail: "d_ledger (snd (dbind (period_at rt cfg now) k d)) = d_ledger d
      \<or> (\<exists>current d1. d_ledger d1 = d_ledger d \<and> dbind (period_at rt cfg now) k d = k current d1)"
    for cfg and k :: "Period \<Rightarrow> SharedBudgetOutcome daemon"
  proof (cases "period_at rt cfg now d")
    case (Pair r d1)
    then have "d_ledger d1 = d_ledger d" by (rule reads_ledger [OF reads_answers(4)])
    with Pair show ?thesis by (cases r) (auto simp: dbind_def)
  qed
  have step: "dbind (look (\<lambda>s. find_shared_reservation_by_key (rt_ext rt) s budget_principal (bc_key booked) OWNER_POOL_PREFIX)) k d1
      = k (Some found) d1" if "d_ledger d1 = d_ledger d" for d1 and k :: "SharedPoolReservation option \<Rightarrow> SharedBudgetOutcome daemon"
    using assms that by (intro dbind_run look_run) simp
  have known: "dbind (charge_pool rt cfg sid current (Some found) event) k d1 = k (Inr (spr_pool_id found, False)) d1"
    for cfg sid current event d1 and k :: "SharedBudgetRefusal + PoolId \<times> bool \<Rightarrow> SharedBudgetOutcome daemon"
    by (simp add: charge_pool_def dbind_def)
  let ?rest = "\<lambda>cfg event current. dbind (look (\<lambda>s. find_shared_reservation_by_key (rt_ext rt) s budget_principal
      (bc_key booked) OWNER_POOL_PREFIX)) (\<lambda>existing.
    dbind (charge_pool rt cfg (bc_session_id booked) current existing event) (\<lambda>target.
    case target of Inl reason \<Rightarrow> ok (refused reason)
    | Inr (pool_id, clamped) \<Rightarrow> book_in_pool rt cfg booked rid now existing pool_id clamped))"
  show ?thesis
  proof (cases "\<exists>event cfg. rbind (validate_lane_key (bc_session_id booked)) (\<lambda>_. validate_agent (bc_agent_id booked)) = Inr ()
      \<and> \<not> (bc_amount_usd_cents booked = 0 \<or> i64_max < uint (bc_amount_usd_cents booked))
      \<and> charge_event rt (bc_event_time booked) = Inr event \<and> configured state = Inr cfg
      \<and> \<not> saturating_mul (cfg_monthly_cap_usd_cents cfg) 10 < bc_amount_usd_cents booked")
    case True
    then obtain event cfg where
      "book_charge rt state booked rid now = dbind (period_at rt cfg now) (?rest cfg event)"
      unfolding book_charge_def Let_def by (elim exE conjE) simp
    then have run: "book_charge rt state booked rid now = dbind (period_at rt cfg now) (?rest cfg event)" by simp
    have rest: "?rest cfg event current d1 = book_in_pool rt cfg booked rid now (Some found) (spr_pool_id found) False d1"
      if "d_ledger d1 = d_ledger d" for current d1
      using that by (simp add: step known)
    from tail [of cfg "?rest cfg event"] show ?thesis
    proof (elim disjE exE conjE)
      fix current d1 assume "d_ledger d1 = d_ledger d" "dbind (period_at rt cfg now) (?rest cfg event) d = ?rest cfg event current d1"
      with rest show ?thesis unfolding run by (intro disjI2 exI [of _ cfg] exI [of _ d1]) simp
    qed (simp add: run)
  next
    case False
    then have "\<exists>answer. book_charge rt state booked rid now = ok answer"
      unfolding book_charge_def Let_def by (auto split: sum.splits)
    then show ?thesis by auto
  qed
qed

lemma known_key_books_nothing:
  assumes "sound (rt_ext rt) (d_ledger d)" "keyed (bc_key booked) (d_ledger d)"
    "book_charge rt state booked rid now d = (r, d')"
  shows "committed_total (d_ledger d') p = committed_total (d_ledger d) p"
proof -
  obtain found where found: "find_shared_reservation_by_key (rt_ext rt) (d_ledger d) budget_principal (bc_key booked) OWNER_POOL_PREFIX
      = Inr (Some found)" "find_by_key (d_ledger d) (spr_pool_id found) budget_principal (bc_key booked) \<noteq> None"
    by (rule known_key_found [OF assms(1,2)])
  from book_charge_known [OF found(1), of state rid now] assms(3) consider "d_ledger d' = d_ledger d"
    | cfg d1 where "d_ledger d1 = d_ledger d"
      "book_in_pool rt cfg booked rid now (Some found) (spr_pool_id found) False d1 = (r, d')" by auto
  then show ?thesis
  proof cases
    case 2
    then show ?thesis using effectD [OF book_in_known_pool 2(2)] found(2) by (simp add: no_booking_def)
  qed simp
qed

section \<open>A booked charge is keyed\<close>

lemma keep_best_in: "keep_best b best xs = Some m \<Longrightarrow> m \<in> set xs \<or> best = Some m"
  by (induction xs arbitrary: best) (auto split: option.splits if_splits)

lemma period_pool_prefix: "period_at rt cfg t d = (Inr period, d') \<Longrightarrow> starts_with OWNER_POOL_PREFIX (pe_pool_id period)"
  by (auto simp: period_at_def Let_def ok_def err_def MeteredPoolKey_new_eq_Inr MeteredPoolKey_pool_id_def METERED_POOL_PREFIX_def
      OWNER_POOL_PREFIX_def budget_principal_def LOCAL_BUDGET_OWNER_def starts_with_def split: prod.splits sum.splits)

lemma session_pool_prefix:
  assumes "latest_shared_hold_pool_for_session x s pr sid prefix = Inr (Some p)"
  shows "starts_with prefix p"
proof -
  let ?P = "\<lambda>r. r_principal_id r = pr \<and> r_session_id r = sid \<and> starts_with prefix (r_pool_id r) \<and> \<not> r_is_charge r"
  from assms obtain found t where
    found: "rmap (\<lambda>r. rbind (parse_time x (r_created_at r)) (\<lambda>t. Inr (t, r_pool_id r))) (filter ?P (reservations s)) = Inr found"
    and best: "(t, p) \<in> set found"
    by (auto simp: latest_shared_hold_pool_for_session_def elim!: rbindE dest: keep_best_in)
  from list_all2_mem [OF rmap_eq_InrD [OF found], of "(t, p)"] best show ?thesis by (auto elim!: rbindE)
qed

lemma charge_pool_prefix:
  assumes "charge_pool rt cfg sid current existing event d = (Inr (Inr (pool, clamped)), d')"
    "starts_with OWNER_POOL_PREFIX (pe_pool_id current)"
    "\<And>found. existing = Some found \<Longrightarrow> starts_with OWNER_POOL_PREFIX (spr_pool_id found)"
  shows "starts_with OWNER_POOL_PREFIX pool"
proof (cases existing)
  case None
  show ?thesis
  proof (cases event)
    case None
    with \<open>existing = None\<close> assms(1,2) show ?thesis
      by (auto simp: charge_pool_def elim!: dbindE split: option.splits)
         (auto simp: look_def dest: session_pool_prefix split: sum.splits)
  next
    case (Some t)
    with \<open>existing = None\<close> assms(1,2) show ?thesis
      by (auto simp: charge_pool_def elim!: dbindE dest!: period_pool_prefix split: if_splits)
  qed
qed (use assms in \<open>simp add: charge_pool_def\<close>)

lemma found_row:
  assumes "find_shared_reservation_by_key x s pr key prefix = Inr (Some found)"
  shows "starts_with prefix (spr_pool_id found)"
proof -
  let ?P = "\<lambda>r. r_principal_id r = pr \<and> r_idempotency_key r = key \<and> starts_with prefix (r_pool_id r)"
  from assms obtain rows where "rmap (row_to_reservation x) (filter ?P (reservations s)) = Inr rows" "found \<in> set rows"
    by (auto simp: find_shared_reservation_by_key_def elim!: rbindE dest: keep_best_in)
  then show ?thesis
    using list_all2_mem [OF rmap_eq_InrD] row_to_reservation_fields(4) by fastforce
qed

lemma book_charge_steps:
  assumes "book_charge rt state booked rid now d = (Inr (Out_Charged answer), d')"
  obtains cfg existing pool clamped d1 where "starts_with OWNER_POOL_PREFIX pool" "d_ledger d1 = d_ledger d"
    "book_in_pool rt cfg booked rid now existing pool clamped d1 = (Inr (Out_Charged answer), d')"
proof -
  from assms obtain cfg event current existing pool clamped d1 d2 d3 where
    steps: "period_at rt cfg now d = (Inr current, d1)"
    "look (\<lambda>s. find_shared_reservation_by_key (rt_ext rt) s budget_principal (bc_key booked) OWNER_POOL_PREFIX) d1 = (Inr existing, d2)"
    "charge_pool rt cfg (bc_session_id booked) current existing event d2 = (Inr (Inr (pool, clamped)), d3)"
    "book_in_pool rt cfg booked rid now existing pool clamped d3 = (Inr (Out_Charged answer), d')"
    unfolding book_charge_def Let_def
    by (auto simp: refused_def configured_def elim!: dbindE split: sum.splits if_splits SharedBudgetFileState.splits prod.splits)
  from steps(2) have "starts_with OWNER_POOL_PREFIX (spr_pool_id found)" if "existing = Some found" for found
    using that by (auto simp: look_def dest: found_row split: sum.splits)
  then have "starts_with OWNER_POOL_PREFIX pool" using charge_pool_prefix [OF steps(3) period_pool_prefix [OF steps(1)]] by blast
  moreover have "d_ledger d2 = d_ledger d1" using steps(2) by (auto simp: look_def split: sum.splits)
  then have "d_ledger d3 = d_ledger d"
    using reads_ledger [OF reads_answers(4) steps(1)] reads_ledger [OF charge_pool_reads steps(3)] by simp
  ultimately show ?thesis using that steps(4) by blast
qed

lemma charged_key_found:
  assumes "charge_shared_with_watermark x s req wm rid = Inr (out, s')" "\<And>e. out \<noteq> KeyConflict e" "out \<noteq> Charge_NoPool"
  shows "find_by_key s' (cr_pool_id req) (cr_principal_id req) (cr_idempotency_key req) \<noteq> None"
proof (cases "find_by_key s (cr_pool_id req) (cr_principal_id req) (cr_idempotency_key req)")
  case None
  with assms obtain u adm v k where out: "out = Charged u adm v k"
    by (cases out) (auto simp: charge_shared_with_watermark_def Let_def elim!: rbindE split: option.splits if_splits prod.splits)
  from assms(1) show ?thesis
  proof (cases rule: charge_cases)
    case (charged attribution pool now_str wt ids u settled active overhang effective)
    from charged(5) have "charge_row x req attribution rid (uint (cr_amount req)) now_str wt ids \<in> set (reservations s')"
      by (auto simp: insert_reservation_eq_Inr)
    then show ?thesis by (rule find_by_key_mem) (simp add: charge_row_def row_key_fields)
  next
    case unchanged
    with out show ?thesis by blast
  qed (use out in simp)
next
  case (Some row)
  then show ?thesis using charge_of_known_key [of s req x wm rid] assms(1) by (simp add: committed_def)
qed

lemma book_in_pool_steps:
  assumes "book_in_pool rt cfg booked rid now existing pool clamped d = (Inr (Out_Charged answer), d')"
  obtains out d2 where
    "charge_shared_with_watermark (rt_ext rt) (d_ledger (snd (ensure_period_pool rt pool cfg now d))) (charge_request cfg booked pool now) (bc_watermark booked) rid
      = Inr (out, d_ledger d')"
    "charge_answer rt cfg pool now clamped (bc_amount_usd_cents booked) out d2 = (Inr (Out_Charged answer), d')"
proof -
  let ?book = "attempt (tx (\<lambda>s. charge_shared_with_watermark (rt_ext rt) s (charge_request cfg booked pool now) (bc_watermark booked) rid))"
  let ?answer = "\<lambda>r. case r of Inl (Err_Ledger (QuotaUnitMismatch _ _)) \<Rightarrow> ok (refused Refuse_PoolUnitMismatch) | Inl e \<Rightarrow> err e
      | Inr outcome \<Rightarrow> charge_answer rt cfg pool now clamped (bc_amount_usd_cents booked) outcome"
  let ?large = "if existing = None then
      dbind (look (\<lambda>s. pool_admission_for (rt_ext rt) s pool now (source cfg))) (\<lambda>admission.
      let held = (case admission of
            Some a \<Rightarrow> saturating_add (pa_settled (sa_admission a)) (pa_active (sa_admission a)) | None \<Rightarrow> 0)
      in ok (i64_max div 2 < uint (saturating_add held (bc_amount_usd_cents booked))))
    else ok False"
  from assms obtain u da too_large d0 where ensure: "ensure_period_pool rt pool cfg now d = (Inr u, da)"
    and large: "?large da = (Inr too_large, d0)"
    and rest: "(if too_large then ok (refused Refuse_AmountTooLarge) else dbind ?book ?answer) d0 = (Inr (Out_Charged answer), d')"
    unfolding book_in_pool_def Let_def by (elim dbindE)
  have "effect (=) ?large" by (auto simp: Let_def intro!: same_store.effect_rules)
  from reads_ledger [OF this large] ensure have d0: "d_ledger d0 = d_ledger (snd (ensure_period_pool rt pool cfg now d))" by simp
  from rest have "dbind ?book ?answer d0 = (Inr (Out_Charged answer), d')"
    by (simp add: refused_def split: if_split_asm)
  then obtain r d2 where run: "?book d0 = (Inr r, d2)" and r: "?answer r d2 = (Inr (Out_Charged answer), d')"
    by (rule dbindE)
  from r obtain out where out: "r = Inr out"
    "charge_answer rt cfg pool now clamped (bc_amount_usd_cents booked) out d2 = (Inr (Out_Charged answer), d')"
    by (auto simp: refused_def split: sum.splits SharedBudgetError.splits LedgerError.splits)
  have "charge_shared_with_watermark (rt_ext rt) (d_ledger d0) (charge_request cfg booked pool now) (bc_watermark booked) rid
      = Inr (out, d_ledger d2)"
    using run out(1) by (auto simp: attempt_def tx_def split: sum.splits prod.splits)
  moreover have "d_ledger d' = d_ledger d2" by (rule reads_ledger [OF charge_answer_reads out(2)])
  ultimately show ?thesis using that [OF _ out(2)] d0 by simp
qed

lemma book_in_pool_keyed:
  assumes "book_in_pool rt cfg booked rid now existing pool clamped d = (Inr (Out_Charged answer), d')"
  shows "find_by_key (d_ledger d') pool budget_principal (bc_key booked) \<noteq> None"
proof -
  let ?req = "charge_request cfg booked pool now"
  obtain out d2 where run: "charge_shared_with_watermark (rt_ext rt) (d_ledger (snd (ensure_period_pool rt pool cfg now d))) ?req (bc_watermark booked) rid
      = Inr (out, d_ledger d')"
    and answer: "charge_answer rt cfg pool now clamped (bc_amount_usd_cents booked) out d2 = (Inr (Out_Charged answer), d')"
    by (rule book_in_pool_steps [OF assms])
  have "out \<noteq> KeyConflict e" "out \<noteq> Charge_NoPool" for e
    using answer by (auto simp: charge_answer_def refused_def)
  then show ?thesis using charged_key_found [OF run] by (simp add: charge_request_def)
qed

lemma booked_charge_keyed:
  assumes "book_charge rt state booked rid now d = (Inr (Out_Charged answer), d')"
  shows "keyed (bc_key booked) (d_ledger d')"
  using assms
proof (rule book_charge_steps)
  fix cfg existing pool clamped d1
  assume "starts_with OWNER_POOL_PREFIX pool"
    "book_in_pool rt cfg booked rid now existing pool clamped d1 = (Inr (Out_Charged answer), d')"
  moreover from this(2) have "find_by_key (d_ledger d') pool budget_principal (bc_key booked) \<noteq> None" by (rule book_in_pool_keyed)
  then obtain r where "r \<in> set (reservations (d_ledger d'))" "row_key r = (pool, budget_principal, bc_key booked)"
    by (auto simp: find_by_key_def dest!: find_Some_mem)
  ultimately show ?thesis by (auto simp: keyed_def list_ex_iff row_key_fields)
qed

section \<open>Once\<close>

definition keeps_rows :: "LedgerStore \<Rightarrow> ledger_op \<Rightarrow> bool" where
  "keeps_rows s op = (case op of Op_Prune _ \<Rightarrow> False | _ \<Rightarrow> True)"

lemma book_charge_run:
  "effect (ledger_run (rt_ext rt) cal keeps_rows) (book_charge rt state booked rid now)"
proof -
  have ensure: "effect (ledger_run (rt_ext rt) cal keeps_rows) (ensure_period_pool rt pool cfg now)" for pool cfg now
  proof -
    have "ledger_run (rt_ext rt) cal keeps_rows s
        (snd (ensure_pool (rt_ext rt) s pool UsdCents (cfg_monthly_cap_usd_cents cfg) now))" for s
      using ledger_run_step [of keeps_rows s "Op_EnsurePool pool UsdCents (cfg_monthly_cap_usd_cents cfg) now"]
      by (simp add: keeps_rows_def apply_op_def)
    then show ?thesis unfolding ensure_period_pool_def by (intro runs.effect_rules runs.effect_call)
  qed
  have books: "effect (ledger_run (rt_ext rt) cal keeps_rows) (tx (\<lambda>s. charge_shared_with_watermark (rt_ext rt) s req wm rid))" for req wm
    by (rule effect_op [where op = "Op_Charge req wm rid"]) (simp_all add: apply_op_def keeps_rows_def)
  show ?thesis
    by (auto simp: book_charge_def book_in_pool_def Let_def split: sum.splits SharedBudgetError.splits LedgerError.splits
        intro!: runs.effect_rules ensure books reads_answers [THEN runs.effect_reads]
          charge_pool_reads [THEN runs.effect_reads] charge_answer_reads [THEN runs.effect_reads])
qed

lemma keeps_rows_run:
  assumes "externals_ok x" "ledger_run x cal keeps_rows s t" "sound x s"
  shows "sound x t \<and> (keyed key s \<longrightarrow> keyed key t)"
proof (rule ledger_run_invariant [OF assms(2), where I = "\<lambda>t. sound x t \<and> (keyed key s \<longrightarrow> keyed key t)"])
  fix t op assume t: "sound x t \<and> (keyed key s \<longrightarrow> keyed key t)" and "keeps_rows t op"
  then have "\<And>req. op \<noteq> Op_Prune req" by (auto simp: keeps_rows_def)
  with apply_op_in_place [OF assms(1), of t op cal] t
  show "sound x (apply_op x cal t op) \<and> (keyed key s \<longrightarrow> keyed key (apply_op x cal t op))" by (blast intro: keyed_in_place)
qed (use assms in simp)

text \<open>
  C2. A charge is booked once: once a charge was booked (or found booked), then whatever reserves, settles,
  releases, renews, charges, sweeps and ingests of the ledger follow, another booking under the same key
  leaves what is settled or held in every pool unchanged, whoever sends it, whatever amount and event time it
  names, whichever month it arrives in and whatever the budget file says by then. Only a prune of the closed
  period may forget a key.
\<close>
theorem charge_books_once:
  assumes "externals_ok (rt_ext rt)" "sound (rt_ext rt) (d_ledger d)"
    and "book_charge rt state booked rid now d = (Inr (Out_Charged answer), d1)"
    and "ledger_run (rt_ext rt) cal keeps_rows (d_ledger d1) (d_ledger d2)"
    and "rt_ext rt' = rt_ext rt" "bc_key again = bc_key booked"
    and "book_charge rt' state' again rid' now' d2 = (r, d3)"
  shows "committed_total (d_ledger d3) p = committed_total (d_ledger d2) p"
proof -
  have "sound (rt_ext rt) (d_ledger d1)"
    using keeps_rows_run [OF assms(1) effectD [OF book_charge_run assms(3)] assms(2)] by blast
  then have "sound (rt_ext rt) (d_ledger d2)" "keyed (bc_key booked) (d_ledger d2)"
    using keeps_rows_run [OF assms(1,4)] booked_charge_keyed [OF assms(3)] by blast+
  then show ?thesis using known_key_books_nothing [OF _ _ assms(7)] assms(5,6) by simp
qed


text \<open>A charge of 7 cents, and its retry a month later with another amount.\<close>
definition demo_booking :: BookedCharge where
  "demo_booking = \<lparr>bc_session_id = ''s'', bc_agent_id = None, bc_amount_usd_cents = 7, bc_key = ''charge:k'',
     bc_charge_source = TurnHold, bc_event_time = None, bc_usage_known = True, bc_watermark = None\<rparr>"

abbreviation demo_booked :: "(SharedBudgetError + SharedBudgetOutcome) \<times> Daemon" where
  "demo_booked \<equiv> book_charge (demo_runtime 5) (File_Valid demo_cfg) demo_booking 3 5 demo_daemon"

lemma demo_booked:
  "case demo_booked of
     (Inr (Out_Charged _), d) \<Rightarrow> committed_total (d_ledger d) ''metered:local-budget/monthly-2026-09'' = 7
   | _ \<Rightarrow> False"
  by code_simp

theorem charge_books_once_witness:
  "committed_total (d_ledger (snd (book_charge (demo_runtime 9000) (File_Valid demo_cfg) (demo_booking\<lparr>bc_amount_usd_cents := 8\<rparr>) 4 9000
     (snd demo_booked)))) ''metered:local-budget/monthly-2026-09'' = 7"
proof -
  obtain answer where "demo_booked = (Inr (Out_Charged answer), snd demo_booked)"
    and "committed_total (d_ledger (snd demo_booked)) ''metered:local-budget/monthly-2026-09'' = 7"
    using demo_booked by (cases demo_booked) (auto split: sum.splits SharedBudgetOutcome.splits)
  moreover have "sound demo_externals (d_ledger demo_daemon)"
    by (simp add: demo_daemon_def empty_store_sound)
  ultimately show ?thesis
    using charge_books_once [of "demo_runtime 5" demo_daemon "File_Valid demo_cfg" demo_booking 3 5 answer "snd demo_booked"
        demo_calendar "snd demo_booked" "demo_runtime 9000" "demo_booking\<lparr>bc_amount_usd_cents := 8\<rparr>", OF _ _ _ runs.refl _ _ surjective_pairing]
      demo_externals_ok by (simp add: demo_runtime_def demo_booking_def)
qed

end
