(* ===== verification/Turn_Settlement.thy ===== *)
theory Turn_Settlement
  imports Budget_Settle Budget_Once
begin

text \<open>
  What a \<open>Stop\<close> does to the ledger: it books the turn's hold once, at the measured price or at the hold, and a
  replay of the same \<open>Stop\<close>, however late, changes nothing.
\<close>

section \<open>Effects of a settlement\<close>

lemma lane_reads: "effect (=) (lane_holds rt lane)" "effect (=) (lane_mark rt lane)" "effect (=) (lane_window rt lane holds)"
  "effect (=) (stop_replayed rt lane holds prompt)" "effect (=) (window_measurement ids flat amount observation)"
  "effect (=) (session_is_routed rt cfg lane now)"
  by (auto simp: lane_holds_def lane_mark_def lane_window_def stop_replayed_def window_measurement_def session_is_routed_def
      note_unpriced_def Let_def split: option.splits PricedObservation.splits intro!: same_store.effect_rules reads_answers)

definition same_totals :: "LedgerStore \<Rightarrow> LedgerStore \<Rightarrow> bool" where
  "same_totals s t \<longleftrightarrow> (\<forall>p. settled_total t p = settled_total s p \<and> active_total t p = active_total s p)"

interpretation totals: store_relation same_totals
  by unfold_locales (auto simp: same_totals_def)

lemma zero_charge_totals:
  assumes "cr_amount req = 0"
  shows "effect same_totals (marked_charge rt req wm rid)"
proof -
  have "same_totals s (committed s (charge_shared_with_watermark (rt_ext rt) s req wm rid))" for s
    using charge_totals [where req = req] assms
    by (auto simp: same_totals_def committed_def split: sum.splits prod.splits)
  then show ?thesis
    by (auto simp: marked_charge_def split: sum.splits SharedBudgetError.splits LedgerError.splits
        intro!: totals.effect_rules totals.effect_tx)
qed

lemma marked_charge_run: "effect (ledger_run (rt_ext rt) cal keeps_rows) (marked_charge rt req wm rid)"
proof -
  have "effect (ledger_run (rt_ext rt) cal keeps_rows) (tx (\<lambda>s. charge_shared_with_watermark (rt_ext rt) s req wm rid))"
    by (rule effect_op [where op = "Op_Charge req wm rid"]) (simp_all add: apply_op_def keeps_rows_def)
  then show ?thesis
    by (auto simp: marked_charge_def split: sum.splits SharedBudgetError.splits LedgerError.splits intro!: runs.effect_rules)
qed

lemma gateway_mark_effects:
  "effect same_totals (advance_gateway_mark rt n cfg lane)"
  "effect (ledger_run (rt_ext rt) cal keeps_rows) (advance_gateway_mark rt n cfg lane)"
  by (auto simp: advance_gateway_mark_def Let_def intro!: totals.effect_rules runs.effect_rules
      lane_reads [THEN totals.effect_reads] lane_reads [THEN runs.effect_reads]
      reads_answers [THEN totals.effect_reads] reads_answers [THEN runs.effect_reads]
      zero_charge_totals marked_charge_run simp: mark_request_def)

section \<open>The settled hold\<close>

definition closed_hold :: "externals \<Rightarrow> uuid \<Rightarrow> LedgerStore \<Rightarrow> bool" where
  "closed_hold x h s \<longleftrightarrow> list_ex (\<lambda>r. r_id r = uuid_to_string x h \<and> r_state r = ''settled'') (reservations s)"

lemma closed_hold_in_place:
  assumes "closed_hold x h s" "in_place (reservations s) (reservations s')"
  shows "closed_hold x h s'"
proof -
  from assms(1) obtain r where r: "r \<in> set (reservations s)" "r_id r = uuid_to_string x h" "r_state r = ''settled''"
    by (auto simp: closed_hold_def list_ex_iff)
  from in_place_row [OF assms(2) r(1)] obtain r' where "r' \<in> set (reservations s')" "evolves r r'" by blast
  with r show ?thesis
    by (auto simp: closed_hold_def list_ex_iff evolves_def same_hold_def elim!: life_step_fromE)
qed

lemma closed_hold_run:
  assumes "externals_ok x" "ledger_run x cal keeps_rows s t" "sound x s" "closed_hold x h s"
  shows "sound x t \<and> closed_hold x h t"
proof (rule ledger_run_invariant [OF assms(2), where I = "\<lambda>t. sound x t \<and> closed_hold x h t"])
  fix t op assume t: "sound x t \<and> closed_hold x h t" and "keeps_rows t op"
  then have "\<And>req. op \<noteq> Op_Prune req" by (auto simp: keeps_rows_def)
  with apply_op_in_place [OF assms(1), of t op cal] t
  show "sound x (apply_op x cal t op) \<and> closed_hold x h (apply_op x cal t op)" by (blast intro: closed_hold_in_place)
qed (use assms in simp)

lemma pending_hold_open:
  assumes "pending_hold holds = Some t"
  shows "t \<in> set holds" "spr_state t \<noteq> Settled"
  using assms keep_best_in [of _ None]
  by (force simp: pending_hold_def split: option.splits if_splits)+

lemma lane_holds_sound:
  assumes "sound (rt_ext rt) (d_ledger d)"
  obtains holds where "lane_holds rt lane d = (Inr holds, d)"
    "\<And>h. h \<in> set holds \<Longrightarrow> \<exists>r \<in> set (reservations (d_ledger d)). row_to_reservation (rt_ext rt) r = Inr h"
proof -
  let ?P = "\<lambda>r. in_lane budget_principal lane None AgentAbsent r \<and> starts_with OWNER_POOL_PREFIX (r_pool_id r) \<and> turn_row r"
  obtain holds where "rmap (row_to_reservation (rt_ext rt)) (filter ?P (reservations (d_ledger d))) = Inr holds"
    "list_all2 (\<lambda>r res. row_to_reservation (rt_ext rt) r = Inr res) (filter ?P (reservations (d_ledger d))) holds"
    using rmap_rows_intact [OF soundD(3) [OF assms], of ?P] by blast
  then show ?thesis
    using list_all2_mem that [of holds] by (fastforce simp: lane_holds_def shared_lane_holds_def look_def)
qed

lemma closed_hold_not_pending:
  assumes "sound x s" "closed_hold x h s" "pending_hold holds = Some t"
    "\<And>t. t \<in> set holds \<Longrightarrow> \<exists>r \<in> set (reservations s). row_to_reservation x r = Inr t"
  shows "spr_id t \<noteq> h"
proof
  assume "spr_id t = h"
  from pending_hold_open [OF assms(3)] assms(4) obtain r where
    r: "r \<in> set (reservations s)" "row_to_reservation x r = Inr t" "spr_state t \<noteq> Settled" by blast
  from r(1) soundD(3) [OF assms(1)] have "row_intact x r" by (simp add: list_all_iff)
  with r(2) \<open>spr_id t = h\<close> have "r_id r = uuid_to_string x h" by (simp add: row_intact_def)
  moreover from assms(2) obtain r' where "r' \<in> set (reservations s)" "r_id r' = uuid_to_string x h" "r_state r' = ''settled''"
    by (auto simp: closed_hold_def list_ex_iff)
  ultimately have "r_state r = ''settled''" using same_row_id [OF soundD(1) [OF assms(1)] r(1)] by auto
  with r(2,3) row_to_reservation_state(2) [OF r(2)] show False by simp
qed

lemma replayed_stop:
  assumes "sound (rt_ext rt) (d_ledger d)" "closed_hold (rt_ext rt) h (d_ledger d)"
    "hold_for_prompt (rt_ext rt) (d_ledger d) budget_principal lane p = Inr (Some h)" "usable_prompt (Some p) = Some p"
    "validate_lane_key lane = Inr ()" "settle_turn rt tr lane path (Some p) d = (r, d')"
  shows "d' = d \<and> (r = Inr Turn_AlreadySettled \<or> r = Inr Turn_NotConfigured)"
proof -
  obtain holds where holds: "lane_holds rt lane d = (Inr holds, d)"
    "\<And>h. h \<in> set holds \<Longrightarrow> \<exists>r \<in> set (reservations (d_ledger d)). row_to_reservation (rt_ext rt) r = Inr h"
    using lane_holds_sound [OF assms(1)] by blast
  have "case pending_hold holds of None \<Rightarrow> True | Some t \<Rightarrow> spr_id t \<noteq> h"
    using closed_hold_not_pending [OF assms(1,2) _ holds(2)] by (auto split: option.splits)
  moreover have "\<not> blank p" using assms(4) by (auto simp: usable_prompt_def split: if_splits)
  ultimately have "stop_replayed rt lane holds (Some p) d = (Inr True, d)"
    by (simp add: stop_replayed_def dbind_def look_def assms(3) split: option.splits)
  with assms(4,5,6) show ?thesis
    by (auto simp: settle_turn_def Let_def dbind_def holds(1) split: if_splits)
qed

section \<open>A \<open>Stop\<close> that settles\<close>

lemma window_source_reads: "effect (=) (window_source rt tr state lane target path flat now after ids)"
  by (auto simp: window_source_def split: SharedBudgetFileState.splits intro!: same_store.effect_rules lane_reads)

lemma window_settled:
  assumes "settle_hold_from_window rt tr state lane holds target path flat now d = (Inr (Window_Settled (Turn_Settled a)), d')"
  obtains actual wm u rf ov where
    "settle_shared_with_watermark (rt_ext rt) (d_ledger d) (spr_id target) actual now (main_executor (Some TurnHold)) wm
      = Inr (Settle_Settled u rf ov, d_ledger d')"
    "settled_answer (se_unmeasured_reason a) (Settle_Settled u rf ov) = Turn_Settled a"
proof -
  from assms obtain window da where window: "lane_window rt lane holds d = (Inr window, da)"
    and rest: "(let (after, previous_ids) = (case window of Some w \<Rightarrow> w | None \<Rightarrow> (spr_created_at target, [])) in
      if state = File_Absent then ok (Window_Settled Turn_NotConfigured)
      else dbind (window_source rt tr state lane target path flat now after previous_ids)
        (book_window rt state target flat now)) da = (Inr (Window_Settled (Turn_Settled a)), d')"
    unfolding settle_hold_from_window_def by (rule dbindE)
  have da: "d_ledger da = d_ledger d" by (rule reads_ledger [OF lane_reads(3) window])
  obtain after ids where "(case window of Some w \<Rightarrow> w | None \<Rightarrow> (spr_created_at target, [])) = (after, ids)" by fastforce
  with rest have "dbind (window_source rt tr state lane target path flat now after ids) (book_window rt state target flat now) da
      = (Inr (Window_Settled (Turn_Settled a)), d')" by (auto split: if_splits)
  then obtain measured d0 where src: "window_source rt tr state lane target path flat now after ids da = (Inr measured, d0)"
    and book: "book_window rt state target flat now measured d0 = (Inr (Window_Settled (Turn_Settled a)), d')"
    by (rule dbindE)
  have d0: "d_ledger d0 = d_ledger d" using reads_ledger [OF window_source_reads src] da by simp
  obtain actual reason wm where "plausible state measured = (actual, reason, wm)" by (cases "plausible state measured") auto
  with book d0 show ?thesis
    by (auto simp: book_window_def dbind_def telemetry_def tx_def settled_answer_def split: if_splits sum.splits prod.splits
        SharedPoolSettleOutcome.splits intro!: that)
qed

lemma stop_settled:
  assumes "settle_turn rt tr lane path prompt d = (Inr (Turn_Settled a), d1)"
  obtains rid actual wm u rf ov s where
    "settle_shared_with_watermark (rt_ext rt) (d_ledger d) rid actual (rt_now rt 0) (main_executor (Some TurnHold)) wm
      = Inr (Settle_Settled u rf ov, s)"
    "settled_answer (se_unmeasured_reason a) (Settle_Settled u rf ov) = Turn_Settled a"
    "same_totals s (d_ledger d1)" "ledger_run (rt_ext rt) cal keeps_rows s (d_ledger d1)" "validate_lane_key lane = Inr ()"
proof -
  let ?mark = "\<lambda>n. case rt_effective rt 0 of
      File_Valid cfg \<Rightarrow> if cfg_enforcement cfg = Enforce_Gateway then advance_gateway_mark rt n cfg lane else ok ()
    | _ \<Rightarrow> ok ()"
  from assms obtain holds dh replay dr settlement ds n where
    steps: "lane_holds rt lane d = (Inr holds, dh)" "stop_replayed rt lane holds (usable_prompt prompt) dh = (Inr replay, dr)"
      "(case pending_hold holds of None \<Rightarrow> ok Turn_NoHold | Some target \<Rightarrow>
          dbind (settle_hold_from_window rt tr (rt_effective rt 0) lane holds target path True (rt_now rt 0))
            (\<lambda>outcome. ok (case outcome of Window_Settled settlement \<Rightarrow> settlement | Window_NotBooked _ \<Rightarrow> Turn_NoHold))) dr
        = (Inr (Turn_Settled a), ds)" "?mark n ds = (Inr (), d1)" "validate_lane_key lane = Inr ()"
    unfolding settle_turn_def Let_def
    by (auto simp del: split_paired_Ex elim!: dbindE split: if_splits sum.splits)
  have dr: "d_ledger dr = d_ledger d"
    using reads_ledger [OF lane_reads(1) steps(1)] reads_ledger [OF lane_reads(4) steps(2)] by simp
  from steps(3) obtain target where "pending_hold holds = Some target"
    "settle_hold_from_window rt tr (rt_effective rt 0) lane holds target path True (rt_now rt 0) dr
      = (Inr (Window_Settled (Turn_Settled a)), ds)"
    by (auto elim!: dbindE split: option.splits SettleWindowOutcome.splits)
  from window_settled [OF this(2)] dr obtain actual wm u rf ov where
    "settle_shared_with_watermark (rt_ext rt) (d_ledger d) (spr_id target) actual (rt_now rt 0) (main_executor (Some TurnHold)) wm
      = Inr (Settle_Settled u rf ov, d_ledger ds)"
    "settled_answer (se_unmeasured_reason a) (Settle_Settled u rf ov) = Turn_Settled a" by metis
  moreover have "effect same_totals (?mark n)" "effect (ledger_run (rt_ext rt) cal keeps_rows) (?mark n)"
    by (auto split: SharedBudgetFileState.splits intro!: totals.effect_rules runs.effect_rules gateway_mark_effects)
  note this [THEN effectD, OF steps(4)]
  ultimately show ?thesis using that steps(5) by blast
qed

text \<open>The reservation a settlement answers with is the row it rewrote.\<close>
lemma settled_row:
  assumes "sound x s" "settle_shared_core x s rid actual uk now att wm = Inr (Settle_Settled u rf ov, s')"
  obtains row row' where "find (\<lambda>r. r_id r = uuid_to_string x rid) (reservations s) = Some row"
    "row' \<in> set (reservations s')" "row_to_reservation x row' = Inr u" "r_id row' = uuid_to_string x (spr_id u)"
    "r_state row' = ''settled''" "r_pool_id row' = r_pool_id row" "spr_usage_known u = Some uk"
  using assms(2)
proof (cases rule: settle_core_cases)
  case (settled row res updated now_str supplied wt ids v)
  let ?row' = "settle_row (uint v) uk now_str (settled_attribution res supplied) wt ids row"
  have id: "r_id row = uuid_to_string x rid" using find_Some_mem [OF settled(1)] by simp
  have upd: "find (\<lambda>r. r_id r = uuid_to_string x rid) (reservations s') = Some ?row'"
    unfolding settled(7) using settled(1) id by (simp add: find_update_where_same_key)
  then have reads: "row_to_reservation x ?row' = Inr u" using settled(8,9) by (auto simp: get_shared_reservation_tx_eq_Some)
  have "spr_usage_known u = Some uk"
    using reads by (auto simp: row_to_reservation_def settle_row_def elim!: rbindE split: prod.splits)
  moreover have "row_intact x row" using soundD(3) [OF assms(1)] find_Some_mem [OF settled(1)] by (simp add: list_all_iff)
  then have "uuid_to_string x (spr_id res) = r_id row" using settled(2) by (simp add: row_intact_def)
  moreover have "spr_id u = spr_id res"
    using row_to_reservation_fields(3) [OF settled(2)] row_to_reservation_fields(3) [OF reads] by simp
  moreover have "?row' \<in> set (reservations s')" using find_Some_mem [OF upd] by simp
  ultimately show ?thesis using that [OF settled(1), of ?row'] reads id by simp
qed blast

lemma settled_by_stop:
  assumes "sound x s" "settle_shared_with_watermark x s rid actual now att wm = Inr (Settle_Settled u rf ov, s')"
    "settled_answer reason (Settle_Settled u rf ov) = Turn_Settled a"
  shows "closed_hold x (se_reservation_id a) s'"
    and "settled_total s' p = settled_total s p + (if p = se_pool_id a then uint (se_settled_usd_cents a) else 0)"
    and "active_total s' p \<in> {active_total s p, active_total s p - (if p = se_pool_id a then uint (se_hold_usd_cents a) else 0)}"
    and "\<not> se_usage_known a \<Longrightarrow> se_settled_usd_cents a = se_hold_usd_cents a"
proof -
  have core: "settle_shared_core x s rid actual (actual \<noteq> None) now att wm = Inr (Settle_Settled u rf ov, s')"
    using assms(2) by (simp add: settle_shared_with_watermark_def)
  obtain row row' where row: "find (\<lambda>r. r_id r = uuid_to_string x rid) (reservations s) = Some row"
    "row' \<in> set (reservations s')" "row_to_reservation x row' = Inr u" "r_id row' = uuid_to_string x (spr_id u)"
    "r_state row' = ''settled''" "r_pool_id row' = r_pool_id row" "spr_usage_known u = Some (actual \<noteq> None)"
    by (rule settled_row [OF assms(1) core])
  have pool: "spr_pool_id u = r_pool_id row" using row_to_reservation_fields(4) [OF row(3)] row(6) by simp
  have a: "se_reservation_id a = spr_id u" "se_pool_id a = spr_pool_id u" "se_hold_usd_cents a = spr_amount u"
    "se_usage_known a = (actual \<noteq> None)"
    "se_settled_usd_cents a = (case spr_settled_amount u of Some c \<Rightarrow> c | None \<Rightarrow> spr_amount u)"
    using assms(3) row(7) by (auto simp: settled_answer_def)
  show "closed_hold x (se_reservation_id a) s'" using row(2,4,5) a(1) by (auto simp: closed_hold_def list_ex_iff)
  show "settled_total s' p = settled_total s p + (if p = se_pool_id a then uint (se_settled_usd_cents a) else 0)"
    "active_total s' p \<in> {active_total s p, active_total s p - (if p = se_pool_id a then uint (se_hold_usd_cents a) else 0)}"
    "\<not> se_usage_known a \<Longrightarrow> se_settled_usd_cents a = se_hold_usd_cents a"
    by (rule settle_core_totals [OF soundD(1) [OF assms(1)] core]; use row(1) pool in \<open>auto simp: a word_uint_eq_iff\<close>)+
qed

section \<open>Once\<close>

lemma settled_stop:
  assumes "externals_ok (rt_ext rt)" "sound (rt_ext rt) (d_ledger d)"
    and "settle_turn rt tr lane path prompt d = (Inr (Turn_Settled a), d1)"
  shows "settled_total (d_ledger d1) pool = settled_total (d_ledger d) pool
      + (if pool = se_pool_id a then uint (se_settled_usd_cents a) else 0)"
    and "active_total (d_ledger d1) pool \<in> {active_total (d_ledger d) pool, active_total (d_ledger d) pool
      - (if pool = se_pool_id a then uint (se_hold_usd_cents a) else 0)}"
    and "\<not> se_usage_known a \<Longrightarrow> se_settled_usd_cents a = se_hold_usd_cents a"
    and "ledger_run (rt_ext rt) cal keeps_rows (d_ledger d1) (d_ledger d2) \<Longrightarrow> rt_ext rt' = rt_ext rt
      \<Longrightarrow> hold_for_prompt (rt_ext rt) (d_ledger d2) budget_principal lane p = Inr (Some (se_reservation_id a))
      \<Longrightarrow> usable_prompt (Some p) = Some p \<Longrightarrow> settle_turn rt' tr' lane path' (Some p) d2 = (r, d3)
      \<Longrightarrow> d3 = d2 \<and> (r = Inr Turn_AlreadySettled \<or> r = Inr Turn_NotConfigured)"
proof -
  obtain rid actual wm u rf ov s where
    s: "settle_shared_with_watermark (rt_ext rt) (d_ledger d) rid actual (rt_now rt 0) (main_executor (Some TurnHold)) wm
      = Inr (Settle_Settled u rf ov, s)"
    "settled_answer (se_unmeasured_reason a) (Settle_Settled u rf ov) = Turn_Settled a"
    "same_totals s (d_ledger d1)" "ledger_run (rt_ext rt) cal keeps_rows s (d_ledger d1)" "validate_lane_key lane = Inr ()"
    by (rule stop_settled [OF assms(3)])
  note booked = settled_by_stop [OF assms(2) s(1,2)]
  show "settled_total (d_ledger d1) pool = settled_total (d_ledger d) pool
      + (if pool = se_pool_id a then uint (se_settled_usd_cents a) else 0)"
    "active_total (d_ledger d1) pool \<in> {active_total (d_ledger d) pool, active_total (d_ledger d) pool
      - (if pool = se_pool_id a then uint (se_hold_usd_cents a) else 0)}"
    "\<not> se_usage_known a \<Longrightarrow> se_settled_usd_cents a = se_hold_usd_cents a"
    using booked(2,3) [of pool] booked(4) s(3) by (simp_all add: same_totals_def)
  have "settle_shared_core (rt_ext rt) (d_ledger d) rid actual (actual \<noteq> None) (rt_now rt 0) (main_executor (Some TurnHold)) wm
      = Inr (Settle_Settled u rf ov, s)" using s(1) by (simp add: settle_shared_with_watermark_def)
  then have "sound (rt_ext rt) s" using settle_sound [OF assms(1,2)] by blast
  then have d1: "sound (rt_ext rt) (d_ledger d1)" "closed_hold (rt_ext rt) (se_reservation_id a) (d_ledger d1)"
    using closed_hold_run [OF assms(1) s(4) _ booked(1)] by simp_all
  show "d3 = d2 \<and> (r = Inr Turn_AlreadySettled \<or> r = Inr Turn_NotConfigured)"
    if "ledger_run (rt_ext rt) cal keeps_rows (d_ledger d1) (d_ledger d2)" "rt_ext rt' = rt_ext rt"
      "hold_for_prompt (rt_ext rt) (d_ledger d2) budget_principal lane p = Inr (Some (se_reservation_id a))"
      "usable_prompt (Some p) = Some p" "settle_turn rt' tr' lane path' (Some p) d2 = (r, d3)"
    using replayed_stop [of rt' d2 "se_reservation_id a" lane p tr' path' r d3] closed_hold_run [OF assms(1) that(1) d1] that s(5) by simp
qed

text \<open>
  C5. A \<open>Stop\<close> settles its turn once. When a \<open>Stop\<close> answers that it settled a hold, the hold's pool grew by the
  amount it names in settled spend, the hold's own amount left the active total or had left it before, no other
  pool moved, and an amount that was not measured is the hold. From then on, whatever reserves, settles, releases,
  renews, charges, sweeps and ingests of the ledger follow, another \<open>Stop\<close> for a prompt the ledger maps to that hold
  changes nothing at all, whatever transcript and configuration it meets.
\<close>
theorem stop_settles_once:
  assumes "externals_ok (rt_ext rt)" "sound (rt_ext rt) (d_ledger d)"
    and "settle_turn rt tr lane path prompt d = (Inr (Turn_Settled a), d1)"
  shows "settled_total (d_ledger d1) pool = settled_total (d_ledger d) pool
        + (if pool = se_pool_id a then uint (se_settled_usd_cents a) else 0)
    \<and> active_total (d_ledger d1) pool \<in> {active_total (d_ledger d) pool, active_total (d_ledger d) pool
        - (if pool = se_pool_id a then uint (se_hold_usd_cents a) else 0)}
    \<and> (\<not> se_usage_known a \<longrightarrow> se_settled_usd_cents a = se_hold_usd_cents a)
    \<and> (\<forall>rt' tr' path' p d2 d3 r. ledger_run (rt_ext rt) cal keeps_rows (d_ledger d1) (d_ledger d2)
          \<and> rt_ext (rt' :: 'f Runtime) = rt_ext rt \<and> usable_prompt (Some p) = Some p
          \<and> hold_for_prompt (rt_ext rt) (d_ledger d2) budget_principal lane p = Inr (Some (se_reservation_id a))
          \<and> settle_turn rt' tr' lane path' (Some p) d2 = (r, d3)
        \<longrightarrow> d3 = d2 \<and> (r = Inr Turn_AlreadySettled \<or> r = Inr Turn_NotConfigured))"
proof (intro conjI allI impI)
  show "settled_total (d_ledger d1) pool = settled_total (d_ledger d) pool
        + (if pool = se_pool_id a then uint (se_settled_usd_cents a) else 0)"
    "active_total (d_ledger d1) pool \<in> {active_total (d_ledger d) pool, active_total (d_ledger d) pool
        - (if pool = se_pool_id a then uint (se_hold_usd_cents a) else 0)}"
    "\<not> se_usage_known a \<Longrightarrow> se_settled_usd_cents a = se_hold_usd_cents a"
    using settled_stop(1-3) [OF assms] by auto
qed (use settled_stop(4) [OF assms] in blast)+

text \<open>A lane with one active hold of 50 cents, admitted for the prompt \<open>p\<close>.\<close>
definition demo_turn_daemon :: Daemon where
  "demo_turn_daemon = \<lparr>d_ledger = empty_store\<lparr>
     quota_pools := [\<lparr>pr_pool_id = ''metered:local-budget/monthly-2026-09'', pr_unit_json = ''u'', pr_capacity = 1000,
       pr_schema_version = ''shared-pool-reservation-v1'', pr_created_at = ''101'', pr_updated_at = ''101''\<rparr>],
     reservations := [\<lparr>r_id = ''111'', r_pool_id = ''metered:local-budget/monthly-2026-09'',
       r_principal_id = ''local-budget'', r_session_id = ''s'', r_amount = 50, r_state = ''active'', r_settled_amount = None,
       r_usage_known = None, r_idempotency_key = ''k'', r_created_at = ''101'', r_expires_at = ''101000'', r_settled_at = None,
       r_released_at = None, r_schema_version = ''shared-pool-reservation-v1'', r_agent_id = None,
       r_executor_kind = Some ''agent_absent'', r_charge_source = Some ''turn_hold'', r_is_charge = False,
       r_watermark_ts = None, r_watermark_message_ids = None\<rparr>],
     hold_prompts := [\<lparr>hp_principal_id = ''local-budget'', hp_session_id = ''s'', hp_prompt_id = ''p'', hp_reservation_id = ''111''\<rparr>]\<rparr>,
     d_telemetry = demo_telemetry\<rparr>"

definition demo_transcripts :: Transcripts where
  "demo_transcripts = \<lparr>tr_read = (\<lambda>_. None), tr_decode = (\<lambda>_. None), tr_parse = (\<lambda>_. None)\<rparr>"

abbreviation demo_stop :: "nat \<Rightarrow> Daemon \<Rightarrow> (SharedBudgetError + TurnSettlement) \<times> Daemon" where
  "demo_stop n \<equiv> settle_turn (demo_runtime (int n)) demo_transcripts ''s'' None (Some ''p'')"

lemma demo_turn_sound: "sound demo_externals (d_ledger demo_turn_daemon)"
  by code_simp

lemma demo_stop_settles:
  "case demo_stop 9 demo_turn_daemon of
     (Inr (Turn_Settled a), d1) \<Rightarrow> se_settled_usd_cents a = 50 \<and> se_pool_id a = ''metered:local-budget/monthly-2026-09''
       \<and> hold_for_prompt demo_externals (d_ledger d1) budget_principal ''s'' ''p'' = Inr (Some (se_reservation_id a))
   | _ \<Rightarrow> False"
  by code_simp

lemma demo_turn_total: "settled_total (d_ledger demo_turn_daemon) ''metered:local-budget/monthly-2026-09'' = 0"
  "usable_prompt (Some ''p'') = Some ''p''"
  by code_simp+

theorem stop_settles_once_witness:
  "settled_total (d_ledger (snd (demo_stop 9 demo_turn_daemon))) ''metered:local-budget/monthly-2026-09'' = 50
   \<and> snd (demo_stop 11 (snd (demo_stop 9 demo_turn_daemon))) = snd (demo_stop 9 demo_turn_daemon)"
proof -
  let ?d1 = "snd (demo_stop 9 demo_turn_daemon)"
  obtain a where a: "demo_stop 9 demo_turn_daemon = (Inr (Turn_Settled a), ?d1)" "se_settled_usd_cents a = 50"
    "se_pool_id a = ''metered:local-budget/monthly-2026-09''"
    "hold_for_prompt demo_externals (d_ledger ?d1) budget_principal ''s'' ''p'' = Inr (Some (se_reservation_id a))"
    using demo_stop_settles by (cases "demo_stop 9 demo_turn_daemon") (auto split: sum.splits TurnSettlement.splits)
  have ext: "rt_ext (demo_runtime t) = demo_externals" for t by (simp add: demo_runtime_def)
  note facts = stop_settles_once [where rt = "demo_runtime (int 9)" and cal = demo_calendar and pool = "''metered:local-budget/monthly-2026-09''",
      unfolded ext, OF demo_externals_ok demo_turn_sound a(1)]
  obtain r d3 where "demo_stop 11 ?d1 = (r, d3)" by fastforce
  moreover from facts this a(4) demo_turn_total(2) have "d3 = ?d1" using runs.refl [of demo_externals demo_calendar keeps_rows] ext by blast
  moreover from facts [THEN conjunct1] a(2,3) demo_turn_total(1)
  have "settled_total (d_ledger ?d1) ''metered:local-budget/monthly-2026-09'' = 50" by simp
  ultimately show ?thesis by (metis snd_conv)
qed

end
