(* ===== verification/Budget_Subagent.thy ===== *)
theory Budget_Subagent
  imports Budget_Settle
begin

text \<open>
  Subagents are charged from their own transcripts (\<open>charge_agent_transcript\<close> and the sweep of
  \<open>crates/daemon/src/shared_budget.rs\<close>): the file is priced as a whole, what its family was charged before is
  subtracted, and the difference is booked. A directory of transcripts is the list of its regular files with their
  length and modification time.
\<close>

section \<open>What the gateway metered\<close>

text \<open>\<open>str::parse::<u64>\<close>.\<close>
definition parse_u64 :: "string \<Rightarrow> u64 option" where
  "parse_u64 s =
     (let digits = (case s of [] \<Rightarrow> [] | c # rest \<Rightarrow> if c = CHR ''+'' then rest else s)
      in if digits \<noteq> [] \<and> list_all is_ascii_digit digits \<and> parse_digits digits \<le> u64_max
         then Some (word_of_int (parse_digits digits)) else None)"

definition gateway_metered_offset :: "string \<Rightarrow> u64 daemon" where
  "gateway_metered_offset prefix =
     look (\<lambda>s. Inr (let tag = prefix @ ''g'';
         offsets = List.map_filter (\<lambda>k. Option.bind (strip_prefix tag k) parse_u64)
           (shared_charge_keys_by_prefix s budget_principal tag OWNER_POOL_PREFIX)
       in if offsets = [] then 0 else Max (set offsets)))"

section \<open>Measuring a subagent\<close>

record SubagentFlags =
  sf_unpriced :: bool
  sf_unverified :: bool
  sf_mismatch :: bool

definition no_flags :: SubagentFlags where
  "no_flags = \<lparr>sf_unpriced = False, sf_unverified = False, sf_mismatch = False\<rparr>"

text \<open>The measured cost and the stamp of the last record; none, in a sweep, for a file with nothing to read yet.\<close>
definition subagent_measurement ::
    "bool \<Rightarrow> PricedObservation \<Rightarrow> ((u64 \<times> stamp option) option \<times> SubagentFlags) option daemon" where
  "subagent_measurement sweep observation =
     (case observation of
        Priced w \<Rightarrow>
          dbind (telemetry (\<lambda>t. t\<lparr>te_foreign_lines := te_foreign_lines t + of_nat (pw_foreign_lines w)\<rparr>)) (\<lambda>_.
          ok (Some (Some (pw_cents w, pw_last_event_time w), no_flags)))
      | SessionMismatch \<Rightarrow>
          dbind (telemetry (\<lambda>t. t\<lparr>te_binding_mismatches := te_binding_mismatches t + 1\<rparr>)) (\<lambda>_.
          ok (Some (None, no_flags\<lparr>sf_mismatch := True\<rparr>)))
      | FutureTimestamp _ _ _ \<Rightarrow>
          dbind (telemetry (\<lambda>t. t\<lparr>te_future_timestamps := te_future_timestamps t + 1\<rparr>)) (\<lambda>_.
          ok (Some (None, no_flags)))
      | MalformedUsage \<Rightarrow> ok (Some (None, no_flags))
      | SessionUnverified \<Rightarrow>
          dbind (telemetry (\<lambda>t. t\<lparr>te_unverified := te_unverified t + 1\<rparr>)) (\<lambda>_.
          ok (Some (None, no_flags\<lparr>sf_unverified := True\<rparr>)))
      | UnpricedModels models \<Rightarrow>
          dbind (note_unpriced models) (\<lambda>_. ok (Some (None, no_flags\<lparr>sf_unpriced := True\<rparr>)))
      | Unavailable why \<Rightarrow>
          if sweep \<and> (why = NoUsageInWindow \<or> why = Unreadable \<or> why = NoTranscriptPath) then ok None
          else ok (Some (None, no_flags)))"

definition transcript_family :: "'f Runtime \<Rightarrow> string \<Rightarrow> string option \<Rightarrow> string \<Rightarrow> string" where
  "transcript_family rt session_id agent_id path =
     (let family = (case agent_id of Some a \<Rightarrow> ''agent:'' @ a | None \<Rightarrow> ''path-sha256:'' @ rt_sha256_hex rt path)
      in ''subagent-transcript:'' @ lp session_id @ ''|'' @ lp family @ ''|'')"

section \<open>Charging a subagent\<close>

text \<open>\<open>n\<close> is the first of the two consultations of the clock.\<close>
definition record_offset ::
    "'f Runtime \<Rightarrow> nat \<Rightarrow> 'f SharedBudgetConfig \<Rightarrow> string \<Rightarrow> string option \<Rightarrow> string \<Rightarrow> u64 \<Rightarrow> u64 \<Rightarrow> unit daemon" where
  "record_offset rt n cfg session_id agent_id prefix cumulative summed =
     (let metered = saturating_sub cumulative summed in
      dbind (gateway_metered_offset prefix) (\<lambda>known.
      dbind (if known < metered then session_is_routed rt cfg session_id (rt_now rt n) else ok False) (\<lambda>routed.
      if \<not> routed then ok ()
      else let now = rt_now rt (n + 1) in
        dbind (period_at rt cfg now) (\<lambda>period.
        marked_charge rt
          (mark_request cfg (pe_pool_id period) session_id (prefix @ ''g'' @ show_u64 (uint metered)) now
            (case agent_id of None \<Rightarrow> unattributed (Some SubagentTranscript)
             | Some _ \<Rightarrow> attribution_for agent_id SubagentTranscript)) None (rt_fresh rt n)))))"

text \<open>What is booked: amount, key, event time and whether it was measured.\<close>
definition subagent_booking ::
    "'f Runtime \<Rightarrow> 'f SharedBudgetConfig \<Rightarrow> string \<Rightarrow> u64 \<Rightarrow> (u64 \<times> stamp option) option
      \<Rightarrow> (u64 \<times> string \<times> string option \<times> bool) daemon" where
  "subagent_booking rt cfg prefix already measured =
     (case measured of
        Some (cumulative, last_event) \<Rightarrow>
          dbind (case in_event_years last_event of
              None \<Rightarrow> ok None | Some t \<Rightarrow> dbind (rfc rt t) (\<lambda>text. ok (Some text))) (\<lambda>event_time.
          ok (saturating_sub cumulative already, prefix @ ''c'' @ show_u64 (uint cumulative), event_time, True))
      | None \<Rightarrow>
          let fallback = (case cfg_subagent_unmeasured_charge_usd_cents cfg of Some c \<Rightarrow> c | None \<Rightarrow> cfg_turn_hold_usd_cents cfg)
          in ok (if already = 0 then fallback else 0, prefix @ ''u'', None, False))"

definition book_subagent ::
    "'f Runtime \<Rightarrow> nat \<Rightarrow> 'f SharedBudgetFileState \<Rightarrow> 'f SharedBudgetConfig \<Rightarrow> string \<Rightarrow> string option \<Rightarrow> ExecutorKind
      \<Rightarrow> SubagentFlags \<Rightarrow> u64 \<Rightarrow> u64 \<times> string \<times> string option \<times> bool \<Rightarrow> SharedBudgetOutcome daemon" where
  "book_subagent rt n state cfg session_id agent_id kind flags already booking =
     (case booking of (amount, key, event_time, usage_known) \<Rightarrow>
      let now = rt_now rt n in
      if amount = 0 then
        dbind (period_at rt cfg now) (\<lambda>period.
        dbind (look (\<lambda>s. pool_admission_for (rt_ext rt) s (pe_pool_id period) now (source cfg))) (\<lambda>admission.
        ok (Out_TranscriptCharged \<lparr>tc_reservation_id = None, tc_pool_id = None, tc_amount_charged_usd_cents = 0,
          tc_cumulative_usd_cents = already, tc_already_charged = True, tc_executor_kind = kind,
          tc_remaining_usd_cents = (case admission of Some a \<Rightarrow> pa_remaining (sa_admission a)
            | None \<Rightarrow> i64_of_u64 (cfg_monthly_cap_usd_cents cfg)),
          tc_overrun_usd_cents = (case admission of Some a \<Rightarrow> pa_overrun (sa_admission a) | None \<Rightarrow> 0),
          tc_usage_known = usage_known, tc_unmeasured = \<not> usage_known, tc_unpriced = sf_unpriced flags,
          tc_transcript_unverified = sf_unverified flags, tc_binding_mismatch = sf_mismatch flags,
          tc_event_time_clamped = False\<rparr>)))
      else
        dbind (book_charge rt state
          \<lparr>bc_session_id = session_id, bc_agent_id = agent_id, bc_amount_usd_cents = amount, bc_key = key,
           bc_charge_source = SubagentTranscript, bc_event_time = event_time, bc_usage_known = usage_known,
           bc_watermark = None\<rparr> (rt_fresh rt n) (rt_now rt (n + 1))) (\<lambda>outcome.
        case outcome of
          Out_Charged c \<Rightarrow>
            dbind (if \<not> usage_known \<and> \<not> ch_already_charged c
                   then telemetry (\<lambda>t. t\<lparr>te_unmeasured_charges := te_unmeasured_charges t + 1\<rparr>) else ok ()) (\<lambda>_.
            ok (Out_TranscriptCharged \<lparr>tc_reservation_id = Some (ch_reservation_id c), tc_pool_id = Some (ch_pool_id c),
              tc_amount_charged_usd_cents = (if ch_already_charged c then 0 else ch_amount_usd_cents c),
              tc_cumulative_usd_cents = (if ch_already_charged c then already else saturating_add already (ch_amount_usd_cents c)),
              tc_already_charged = ch_already_charged c, tc_executor_kind = ch_executor_kind c,
              tc_remaining_usd_cents = ch_remaining_usd_cents c, tc_overrun_usd_cents = ch_overrun_usd_cents c,
              tc_usage_known = usage_known, tc_unmeasured = \<not> usage_known, tc_unpriced = sf_unpriced flags,
              tc_transcript_unverified = sf_unverified flags, tc_binding_mismatch = sf_mismatch flags,
              tc_event_time_clamped = ch_event_time_clamped c\<rparr>))
        | other \<Rightarrow> ok other))"

text \<open>What is done with an observation of the file.\<close>
definition charge_observed ::
    "'f Runtime \<Rightarrow> nat \<Rightarrow> 'f SharedBudgetFileState \<Rightarrow> 'f SharedBudgetConfig \<Rightarrow> string \<Rightarrow> string option \<Rightarrow> ExecutorKind \<Rightarrow> string
      \<Rightarrow> bool \<Rightarrow> PricedObservation \<Rightarrow> SharedBudgetOutcome option daemon" where
  "charge_observed rt n state cfg session_id agent_id kind prefix sweep observation =
     dbind (subagent_measurement sweep observation) (\<lambda>seen.
     case seen of
       None \<Rightarrow> ok None
     | Some (measured, flags) \<Rightarrow>
         dbind (look (\<lambda>s. shared_charges_total_by_key_prefix s budget_principal prefix OWNER_POOL_PREFIX)) (\<lambda>summed.
         if cfg_enforcement cfg = Enforce_Gateway then
           dbind (case measured of
               Some (cumulative, _) \<Rightarrow> record_offset rt n cfg session_id agent_id prefix cumulative summed
             | None \<Rightarrow> ok ()) (\<lambda>_.
           ok (Some (refused Refuse_GatewayMetered)))
         else
           dbind (gateway_metered_offset prefix) (\<lambda>metered.
           let already = saturating_add summed metered in
           dbind (subagent_booking rt cfg prefix already measured) (\<lambda>booking.
           dbind (book_subagent rt n state cfg session_id agent_id kind flags already booking) (\<lambda>outcome.
           ok (Some outcome))))))"

definition charge_transcript_inner ::
    "'f Runtime \<Rightarrow> Transcripts \<Rightarrow> nat \<Rightarrow> 'f SharedBudgetFileState \<Rightarrow> string \<Rightarrow> string option \<Rightarrow> string \<Rightarrow> bool
      \<Rightarrow> SharedBudgetOutcome option daemon" where
  "charge_transcript_inner rt tr n state session_id agent_id path sweep =
     (if state = File_Absent then ok (Some Out_NotConfigured)
      else case validate_identity session_id agent_id of
        Inl reason \<Rightarrow> ok (Some (refused reason))
      | Inr named \<Rightarrow>
          (case configured state of
             Inl outcome \<Rightarrow> ok (Some outcome)
           | Inr cfg \<Rightarrow>
               charge_observed rt n state cfg session_id agent_id (if named = AgentAbsent then Unattributed else named)
                 (transcript_family rt session_id agent_id path) sweep
                 (if blank path \<or> \<not> is_absolute path then Unavailable NoTranscriptPath
                  else observe_file rt tr cfg session_id agent_id path)))"

definition charge_agent_transcript ::
    "'f Runtime \<Rightarrow> Transcripts \<Rightarrow> string \<Rightarrow> string option \<Rightarrow> string \<Rightarrow> SharedBudgetOutcome daemon" where
  "charge_agent_transcript rt tr session_id agent_id agent_transcript_path =
     dbind (charge_transcript_inner rt tr 0 (rt_effective rt 0) session_id agent_id agent_transcript_path False) (\<lambda>outcome.
     ok (case outcome of Some out \<Rightarrow> out | None \<Rightarrow> Out_NotConfigured))"

section \<open>The sweep of a session's subagents\<close>

definition MAX_SWEEP_FILES :: nat where "MAX_SWEEP_FILES = 64"

definition SWEEP_BYTE_BUDGET :: u64 where "SWEEP_BYTE_BUDGET = 128 * 1024 * 1024"

record SweepReport =
  sr_charged :: nat
  sr_deferred :: nat

definition SweepReport_default :: SweepReport where "SweepReport_default = \<lparr>sr_charged = 0, sr_deferred = 0\<rparr>"

text \<open>Length and modification time of a file; the files already swept, by session and agent.\<close>
type_synonym file_stamp = "u64 \<times> int"
type_synonym swept = "((string \<times> string) \<times> file_stamp) list"

definition remember_swept :: "swept \<Rightarrow> string \<times> string \<Rightarrow> file_stamp \<Rightarrow> swept" where
  "remember_swept seen key stamp =
     (let seen = (if 4096 \<le> length seen then [] else seen)
      in (key, stamp) # filter (\<lambda>e. fst e \<noteq> key) seen)"

definition path_join :: "string \<Rightarrow> string \<Rightarrow> string" where
  "path_join dir name = (if dir \<noteq> [] \<and> last dir = CHR ''/'' then dir @ name else dir @ ''/'' @ name)"

text \<open>The subagent files of a directory, by agent, at most so many.\<close>
definition sweep_candidates ::
    "string \<Rightarrow> (string \<times> file_stamp option) list \<Rightarrow> (string \<times> string \<times> file_stamp option) list" where
  "sweep_candidates dir entries =
     take MAX_SWEEP_FILES (sort_key fst
       (List.map_filter (\<lambda>(name, meta). map_option (\<lambda>agent. (agent, path_join dir name, meta)) (agent_of_name name)) entries))"

text \<open>The state of the loop: files swept, files charged, bytes read, files left for later, whether one was processed.\<close>
type_synonym sweep_state = "swept \<times> nat \<times> u64 \<times> nat \<times> bool"

fun sweep_files ::
    "'f Runtime \<Rightarrow> Transcripts \<Rightarrow> nat \<Rightarrow> 'f SharedBudgetFileState \<Rightarrow> string \<Rightarrow> u64
      \<Rightarrow> (string \<times> string \<times> file_stamp option) list \<Rightarrow> sweep_state \<Rightarrow> sweep_state daemon" where
  "sweep_files rt tr n state session_id byte_budget [] st = ok st"
| "sweep_files rt tr n state session_id byte_budget ((agent, path, None) # files) st =
     sweep_files rt tr n state session_id byte_budget files st"
| "sweep_files rt tr n state session_id byte_budget ((agent, path, Some stamp) # files)
     (seen, charged, spent, deferred, processed_any) =
     (let key = (session_id, agent);
          cost = min (fst stamp) (of_nat BUDGET_SCAN_CAP_BYTES)
      in if map_of seen key = Some stamp
         then sweep_files rt tr n state session_id byte_budget files (seen, charged, spent, deferred, processed_any)
         else if processed_any \<and> byte_budget < saturating_add spent cost
         then sweep_files rt tr n state session_id byte_budget files (seen, charged, spent, deferred + 1, processed_any)
         else
           dbind (attempt (charge_transcript_inner rt tr n state session_id (Some agent) path True)) (\<lambda>outcome.
           sweep_files rt tr (n + 2) state session_id byte_budget files
             (case outcome of
                Inr (Some (Out_TranscriptCharged c)) \<Rightarrow>
                  (remember_swept seen key stamp, if 0 < tc_amount_charged_usd_cents c then charged + 1 else charged,
                   saturating_add spent cost, deferred, True)
              | Inr None \<Rightarrow> (remember_swept seen key stamp, charged, saturating_add spent cost, deferred, True)
              | Inr (Some (Out_Refused Refuse_GatewayMetered)) \<Rightarrow>
                  (remember_swept seen key stamp, charged, saturating_add spent cost, deferred, True)
              | _ \<Rightarrow> (seen, charged, saturating_add spent cost, deferred, True))))"

text \<open>\<open>read_dir\<close> lists the regular files of a directory that can be listed.\<close>
definition sweep_with_budget ::
    "'f Runtime \<Rightarrow> Transcripts \<Rightarrow> (string \<Rightarrow> (string \<times> file_stamp option) list option) \<Rightarrow> swept \<Rightarrow> string \<Rightarrow> string \<Rightarrow> u64
      \<Rightarrow> (SweepReport \<times> swept) daemon" where
  "sweep_with_budget rt tr read_dir seen session_id transcript_path byte_budget =
     (let state = rt_effective rt 0 in
      case strip_suffix ''.jsonl'' transcript_path of
        None \<Rightarrow> ok (SweepReport_default, seen)
      | Some stem \<Rightarrow>
          if \<not> is_absolute transcript_path then ok (SweepReport_default, seen)
          else let dir = path_join stem ''subagents'' in
            (case read_dir dir of
               None \<Rightarrow> ok (SweepReport_default, seen)
             | Some entries \<Rightarrow>
                 dbind (sweep_files rt tr 0 state session_id byte_budget (sweep_candidates dir entries) (seen, 0, 0, 0, False))
                   (\<lambda>(seen, charged, _, deferred, _).
                 dbind (if 0 < deferred
                        then telemetry (\<lambda>t. t\<lparr>te_sweep_deferred_files := te_sweep_deferred_files t + of_nat deferred\<rparr>)
                        else ok ()) (\<lambda>_.
                 ok (\<lparr>sr_charged = charged, sr_deferred = deferred\<rparr>, seen)))))"

definition sweep_subagent_transcripts ::
    "'f Runtime \<Rightarrow> Transcripts \<Rightarrow> (string \<Rightarrow> (string \<times> file_stamp option) list option) \<Rightarrow> swept \<Rightarrow> string \<Rightarrow> string
      \<Rightarrow> (nat \<times> swept) daemon" where
  "sweep_subagent_transcripts rt tr read_dir seen session_id transcript_path =
     dbind (sweep_with_budget rt tr read_dir seen session_id transcript_path SWEEP_BYTE_BUDGET)
       (\<lambda>(report, seen). ok (sr_charged report, seen))"

end
