(* ===== verification/Subagent_Total.thy ===== *)
theory Subagent_Total
  imports Budget_Subagent Budget_Once
begin

text \<open>
  A subagent is charged what its transcript costs: after every charge, what its family was booked is the larger of
  what it was before and the measured cost less what the gateway metered.
\<close>

section \<open>The total of a family\<close>

definition same_books :: "LedgerStore \<Rightarrow> LedgerStore \<Rightarrow> bool" where
  "same_books s t \<longleftrightarrow> reservations t = reservations s \<and> charge_floor t = charge_floor s"

interpretation books: store_relation same_books
  by unfold_locales (auto simp: same_books_def)

lemma same_books_family: "same_books s t \<Longrightarrow> family_total t pr f pp = family_total s pr f pp"
  by (simp add: same_books_def family_total_def)

lemma ensure_period_pool_books: "effect same_books (ensure_period_pool rt pool cfg now)"
proof -
  have "same_books s (snd (ensure_pool x s p u c t))" for x s p u c t
    by (cases "ensure_pool x s p u c t") (auto simp: same_books_def elim: ensure_pool_cases)
  then show ?thesis unfolding ensure_period_pool_def by (intro books.effect_rules books.effect_call)
qed

lemma charge_family_total:
  assumes "charge_shared_with_watermark x s req wm rid = Inr (out, s')" "cr_principal_id req = pr"
    "starts_with f (cr_idempotency_key req)" "starts_with pp (cr_pool_id req)"
  shows "family_total s' pr f pp = family_total s pr f pp
    + (if \<exists>u a v k. out = Charged u a v k then uint (cr_amount req) else 0)"
  using assms(1)
proof (cases rule: charge_cases)
  case (adopted existing wt ids)
  let ?f = "\<lambda>r. r\<lparr>r_watermark_ts := wt, r_watermark_message_ids := ids\<rparr>"
  have "sum_col g (filter P (update_where q ?f rows)) = sum_col g (filter P rows)"
    if "\<And>r. P (?f r) = P r" "\<And>r. g (?f r) = g r" for P q rows and g :: "ReservationRow \<Rightarrow> int"
    by (induction rows) (simp_all add: that)
  with adopted show ?thesis by (simp add: family_total_def adopt_watermark_def charge_family_row_def)
next
  case (charged attribution pool now_str wt ids u settled active overhang effective)
  let ?row = "charge_row x req attribution rid (uint (cr_amount req)) now_str wt ids"
  have "charge_family_row pr f pp ?row" "r_settled_amount ?row = Some (uint (cr_amount req))"
    using assms(2-4) by (simp_all add: charge_family_row_def charge_row_def)
  moreover have "s' = s\<lparr>reservations := reservations s @ [?row]\<rparr>"
    using charged(5) by (simp add: insert_reservation_eq_Inr)
  moreover have "\<exists>u a v k. out = Charged u a v k" using charged(9) by (auto simp: Let_def)
  ultimately show ?thesis by (simp add: family_total_def sum_col_def)
qed auto

lemma charge_answer_says:
  assumes "charge_answer rt cfg pool now clamped amount out d = (Inr (Out_Charged answer), d')"
  shows "ch_amount_usd_cents answer = amount" "ch_already_charged answer \<longleftrightarrow> \<not> (\<exists>u a v k. out = Charged u a v k)"
  using assms by (auto simp: charge_answer_def Let_def refused_def elim!: dbindE split: SharedPoolChargeOutcome.splits)

text \<open>Only a row under the very key answers a charge as already booked.\<close>
lemma already_charged_found:
  "charge_shared_with_watermark x s req wm rid = Inr (AlreadyCharged e, s') \<Longrightarrow>
     find_by_key s (cr_pool_id req) (cr_principal_id req) (cr_idempotency_key req) \<noteq> None"
  by (auto simp: charge_shared_with_watermark_def Let_def elim!: rbindE split: option.splits if_splits prod.splits)

lemma booked_family_total:
  assumes "book_charge rt state booked rid now d = (Inr (Out_Charged answer), d')" "starts_with f (bc_key booked)"
  shows "family_total (d_ledger d') budget_principal f OWNER_POOL_PREFIX = family_total (d_ledger d) budget_principal f OWNER_POOL_PREFIX
      + (if ch_already_charged answer then 0 else uint (bc_amount_usd_cents booked))"
    and "ch_amount_usd_cents answer = bc_amount_usd_cents booked"
    and "ch_already_charged answer \<Longrightarrow> keyed (bc_key booked) (d_ledger d)"
proof -
  obtain cfg existing pool clamped d1 where pool: "starts_with OWNER_POOL_PREFIX pool" "d_ledger d1 = d_ledger d"
    and run: "book_in_pool rt cfg booked rid now existing pool clamped d1 = (Inr (Out_Charged answer), d')"
    by (rule book_charge_steps [OF assms(1)])
  let ?s = "d_ledger (snd (ensure_period_pool rt pool cfg now d1))"
  obtain out d2 where steps: "charge_shared_with_watermark (rt_ext rt) ?s (charge_request cfg booked pool now) (bc_watermark booked) rid
      = Inr (out, d_ledger d')"
    "charge_answer rt cfg pool now clamped (bc_amount_usd_cents booked) out d2 = (Inr (Out_Charged answer), d')"
    by (rule book_in_pool_steps [OF run])
  have books: "same_books (d_ledger d) ?s" using ensure_period_pool_books [of rt pool cfg now] pool(2) unfolding effect_def by metis
  then show "family_total (d_ledger d') budget_principal f OWNER_POOL_PREFIX = family_total (d_ledger d) budget_principal f OWNER_POOL_PREFIX
      + (if ch_already_charged answer then 0 else uint (bc_amount_usd_cents booked))"
    using charge_family_total [OF steps(1), of budget_principal f OWNER_POOL_PREFIX] charge_answer_says(2) [OF steps(2)] assms(2) pool(1)
    by (simp add: charge_request_def same_books_family)
  show "ch_amount_usd_cents answer = bc_amount_usd_cents booked" by (rule charge_answer_says(1) [OF steps(2)])
  assume "ch_already_charged answer"
  then obtain e where "out = AlreadyCharged e"
    using steps(2) by (auto simp: charge_answer_def refused_def elim!: dbindE split: SharedPoolChargeOutcome.splits)
  then obtain row where "find_by_key ?s pool budget_principal (bc_key booked) = Some row"
    using already_charged_found [OF steps(1) [unfolded \<open>out = AlreadyCharged e\<close>]] by (auto simp: charge_request_def)
  then show "keyed (bc_key booked) (d_ledger d)"
    using books pool(1) by (auto simp: find_by_key_def keyed_def list_ex_iff same_books_def row_key_fields dest!: find_Some_mem)
qed

section \<open>Charging a subagent\<close>

lemma subagent_reads: "effect (=) (subagent_measurement sweep observation)" "effect (=) (gateway_metered_offset prefix)"
  "effect (=) (subagent_booking rt cfg prefix already measured)"
  by (auto simp: subagent_measurement_def gateway_metered_offset_def subagent_booking_def note_unpriced_def Let_def
      split: PricedObservation.splits option.splits intro!: same_store.effect_rules reads_answers)

lemma gateway_metered_offset_looks: "gateway_metered_offset prefix d = (Inr m, d') \<Longrightarrow> d' = d"
  by (simp add: gateway_metered_offset_def look_def)

lemma book_charge_answers:
  "charge_answer rt cfg pool now clamped amount outcome d \<noteq> (Inr (Out_TranscriptCharged c), d')"
  "book_in_pool rt cfg booked rid now existing pool clamped d \<noteq> (Inr (Out_TranscriptCharged c), d')"
  "book_charge rt state booked rid now d \<noteq> (Inr (Out_TranscriptCharged c), d')"
proof -
  show answer: "charge_answer rt cfg pool now clamped amount outcome d \<noteq> (Inr (Out_TranscriptCharged c), d')"
    for rt and cfg :: "'a SharedBudgetConfig" and pool now clamped amount outcome d d'
    by (auto simp: charge_answer_def Let_def refused_def elim!: dbindE split: SharedPoolChargeOutcome.splits)
  show pool: "book_in_pool rt cfg booked rid now existing pool clamped d \<noteq> (Inr (Out_TranscriptCharged c), d')"
    for rt and cfg :: "'a SharedBudgetConfig" and booked rid now existing pool clamped d d'
    by (auto simp: book_in_pool_def Let_def refused_def answer elim!: dbindE
        split: if_splits sum.splits SharedBudgetError.splits LedgerError.splits)
  show "book_charge rt state booked rid now d \<noteq> (Inr (Out_TranscriptCharged c), d')"
    by (auto simp: book_charge_def Let_def refused_def configured_def pool elim!: dbindE
        split: if_splits sum.splits prod.splits SharedBudgetFileState.splits)
qed

text \<open>What the booking of a priced file answers and does to the family.\<close>
lemma book_subagent_family:
  assumes "book_subagent rt n state cfg session agent kind flags already (amount, key, event, known) d
      = (Inr (Out_TranscriptCharged c), d')" "starts_with f key"
  shows "family_total (d_ledger d') budget_principal f OWNER_POOL_PREFIX
      = family_total (d_ledger d) budget_principal f OWNER_POOL_PREFIX + uint (tc_amount_charged_usd_cents c)"
    and "tc_amount_charged_usd_cents c = amount \<or> tc_already_charged c \<and> keyed key (d_ledger d)"
    and "0 < tc_amount_charged_usd_cents c \<Longrightarrow> keyed key (d_ledger d')"
proof -
  let ?F = "\<lambda>s. family_total s budget_principal f OWNER_POOL_PREFIX"
  have "?F (d_ledger d') = ?F (d_ledger d) + uint (tc_amount_charged_usd_cents c)
    \<and> (tc_amount_charged_usd_cents c = amount \<or> tc_already_charged c \<and> keyed key (d_ledger d))
    \<and> (0 < tc_amount_charged_usd_cents c \<longrightarrow> keyed key (d_ledger d'))"
  proof (cases "amount = 0")
    case True
    then obtain period d1 admission d2 where steps: "period_at rt cfg (rt_now rt n) d = (Inr period, d1)"
      "look (\<lambda>s. pool_admission_for (rt_ext rt) s (pe_pool_id period) (rt_now rt n) (source cfg)) d1 = (Inr admission, d2)"
      "d' = d2" "tc_amount_charged_usd_cents c = 0"
      using assms(1) by (auto simp: book_subagent_def Let_def elim!: dbindE)
    from reads_ledger [OF reads_answers(4) steps(1)] steps(2-4) True show ?thesis by (auto simp: look_def split: sum.splits)
  next
    case False
    then obtain answer d1 where book: "book_charge rt state \<lparr>bc_session_id = session, bc_agent_id = agent, bc_amount_usd_cents = amount,
        bc_key = key, bc_charge_source = SubagentTranscript, bc_event_time = event, bc_usage_known = known, bc_watermark = None\<rparr>
        (rt_fresh rt n) (rt_now rt (n + 1)) d = (Inr (Out_Charged answer), d1)"
      and d1: "d_ledger d' = d_ledger d1" and c: "tc_already_charged c = ch_already_charged answer"
      "tc_amount_charged_usd_cents c = (if ch_already_charged answer then 0 else ch_amount_usd_cents answer)"
      using assms(1) by (auto simp: book_subagent_def Let_def telemetry_def book_charge_answers elim!: dbindE split: SharedBudgetOutcome.splits if_splits)
    from booked_family_total [OF book, of f] booked_charge_keyed [OF book] assms(2) d1 c show ?thesis by auto
  qed
  then show "?F (d_ledger d') = ?F (d_ledger d) + uint (tc_amount_charged_usd_cents c)"
    "tc_amount_charged_usd_cents c = amount \<or> tc_already_charged c \<and> keyed key (d_ledger d)"
    "0 < tc_amount_charged_usd_cents c \<Longrightarrow> keyed key (d_ledger d')" by auto
qed

lemma family_total_nonneg:
  assumes "sound x s"
  shows "0 \<le> family_total s pr f pp"
  using soundD(2,4) [OF assms] settled_amount_nonneg
  by (auto simp: family_total_def floor_total_def floor_ok_def list_all_iff intro!: sum_col_nonneg add_nonneg_nonneg)

lemma priced_charge_steps:
  assumes "rt_effective rt 0 = File_Valid cfg" "cfg_enforcement cfg = Enforce_Hooks" "\<not> blank path" "is_absolute path"
    "observe_file rt tr cfg session agent path = Priced w"
    "charge_agent_transcript rt tr session agent path d = (Inr (Out_TranscriptCharged c), d')"
  obtains summed metered event kind and d1 d2 :: Daemon where
    "shared_charges_total_by_key_prefix (d_ledger d) budget_principal (transcript_family rt session agent path) OWNER_POOL_PREFIX = Inr summed"
    "gateway_metered_offset (transcript_family rt session agent path) d1 = (Inr metered, d1)" "d_ledger d1 = d_ledger d"
    "book_subagent rt 0 (File_Valid cfg) cfg session agent kind no_flags (saturating_add summed metered)
      (saturating_sub (pw_cents w) (saturating_add summed metered),
       transcript_family rt session agent path @ ''c'' @ show_u64 (uint (pw_cents w)), event, True) d2 = (Inr (Out_TranscriptCharged c), d')"
    "d_ledger d2 = d_ledger d"
proof -
  let ?prefix = "transcript_family rt session agent path"
  from assms obtain kind da summed db metered dc event dd where steps:
    "telemetry (\<lambda>t. t\<lparr>te_foreign_lines := te_foreign_lines t + of_nat (pw_foreign_lines w)\<rparr>) d = (Inr (), da)"
    "look (\<lambda>s. shared_charges_total_by_key_prefix s budget_principal ?prefix OWNER_POOL_PREFIX) da = (Inr summed, db)"
    "gateway_metered_offset ?prefix db = (Inr metered, dc)"
    "subagent_booking rt cfg ?prefix (saturating_add summed metered) (Some (pw_cents w, pw_last_event_time w)) dc = (Inr event, dd)"
    "book_subagent rt 0 (File_Valid cfg) cfg session agent kind no_flags (saturating_add summed metered) event dd = (Inr (Out_TranscriptCharged c), d')"
    by (auto simp: charge_agent_transcript_def charge_transcript_inner_def charge_observed_def configured_def subagent_measurement_def refused_def Let_def
        elim!: dbindE split: sum.splits option.splits if_splits)
  have da: "d_ledger da = d_ledger d" using steps(1) by (auto simp: telemetry_def)
  from steps(2) have summed: "shared_charges_total_by_key_prefix (d_ledger d) budget_principal ?prefix OWNER_POOL_PREFIX = Inr summed" "db = da"
    by (auto simp: look_def da split: sum.splits)
  have dc: "dc = db" by (rule gateway_metered_offset_looks [OF steps(3)])
  obtain time where event: "event = (saturating_sub (pw_cents w) (saturating_add summed metered),
      ?prefix @ ''c'' @ show_u64 (uint (pw_cents w)), time, True)"
    using steps(4) by (auto simp: subagent_booking_def elim!: dbindE)
  have "d_ledger dd = d_ledger d" using reads_ledger [OF subagent_reads(3) steps(4)] dc summed(2) da by simp
  then show ?thesis using that [OF summed(1), of db metered kind time dd] steps(3,5) dc summed(2) da event by simp
qed

section \<open>The cost of a subagent\<close>

lemma cumulative_total:
  assumes "0 \<le> booked" "booked \<le> i64_max" "uint summed = booked"
  shows "booked + uint (saturating_sub cents (saturating_add summed metered)) = max booked (uint cents - uint metered)"
  using assms uint_u64_bounds [of cents] uint_u64_bounds [of metered]
  by (auto simp: u64_simps u64_max_def max_def min_def)

text \<open>
  C6. A subagent is charged what its transcript costs. Under hook enforcement, when the transcript of a subagent was
  read whole and priced and the charge answered, what its family was booked, over all periods and whatever was pruned,
  has grown by exactly the amount the answer names, and is now the larger of what it was before and the measured cost
  less what the gateway metered: a repeated report books nothing, a grown transcript books the difference. Whatever is
  booked carries a key that names this very cost, and the one exception to the total is a ledger that had a row under
  exactly that key before, which answers the charge as already booked and books nothing.
\<close>
theorem subagent_charged_its_cost:
  assumes "rt_effective rt 0 = File_Valid cfg" "cfg_enforcement cfg = Enforce_Hooks" "\<not> blank path" "is_absolute path"
    and "observe_file rt tr cfg session agent path = Priced w"
    and "sound (rt_ext rt) (d_ledger d)"
    and "family = (\<lambda>s. family_total s budget_principal (transcript_family rt session agent path) OWNER_POOL_PREFIX)"
    and "family (d_ledger d) \<le> i64_max"
    and "gateway_metered_offset (transcript_family rt session agent path) d = (Inr metered, d)"
    and "charge_agent_transcript rt tr session agent path d = (Inr (Out_TranscriptCharged c), d')"
  shows "family (d_ledger d') = family (d_ledger d) + uint (tc_amount_charged_usd_cents c)
    \<and> (family (d_ledger d') = max (family (d_ledger d)) (uint (pw_cents w) - uint metered)
        \<or> tc_already_charged c \<and> keyed (transcript_family rt session agent path @ ''c'' @ show_u64 (uint (pw_cents w))) (d_ledger d))
    \<and> (0 < tc_amount_charged_usd_cents c
        \<longrightarrow> keyed (transcript_family rt session agent path @ ''c'' @ show_u64 (uint (pw_cents w))) (d_ledger d'))"
proof -
  let ?prefix = "transcript_family rt session agent path"
  obtain summed metered' event kind and d1 d2 :: Daemon where steps:
    "shared_charges_total_by_key_prefix (d_ledger d) budget_principal ?prefix OWNER_POOL_PREFIX = Inr summed"
    "gateway_metered_offset ?prefix d1 = (Inr metered', d1)" "d_ledger d1 = d_ledger d"
    "book_subagent rt 0 (File_Valid cfg) cfg session agent kind no_flags (saturating_add summed metered')
      (saturating_sub (pw_cents w) (saturating_add summed metered'), ?prefix @ ''c'' @ show_u64 (uint (pw_cents w)), event, True) d2
        = (Inr (Out_TranscriptCharged c), d')" "d_ledger d2 = d_ledger d"
    by (rule priced_charge_steps [OF assms(1-5,10)])
  have "metered' = metered" using assms(9) steps(2,3) by (simp add: gateway_metered_offset_def look_def)
  moreover have nonneg: "0 \<le> family (d_ledger d)" using family_total_nonneg [OF assms(6)] by (simp add: assms(7))
  moreover have "summed = word_of_int (family (d_ledger d))"
    using steps(1) charges_total_exact [OF soundD(4) [OF assms(6)] soundD(2) [OF assms(6)]] assms(8) by (simp add: assms(7))
  then have "uint summed = family (d_ledger d)"
    using nonneg assms(8) by (simp add: uint_word_of_int i64_max_def)
  ultimately show ?thesis
    using book_subagent_family [OF steps(4), of ?prefix] cumulative_total [of "family (d_ledger d)" summed "pw_cents w" metered]
      steps(5) assms(8) by (auto simp: assms(7))
qed

text \<open>One subagent whose transcript is one record of three cents.\<close>
definition demo_hooks :: "rat SharedBudgetConfig" where
  "demo_hooks = demo_cfg\<lparr>cfg_enforcement := Enforce_Hooks, cfg_pricing_overrides := pt_entries demo_prices\<rparr>"

definition demo_hooks_runtime :: "rat Runtime" where
  "demo_hooks_runtime = (demo_runtime 5)\<lparr>rt_effective := (\<lambda>_. File_Valid demo_hooks)\<rparr>"

definition demo_agent_files :: Transcripts where
  "demo_agent_files = \<lparr>tr_read = (\<lambda>_. Some ''a''), tr_decode = demo_decode, tr_parse = demo_stamp\<rparr>"

abbreviation demo_family :: string where
  "demo_family \<equiv> transcript_family demo_hooks_runtime ''s'' (Some ''g'') ''/t''"

lemma demo_file: "observe_file demo_hooks_runtime demo_agent_files demo_hooks ''s'' (Some ''g'') ''/t'' = Priced demo_window"
proof -
  have "observe_file demo_hooks_runtime demo_agent_files demo_hooks ''s'' (Some ''g'') ''/t''
     = observe_priced rat_floats demo_decode demo_stamp (Some ''a'') (WholeFile (Some ''g'')) ''s''
         (overrides_table rat_floats (pt_entries demo_prices)) BUDGET_SCAN_CAP_BYTES"
    by (simp add: observe_file_def demo_hooks_runtime_def demo_runtime_def demo_agent_files_def demo_hooks_def)
  also have "\<dots> = finish rat_floats (fst (visit_lines (visit_line demo_decode demo_stamp (WholeFile (Some ''g'')) ''s'') Accumulator_default
         (rev (split_nl ''a'')))) (overrides_table rat_floats (pt_entries demo_prices))"
    by (rule observe_whole [OF _ surjective_pairing]) (simp add: BUDGET_SCAN_CAP_BYTES_def)
  also have "\<dots> = Priced demo_window" by code_simp
  finally show ?thesis .
qed

lemma demo_charge_answers:
  "case charge_observed demo_hooks_runtime 0 (File_Valid demo_hooks) demo_hooks ''s'' (Some ''g'') Agent demo_family False
      (Priced demo_window) demo_daemon of
     (Inr (Some (Out_TranscriptCharged c)), d) \<Rightarrow> \<not> tc_already_charged c
   | _ \<Rightarrow> False"
  by code_simp

lemma demo_family_empty: "family_total (d_ledger demo_daemon) budget_principal demo_family OWNER_POOL_PREFIX = 0"
  "gateway_metered_offset demo_family demo_daemon = (Inr 0, demo_daemon)"
  "\<not> blank ''/t''" "is_absolute ''/t''" "validate_identity ''s'' (Some ''g'') = Inr Agent"
  by code_simp+

lemma show_three: "show_u64 3 = ''3''"
  by code_simp

theorem subagent_charged_its_cost_witness:
  "family_total (d_ledger (snd (charge_agent_transcript demo_hooks_runtime demo_agent_files ''s'' (Some ''g'') ''/t'' demo_daemon)))
     budget_principal demo_family OWNER_POOL_PREFIX = 3
   \<and> keyed (demo_family @ ''c3'')
       (d_ledger (snd (charge_agent_transcript demo_hooks_runtime demo_agent_files ''s'' (Some ''g'') ''/t'' demo_daemon)))"
proof -
  have rt: "rt_effective demo_hooks_runtime 0 = File_Valid demo_hooks" "rt_ext demo_hooks_runtime = demo_externals"
    "cfg_enforcement demo_hooks = Enforce_Hooks"
    by (simp_all add: demo_hooks_runtime_def demo_runtime_def demo_hooks_def)
  obtain c d' where run: "charge_observed demo_hooks_runtime 0 (File_Valid demo_hooks) demo_hooks ''s'' (Some ''g'') Agent demo_family
      False (Priced demo_window) demo_daemon = (Inr (Some (Out_TranscriptCharged c)), d')" "\<not> tc_already_charged c"
    using demo_charge_answers by (auto split: prod.splits sum.splits option.splits SharedBudgetOutcome.splits)
  then have answer: "charge_agent_transcript demo_hooks_runtime demo_agent_files ''s'' (Some ''g'') ''/t'' demo_daemon
      = (Inr (Out_TranscriptCharged c), d')"
    by (simp add: charge_agent_transcript_def charge_transcript_inner_def rt demo_family_empty configured_def demo_file dbind_def)
  have "sound demo_externals (d_ledger demo_daemon)" by (simp add: demo_daemon_def empty_store_sound)
  with subagent_charged_its_cost [OF rt(1,3) demo_family_empty(3,4) demo_file _ refl _ demo_family_empty(2) answer] run(2)
  show ?thesis by (simp add: demo_family_empty answer rt demo_window_def i64_max_def show_three word_less_def)
qed

end
