(* ===== verification/Spec2Isabelle.thy ===== *)
theory Spec2Isabelle
  imports Pool_Queries Pool_Machine Quota_Window Pacing_Replay Gateway_World Turn_Settlement Subagent_Total
begin

text \<open>
  Libra Governor is a local daemon that admits, meters and settles the spend of coding agents. This
  development models the part of it that keeps money and paces work: the shared quota pools of the
  ledger, the quota windows and the pacing engine of the domain crate, the accounting of the gateway, and
  the shared monthly budget of the daemon that puts ledger and gateway together.

  \<^bold>\<open>The program.\<close> A pool has a unit and a capacity. Sessions of several agents reserve an amount
  before they spend, settle the hold with what they spent, release it or renew it; spend seen after
  the fact is charged; holds nobody settles are swept; provider readings narrow the capacity of
  metered pools; closed months are pruned. Every ledger method is one immediate SQLite transaction.
  Quota windows say, from evidence, whether a limit blocks and when it stops doing so; the pacing engine
  starts the tasks of a set so that no window overcommits. The gateway prices a request before it
  is sent and after it was answered. The daemon admits prompts and gateway requests against one pool per
  calendar month whose capacity is the cap in its budget file, and prices transcripts of what was spent.

  \<^bold>\<open>The theories.\<close> Source files are named relative to \<open>src/crates\<close>.
  \<^item> \<open>Prelude\<close>: machine integers with Rust's checked and saturating operations, list and option lemmas,
    the error monad, the \<open>column_codec\<close> interface of text columns. \<open>Rust_Text\<close>: trimming of strings.
  \<^item> \<open>Quota_Types\<close>: units, amounts, gauge readings, slugs (\<open>domain/src/quota_window/mod.rs\<close>).
  \<^item> \<open>Pool_Domain\<close>: pools, reservations, the admission arithmetic, metered pool keys
    (\<open>domain/src/shared_pool.rs\<close>).
  \<^item> \<open>Pool_Store\<close>: the tables as lists of rows, readers, totals, effective capacity
    (\<open>ledger/src/shared_pool.rs\<close>).
  \<^item> \<open>Pool_Reserve\<close>, \<open>Pool_Settle\<close>, \<open>Pool_Sweep\<close>, \<open>Pool_Queries\<close>: the methods of the same file, one
    definition each, branch by branch; \<open>row_sweep\<close> is the interface the two sweeps share.
  \<^item> \<open>Pool_Retention\<close>: pruning of closed months (\<open>ledger/src/shared_pool_retention.rs\<close>).
  \<^item> \<open>Pool_Machine\<close>: all state-changing methods as the steps of one machine; reachable stores, the
    life cycle of a row followed by its id, the finality of a release, the accounting bound of a pool (interface \<open>capped_account\<close>).
  \<^item> \<open>Quota_Calendar\<close>, \<open>Quota_Window\<close>: aligned periods and working hours, validation and evaluation of
    windows (\<open>domain/src/quota_window\<close>).
  \<^item> \<open>Completion_Reserve\<close>, \<open>Pacing_Tasks\<close>, \<open>Pacing_Forecast\<close>, \<open>Pacing_Step\<close>, \<open>Pacing_Invariants\<close>,
    \<open>Pacing_Replay\<close>: task sets and their ready order, the need of a task and the earliest safe
    instant, the state machine of \<open>step\<close>, its invariants, the replay driver (\<open>domain/src/pacing\<close>).
  \<^item> \<open>Gateway_Usage\<close>, \<open>Gateway_Pricing\<close>, \<open>Gateway_Cost\<close>: accounting of a streamed response, the pricing
    table, worst-case reservation and settlement (\<open>gateway/src/usage.rs\<close>, \<open>pricing.rs\<close>, \<open>cost.rs\<close>).
  \<^item> \<open>Budget_Core\<close>, \<open>Budget_Gateway\<close>, \<open>Budget_Admit\<close>, \<open>Budget_Charge\<close>: the handlers of the shared monthly
    budget (\<open>daemon/src/shared_budget.rs\<close>). A handler is a function from the daemon's state to a result and a
    state, because it commits several transactions and may fail between them.
  \<^item> \<open>Budget_Effects\<close>: what a handler does to the ledger, whatever it answers (interface \<open>store_relation\<close>).
    \<open>Gateway_World\<close>: the daemon under gateway enforcement as a machine over requests. \<open>Budget_Once\<close>: retries of
    a charge across months.
  \<^item> \<open>Budget_Settle\<close>, \<open>Budget_Subagent\<close>: the handlers that settle turns and charge subagents from their transcripts
    (same file). \<open>Turn_Settlement\<close>: a \<open>Stop\<close> and its replays. \<open>Subagent_Total\<close>: the cumulative charge of a subagent.
  \<^item> \<open>Transcript_Scan\<close>, \<open>Transcript_Pricing\<close>: the backward scan of a transcript and the priced windows read
    from it (\<open>daemon/src/usage.rs\<close>, \<open>daemon/src/usage/priced.rs\<close>).
  \<^item> \<open>Demo_Externals\<close>, \<open>Demo_Budget\<close>: concrete instances of the external crates, used by the witnesses only.

  \<^bold>\<open>What is shown.\<close> For the ledger: reservations alone never exceed a pool's capacity, along any interleaving
  of all methods; reachable stores satisfy the schema and read back; the life cycle of a row, through any run, and
  that nothing changes a released one; exact books of every method, idempotent replays, conservation under sweeps and pruning. For windows: blocking is the exact
  inequality, relief instants are honest, evidence is a set. For pacing: a start leaves no window blocking,
  work in flight settles what it reserved, the replay is ordered and complete. For the gateway: the worst
  case covers every settlement. For the daemon: the monthly cap is hard under gateway enforcement
  (the composition of pricing, handlers and ledger), a charge is booked once, a turn is
  settled once, a subagent is charged what its transcript costs, the scan sees every line once, and no
  message is priced in two windows.

  \<^bold>\<open>External code.\<close> Time formatting and parsing, UUIDs, JSON, hashing and the time-zone database belong to
  third-party crates: they are the fields of the records \<open>externals\<close>, \<open>calendar\<close> and \<open>Runtime\<close> and the
  arguments \<open>decode\<close> and \<open>parse\<close>, passed to the definitions that use them. What the code relies on, that
  what is printed parses back, is a named hypothesis of the theorems that need it. What a zone of the
  time-zone database keeps is stated clause by clause (\<open>civil_dates\<close>, \<open>local_hours\<close>, \<open>wall_order\<close>), each shown of a
  clock without and, where it holds, with daylight saving. Floating point is the
  record \<open>floats\<close> of its operations; the theorems on prices take it to be exact (\<open>rat_floats\<close>) and say so.
  Files are their bytes, the clock is a function of the consultation, concurrency between handlers is any
  interleaving of their calls (the daemon holds one lock on the ledger for a handler).

  \<^bold>\<open>Bounds.\<close> No definition takes fuel. The probe of the forecast and the ticks of the replay are bounded in
  the source and keep its bounds; the scan decreases its position, trimming its string. Counters of lines
  of a file are natural numbers; every amount keeps its width.

  \<^bold>\<open>Not modelled.\<close> Settlement of Codex turns from their rollout files and the status
  report of the daemon; the per-task ledger, the policy engine and the estimator, which compute with
  floating-point statistics; the server, proxy, protocol and command line, which are I/O around the modelled
  handlers.
\<close>

end
